(* ===== verification/Xv6_Prelude.thy ===== *)
theory Xv6_Prelude
  imports Main "HOL-Library.Word" "HOL-Library.While_Combinator"
begin

unbundle bit_operations_syntax

text \<open>
  The shared language of the development: the C integer types, the outcomes of a piece of
  kernel code, the sequencing, branching and looping constructs in which the component
  theories transcribe the C functions, and a weakest-precondition calculus over them.

  A kernel function is a function of two arguments: the environment and the state. The
  environment says what the rest of the system (other threads, devices and their interrupt
  handlers, the scheduler) does to the state while this thread has given up the processor;
  only \<open>swtchM\<close> applies it. A run ends in one of four ways, see \<open>outcome\<close>.
\<close>

section \<open>C integer types\<close>

type_synonym u8 = "8 word"
type_synonym u16 = "16 word"
type_synonym u32 = "32 word"
type_synonym u64 = "64 word"

section \<open>Outcomes and sequencing\<close>

text \<open>
  \<open>Done x s\<close>: the function returned \<open>x\<close> in state \<open>s\<close>.
  \<open>Panic m\<close>: it called \<open>panic(m)\<close>.
  \<open>Parked s\<close>: the thread gave up the processor in state \<open>s\<close> and was never resumed.
  \<open>Diverge\<close>: it runs forever.
\<close>

datatype ('s, 'a) outcome = Done 'a 's | Panic string | Parked 's | Diverge

type_synonym ('s, 'a) km = "('s \<Rightarrow> 's) \<Rightarrow> 's \<Rightarrow> ('s, 'a) outcome"

named_theorems wp_simps \<open>equations of the weakest-precondition calculus\<close>
named_theorems mem_simps \<open>reading a memory after a write\<close>
named_theorems run_simps \<open>equations that execute kernel code on a state\<close>

definition retM :: "'a \<Rightarrow> ('s, 'a) km" where
  "retM x = (\<lambda>env s. Done x s)"

definition bindM :: "('s, 'a) km \<Rightarrow> ('a \<Rightarrow> ('s, 'b) km) \<Rightarrow> ('s, 'b) km" where
  "bindM m f = (\<lambda>env s. case m env s of
       Done x t \<Rightarrow> f x env t
     | Panic e \<Rightarrow> Panic e
     | Parked t \<Rightarrow> Parked t
     | Diverge \<Rightarrow> Diverge)"

definition seqM :: "('s, 'a) km \<Rightarrow> ('s, 'b) km \<Rightarrow> ('s, 'b) km" where
  "seqM m n = bindM m (\<lambda>_. n)"

definition skipM :: "('s, unit) km" where
  "skipM = retM ()"

text \<open>A straight-line block of statements, in order.\<close>

fun doM :: "('s, unit) km list \<Rightarrow> ('s, unit) km" where
  "doM [] = skipM"
| "doM (m # ms) = seqM m (doM ms)"

declare doM.simps [simp del]

definition panicM :: "string \<Rightarrow> ('s, 'a) km" where
  "panicM e = (\<lambda>env s. Panic e)"

definition getM :: "('s \<Rightarrow> 'a) \<Rightarrow> ('s, 'a) km" where
  "getM f = (\<lambda>env s. Done (f s) s)"

definition modM :: "('s \<Rightarrow> 's) \<Rightarrow> ('s, unit) km" where
  "modM g = (\<lambda>env s. Done () (g s))"

definition whenM :: "bool \<Rightarrow> ('s, unit) km \<Rightarrow> ('s, unit) km" where
  "whenM b m = (if b then m else skipM)"

definition ifM :: "('s \<Rightarrow> bool) \<Rightarrow> ('s, 'a) km \<Rightarrow> ('s, 'a) km \<Rightarrow> ('s, 'a) km" where
  "ifM b m n = (\<lambda>env s. if b s then m env s else n env s)"

text \<open>\<open>if (cond) panic(msg);\<close>\<close>

definition panic_ifM :: "('s \<Rightarrow> bool) \<Rightarrow> string \<Rightarrow> ('s, unit) km" where
  "panic_ifM b e = ifM b (panicM e) skipM"

text \<open>
  The thread leaves the processor (\<open>swtch\<close> into the scheduler); it runs again only in a
  state in which the scheduler has made it the running thread, which \<open>resumed\<close> decides.
\<close>

definition swtchM :: "('s \<Rightarrow> bool) \<Rightarrow> ('s, unit) km" where
  "swtchM resumed = (\<lambda>env s. if resumed (env s) then Done () (env s) else Parked (env s))"

section \<open>Loops\<close>

text \<open>
  \<open>forM\<close> is a \<open>for\<close> loop over a known list of indices whose body may \<open>return\<close>
  (\<open>Some\<close>); \<open>eachM\<close> is the same loop with a body that always falls through; \<open>loopM\<close> is a
  loop with no bound known in advance: the body says whether to go round again (\<open>Inl\<close>, with
  the next loop variables) or to leave (\<open>Inr\<close>); going round forever is \<open>Diverge\<close>.
\<close>

fun forM :: "'i list \<Rightarrow> ('i \<Rightarrow> ('s, 'r option) km) \<Rightarrow> ('s, 'r option) km" where
  "forM [] f = retM None"
| "forM (i # is) f = bindM (f i) (\<lambda>r. case r of None \<Rightarrow> forM is f | Some x \<Rightarrow> retM (Some x))"

fun eachM :: "'i list \<Rightarrow> ('i \<Rightarrow> ('s, unit) km) \<Rightarrow> ('s, unit) km" where
  "eachM [] f = skipM"
| "eachM (i # is) f = seqM (f i) (eachM is f)"

definition loop_continues :: "('s, 'i + 'r) outcome \<Rightarrow> bool" where
  "loop_continues oc = (case oc of Done (Inl _) _ \<Rightarrow> True | _ \<Rightarrow> False)"

definition loop_step ::
    "('i \<Rightarrow> ('s, 'i + 'r) km) \<Rightarrow> ('s \<Rightarrow> 's) \<Rightarrow> ('s, 'i + 'r) outcome \<Rightarrow> ('s, 'i + 'r) outcome" where
  "loop_step body env oc = (case oc of Done (Inl i) s \<Rightarrow> body i env s | _ \<Rightarrow> oc)"

definition loop_exit :: "('s, 'i + 'r) outcome option \<Rightarrow> ('s, 'r) outcome" where
  "loop_exit r = (case r of
       Some (Done (Inr x) t) \<Rightarrow> Done x t
     | Some (Panic e) \<Rightarrow> Panic e
     | Some (Parked t) \<Rightarrow> Parked t
     | _ \<Rightarrow> Diverge)"

definition loopM :: "('i \<Rightarrow> ('s, 'i + 'r) km) \<Rightarrow> 'i \<Rightarrow> ('s, 'r) km" where
  "loopM body i = (\<lambda>env s.
     loop_exit (while_option loop_continues (loop_step body env) (Done (Inl i) s)))"

text \<open>\<open>while (cond) body\<close>\<close>

definition whileM :: "('s \<Rightarrow> bool) \<Rightarrow> ('s, unit) km \<Rightarrow> ('s, unit) km" where
  "whileM b body = loopM (\<lambda>_. ifM b (seqM body (retM (Inl ()))) (retM (Inr ()))) ()"

lemmas run_defs = retM_def bindM_def seqM_def skipM_def panicM_def getM_def modM_def
  whenM_def ifM_def panic_ifM_def swtchM_def doM.simps

lemma bindM_assoc: "bindM (bindM m f) g = bindM m (\<lambda>x. bindM (f x) g)"
  by (auto simp: bindM_def fun_eq_iff split: outcome.splits)

lemma bindM_ret [run_simps]: "bindM (retM x) f = f x"
  by (simp add: bindM_def retM_def)

lemma seqM_skip [run_simps]: "seqM skipM m = m"
  by (simp add: seqM_def skipM_def bindM_ret)

lemma seqM_Done: "m env s = Done x t \<Longrightarrow> seqM m n env s = n env t"
  by (simp add: seqM_def bindM_def)

lemma bindM_Done: "m env s = Done x t \<Longrightarrow> bindM m f env s = f x env t"
  by (simp add: bindM_def)

text \<open>Symbolic execution from the left: one equation per construct in head position.\<close>

lemma run_base [run_simps]:
  "retM x env s = Done x s" "skipM env s = Done () s" "panicM e env s = Panic e"
  "getM f env s = Done (f s) s" "modM g env s = Done () (g s)"
  "ifM b m n env s = (if b s then m env s else n env s)"
  "panic_ifM b e env s = (if b s then Panic e else Done () s)"
  "whenM c w env s = (if c then w env s else Done () s)"
  "swtchM r env s = (if r (env s) then Done () (env s) else Parked (env s))"
  "doM [] env s = Done () s" "doM (q # qs) env s = seqM q (doM qs) env s"
  by (simp_all add: run_defs)

lemma run_seq [run_simps]:
  "seqM (retM v) n env s = n env s" "seqM (getM h) n env s = n env s"
  "seqM (panicM e) n env s = Panic e" "seqM (modM u) n env s = n env (u s)"
  "seqM (ifM b m k) n env s = (if b s then seqM m n env s else seqM k n env s)"
  "seqM (if c then m else k) n env s = (if c then seqM m n env s else seqM k n env s)"
  "seqM (panic_ifM b e) n env s = (if b s then Panic e else n env s)"
  "seqM (whenM c w) n env s = (if c then seqM w n env s else n env s)"
  "seqM (swtchM r) n env s = (if r (env s) then n env (env s) else Parked (env s))"
  "seqM (doM []) n env s = n env s" "seqM (doM (q # qs)) n env s = seqM q (seqM (doM qs) n) env s"
  "seqM (seqM a d) n env s = seqM a (seqM d n) env s"
  "seqM (bindM a' f) n env s = bindM a' (\<lambda>x. seqM (f x) n) env s"
  by (simp_all add: run_defs split: outcome.splits)

lemma run_bind [run_simps]:
  "bindM (getM h) f env s = f (h s) env s" "bindM (panicM e) f env s = Panic e"
  "bindM (ifM b m k) f env s = (if b s then bindM m f env s else bindM k f env s)"
  "bindM (if c then m else k) f env s = (if c then bindM m f env s else bindM k f env s)"
  "bindM (seqM a' d) f env s = seqM a' (bindM d f) env s"
  "bindM (bindM a g) f env s = bindM a (\<lambda>x. bindM (g x) f) env s"
  by (simp_all add: run_defs split: outcome.splits)

lemma loopM_unfold:
  "loopM body i = bindM (body i) (\<lambda>r. case r of Inl j \<Rightarrow> loopM body j | Inr x \<Rightarrow> retM x)"
proof (intro ext)
  fix env s
  let ?w = "while_option loop_continues (loop_step body env)"
  have "?w (Done (Inl i) s) = ?w (body i env s)"
    by (subst while_option_unfold) (simp add: loop_continues_def loop_step_def)
  moreover have "?w oc = Some oc" if "\<not> loop_continues oc" for oc
    using that by (subst while_option_unfold) simp
  ultimately show "loopM body i env s =
      bindM (body i) (\<lambda>r. case r of Inl j \<Rightarrow> loopM body j | Inr x \<Rightarrow> retM x) env s"
    by (auto simp: loopM_def bindM_def retM_def loop_exit_def loop_continues_def
        split: outcome.splits sum.splits)
qed

lemma loopM_step:
  "body i env s = Done (Inl j) t \<Longrightarrow> loopM body i env s = loopM body j env t"
  "body i env s = Done (Inr x) t \<Longrightarrow> loopM body i env s = Done x t"
  by (subst loopM_unfold, simp add: bindM_def retM_def)+

lemma whileM_unfold: "whileM b body = ifM b (seqM body (whileM b body)) skipM"
proof (intro ext)
  fix env s
  show "whileM b body env s = ifM b (seqM body (whileM b body)) skipM env s"
    unfolding whileM_def
    by (subst loopM_unfold)
      (simp add: ifM_def seqM_def bindM_def retM_def skipM_def split: outcome.splits)
qed

lemma whileM_False: "\<not> b s \<Longrightarrow> whileM b body env s = Done () s"
  by (subst whileM_unfold) (simp add: run_defs)

lemma seqM_whileM:
  "\<not> b s \<Longrightarrow> seqM (whileM b body) n env s = n env s"
  "b s \<Longrightarrow> seqM (whileM b body) n env s = seqM body (seqM (whileM b body) n) env s"
  by (subst whileM_unfold, simp add: run_simps)+

section \<open>Weakest preconditions\<close>

text \<open>
  \<open>wp env m Q s\<close>: run from \<open>s\<close>, the code \<open>m\<close> returns (no panic, no divergence, not
  parked) and \<open>Q\<close> holds of the value and state it returns. Total correctness.
\<close>

definition wp :: "('s \<Rightarrow> 's) \<Rightarrow> ('s, 'a) km \<Rightarrow> ('a \<Rightarrow> 's \<Rightarrow> bool) \<Rightarrow> 's \<Rightarrow> bool" where
  "wp env m Q s = (case m env s of Done x t \<Rightarrow> Q x t | _ \<Rightarrow> False)"

lemma wp_iff: "wp env m Q s \<longleftrightarrow> (\<exists>x t. m env s = Done x t \<and> Q x t)"
  by (auto simp: wp_def split: outcome.splits)

lemma wp_ret [wp_simps]: "wp env (retM x) Q = Q x"
  by (simp add: wp_def retM_def fun_eq_iff)

lemma wp_skip [wp_simps]: "wp env skipM Q = Q ()"
  by (simp add: skipM_def wp_ret)

lemma wp_bind [wp_simps]: "wp env (bindM m f) Q = wp env m (\<lambda>x. wp env (f x) Q)"
  by (auto simp: wp_def bindM_def fun_eq_iff split: outcome.splits)

lemma wp_seq [wp_simps]: "wp env (seqM m n) Q = wp env m (\<lambda>_. wp env n Q)"
  by (simp add: seqM_def wp_bind)

lemma wp_panic [wp_simps]: "wp env (panicM e) Q s = False"
  by (simp add: wp_def panicM_def)

lemma wp_get [wp_simps]: "wp env (getM f) Q s = Q (f s) s"
  by (simp add: wp_def getM_def)

lemma wp_mod [wp_simps]: "wp env (modM g) Q s = Q () (g s)"
  by (simp add: wp_def modM_def)

lemma wp_when [wp_simps]: "wp env (whenM b m) Q s = (if b then wp env m Q s else Q () s)"
  by (simp add: whenM_def wp_skip)

lemma wp_ifM [wp_simps]: "wp env (ifM b m n) Q s = (if b s then wp env m Q s else wp env n Q s)"
  by (simp add: wp_def ifM_def)

lemma wp_if [wp_simps]:
  "wp env (if b then m else n) Q s = (if b then wp env m Q s else wp env n Q s)"
  by simp

lemma wp_panic_if [wp_simps]: "wp env (panic_ifM b e) Q s = (\<not> b s \<and> Q () s)"
  by (simp add: panic_ifM_def wp_ifM wp_panic wp_skip)

lemma wp_swtch [wp_simps]: "wp env (swtchM r) Q s = (r (env s) \<and> Q () (env s))"
  by (simp add: wp_def swtchM_def)

lemma wp_doM_Nil [wp_simps]: "wp env (doM []) Q = Q ()"
  by (simp add: wp_skip doM.simps)

lemma wp_doM_Cons [wp_simps]: "wp env (doM (m # ms)) Q = wp env m (\<lambda>_. wp env (doM ms) Q)"
  by (simp add: wp_seq doM.simps)

lemma wp_whileM_False: "\<not> b s \<Longrightarrow> wp env (whileM b body) Q s = Q () s"
  by (simp add: wp_def whileM_False)

lemma wp_conseq: "wp env m Q s \<Longrightarrow> (\<And>x t. Q x t \<Longrightarrow> R x t) \<Longrightarrow> wp env m R s"
  by (auto simp: wp_iff)

lemma wp_returns: "wp env m (\<lambda>x t. x = a \<and> t = b) s \<longleftrightarrow> m env s = Done a b"
  by (auto simp: wp_iff)

lemma wp_DoneI: "m env s = Done x t \<Longrightarrow> Q x t \<Longrightarrow> wp env m Q s"
  by (simp add: wp_iff)

text \<open>
  Total correctness of an unbounded loop: an invariant on loop variables and state, and a
  measure every iteration that goes round again decreases.
\<close>

lemma wp_loop:
  assumes init: "I i s"
    and step: "\<And>j t. I j t \<Longrightarrow> wp env (body j)
      (\<lambda>r u. case r of Inl k \<Rightarrow> I k u \<and> (\<mu> k u :: nat) < \<mu> j t | Inr x \<Rightarrow> Q x u) t"
  shows "wp env (loopM body i) Q s"
  using init
proof (induction "\<mu> i s" arbitrary: i s rule: less_induct)
  case less
  from step [OF less.prems] obtain r u where
    run: "body i env s = Done r u" and
    post: "case r of Inl k \<Rightarrow> I k u \<and> \<mu> k u < \<mu> i s | Inr x \<Rightarrow> Q x u"
    by (auto simp: wp_iff)
  show ?case
  proof (cases r)
    case (Inl k)
    with post have "wp env (loopM body k) Q u" by (auto intro: less.hyps)
    with run Inl show ?thesis
      by (subst loopM_unfold) (simp add: wp_def bindM_def)
  next
    case (Inr x)
    with run post show ?thesis
      by (subst loopM_unfold) (simp add: wp_def bindM_def retM_def)
  qed
qed

lemma wp_loop_unfold:
  "wp env (loopM body i) Q s =
     wp env (body i) (\<lambda>r. case r of Inl j \<Rightarrow> wp env (loopM body j) Q | Inr x \<Rightarrow> Q x) s"
proof -
  have "wp env (case r of Inl j \<Rightarrow> loopM body j | Inr x \<Rightarrow> retM x) Q =
      (case r of Inl j \<Rightarrow> wp env (loopM body j) Q | Inr x \<Rightarrow> Q x)" for r
    by (simp add: wp_ret split: sum.split)
  then show ?thesis by (subst loopM_unfold) (simp add: wp_bind)
qed

lemma wp_forM_fall:
  assumes "I 0 s"
    and "\<And>k t. k < length is \<Longrightarrow> I k t \<Longrightarrow>
      wp env (f (is ! k)) (\<lambda>r u. case r of None \<Rightarrow> I (Suc k) u | Some x \<Rightarrow> Q (Some x) u) t"
    and "\<And>t. I (length is) t \<Longrightarrow> Q None t"
  shows "wp env (forM is f) Q s"
  using assms
proof (induction "is" arbitrary: s I)
  case Nil
  then show ?case by (simp add: wp_ret)
next
  case (Cons i rest)
  have "wp env (f i) (\<lambda>r u. case r of None \<Rightarrow> I (Suc 0) u | Some x \<Rightarrow> Q (Some x) u) s"
    using Cons.prems(2) [of 0 s] Cons.prems(1) by simp
  then show ?case
  proof (simp add: wp_bind, elim wp_conseq)
    fix r u
    assume r: "case r of None \<Rightarrow> I (Suc 0) u | Some x \<Rightarrow> Q (Some x) u"
    show "wp env (case r of None \<Rightarrow> forM rest f | Some x \<Rightarrow> retM (Some x)) Q u"
    proof (cases r)
      case None
      with r have "I (Suc 0) u" by simp
      then have "wp env (forM rest f) Q u"
        using Cons.prems(2,3) by (intro Cons.IH [of "\<lambda>k. I (Suc k)"]) force+
      with None show ?thesis by simp
    next
      case (Some x)
      with r show ?thesis by (simp add: wp_ret)
    qed
  qed
qed

lemma wp_eachM:
  assumes "I 0 s"
    and "\<And>k t. k < length is \<Longrightarrow> I k t \<Longrightarrow> wp env (f (is ! k)) (\<lambda>_. I (Suc k)) t"
    and "\<And>t. I (length is) t \<Longrightarrow> Q () t"
  shows "wp env (eachM is f) Q s"
  using assms
proof (induction "is" arbitrary: s I)
  case Nil
  then show ?case by (simp add: wp_skip)
next
  case (Cons i rest)
  have "wp env (f i) (\<lambda>_. I (Suc 0)) s"
    using Cons.prems(2) [of 0 s] Cons.prems(1) by simp
  then show ?case
  proof (simp add: wp_seq, elim wp_conseq)
    fix x u
    assume "I (Suc 0) u"
    then show "wp env (eachM rest f) Q u"
      using Cons.prems(2,3) by (intro Cons.IH [of "\<lambda>k. I (Suc k)"]) force+
  qed
qed

lemma eachM_append: "eachM (xs @ ys) f = seqM (eachM xs f) (eachM ys f)"
  by (induction xs) (simp_all add: seqM_def skipM_def bindM_ret bindM_assoc)

text \<open>A \<open>for\<close> loop that leaves the state alone until the first index it is looking for.\<close>

lemma forM_find:
  assumes "\<And>i. i \<in> set is \<Longrightarrow> P i \<Longrightarrow> f i env s = Done (Some (r i)) (g i)"
    and "\<And>i. i \<in> set is \<Longrightarrow> \<not> P i \<Longrightarrow> f i env s = Done None s"
  shows "forM is f env s =
    (case find P is of None \<Rightarrow> Done None s | Some i \<Rightarrow> Done (Some (r i)) (g i))"
  using assms by (induction "is") (auto simp: bindM_def retM_def)

lemma find_upt_Some:
  "find P [0..<n] = Some i \<longleftrightarrow> i < n \<and> P i \<and> (\<forall>j<i. \<not> P j)"
  by (auto simp: find_Some_iff)

lemma find_upt_None: "find P [0..<n] = None \<longleftrightarrow> (\<forall>i<n. \<not> P i)"
  by (auto simp: find_None_iff)

end
