(* ===== verification/Riscv.thy ===== *)
theory Riscv
  imports Xv6_Prelude
begin

text \<open>
  The machine as the kernel's headers describe it: the constants of \<^verbatim>\<open>kernel/param.h\<close> and
  \<^verbatim>\<open>kernel/memlayout.h\<close>, the page and page-table macros of \<^verbatim>\<open>kernel/riscv.h\<close>, byte memory
  with little-endian loads and stores, and the arithmetic facts the page-table code relies on.
\<close>

section \<open>Constants\<close>

abbreviation (input) PGSIZE :: u64 where "PGSIZE \<equiv> 4096"
abbreviation (input) KERNBASE :: u64 where "KERNBASE \<equiv> 0x80000000"
abbreviation (input) PHYSTOP :: u64 where "PHYSTOP \<equiv> 0x88000000"
abbreviation (input) MAXVA :: u64 where "MAXVA \<equiv> 0x4000000000"
abbreviation (input) TRAMPOLINE :: u64 where "TRAMPOLINE \<equiv> MAXVA - PGSIZE"
abbreviation (input) TRAPFRAME :: u64 where "TRAPFRAME \<equiv> TRAMPOLINE - PGSIZE"
abbreviation (input) UART0 :: u64 where "UART0 \<equiv> 0x10000000"
abbreviation (input) VIRTIO0 :: u64 where "VIRTIO0 \<equiv> 0x10001000"
abbreviation (input) PLIC :: u64 where "PLIC \<equiv> 0x0c000000"

abbreviation (input) NPROC :: nat where "NPROC \<equiv> 64"
abbreviation (input) NOFILE :: nat where "NOFILE \<equiv> 16"
abbreviation (input) NFILE :: nat where "NFILE \<equiv> 100"
abbreviation (input) NINODE :: nat where "NINODE \<equiv> 50"
abbreviation (input) NDEV :: nat where "NDEV \<equiv> 10"
abbreviation (input) ROOTDEV :: u32 where "ROOTDEV \<equiv> 1"
abbreviation (input) MAXARG :: nat where "MAXARG \<equiv> 32"
abbreviation (input) MAXOPBLOCKS :: nat where "MAXOPBLOCKS \<equiv> 10"
abbreviation (input) LOGSIZE :: nat where "LOGSIZE \<equiv> 30"
abbreviation (input) NBUF :: nat where "NBUF \<equiv> 30"
abbreviation (input) FSSIZE :: nat where "FSSIZE \<equiv> 1000"
abbreviation (input) MAXPATH :: nat where "MAXPATH \<equiv> 128"

section \<open>Pages and page-table entries\<close>

definition PGROUNDUP :: "u64 \<Rightarrow> u64" where
  "PGROUNDUP sz = (sz + PGSIZE - 1) AND NOT (PGSIZE - 1)"

definition PGROUNDDOWN :: "u64 \<Rightarrow> u64" where
  "PGROUNDDOWN a = a AND NOT (PGSIZE - 1)"

abbreviation (input) PTE_V :: u64 where "PTE_V \<equiv> 1"
abbreviation (input) PTE_R :: u64 where "PTE_R \<equiv> 2"
abbreviation (input) PTE_W :: u64 where "PTE_W \<equiv> 4"
abbreviation (input) PTE_X :: u64 where "PTE_X \<equiv> 8"
abbreviation (input) PTE_U :: u64 where "PTE_U \<equiv> 16"

definition PA2PTE :: "u64 \<Rightarrow> u64" where
  "PA2PTE pa = push_bit 10 (drop_bit 12 pa)"

definition PTE2PA :: "u64 \<Rightarrow> u64" where
  "PTE2PA pte = push_bit 12 (drop_bit 10 pte)"

definition PTE_FLAGS :: "u64 \<Rightarrow> u64" where
  "PTE_FLAGS pte = pte AND 0x3FF"

definition PXSHIFT :: "nat \<Rightarrow> nat" where
  "PXSHIFT level = 12 + 9 * level"

definition PX :: "nat \<Rightarrow> u64 \<Rightarrow> u64" where
  "PX level va = drop_bit (PXSHIFT level) va AND 0x1FF"

text \<open>The kernel stack of process slot \<open>p\<close>, with a guard page below it.\<close>

definition KSTACK :: "nat \<Rightarrow> u64" where
  "KSTACK p = TRAMPOLINE - (of_nat p + 1) * 2 * PGSIZE"

lemma unat_u64: "unat (x :: u64) < 2 ^ 64"
proof -
  have "unat x < 2 ^ LENGTH(64)" by (rule unsigned_less)
  then show ?thesis by simp
qed

lemma and_not_low_bits: "(x :: u64) AND - 4096 = push_bit 12 (drop_bit 12 x)"
proof -
  have m: "(- 4096 :: u64) = NOT (mask 12)"
    by (simp add: mask_eq_exp_minus_1)
  show ?thesis
    unfolding m by (rule bit_eqI) (auto simp: bit_simps)
qed

lemma unat_take_bit_mod: "unat (take_bit n (x :: 'a::len word)) = unat x mod 2 ^ n"
  by (simp add: unsigned_take_bit_eq flip: take_bit_eq_mod)

lemma unat_drop_bit_div: "unat (drop_bit n (x :: 'a::len word)) = unat x div 2 ^ n"
  by (simp add: unat_drop_bit_eq flip: drop_bit_eq_div)

lemma take_bit_small:
  assumes "unat x < 2 ^ n"
  shows "take_bit n (x :: 'a::len word) = x"
  using assms by (simp add: word_unat_eq_iff unat_take_bit_mod)

lemma unat_drop_then_push:
  "unat (push_bit n (drop_bit n (x :: u64))) = unat x div 2 ^ n * 2 ^ n"
proof -
  have "push_bit n (drop_bit n x) = x - take_bit n x"
    by (metis add_diff_cancel_right' bits_ident)
  moreover have "take_bit n x \<le> x"
    by (simp add: word_le_nat_alt unat_take_bit_mod)
  ultimately show ?thesis
    by (simp add: unat_sub unat_take_bit_mod minus_mod_eq_div_mult)
qed

lemma unat_PGROUNDDOWN: "unat (PGROUNDDOWN a) = unat a div 4096 * 4096"
  using unat_drop_then_push [of 12 a] by (simp add: PGROUNDDOWN_def and_not_low_bits)

lemma PGROUNDUP_DOWN: "PGROUNDUP sz = PGROUNDDOWN (sz + 4095)"
  by (simp add: PGROUNDUP_def PGROUNDDOWN_def algebra_simps)

lemma unat_PGROUNDUP:
  assumes "unat sz + 4095 < 2 ^ 64"
  shows "unat (PGROUNDUP sz) = (unat sz + 4095) div 4096 * 4096"
proof -
  have "unat (sz + 4095) = unat sz + 4095"
    using assms by (simp add: unat_word_ariths)
  then show ?thesis by (simp add: PGROUNDUP_DOWN unat_PGROUNDDOWN)
qed

lemma PGROUNDDOWN_le: "PGROUNDDOWN a \<le> a"
  by (simp add: word_le_nat_alt unat_PGROUNDDOWN)

lemma PGROUNDDOWN_aligned: "PGROUNDDOWN a mod PGSIZE = 0"
proof -
  have "unat (PGROUNDDOWN a mod 4096) = 0"
    by (simp only: unat_mod unat_PGROUNDDOWN) simp
  then show ?thesis by (simp add: unat_eq_zero)
qed

lemma PGROUNDDOWN_offset: "unat (a - PGROUNDDOWN a) = unat a mod 4096"
  using PGROUNDDOWN_le [of a] by (simp add: unat_sub unat_PGROUNDDOWN minus_div_mult_eq_mod)

lemma PGROUNDDOWN_id: "unat a mod 4096 = 0 \<Longrightarrow> PGROUNDDOWN a = a"
  by (metis unat_PGROUNDDOWN div_mult_mod_eq add.right_neutral word_unat_eq_iff)

lemma PGROUNDUP_id:
  assumes "unat a mod 4096 = 0" "unat a + 4095 < 2 ^ 64"
  shows "PGROUNDUP a = a"
proof -
  have "(unat a + 4095) div 4096 * 4096 = unat a" 
  proof -
    obtain k where "unat a = 4096 * k" using assms(1) by auto
    then show ?thesis by simp
  qed
  then show ?thesis using unat_PGROUNDUP [OF assms(2)] by (simp add: word_unat_eq_iff)
qed

subsection \<open>Round trips of the page-table macros\<close>

lemma PTE2PA_PA2PTE_flags:
  assumes "unat pa mod 4096 = 0" "pa < 2 ^ 56" "fl < 2 ^ 10"
  shows "PTE2PA (PA2PTE pa OR fl) = pa"
proof (rule bit_eqI)
  fix n
  have low: "\<not> bit pa m" if "m < 12" for m
  proof -
    have "take_bit 12 pa = 0"
      using assms(1) by (simp add: unat_eq_zero [symmetric] unat_take_bit_mod)
    then show ?thesis using that by (metis bit_0 bit_take_bit_iff bit_0_eq bot_apply bot_bool_def)
  qed
  have high: "\<not> bit pa m" if "m \<ge> 56" for m
  proof -
    have "take_bit 56 pa = pa" using assms(2) by (intro take_bit_small) (simp add: word_less_nat_alt)
    then show ?thesis using that by (metis bit_take_bit_iff not_le)
  qed
  have flag: "\<not> bit fl m" if "m \<ge> 10" for m
  proof -
    have "take_bit 10 fl = fl" using assms(3) by (intro take_bit_small) (simp add: word_less_nat_alt)
    then show ?thesis using that by (metis bit_take_bit_iff not_le)
  qed
  show "bit (PTE2PA (PA2PTE pa OR fl)) n = bit pa n"
    using low [of n] high [of n] flag [of "n - 2"]
    by (cases "n < 12"; cases "n < 56") (auto simp: PTE2PA_def PA2PTE_def bit_simps)
qed

lemma PTE_FLAGS_PA2PTE:
  assumes "fl < 2 ^ 10"
  shows "PTE_FLAGS (PA2PTE pa OR fl) = fl"
proof (rule bit_eqI)
  fix n
  have m: "(0x3FF :: u64) = mask 10" by (simp add: mask_eq_exp_minus_1)
  have "take_bit 10 fl = fl" using assms by (intro take_bit_small) (simp add: word_less_nat_alt)
  then have "bit fl n \<Longrightarrow> n < 10" by (metis bit_take_bit_iff)
  then show "bit (PTE_FLAGS (PA2PTE pa OR fl)) n = bit fl n"
    unfolding PTE_FLAGS_def PA2PTE_def m by (auto simp: bit_simps)
qed

lemma PX_bound: "unat (PX level va) < 512"
proof -
  have m: "(0x1FF :: u64) = mask 9" by (simp add: mask_eq_exp_minus_1)
  have "PX level va = take_bit 9 (drop_bit (PXSHIFT level) va)"
    by (simp add: PX_def m take_bit_eq_mask)
  then show ?thesis by (simp add: unat_take_bit_mod)
qed

lemma unat_PX: "unat (PX level va) = unat va div 2 ^ PXSHIFT level mod 512"
proof -
  have m: "(0x1FF :: u64) = mask 9" by (simp add: mask_eq_exp_minus_1)
  have "PX level va = take_bit 9 (drop_bit (PXSHIFT level) va)"
    by (simp add: PX_def m take_bit_eq_mask)
  then show ?thesis by (simp only: unat_take_bit_mod unat_drop_bit_div) simp
qed

text \<open>The three indices and the page offset determine an address below \<open>MAXVA\<close>.\<close>

lemma split_39_bits:
  fixes v :: nat
  shows "v = v div 2 ^ 30 * 2 ^ 30 + (v div 2 ^ 21 mod 512) * 2 ^ 21
    + (v div 2 ^ 12 mod 512) * 2 ^ 12 + v mod 4096"
proof -
  have sum: "v = (v div 2 ^ 30 * 512 + q) * 2 ^ 21 + p * 2 ^ 12 + r"
    if "v = a * 4096 + r" "a = b * 512 + p" "b = v div 2 ^ 30 * 512 + q" for a b p q r
    using that by (simp add: algebra_simps)
  have "v div 2 ^ 21 = v div 2 ^ 30 * 512 + v div 2 ^ 21 mod 512"
    using div_mult_mod_eq [of "v div 2 ^ 21" 512] by (simp add: div_mult2_eq [symmetric])
  moreover have "v div 4096 = v div 2 ^ 21 * 512 + v div 4096 mod 512"
    using div_mult_mod_eq [of "v div 4096" 512] by (simp add: div_mult2_eq [symmetric])
  moreover have "v = v div 4096 * 4096 + v mod 4096"
    by simp
  ultimately have "v = (v div 2 ^ 30 * 512 + v div 2 ^ 21 mod 512) * 2 ^ 21
      + v div 4096 mod 512 * 2 ^ 12 + v mod 4096"
    using sum by blast
  then show ?thesis by (simp add: add_mult_distrib)
qed

lemma PX_decompose:
  assumes "va < MAXVA"
  shows "unat va = unat (PX 2 va) * 2 ^ 30 + unat (PX 1 va) * 2 ^ 21 + unat (PX 0 va) * 2 ^ 12
    + unat va mod 4096"
proof -
  have "unat va < 2 ^ 38" using assms by (simp add: word_less_nat_alt)
  then have "unat va div 2 ^ 30 mod 512 = unat va div 2 ^ 30" by simp
  then show ?thesis using split_39_bits [of "unat va"] by (simp add: unat_PX PXSHIFT_def)
qed

lemma PX_inj:
  assumes "va < MAXVA" "vb < MAXVA"
    and "PX 2 va = PX 2 vb" "PX 1 va = PX 1 vb" "PX 0 va = PX 0 vb"
  shows "PGROUNDDOWN va = PGROUNDDOWN vb"
proof -
  have div: "v div 4096 = w" if "v = w * 4096 + v mod 4096" for v w :: nat
    using that by simp
  let ?w = "\<lambda>v. unat (PX 2 v) * 2 ^ 18 + unat (PX 1 v) * 2 ^ 9 + unat (PX 0 v)"
  have "unat va div 4096 = ?w va" using PX_decompose [OF assms(1)] by (intro div) simp
  moreover have "unat vb div 4096 = ?w vb" using PX_decompose [OF assms(2)] by (intro div) simp
  ultimately show ?thesis by (simp add: unat_PGROUNDDOWN word_unat_eq_iff assms(3-5) del: One_nat_def)
qed

end
