(* ===== verification/Cstring.thy ===== *)
theory Cstring
  imports Riscv
begin

text \<open>
  Byte memory and \<^verbatim>\<open>kernel/string.c\<close>. Memory is a total map from 64-bit addresses to
  bytes, with little-endian loads and stores. The block functions \<open>memset\<close>, \<open>memmove\<close> are
  transcribed loop for loop over such a memory, and shown equal to their closed forms. The
  functions over \<open>char*\<close> strings take the bytes from the pointer to the end of the object it
  points into; \<open>None\<close> means that the C code would read past the end of that object.
\<close>

type_synonym memory = "u64 \<Rightarrow> u8"

section \<open>Little-endian encoding\<close>

definition le_bytes :: "nat \<Rightarrow> 'a::len word \<Rightarrow> u8 list" where
  "le_bytes n w = map (\<lambda>i. ucast (drop_bit (8 * i) w)) [0..<n]"

definition of_le :: "u8 list \<Rightarrow> 'a::len word" where
  "of_le bs = foldr (\<lambda>b acc. ucast b OR push_bit 8 acc) bs 0"

lemma length_le_bytes [simp]: "length (le_bytes n w) = n"
  by (simp add: le_bytes_def)

lemma bit_of_le:
  "bit (of_le bs :: 'a::len word) k \<longleftrightarrow>
     k < LENGTH('a) \<and> k div 8 < length bs \<and> bit (bs ! (k div 8)) (k mod 8)"
proof (induction bs arbitrary: k)
  case Nil
  then show ?case by (simp add: of_le_def)
next
  case (Cons b bs)
  have rec: "(of_le (b # bs) :: 'a word) = ucast b OR push_bit 8 (of_le bs)"
    by (simp add: of_le_def)
  show ?case
  proof (cases "k < 8")
    case True
    then show ?thesis unfolding rec by (auto simp: bit_simps)
  next
    case False
    then have "k div 8 = Suc ((k - 8) div 8)" "k mod 8 = (k - 8) mod 8"
      by (simp_all add: le_div_geq le_mod_geq)
    with False Cons [of "k - 8"] show ?thesis unfolding rec
      by (auto simp: bit_simps dest: bit_imp_le_length)
  qed
qed

lemma of_le_le_bytes:
  assumes "LENGTH('a::len) \<le> 8 * n"
  shows "of_le (le_bytes n (w :: 'a word)) = w"
proof (rule bit_eqI)
  fix k
  assume "possible_bit TYPE('a word) k"
  then have "k < LENGTH('a)" by simp
  then show "bit (of_le (le_bytes n w) :: 'a word) k = bit w k"
    using assms by (auto simp: bit_of_le le_bytes_def bit_simps less_mult_imp_div_less)
qed

lemma le_bytes_of_le:
  assumes "LENGTH('a::len) = 8 * n" "length bs = n"
  shows "le_bytes n (of_le bs :: 'a word) = bs"
proof (rule nth_equalityI)
  show "length (le_bytes n (of_le bs :: 'a word)) = length bs" using assms by simp
  fix i
  assume "i < length (le_bytes n (of_le bs :: 'a word))"
  then have i: "i < n" by simp
  show "le_bytes n (of_le bs :: 'a word) ! i = bs ! i"
  proof (rule bit_eqI)
    fix k
    assume "possible_bit TYPE(8 word) k"
    then have k: "k < 8" by simp
    then have "8 * i + k < 8 * n" using i by linarith
    with i k assms show "bit (le_bytes n (of_le bs :: 'a word) ! i) k = bit (bs ! i) k"
      by (auto simp: le_bytes_def bit_simps bit_of_le)
  qed
qed

definition load_bytes :: "memory \<Rightarrow> u64 \<Rightarrow> nat \<Rightarrow> u8 list" where
  "load_bytes m a n = map (\<lambda>i. m (a + of_nat i)) [0..<n]"

definition store_bytes :: "memory \<Rightarrow> u64 \<Rightarrow> u8 list \<Rightarrow> memory" where
  "store_bytes m a bs = (\<lambda>x. if unat (x - a) < length bs then bs ! unat (x - a) else m x)"

definition load64 :: "memory \<Rightarrow> u64 \<Rightarrow> u64" where
  "load64 m a = of_le (load_bytes m a 8)"

definition store64 :: "memory \<Rightarrow> u64 \<Rightarrow> u64 \<Rightarrow> memory" where
  "store64 m a w = store_bytes m a (le_bytes 8 w)"

lemma length_load_bytes [simp]: "length (load_bytes m a n) = n"
  by (simp add: load_bytes_def)

lemma load_store_same [mem_simps]:
  "length bs = n \<Longrightarrow> n < 2 ^ 64 \<Longrightarrow> load_bytes (store_bytes m a bs) a n = bs"
  by (auto simp: load_bytes_def store_bytes_def unat_of_nat intro!: nth_equalityI)

text \<open>Two byte ranges that do not meet, by offsets that wrap as the machine's do.\<close>

definition disjoint_range :: "u64 \<Rightarrow> nat \<Rightarrow> u64 \<Rightarrow> nat \<Rightarrow> bool" where
  "disjoint_range a n b k \<longleftrightarrow> (\<forall>i<n. \<forall>j<k. a + of_nat i \<noteq> b + of_nat j)"

lemma unat_diff_lt_iff:
  assumes "n \<le> 2 ^ 64"
  shows "unat (x - a) < n \<longleftrightarrow> (\<exists>i<n. (x :: u64) = a + of_nat i)"
proof
  assume "unat (x - a) < n"
  moreover have "x = a + of_nat (unat (x - a))" by simp
  ultimately show "\<exists>i<n. x = a + of_nat i" by blast
next
  assume "\<exists>i<n. x = a + of_nat i"
  then obtain i where "i < n" "x = a + of_nat i" by blast
  with assms show "unat (x - a) < n"
    by (simp add: unat_of_nat take_bit_nat_eq_self_iff less_le_trans)
qed

lemma load_store_other [mem_simps]:
  assumes "disjoint_range a n b (length bs)" "length bs \<le> 2 ^ 64"
  shows "load_bytes (store_bytes m b bs) a n = load_bytes m a n"
  using assms
  by (auto simp: load_bytes_def store_bytes_def unat_diff_lt_iff disjoint_range_def)

lemma load64_store64_same [mem_simps]: "load64 (store64 m a w) a = w"
  by (simp add: load64_def store64_def load_store_same of_le_le_bytes)

lemma load64_store64_other [mem_simps]:
  "disjoint_range a 8 b 8 \<Longrightarrow> load64 (store64 m b w) a = load64 m a"
  by (simp add: load64_def store64_def load_store_other)

text \<open>A 32- or 16-bit field at a byte offset of a block or page held as a list.\<close>

definition get32 :: "u8 list \<Rightarrow> nat \<Rightarrow> u32" where
  "get32 bs off = of_le (take 4 (drop off bs))"

definition put32 :: "u8 list \<Rightarrow> nat \<Rightarrow> u32 \<Rightarrow> u8 list" where
  "put32 bs off w = take off bs @ le_bytes 4 w @ drop (off + 4) bs"

definition get16 :: "u8 list \<Rightarrow> nat \<Rightarrow> u16" where
  "get16 bs off = of_le (take 2 (drop off bs))"

definition put16 :: "u8 list \<Rightarrow> nat \<Rightarrow> u16 \<Rightarrow> u8 list" where
  "put16 bs off w = take off bs @ le_bytes 2 w @ drop (off + 2) bs"

text \<open>Overwriting part of a byte list in place.\<close>

definition splice :: "u8 list \<Rightarrow> nat \<Rightarrow> u8 list \<Rightarrow> u8 list" where
  "splice bs off xs = take off bs @ xs @ drop (off + length xs) bs"

lemma length_splice [simp]: "off + length xs \<le> length bs \<Longrightarrow> length (splice bs off xs) = length bs"
  by (simp add: splice_def)

lemma field_splice_same:
  "off + length xs \<le> length bs \<Longrightarrow> take (length xs) (drop off (splice bs off xs)) = xs"
  by (simp add: splice_def)

lemma field_splice_other:
  assumes "off + n \<le> at \<or> at + length xs \<le> off" "at + length xs \<le> length bs"
  shows "take n (drop off (splice bs at xs)) = take n (drop off bs)"
  using assms
proof (elim disjE)
  assume l: "off + n \<le> at"
  then show ?thesis using assms(2)
    by (intro nth_equalityI) (auto simp: splice_def nth_append)
next
  assume "at + length xs \<le> off"
  then show ?thesis using assms(2)
    by (simp add: splice_def min_def)
qed

lemma put_splice:
  "put32 bs off w = splice bs off (le_bytes 4 w)" "put16 bs off v = splice bs off (le_bytes 2 v)"
  by (simp_all add: put32_def put16_def splice_def)

lemma get32_put32 [mem_simps]:
  "off + 4 \<le> length bs \<Longrightarrow> get32 (put32 bs off w) off = w"
  using field_splice_same [of off "le_bytes 4 w" bs] by (simp add: get32_def put_splice of_le_le_bytes)

lemma get16_put16 [mem_simps]:
  "off + 2 \<le> length bs \<Longrightarrow> get16 (put16 bs off w) off = w"
  using field_splice_same [of off "le_bytes 2 w" bs] by (simp add: get16_def put_splice of_le_le_bytes)

lemma get_put_other [mem_simps]:
  "off + 4 \<le> k \<or> k + 4 \<le> off \<Longrightarrow> k + 4 \<le> length bs \<Longrightarrow> get32 (put32 bs k w) off = get32 bs off"
  "off + 4 \<le> k \<or> k + 2 \<le> off \<Longrightarrow> k + 2 \<le> length bs \<Longrightarrow> get32 (put16 bs k v) off = get32 bs off"
  "off + 2 \<le> k \<or> k + 4 \<le> off \<Longrightarrow> k + 4 \<le> length bs \<Longrightarrow> get16 (put32 bs k w) off = get16 bs off"
  "off + 2 \<le> k \<or> k + 2 \<le> off \<Longrightarrow> k + 2 \<le> length bs \<Longrightarrow> get16 (put16 bs k v) off = get16 bs off"
  by (simp_all add: get32_def get16_def put_splice field_splice_other)

lemma length_put [simp]:
  "off + 4 \<le> length bs \<Longrightarrow> length (put32 bs off w) = length bs"
  "off + 2 \<le> length bs \<Longrightarrow> length (put16 bs off v) = length bs"
  by (simp_all add: put_splice)

section \<open>memset, memmove\<close>

definition memset :: "memory \<Rightarrow> u64 \<Rightarrow> u8 \<Rightarrow> nat \<Rightarrow> memory" where
  "memset m dst c n = fold (\<lambda>i m'. m'(dst + of_nat i := c)) [0..<n] m"

fun copy_forward :: "memory \<Rightarrow> u64 \<Rightarrow> u64 \<Rightarrow> nat \<Rightarrow> memory" where
  "copy_forward m d s 0 = m"
| "copy_forward m d s (Suc n) = copy_forward (m(d := m s)) (d + 1) (s + 1) n"

fun copy_backward :: "memory \<Rightarrow> u64 \<Rightarrow> u64 \<Rightarrow> nat \<Rightarrow> memory" where
  "copy_backward m d s 0 = m"
| "copy_backward m d s (Suc n) = copy_backward (m(d - 1 := m (s - 1))) (d - 1) (s - 1) n"

definition memmove :: "memory \<Rightarrow> u64 \<Rightarrow> u64 \<Rightarrow> nat \<Rightarrow> memory" where
  "memmove m dst src n =
     (if n = 0 then m
      else if src < dst \<and> src + of_nat n > dst
      then copy_backward m (dst + of_nat n) (src + of_nat n) n
      else copy_forward m dst src n)"

lemma memset_apply:
  assumes "n \<le> 2 ^ 64"
  shows "memset m dst c n x = (if unat (x - dst) < n then c else m x)"
  using assms
proof (induction n)
  case 0
  then show ?case by (simp add: memset_def)
next
  case (Suc n)
  have step: "memset m dst c (Suc n) = (memset m dst c n)(dst + of_nat n := c)"
    by (simp add: memset_def)
  have n: "n < 2 ^ 64" using Suc.prems by simp
  have eq: "x = dst + of_nat n \<longleftrightarrow> unat (x - dst) = n"
  proof
    assume "x = dst + of_nat n"
    then show "unat (x - dst) = n" using n by (simp add: unat_of_nat take_bit_nat_eq_self_iff)
  next
    assume "unat (x - dst) = n"
    then have "of_nat n = (of_nat (unat (x - dst)) :: u64)" by simp
    then show "x = dst + of_nat n" by simp
  qed
  show ?case
    using Suc.IH n by (auto simp: step fun_upd_apply eq less_Suc_eq)
qed


lemma memset_load64:
  assumes "disjoint_range a 8 dst n" "n \<le> 2 ^ 64"
  shows "load64 (memset m dst c n) a = load64 m a"
  using assms
  by (auto simp: load64_def load_bytes_def memset_apply unat_diff_lt_iff disjoint_range_def
      intro!: arg_cong [where f = of_le])

lemma unat_add_small:
  "unat (a :: u64) + n < 2 ^ 64 \<Longrightarrow> unat (a + of_nat n) = unat a + n"
  by (simp add: unat_word_ariths unat_of_nat take_bit_nat_eq_self_iff)

lemma copy_forward_apply:
  assumes "unat d + n < 2 ^ 64" "unat s + n < 2 ^ 64" "unat d \<le> unat s \<or> unat s + n \<le> unat d"
  shows "copy_forward m d s n x = (if unat (x - d) < n then m (s + (x - d)) else m x)"
  using assms
proof (induction n arbitrary: m d s)
  case 0
  then show ?case by simp
next
  case (Suc n)
  have d1: "unat (d + 1) = unat d + 1" and s1: "unat (s + 1) = unat s + 1"
    using Suc.prems unat_add_small [of d 1] unat_add_small [of s 1] by simp_all
  have IH: "copy_forward (m(d := m s)) (d + 1) (s + 1) n x =
      (if unat (x - (d + 1)) < n then (m(d := m s)) (s + 1 + (x - (d + 1))) else (m(d := m s)) x)"
    using Suc.prems by (intro Suc.IH) (auto simp: d1 s1)
  show ?case
  proof (cases "x = d")
    case True
    have "unat (- 1 :: u64) = 2 ^ 64 - 1" by (simp add: unsigned_minus_1_eq_mask mask_eq_exp_minus_1)
    then have "\<not> unat (d - (d + 1)) < n" using Suc.prems by simp
    with True show ?thesis unfolding copy_forward.simps IH by simp
  next
    case False
    then have "x - d \<noteq> 0" by simp
    then have j: "unat (x - (d + 1)) = unat (x - d) - 1" "unat (x - d) \<noteq> 0"
      using unat_minus_one [of "x - d"] by (simp_all add: algebra_simps unat_eq_zero)
    have "s + (x - d) \<noteq> d" if "unat (x - d) < Suc n"
    proof -
      have "unat (s + (x - d)) = unat s + unat (x - d)"
        using Suc.prems that unat_add_small [of s "unat (x - d)"] by simp
      then have "unat (s + (x - d)) \<noteq> unat d" using Suc.prems(3) that j(2) by linarith
      then show ?thesis by metis
    qed
    with False j show ?thesis
      unfolding copy_forward.simps IH by (auto simp: algebra_simps)
  qed
qed

lemma copy_backward_apply:
  assumes "n \<le> unat s" "unat s \<le> unat d"
  shows "copy_backward m d s n x =
    (if unat (x - (d - of_nat n)) < n then m (s - of_nat n + (x - (d - of_nat n))) else m x)"
  using assms
proof (induction n arbitrary: m d s)
  case 0
  then show ?case by simp
next
  case (Suc n)
  have d1: "unat (d - 1) = unat d - 1" and s1: "unat (s - 1) = unat s - 1"
  proof -
    have "d \<noteq> 0" "s \<noteq> 0" using Suc.prems by auto
    then show "unat (d - 1) = unat d - 1" "unat (s - 1) = unat s - 1"
      by (simp_all add: unat_minus_one)
  qed
  let ?b = "d - of_nat (Suc n)" and ?m = "m(d - 1 := m (s - 1))"
  have base: "d - 1 - of_nat n = ?b" "s - 1 - of_nat n = s - of_nat (Suc n)"
    by (simp_all add: algebra_simps)
  have IH: "copy_backward ?m (d - 1) (s - 1) n x =
      (if unat (x - ?b) < n then ?m (s - of_nat (Suc n) + (x - ?b)) else ?m x)"
    using Suc.prems Suc.IH [of "s - 1" "d - 1" ?m] by (simp only: d1 s1 base)
  have n64: "n < 2 ^ 64" using Suc.prems unat_u64 [of s] by simp
  have top: "x = d - 1 \<longleftrightarrow> unat (x - ?b) = n"
  proof
    assume "x = d - 1"
    then have "x - ?b = of_nat n" by (simp add: algebra_simps)
    then show "unat (x - ?b) = n"
      using n64 by (simp only: unat_of_nat) simp
  next
    assume "unat (x - ?b) = n"
    then have "of_nat (unat (x - ?b)) = (of_nat n :: u64)" by simp
    then show "x = d - 1" by (simp add: algebra_simps)
  qed
  have low: "s - of_nat (Suc n) + (x - ?b) \<noteq> d - 1" if "unat (x - ?b) < n"
  proof -
    have "unat (s - of_nat (Suc n)) = unat s - Suc n"
    proof -
      have "unat (of_nat (Suc n) :: u64) = Suc n"
        using Suc.prems unat_u64 [of s] by (simp add: unat_of_nat take_bit_nat_eq_self_iff del: of_nat_Suc)
      then show ?thesis using Suc.prems by (simp add: unat_sub word_le_nat_alt del: of_nat_Suc)
    qed
    then have "unat (s - of_nat (Suc n) + (x - ?b)) = unat s - Suc n + unat (x - ?b)"
      using that Suc.prems unat_u64 [of s] unat_add_small [of "s - of_nat (Suc n)" "unat (x - ?b)"]
      by (simp del: of_nat_Suc)
    then have "unat (s - of_nat (Suc n) + (x - ?b)) < unat (d - 1)"
      using that Suc.prems d1 by linarith
    then show ?thesis by (metis less_irrefl)
  qed
  have "s - of_nat (Suc n) + (x - ?b) = s - 1" if "x = d - 1"
    using that by (simp add: algebra_simps)
  then show ?case
    unfolding copy_backward.simps IH using top low by (auto simp: less_Suc_eq simp del: of_nat_Suc)
qed

text \<open>
  \<open>memmove\<close> copies the old contents of the source range, also where the ranges overlap.
\<close>

lemma memmove_apply:
  assumes "unat dst + n < 2 ^ 64" "unat src + n < 2 ^ 64"
  shows "memmove m dst src n x = (if unat (x - dst) < n then m (src + (x - dst)) else m x)"
proof (cases "src < dst \<and> src + of_nat n > dst")
  case True
  have "unat (src + of_nat n) = unat src + n" by (rule unat_add_small [OF assms(2)])
  with True have "unat src < unat dst" "unat dst < unat src + n"
    by (simp_all add: word_less_nat_alt)
  with True assms show ?thesis
    by (simp add: memmove_def copy_backward_apply unat_add_small)
next
  case False
  have "unat (src + of_nat n) = unat src + n" by (rule unat_add_small [OF assms(2)])
  with False have "unat dst \<le> unat src \<or> unat src + n \<le> unat dst"
    by (auto simp: word_less_nat_alt)
  with False assms show ?thesis
    by (auto simp: memmove_def copy_forward_apply)
qed

section \<open>Comparison and strings\<close>

fun memcmp :: "u8 list \<Rightarrow> u8 list \<Rightarrow> nat \<Rightarrow> int option" where
  "memcmp s1 s2 0 = Some 0"
| "memcmp (a # s1) (b # s2) (Suc n) = (if a \<noteq> b then Some (uint a - uint b) else memcmp s1 s2 n)"
| "memcmp _ _ (Suc n) = None"

fun strncmp :: "u8 list \<Rightarrow> u8 list \<Rightarrow> nat \<Rightarrow> int option" where
  "strncmp p q 0 = Some 0"
| "strncmp (a # p) (b # q) (Suc n) =
     (if a \<noteq> 0 \<and> a = b then strncmp p q n else Some (uint a - uint b))"
| "strncmp _ _ (Suc n) = None"

text \<open>The \<open>n\<close> bytes \<open>strncpy(s, t, n)\<close> writes at \<open>s\<close>.\<close>

fun strncpy :: "u8 list \<Rightarrow> nat \<Rightarrow> u8 list option" where
  "strncpy t 0 = Some []"
| "strncpy [] (Suc n) = None"
| "strncpy (b # t) (Suc n) =
     (if b = 0 then Some (0 # replicate n 0) else map_option ((#) b) (strncpy t n))"

text \<open>
  The bytes \<open>safestrcpy(s, t, n)\<close> writes at \<open>s\<close>: the copied characters (with their NUL, if
  the source ended in time) and one further NUL.
\<close>

fun safestrcpy :: "u8 list \<Rightarrow> nat \<Rightarrow> u8 list option" where
  "safestrcpy t 0 = Some []"
| "safestrcpy t (Suc 0) = Some [0]"
| "safestrcpy [] (Suc (Suc n)) = None"
| "safestrcpy (b # t) (Suc (Suc n)) =
     (if b = 0 then Some [0, 0] else map_option ((#) b) (safestrcpy t (Suc n)))"

fun strlen :: "u8 list \<Rightarrow> nat option" where
  "strlen [] = None"
| "strlen (b # s) = (if b = 0 then Some 0 else map_option Suc (strlen s))"

text \<open>The bytes of a string literal, without its terminator.\<close>

definition ascii :: "string \<Rightarrow> u8 list" where
  "ascii s = map of_char s"

text \<open>The string a C object holds: its bytes before the first NUL.\<close>

definition cstr :: "u8 list \<Rightarrow> u8 list" where
  "cstr s = takeWhile (\<lambda>b. b \<noteq> 0) s"

lemma strlen_cstr: "strlen s = (if 0 \<in> set s then Some (length (cstr s)) else None)"
  by (induction s) (auto simp: cstr_def)

lemma strncmp_eq_iff:
  "n \<le> length p \<Longrightarrow> n \<le> length q \<Longrightarrow>
    strncmp p q n = Some 0 \<longleftrightarrow> cstr (take n p) = cstr (take n q)"
proof (induction p q n rule: strncmp.induct)
  case (2 a p b q n)
  then show ?case by (auto simp: cstr_def word_uint_eq_iff)
qed (auto simp: cstr_def)

lemma strncpy_spec:
  assumes "n \<le> length t \<or> 0 \<in> set t"
  shows "strncpy t n = Some (take n (cstr t @ replicate n 0))"
  using assms
proof (induction t n rule: strncpy.induct)
  case (3 b t n)
  show ?case
  proof (cases "b = 0")
    case False
    with 3 have "strncpy t n = Some (take n (cstr t @ replicate n 0))" by auto
    moreover have "take n (cstr t @ replicate (Suc n) 0) = take n (cstr t @ replicate n (0::u8))"
      by (simp add: take_Cons' flip: replicate_append_same)
    ultimately show ?thesis using False by (simp add: cstr_def)
  qed (simp add: cstr_def)
qed (auto simp: cstr_def)

lemma safestrcpy_spec:
  assumes "0 < n" "n \<le> length t \<or> 0 \<in> set t"
  shows "\<exists>w. safestrcpy t n = Some w \<and> length w \<le> n \<and> cstr w = take (n - 1) (cstr t) \<and> 0 \<in> set w"
  using assms
proof (induction t n rule: safestrcpy.induct)
  case (4 b t n)
  then show ?case
    by (cases "b = 0") (auto simp: cstr_def split: if_splits)
qed (auto simp: cstr_def)

end
