(* ===== verification/Spinlock.thy ===== *)
theory Spinlock
  imports Xv6_Prelude
begin

text \<open>
  \<^verbatim>\<open>kernel/spinlock.c\<close> on several harts at once: the per-hart interrupt nesting of
  \<open>push_off\<close> and \<open>pop_off\<close>, and spin locks as a step relation in which every atomic action
  of \<open>acquire\<close> and \<open>release\<close> is one step, so that other harts run between any two of them.
  Mutual exclusion, interrupts off inside critical sections and the panics of misuse are
  invariants of every reachable state. The last section gives the abstract view the other
  components use, a set of held locks, and shows that \<open>acquire\<close> and \<open>release\<close> run to
  completion implement it, with the nesting depth exactly the number of held locks.
\<close>

section \<open>State\<close>

record spinlock =
  locked :: bool
  lk_cpu :: "nat option"

record cpu =
  noff :: int
  intena :: bool
  sie :: bool  \<comment> \<open>the hart's \<open>SSTATUS_SIE\<close> bit, which \<open>intr_get\<close> reads\<close>

record 'l lstate =
  cpus :: "nat \<Rightarrow> cpu"
  locks :: "'l \<Rightarrow> spinlock"

section \<open>Operations\<close>

definition initlock :: "'l \<Rightarrow> 'l lstate \<Rightarrow> 'l lstate" where
  "initlock l s = s\<lparr>locks := (locks s)(l := \<lparr>locked = False, lk_cpu = None\<rparr>)\<rparr>"

definition intr_off :: "nat \<Rightarrow> 'l lstate \<Rightarrow> 'l lstate" where
  "intr_off c s = s\<lparr>cpus := (cpus s)(c := (cpus s c)\<lparr>sie := False\<rparr>)\<rparr>"

definition intr_on :: "nat \<Rightarrow> 'l lstate \<Rightarrow> 'l lstate" where
  "intr_on c s = s\<lparr>cpus := (cpus s)(c := (cpus s c)\<lparr>sie := True\<rparr>)\<rparr>"

definition intr_get :: "nat \<Rightarrow> 'l lstate \<Rightarrow> bool" where
  "intr_get c s = sie (cpus s c)"

definition push_off :: "nat \<Rightarrow> 'l lstate \<Rightarrow> 'l lstate" where
  "push_off c s =
     (let old = intr_get c s;
          s1 = intr_off c s;
          k = cpus s1 c;
          k1 = (if noff k = 0 then k\<lparr>intena := old\<rparr> else k);
          k2 = k1\<lparr>noff := noff k1 + 1\<rparr>
      in s1\<lparr>cpus := (cpus s1)(c := k2)\<rparr>)"

definition pop_off :: "nat \<Rightarrow> 'l lstate \<Rightarrow> string + 'l lstate" where
  "pop_off c s =
     (if intr_get c s then Inl ''pop_off - interruptible''
      else if noff (cpus s c) < 1 then Inl ''pop_off''
      else
        let k = (cpus s c)\<lparr>noff := noff (cpus s c) - 1\<rparr>;
            s1 = s\<lparr>cpus := (cpus s)(c := k)\<rparr>
        in Inr (if noff k = 0 \<and> intena k then intr_on c s1 else s1))"

definition holding :: "nat \<Rightarrow> 'l \<Rightarrow> 'l lstate \<Rightarrow> bool" where
  "holding c l s = (locked (locks s l) \<and> lk_cpu (locks s l) = Some c)"

text \<open>\<open>__sync_lock_test_and_set(&lk->locked, 1)\<close>: the old value, and the lock set.\<close>

definition test_and_set :: "'l \<Rightarrow> 'l lstate \<Rightarrow> bool \<times> 'l lstate" where
  "test_and_set l s =
     (locked (locks s l), s\<lparr>locks := (locks s)(l := (locks s l)\<lparr>locked := True\<rparr>)\<rparr>)"

definition set_lock_cpu :: "nat option \<Rightarrow> 'l \<Rightarrow> 'l lstate \<Rightarrow> 'l lstate" where
  "set_lock_cpu c l s = s\<lparr>locks := (locks s)(l := (locks s l)\<lparr>lk_cpu := c\<rparr>)\<rparr>"

definition clear_locked :: "'l \<Rightarrow> 'l lstate \<Rightarrow> 'l lstate" where
  "clear_locked l s = s\<lparr>locks := (locks s)(l := (locks s l)\<lparr>locked := False\<rparr>)\<rparr>"

text \<open>
  \<open>acquire\<close> and \<open>release\<close> run without interference: \<open>Inr None\<close> is a hart left spinning
  on a lock that another hart never gives up.
\<close>

definition acquire_seq :: "nat \<Rightarrow> 'l \<Rightarrow> 'l lstate \<Rightarrow> string + 'l lstate option" where
  "acquire_seq c l s =
     (let s1 = push_off c s in
      if holding c l s1 then Inl ''acquire''
      else case test_and_set l s1 of
             (True, _) \<Rightarrow> Inr None
           | (False, s2) \<Rightarrow> Inr (Some (set_lock_cpu (Some c) l s2)))"

definition release_seq :: "nat \<Rightarrow> 'l \<Rightarrow> 'l lstate \<Rightarrow> string + 'l lstate" where
  "release_seq c l s =
     (if \<not> holding c l s then Inl ''release''
      else pop_off c (clear_locked l (set_lock_cpu None l s)))"

section \<open>Interleaved execution\<close>

text \<open>
  Where a hart is inside \<open>acquire(l)\<close> or \<open>release(l)\<close>; \<open>Running\<close> is any code outside them. Every
  access to a lock is a step of its own. \<open>push_off\<close> and \<open>pop_off\<close> are one step each: they touch
  nothing but the hart's own \<open>struct cpu\<close> and its interrupt bit, which no other hart reads. A hart
  calls \<open>pop_off\<close> outside of \<open>release\<close> only to match a \<open>push_off\<close> of its own (\<open>nest\<close>).
\<close>

datatype 'l lpc =
    Running
  | AcqCheck 'l     \<comment> \<open>interrupts are off, \<open>holding\<close> is not checked yet\<close>
  | AcqSpin 'l      \<comment> \<open>in the test-and-set loop\<close>
  | AcqGot 'l       \<comment> \<open>the loop is left, \<open>lk->cpu\<close> is not written yet\<close>
  | RelCheck 'l     \<comment> \<open>\<open>release\<close> is called, \<open>holding\<close> is not checked yet\<close>
  | RelCpu 'l       \<comment> \<open>the check is passed, \<open>lk->cpu\<close> is not cleared yet\<close>
  | RelClear 'l     \<comment> \<open>\<open>lk->cpu\<close> is cleared, \<open>lk->locked\<close> is not yet\<close>
  | RelPop          \<comment> \<open>the lock is free again, \<open>pop_off\<close> is still to come\<close>
  | Panicked string

record 'l lmachine =
  lst :: "'l lstate"
  lpcs :: "nat \<Rightarrow> 'l lpc"
  own :: "nat \<Rightarrow> 'l set"   \<comment> \<open>the locks whose critical section the hart's code is inside\<close>
  nest :: "nat \<Rightarrow> nat"      \<comment> \<open>depth of \<open>push_off\<close> calls of its own, as in \<open>myproc\<close>\<close>

definition init_lmachine :: "(nat \<Rightarrow> bool) \<Rightarrow> 'l lmachine" where
  "init_lmachine ints =
     \<lparr>lst = \<lparr>cpus = (\<lambda>c. \<lparr>noff = 0, intena = False, sie = ints c\<rparr>),
             locks = (\<lambda>_. \<lparr>locked = False, lk_cpu = None\<rparr>)\<rparr>,
      lpcs = (\<lambda>_. Running), own = (\<lambda>_. {}), nest = (\<lambda>_. 0)\<rparr>"

abbreviation (input) at :: "'l lmachine \<Rightarrow> nat \<Rightarrow> 'l lpc \<Rightarrow> 'l lmachine" where
  "at m c p \<equiv> m\<lparr>lpcs := (lpcs m)(c := p)\<rparr>"

inductive lock_step :: "'l lmachine \<Rightarrow> 'l lmachine \<Rightarrow> bool" where
  call_acquire: "lpcs m c = Running \<Longrightarrow>
    lock_step m ((at m c (AcqCheck l))\<lparr>lst := push_off c (lst m)\<rparr>)"
| acquire_panic: "lpcs m c = AcqCheck l \<Longrightarrow> holding c l (lst m) \<Longrightarrow>
    lock_step m (at m c (Panicked ''acquire''))"
| acquire_check: "lpcs m c = AcqCheck l \<Longrightarrow> \<not> holding c l (lst m) \<Longrightarrow>
    lock_step m (at m c (AcqSpin l))"
| acquire_spin: "lpcs m c = AcqSpin l \<Longrightarrow> test_and_set l (lst m) = (True, s) \<Longrightarrow>
    lock_step m (m\<lparr>lst := s\<rparr>)"
| acquire_win: "lpcs m c = AcqSpin l \<Longrightarrow> test_and_set l (lst m) = (False, s) \<Longrightarrow>
    lock_step m ((at m c (AcqGot l))\<lparr>lst := s\<rparr>)"
| acquire_done: "lpcs m c = AcqGot l \<Longrightarrow>
    lock_step m ((at m c Running)\<lparr>lst := set_lock_cpu (Some c) l (lst m),
      own := (own m)(c := insert l (own m c))\<rparr>)"
| call_release: "lpcs m c = Running \<Longrightarrow>
    lock_step m (at m c (RelCheck l))"
| release_panic: "lpcs m c = RelCheck l \<Longrightarrow> \<not> holding c l (lst m) \<Longrightarrow>
    lock_step m (at m c (Panicked ''release''))"
| release_check: "lpcs m c = RelCheck l \<Longrightarrow> holding c l (lst m) \<Longrightarrow>
    lock_step m (at m c (RelCpu l))"
| release_cpu: "lpcs m c = RelCpu l \<Longrightarrow>
    lock_step m ((at m c (RelClear l))\<lparr>lst := set_lock_cpu None l (lst m),
      own := (own m)(c := own m c - {l})\<rparr>)"
| release_clear: "lpcs m c = RelClear l \<Longrightarrow>
    lock_step m ((at m c RelPop)\<lparr>lst := clear_locked l (lst m)\<rparr>)"
| release_pop: "lpcs m c = RelPop \<Longrightarrow> pop_off c (lst m) = Inr s \<Longrightarrow>
    lock_step m ((at m c Running)\<lparr>lst := s\<rparr>)"
| release_pop_panic: "lpcs m c = RelPop \<Longrightarrow> pop_off c (lst m) = Inl e \<Longrightarrow>
    lock_step m (at m c (Panicked e))"
| own_push: "lpcs m c = Running \<Longrightarrow>
    lock_step m (m\<lparr>lst := push_off c (lst m), nest := (nest m)(c := nest m c + 1)\<rparr>)"
| own_pop: "lpcs m c = Running \<Longrightarrow> nest m c = Suc k \<Longrightarrow> pop_off c (lst m) = Inr s \<Longrightarrow>
    lock_step m (m\<lparr>lst := s, nest := (nest m)(c := k)\<rparr>)"
| own_pop_panic: "lpcs m c = Running \<Longrightarrow> nest m c = Suc k \<Longrightarrow> pop_off c (lst m) = Inl e \<Longrightarrow>
    lock_step m (at m c (Panicked e))"

inductive lock_reachable :: "(nat \<Rightarrow> bool) \<Rightarrow> 'l lmachine \<Rightarrow> bool" for ints where
  start: "lock_reachable ints (init_lmachine ints)"
| step: "lock_reachable ints m \<Longrightarrow> lock_step m m' \<Longrightarrow> lock_reachable ints m'"

section \<open>Invariant\<close>

definition in_lock :: "'l lmachine \<Rightarrow> nat \<Rightarrow> 'l \<Rightarrow> bool" where
  "in_lock m c l \<longleftrightarrow> l \<in> own m c \<or> lpcs m c = AcqGot l \<or> lpcs m c = RelClear l"

definition panicked :: "'l lmachine \<Rightarrow> nat \<Rightarrow> bool" where
  "panicked m c \<longleftrightarrow> (\<exists>e. lpcs m c = Panicked e)"

text \<open>The \<open>push_off\<close> of an \<open>acquire\<close> or \<open>release\<close> that is under way and not counted in \<open>own\<close>.\<close>

definition pending :: "'l lpc \<Rightarrow> nat" where
  "pending p = (case p of Running \<Rightarrow> 0 | Panicked _ \<Rightarrow> 0 | RelCheck _ \<Rightarrow> 0 | RelCpu _ \<Rightarrow> 0 | _ \<Rightarrow> 1)"

definition locks_inv :: "'l lmachine \<Rightarrow> bool" where
  "locks_inv m \<longleftrightarrow>
     (\<forall>l. locked (locks (lst m) l) \<longleftrightarrow> (\<exists>c. in_lock m c l)) \<and>
     (\<forall>c d l. in_lock m c l \<longrightarrow> in_lock m d l \<longrightarrow> c = d) \<and>
     (\<forall>c l. lk_cpu (locks (lst m) l) = Some c \<longleftrightarrow> l \<in> own m c) \<and>
     (\<forall>c l. lpcs m c \<in> {AcqSpin l, AcqGot l, RelClear l} \<longrightarrow> l \<notin> own m c)"

definition release_inv :: "'l lmachine \<Rightarrow> bool" where
  "release_inv m \<longleftrightarrow> (\<forall>c l. lpcs m c = RelCpu l \<longrightarrow> l \<in> own m c)"

definition nesting_inv :: "'l lmachine \<Rightarrow> bool" where
  "nesting_inv m \<longleftrightarrow> (\<forall>c. finite (own m c) \<and> (\<not> panicked m c \<longrightarrow>
     noff (cpus (lst m) c) = int (card (own m c) + nest m c + pending (lpcs m c)) \<and>
     (0 < noff (cpus (lst m) c) \<longrightarrow> \<not> sie (cpus (lst m) c))))"

lemmas lock_op_defs = push_off_def pop_off_def holding_def test_and_set_def set_lock_cpu_def
  clear_locked_def intr_off_def intr_on_def intr_get_def Let_def

lemma push_off_frame [simp]:
  "locks (push_off c s) = locks s"
  "d \<noteq> c \<Longrightarrow> cpus (push_off c s) d = cpus s d"
  "noff (cpus (push_off c s) c) = noff (cpus s c) + 1"
  "sie (cpus (push_off c s) c) = False"
  by (simp_all add: lock_op_defs)

lemma pop_off_frame:
  assumes "pop_off c s = Inr t"
  shows "locks t = locks s" "d \<noteq> c \<Longrightarrow> cpus t d = cpus s d"
    "noff (cpus t c) = noff (cpus s c) - 1" "noff (cpus t c) > 0 \<Longrightarrow> \<not> sie (cpus t c)"
  using assms by (auto simp: lock_op_defs split: if_splits)

lemma locks_inv_init: "locks_inv (init_lmachine ints)"
  by (simp add: locks_inv_def init_lmachine_def in_lock_def)

lemma nesting_inv_init: "nesting_inv (init_lmachine ints)"
  by (simp add: nesting_inv_def init_lmachine_def pending_def)

lemma holding_own: "locks_inv m \<Longrightarrow> holding c l (lst m) \<longleftrightarrow> l \<in> own m c"
  by (auto simp: locks_inv_def holding_def in_lock_def)

text \<open>
  The effect of a step on ownership: no hart's, or one hart's claim to one lock begins or ends.
\<close>

lemma locks_inv_same:
  assumes "locks_inv m" "locks (lst m') = locks (lst m)" "own m' = own m"
    and "\<And>c l. in_lock m' c l \<longleftrightarrow> in_lock m c l"
    and "\<And>c l. lpcs m' c \<in> {AcqSpin l, AcqGot l, RelClear l} \<Longrightarrow> l \<notin> own m c"
  shows "locks_inv m'"
  using assms unfolding locks_inv_def by simp

lemma locks_inv_begin:
  assumes inv: "locks_inv m" and free: "\<And>d. \<not> in_lock m d l"
    and lck: "\<And>k. locked (locks (lst m') k) \<longleftrightarrow> k = l \<or> locked (locks (lst m) k)"
    and cpu: "\<And>k. lk_cpu (locks (lst m') k) = lk_cpu (locks (lst m) k)"
    and own: "own m' = own m"
    and il: "\<And>d k. in_lock m' d k \<longleftrightarrow> d = c \<and> k = l \<or> in_lock m d k"
    and pc: "\<And>d k. lpcs m' d \<in> {AcqSpin k, AcqGot k, RelClear k} \<Longrightarrow> k \<notin> own m d"
  shows "locks_inv m'"
proof -
  have "locked (locks (lst m') k) \<longleftrightarrow> (\<exists>d. in_lock m' d k)" for k
    using inv unfolding locks_inv_def lck il by blast
  moreover have "a = b" if "in_lock m' a k" "in_lock m' b k" for a b k
    using inv free that unfolding locks_inv_def il by metis
  ultimately show ?thesis
    using inv pc unfolding locks_inv_def cpu own by blast
qed

lemma locks_inv_end:
  assumes inv: "locks_inv m" and mine: "in_lock m c l" and notown: "l \<notin> own m c"
    and lck: "\<And>k. locked (locks (lst m') k) \<longleftrightarrow> k \<noteq> l \<and> locked (locks (lst m) k)"
    and cpu: "\<And>k. lk_cpu (locks (lst m') k) = lk_cpu (locks (lst m) k)"
    and own: "own m' = own m"
    and il: "\<And>d k. in_lock m' d k \<longleftrightarrow> \<not> (d = c \<and> k = l) \<and> in_lock m d k"
    and pc: "\<And>d k. lpcs m' d \<in> {AcqSpin k, AcqGot k, RelClear k} \<Longrightarrow> k \<notin> own m d"
  shows "locks_inv m'"
proof -
  have "locked (locks (lst m') k) \<longleftrightarrow> (\<exists>d. in_lock m' d k)" for k
    using inv mine unfolding locks_inv_def lck il by metis
  moreover have "a = b" if "in_lock m' a k" "in_lock m' b k" for a b k
    using inv that unfolding locks_inv_def il by metis
  ultimately show ?thesis
    using inv pc unfolding locks_inv_def cpu own by blast
qed

lemma locks_inv_transfer:
  assumes inv: "locks_inv m" and mine: "in_lock m c l"
    and lck: "\<And>k. locked (locks (lst m') k) \<longleftrightarrow> locked (locks (lst m) k)"
    and il: "\<And>d k. in_lock m' d k \<longleftrightarrow> in_lock m d k"
    and cpu: "\<And>k d. lk_cpu (locks (lst m') k) = Some d \<longleftrightarrow> k \<in> own m' d"
    and pc: "\<And>d k. lpcs m' d \<in> {AcqSpin k, AcqGot k, RelClear k} \<Longrightarrow> k \<notin> own m' d"
  shows "locks_inv m'"
  using inv pc unfolding locks_inv_def lck il cpu by blast

lemma locks_invD:
  assumes "locks_inv m"
  shows "locked (locks (lst m) l) \<longleftrightarrow> (\<exists>c. in_lock m c l)"
    "in_lock m c l \<Longrightarrow> in_lock m d l \<Longrightarrow> c = d"
    "lk_cpu (locks (lst m) l) = Some c \<longleftrightarrow> l \<in> own m c"
    "lpcs m c \<in> {AcqSpin l, AcqGot l, RelClear l} \<Longrightarrow> l \<notin> own m c"
proof -
  note inv = assms [unfolded locks_inv_def]
  show "locked (locks (lst m) l) \<longleftrightarrow> (\<exists>c. in_lock m c l)"
    and "in_lock m c l \<Longrightarrow> in_lock m d l \<Longrightarrow> c = d"
    and "lk_cpu (locks (lst m) l) = Some c \<longleftrightarrow> l \<in> own m c"
    using inv by blast+
  show "lpcs m c \<in> {AcqSpin l, AcqGot l, RelClear l} \<Longrightarrow> l \<notin> own m c"
    using inv by (elim conjE allE) (erule mp)
qed

lemma locks_inv_step:
  assumes "lock_step m m'" "release_inv m" "locks_inv m"
  shows "locks_inv m'"
  using assms
proof (induction rule: lock_step.induct)
  case (acquire_win m c l s)
  then show ?case
    using locks_invD(1,4) [OF acquire_win.prems(2)]
    by (intro locks_inv_begin [OF acquire_win.prems(2), of l _ c])
      (auto simp: test_and_set_def in_lock_def split: if_splits)
next
  case (acquire_check m c l)
  then show ?case
    using locks_invD(4) [OF acquire_check.prems(2)] holding_own [OF acquire_check.prems(2)]
    by (intro locks_inv_same [OF acquire_check.prems(2)]) (auto simp: in_lock_def split: if_splits)
next
  case (acquire_done m c l)
  then have mine: "in_lock m c l" by (simp add: in_lock_def)
  have "l \<notin> own m d" for d
    using locks_invD(2) [OF acquire_done.prems(2) mine, of d] locks_invD(4) [OF acquire_done.prems(2), of d l]
      acquire_done.hyps by (auto simp: in_lock_def)
  then show ?case
    using acquire_done.hyps locks_invD(3,4) [OF acquire_done.prems(2)]
    by (intro locks_inv_transfer [OF acquire_done.prems(2) mine])
      (auto simp: in_lock_def set_lock_cpu_def split: if_splits)
next
  case (release_cpu m c l)
  then have mine: "l \<in> own m c" by (simp add: release_inv_def)
  then have il: "in_lock m c l" by (simp add: in_lock_def)
  have "l \<notin> own m d" if "d \<noteq> c" for d
    using that locks_invD(2) [OF release_cpu.prems(2) il, of d] by (auto simp: in_lock_def)
  then show ?case
    using release_cpu.hyps mine locks_invD(3,4) [OF release_cpu.prems(2)]
    by (intro locks_inv_transfer [OF release_cpu.prems(2) il])
      (auto simp: in_lock_def set_lock_cpu_def split: if_splits)
next
  case (release_clear m c l)
  then have il: "in_lock m c l" by (simp add: in_lock_def)
  have "l \<notin> own m c" using locks_invD(4) [OF release_clear.prems(2), of c l] release_clear.hyps by simp
  then show ?case
    using release_clear.hyps locks_invD(4) [OF release_clear.prems(2)]
    by (intro locks_inv_end [OF release_clear.prems(2) il])
      (auto simp: in_lock_def clear_locked_def split: if_splits)
next
  case (acquire_spin m c l s)
  then have "locks s = locks (lst m)" by (auto simp: test_and_set_def fun_eq_iff)
  then show ?case
    using locks_invD(4) [OF acquire_spin.prems(2)]
    by (intro locks_inv_same [OF acquire_spin.prems(2)]) (auto simp: in_lock_def)
next
  case (call_acquire m c l)
  then show ?case
    using locks_invD(4) [OF call_acquire.prems(2)]
    by (intro locks_inv_same [OF call_acquire.prems(2)])
      (auto simp: in_lock_def pop_off_frame split: if_splits)
next
  case (acquire_panic m c l)
  then show ?case
    using locks_invD(4) [OF acquire_panic.prems(2)]
    by (intro locks_inv_same [OF acquire_panic.prems(2)])
      (auto simp: in_lock_def pop_off_frame split: if_splits)
next
  case (release_panic m c l)
  then show ?case
    using locks_invD(4) [OF release_panic.prems(2)]
    by (intro locks_inv_same [OF release_panic.prems(2)])
      (auto simp: in_lock_def pop_off_frame split: if_splits)
next
  case (release_pop m c s)
  then show ?case
    using locks_invD(4) [OF release_pop.prems(2)]
    by (intro locks_inv_same [OF release_pop.prems(2)])
      (auto simp: in_lock_def pop_off_frame split: if_splits)
next
  case (release_pop_panic m c e)
  then show ?case
    using locks_invD(4) [OF release_pop_panic.prems(2)]
    by (intro locks_inv_same [OF release_pop_panic.prems(2)])
      (auto simp: in_lock_def pop_off_frame split: if_splits)
next
  case (own_push m c)
  then show ?case
    using locks_invD(4) [OF own_push.prems(2)]
    by (intro locks_inv_same [OF own_push.prems(2)])
      (auto simp: in_lock_def pop_off_frame split: if_splits)
next
  case (own_pop m c k s)
  then show ?case
    using locks_invD(4) [OF own_pop.prems(2)]
    by (intro locks_inv_same [OF own_pop.prems(2)])
      (auto simp: in_lock_def pop_off_frame split: if_splits)
next
  case (call_release m c l)
  then show ?case
    using locks_invD(4) [OF call_release.prems(2)]
    by (intro locks_inv_same [OF call_release.prems(2)])
      (auto simp: in_lock_def pop_off_frame split: if_splits)
next
  case (release_check m c l)
  then show ?case
    using locks_invD(4) [OF release_check.prems(2)]
    by (intro locks_inv_same [OF release_check.prems(2)])
      (auto simp: in_lock_def pop_off_frame split: if_splits)
next
  case (own_pop_panic m c k e)
  then show ?case
    using locks_invD(4) [OF own_pop_panic.prems(2)]
    by (intro locks_inv_same [OF own_pop_panic.prems(2)])
      (auto simp: in_lock_def pop_off_frame split: if_splits)
qed

lemma nesting_inv_step:
  assumes "lock_step m m'" "locks_inv m" "release_inv m" "nesting_inv m"
  shows "nesting_inv m'"
  using assms
proof (induction rule: lock_step.induct)
  case (acquire_done m c l)
  then have "l \<notin> own m c" by (simp add: locks_inv_def)
  with acquire_done show ?case
    by (auto simp: nesting_inv_def panicked_def pending_def set_lock_cpu_def)
next
  case (release_cpu m c l)
  then have "l \<in> own m c" "finite (own m c)" by (auto simp: release_inv_def nesting_inv_def)
  then have "card (own m c - {l}) = card (own m c) - 1" "0 < card (own m c)"
    by (auto simp: card_gt_0_iff)
  with release_cpu show ?case
    by (auto simp: nesting_inv_def panicked_def pending_def set_lock_cpu_def)
next
  case (release_pop m c s)
  then show ?case
    using pop_off_frame [OF release_pop.hyps(2)]
    by (auto simp: nesting_inv_def panicked_def pending_def)
next
  case (own_pop m c k s)
  then show ?case
    using pop_off_frame [OF own_pop.hyps(3)]
    by (auto simp: nesting_inv_def panicked_def pending_def)
qed (auto simp: nesting_inv_def panicked_def pending_def clear_locked_def test_and_set_def)

lemma release_inv_step:
  assumes "lock_step m m'" "locks_inv m" "release_inv m"
  shows "release_inv m'"
  using assms by (induction rule: lock_step.induct) (auto simp: release_inv_def holding_own split: if_splits)

lemma lock_reachable_inv:
  "lock_reachable ints m \<Longrightarrow> locks_inv m \<and> release_inv m \<and> nesting_inv m"
proof (induction rule: lock_reachable.induct)
  case start
  show ?case by (simp add: locks_inv_init nesting_inv_init release_inv_def) (simp add: init_lmachine_def)
next
  case (step m m')
  then show ?case by (blast intro: locks_inv_step nesting_inv_step release_inv_step)
qed

text \<open>A \<open>pop_off\<close> that matches a \<open>push_off\<close> never panics.\<close>

lemma pop_off_safe:
  assumes "nesting_inv m" "\<not> panicked m c" "0 < nest m c + pending (lpcs m c)"
  shows "pop_off c (lst m) \<noteq> Inl e"
proof -
  have "noff (cpus (lst m) c) \<ge> 1" "\<not> sie (cpus (lst m) c)"
    using assms unfolding nesting_inv_def by fastforce+
  then show ?thesis by (simp add: pop_off_def intr_get_def Let_def)
qed

section \<open>The held-lock view\<close>

text \<open>
  What the rest of the kernel relies on: each hart has a set of held locks, \<open>acquire\<close> adds
  a lock that was not in it (or panics) and \<open>release\<close> removes one that was (or panics).
\<close>

definition held_by :: "nat \<Rightarrow> 'l lstate \<Rightarrow> 'l set" where
  "held_by c s = {l. holding c l s}"

definition spec_acquire :: "'l \<Rightarrow> 'l set \<Rightarrow> string + 'l set" where
  "spec_acquire l H = (if l \<in> H then Inl ''acquire'' else Inr (insert l H))"

definition spec_release :: "'l \<Rightarrow> 'l set \<Rightarrow> string + 'l set" where
  "spec_release l H = (if l \<in> H then Inr (H - {l}) else Inl ''release'')"

text \<open>
  The state of a hart outside \<open>acquire\<close>, \<open>release\<close> and a \<open>push_off\<close> of its own: the nesting depth is
  exactly the number of held locks, and interrupts are off while it is positive.
\<close>

definition hart_ok :: "nat \<Rightarrow> 'l lstate \<Rightarrow> bool" where
  "hart_ok c s \<longleftrightarrow> finite (held_by c s) \<and> noff (cpus s c) = int (card (held_by c s)) \<and>
     (0 < noff (cpus s c) \<longrightarrow> \<not> sie (cpus s c))"

lemma held_by_set_cpu:
  "held_by c (set_lock_cpu (Some c) l (s\<lparr>locks := (locks s)(l := (locks s l)\<lparr>locked := True\<rparr>)\<rparr>))
     = insert l (held_by c s)"
  by (auto simp: held_by_def lock_op_defs)

lemma held_by_push_off [simp]: "held_by c (push_off c s) = held_by c s"
  by (simp add: held_by_def holding_def)

lemma acquire_seq_refines:
  assumes "hart_ok c s" "\<not> locked (locks s l) \<or> l \<in> held_by c s"
  shows "case acquire_seq c l s of
      Inl e \<Rightarrow> spec_acquire l (held_by c s) = Inl e
    | Inr None \<Rightarrow> False
    | Inr (Some t) \<Rightarrow> spec_acquire l (held_by c s) = Inr (held_by c t) \<and> hart_ok c t"
proof (cases "l \<in> held_by c s")
  case True
  then show ?thesis
    by (simp add: acquire_seq_def spec_acquire_def held_by_def holding_def)
next
  case False
  define t where "t = set_lock_cpu (Some c) l (snd (test_and_set l (push_off c s)))"
  have run: "acquire_seq c l s = Inr (Some t)"
    using False assms(2) by (auto simp: acquire_seq_def t_def held_by_def holding_def test_and_set_def)
  have held: "held_by c t = insert l (held_by c s)"
    using held_by_set_cpu [of c l "push_off c s"] by (simp add: t_def test_and_set_def)
  have "cpus t = cpus (push_off c s)"
    by (simp add: t_def set_lock_cpu_def test_and_set_def)
  then have "hart_ok c t"
    using assms(1) False by (auto simp: hart_ok_def held)
  with run held False show ?thesis by (simp add: spec_acquire_def)
qed

lemma release_seq_refines:
  assumes "hart_ok c s"
  shows "case release_seq c l s of
      Inl e \<Rightarrow> spec_release l (held_by c s) = Inl e
    | Inr t \<Rightarrow> spec_release l (held_by c s) = Inr (held_by c t) \<and> hart_ok c t"
proof (cases "l \<in> held_by c s")
  case False
  then show ?thesis by (simp add: release_seq_def spec_release_def held_by_def)
next
  case True
  define u where "u = clear_locked l (set_lock_cpu None l s)"
  have fin: "finite (held_by c s)" and cnt: "noff (cpus s c) = int (card (held_by c s))"
    using assms by (simp_all add: hart_ok_def)
  have card: "0 < card (held_by c s)" using fin True by (auto simp: card_gt_0_iff)
  then have pos: "1 \<le> noff (cpus s c)" using cnt by linarith
  have u: "cpus u = cpus s" "held_by c u = held_by c s - {l}"
    by (auto simp: u_def lock_op_defs held_by_def)
  have "\<not> sie (cpus s c)" using assms pos by (simp add: hart_ok_def)
  then obtain t where t: "pop_off c u = Inr t"
    using pos u(1) by (auto simp: pop_off_def intr_get_def Let_def)
  have held: "held_by c t = held_by c s - {l}"
    using pop_off_frame(1) [OF t] u(2) by (simp add: held_by_def holding_def)
  have "int (card (held_by c s - {l})) = int (card (held_by c s)) - 1"
    using fin True card by (simp add: of_nat_diff)
  then have "hart_ok c t"
    using pop_off_frame(3,4) [OF t] u(1) fin cnt by (simp add: hart_ok_def held)
  moreover have "release_seq c l s = Inr t"
    using True t by (simp add: release_seq_def u_def held_by_def)
  ultimately show ?thesis using held True by (simp add: spec_release_def)
qed

text \<open>The state during and after a critical section, in full.\<close>

lemma critical_section_state:
  assumes "hart_ok c s" "\<not> locked (locks s l)" "acquire_seq c l s = Inr (Some t)" "release_seq c l t = Inr u"
  shows "noff (cpus t c) = noff (cpus s c) + 1" "\<not> intr_get c t"
    "u = s\<lparr>cpus := (cpus s)(c := (cpus s c)\<lparr>intena := if noff (cpus s c) = 0 then intr_get c s else intena (cpus s c)\<rparr>),
          locks := (locks s)(l := \<lparr>locked = False, lk_cpu = None\<rparr>)\<rparr>"
proof -
  define k where "k = cpus s c"
  have k: "0 \<le> noff k" "0 < noff k \<Longrightarrow> \<not> sie k" using assms(1) by (simp_all add: hart_ok_def k_def)
  have t: "t = set_lock_cpu (Some c) l (snd (test_and_set l (push_off c s)))"
    using assms(2,3) by (auto simp: acquire_seq_def test_and_set_def Let_def split: if_splits)
  show "noff (cpus t c) = noff (cpus s c) + 1" "\<not> intr_get c t"
    by (simp_all add: t set_lock_cpu_def test_and_set_def intr_get_def)
  show "u = s\<lparr>cpus := (cpus s)(c := (cpus s c)\<lparr>intena := if noff (cpus s c) = 0 then intr_get c s else intena (cpus s c)\<rparr>),
          locks := (locks s)(l := \<lparr>locked = False, lk_cpu = None\<rparr>)\<rparr>"
    using assms(4) k unfolding t release_seq_def
    by (cases s; cases "cpus s c"; cases "locks s l") (auto simp: lock_op_defs k_def split: if_splits)
qed

text \<open>What the checks of \<open>sched\<close> on the nesting depth and the interrupt bit mean in this view.\<close>

lemma only_lock_held:
  assumes "hart_ok c s" "holding c l s"
  shows "noff (cpus s c) = 1 \<longleftrightarrow> held_by c s = {l}" "\<not> intr_get c s"
proof -
  have h: "l \<in> held_by c s" "finite (held_by c s)" "noff (cpus s c) = int (card (held_by c s))"
    using assms by (simp_all add: hart_ok_def held_by_def)
  then have "0 < card (held_by c s)" by (auto simp: card_gt_0_iff)
  then show "\<not> intr_get c s" using assms(1) h(3) by (simp add: hart_ok_def intr_get_def)
  show "noff (cpus s c) = 1 \<longleftrightarrow> held_by c s = {l}"
    using h by (auto simp: card_1_singleton_iff)
qed

section \<open>The interface\<close>

text \<open>
  What a client of spin locks may assume: a view of the state as the set of locks it holds, and
  \<open>acquire\<close>, \<open>release\<close> that act on that view and keep the hart's well-formedness.
\<close>

locale spin_lock_view =
  fixes held_of :: "'s \<Rightarrow> 'l set"
    and ok :: "'s \<Rightarrow> bool"
    and free :: "'l \<Rightarrow> 's \<Rightarrow> bool"
    and acq :: "'l \<Rightarrow> 's \<Rightarrow> string + 's option"
    and rel :: "'l \<Rightarrow> 's \<Rightarrow> string + 's"
  assumes acq_view: "ok s \<Longrightarrow> free l s \<or> l \<in> held_of s \<Longrightarrow>
      (case acq l s of
         Inl e \<Rightarrow> spec_acquire l (held_of s) = Inl e
       | Inr None \<Rightarrow> False
       | Inr (Some t) \<Rightarrow> spec_acquire l (held_of s) = Inr (held_of t) \<and> ok t)"
    and rel_view: "ok s \<Longrightarrow>
      (case rel l s of
         Inl e \<Rightarrow> spec_release l (held_of s) = Inl e
       | Inr t \<Rightarrow> spec_release l (held_of s) = Inr (held_of t) \<and> ok t)"
begin

lemma critical_section:
  assumes "ok s" "free l s" "l \<notin> held_of s"
  shows "\<exists>t u. acq l s = Inr (Some t) \<and> held_of t = insert l (held_of s) \<and> ok t \<and>
    rel l t = Inr u \<and> held_of u = held_of s \<and> ok u"
proof -
  obtain t where t: "acq l s = Inr (Some t)" "held_of t = insert l (held_of s)" "ok t"
    using acq_view [of s l] assms by (auto simp: spec_acquire_def split: sum.splits option.splits)
  then obtain u where "rel l t = Inr u" "held_of u = held_of s" "ok u"
    using rel_view [of t l] assms(3) by (auto simp: spec_release_def split: sum.splits)
  with t show ?thesis by blast
qed

lemma misuse_panics:
  assumes "ok s"
  shows "l \<in> held_of s \<Longrightarrow> acq l s = Inl ''acquire''"
    and "l \<notin> held_of s \<Longrightarrow> rel l s = Inl ''release''"
  using acq_view [of s l] rel_view [of s l] assms
  by (auto simp: spec_acquire_def spec_release_def split: sum.splits option.splits)

end

interpretation hart: spin_lock_view "held_by c" "hart_ok c" "\<lambda>l s. \<not> locked (locks s l)"
  "acquire_seq c" "release_seq c" for c
  by unfold_locales (blast intro: acquire_seq_refines release_seq_refines)+

section \<open>Properties\<close>

text \<open>
  C2. Mutual exclusion. In every reachable state of the interleaved execution of \<open>acquire\<close> and
  \<open>release\<close> by any number of harts, a lock whose critical section a hart is inside is marked
  locked and recorded as that hart's, no other hart is inside its critical section, and the
  hart's interrupts are off with a positive nesting count.
\<close>

theorem spinlock_mutual_exclusion:
  assumes "lock_reachable ints m" "l \<in> own m c" "\<not> panicked m c"
  shows "holding c l (lst m) \<and> (\<forall>d. in_lock m d l \<longrightarrow> d = c) \<and>
    0 < noff (cpus (lst m) c) \<and> \<not> intr_get c (lst m)"
proof -
  have inv: "locks_inv m" and nst: "nesting_inv m"
    using lock_reachable_inv [OF assms(1)] by simp_all
  have "0 < card (own m c)" using assms(2) nst by (auto simp: nesting_inv_def card_gt_0_iff)
  then have "0 < noff (cpus (lst m) c)" "\<not> sie (cpus (lst m) c)"
    using nst assms(3) by (auto simp: nesting_inv_def)
  moreover have "d = c" if "in_lock m d l" for d
    using locks_invD(2) [OF inv that, of c] assms(2) by (auto simp: in_lock_def)
  ultimately show ?thesis
    using holding_own [OF inv] assms(2) by (auto simp: in_lock_def intr_get_def)
qed

lemma lock_reachable_acquired:
  "\<exists>m. lock_reachable (\<lambda>_. True) m \<and> own m 0 = {l} \<and> lpcs m 0 = Running"
proof -
  define m0 :: "'a lmachine" where "m0 = init_lmachine (\<lambda>_. True)"
  define m1 where "m1 = (at m0 0 (AcqCheck l))\<lparr>lst := push_off 0 (lst m0)\<rparr>"
  define m2 where "m2 = at m1 0 (AcqSpin l)"
  define m3 where "m3 = (at m2 0 (AcqGot l))\<lparr>lst := snd (test_and_set l (lst m2))\<rparr>"
  define m4 where "m4 = (at m3 0 Running)\<lparr>lst := set_lock_cpu (Some 0) l (lst m3),
      own := (own m3)(0 := insert l (own m3 0))\<rparr>"
  have "lock_step m0 m1" unfolding m1_def
    by (rule call_acquire) (simp add: m0_def init_lmachine_def)
  moreover have "lock_step m1 m2" unfolding m2_def
    by (rule acquire_check) (simp_all add: m1_def m0_def init_lmachine_def holding_def)
  moreover have "lock_step m2 m3" unfolding m3_def
    by (rule acquire_win)
      (simp_all add: m2_def m1_def m0_def init_lmachine_def test_and_set_def)
  moreover have "lock_step m3 m4" unfolding m4_def
    by (rule acquire_done) (simp add: m3_def)
  moreover have "lock_reachable (\<lambda>_. True) m0" unfolding m0_def by (rule lock_reachable.start)
  ultimately have "lock_reachable (\<lambda>_. True) m4" by (blast intro: lock_reachable.step)
  moreover have "own m4 0 = {l}" "lpcs m4 0 = Running"
    by (simp_all add: m4_def m3_def m2_def m1_def m0_def init_lmachine_def)
  ultimately show ?thesis by blast
qed

theorem spinlock_mutual_exclusion_witness:
  "\<exists>m. lock_reachable (\<lambda>_. True) m \<and> own m 0 = {()} \<and> holding 0 () (lst m) \<and>
    \<not> in_lock m 1 () \<and> \<not> intr_get 0 (lst m)"
proof -
  obtain m where m: "lock_reachable (\<lambda>_. True) m" "own m 0 = {()}" "lpcs m 0 = Running"
    using lock_reachable_acquired [of "()"] by (elim exE conjE)
  then have "\<not> panicked m 0" "() \<in> own m 0" by (simp_all add: panicked_def)
  with spinlock_mutual_exclusion [of "\<lambda>_. True" m "()" 0] m(1)
  have "holding 0 () (lst m) \<and> \<not> in_lock m 1 () \<and> \<not> intr_get 0 (lst m)" by auto
  with m(1,2) show ?thesis by blast
qed

text \<open>
  C38. When the locking code panics. Whenever a step of a hart moves it on, it panics exactly if the
  hart is at the check of \<open>acquire\<close> for a lock whose critical section it is inside, or at the check
  of \<open>release\<close> for one it is not inside, with the message of that function. So these misuses never
  get through, nothing else panics, and \<open>pop_off\<close> never does, in \<open>release\<close> or matched with a
  \<open>push_off\<close>.
\<close>

theorem spinlock_panics_only_on_misuse:
  assumes "lock_reachable ints m" "lock_step m m'" "lpcs m' c \<noteq> lpcs m c"
  shows "lpcs m' c = Panicked e \<longleftrightarrow>
    (e = ''acquire'' \<and> (\<exists>l. lpcs m c = AcqCheck l \<and> l \<in> own m c)) \<or>
    (e = ''release'' \<and> (\<exists>l. lpcs m c = RelCheck l \<and> l \<notin> own m c))"
proof -
  have inv: "locks_inv m" "nesting_inv m" using lock_reachable_inv [OF assms(1)] by simp_all
  note own = holding_own [OF inv(1)]
  show ?thesis
    using assms(2,3)
  proof (cases rule: lock_step.cases)
    case (release_pop_panic d err)
    then show ?thesis using pop_off_safe [OF inv(2), of d err] by (simp add: panicked_def pending_def)
  next
    case (own_pop_panic d k err)
    then show ?thesis using pop_off_safe [OF inv(2), of d err] by (simp add: panicked_def pending_def)
  qed (auto simp: own split: if_splits)
qed

theorem spinlock_panics_only_on_misuse_witness:
  "\<exists>m m'. lock_reachable (\<lambda>_. True) (m :: unit lmachine) \<and> lock_step m m' \<and> lpcs m 0 = AcqCheck () \<and>
    () \<in> own m 0 \<and> lpcs m' 0 = Panicked ''acquire''"
proof -
  obtain m0 :: "unit lmachine" where m0: "lock_reachable (\<lambda>_. True) m0" "own m0 0 = {()}" "lpcs m0 0 = Running"
    using lock_reachable_acquired [of "()"] by (elim exE conjE)
  define m where "m = (at m0 0 (AcqCheck ()))\<lparr>lst := push_off 0 (lst m0)\<rparr>"
  have "lock_step m0 m" unfolding m_def by (rule call_acquire [OF m0(3)])
  then have m: "lock_reachable (\<lambda>_. True) m" by (rule lock_reachable.step [OF m0(1)])
  have o: "lpcs m 0 = AcqCheck ()" "() \<in> own m 0" by (simp_all add: m_def m0)
  have "holding 0 () (lst m)" using holding_own [of m 0 "()"] o(2) lock_reachable_inv [OF m] by simp
  then have s: "lock_step m (at m 0 (Panicked ''acquire''))" by (rule acquire_panic [OF o(1)])
  have "lpcs (at m 0 (Panicked ''acquire'')) 0 = Panicked ''acquire''"
    using spinlock_panics_only_on_misuse [OF m s, of 0 "''acquire''"] o by simp
  with m s o show ?thesis by blast
qed

text \<open>
  C39. A critical section leaves no trace: with the hart's lock accounting in order and the lock free,
  \<open>acquire\<close> returns with the lock added to those the hart holds, the nesting one deeper and interrupts
  off, and the matching \<open>release\<close> returns to exactly the state before, the nesting depth and the
  interrupt bit of the hart included; only \<open>intena\<close> may differ, which then remembers that bit.
\<close>

theorem critical_section_balanced:
  assumes "hart_ok c s" "\<not> locked (locks s l)"
  shows "\<exists>t u. acquire_seq c l s = Inr (Some t) \<and> held_by c t = insert l (held_by c s) \<and> hart_ok c t \<and>
    noff (cpus t c) = noff (cpus s c) + 1 \<and> \<not> intr_get c t \<and>
    release_seq c l t = Inr u \<and> held_by c u = held_by c s \<and> hart_ok c u \<and>
    u = s\<lparr>cpus := (cpus s)(c := (cpus s c)\<lparr>intena := if noff (cpus s c) = 0 then intr_get c s else intena (cpus s c)\<rparr>),
          locks := (locks s)(l := \<lparr>locked = False, lk_cpu = None\<rparr>)\<rparr>"
proof -
  obtain t u where tu: "acquire_seq c l s = Inr (Some t)" "held_by c t = insert l (held_by c s)" "hart_ok c t"
    "release_seq c l t = Inr u" "held_by c u = held_by c s" "hart_ok c u"
    using hart.critical_section [OF assms] assms(2) by (auto simp: held_by_def holding_def)
  show ?thesis
    using tu critical_section_state [OF assms tu(1,4)] by blast
qed

theorem critical_section_balanced_witness:
  "\<exists>s t u. acquire_seq 0 () s = Inr (Some t) \<and> held_by 0 t = {()} \<and> \<not> intr_get 0 t \<and>
    release_seq 0 () t = Inr u \<and> held_by 0 u = {} \<and> noff (cpus u 0) = 0 \<and> intr_get 0 u"
proof -
  define s :: "unit lstate" where "s = lst (init_lmachine (\<lambda>_. True))"
  have s: "hart_ok 0 s" "\<not> locked (locks s ())" "held_by 0 s = {}" "noff (cpus s 0) = 0" "intr_get 0 s"
    by (simp_all add: s_def init_lmachine_def hart_ok_def held_by_def holding_def intr_get_def)
  obtain t u where "acquire_seq 0 () s = Inr (Some t)" "held_by 0 t = {()}" "\<not> intr_get 0 t"
    "release_seq 0 () t = Inr u" "held_by 0 u = {}" "noff (cpus u 0) = 0" "intr_get 0 u"
    using critical_section_balanced [OF s(1,2)] s(3-5) by (auto simp: intr_get_def)
  then show ?thesis by blast
qed

end
