(* ===== verification/Sched.thy ===== *)
theory Sched
  imports Cstring Spinlock
begin

text \<open>
  Processes and blocking: the data of \<^verbatim>\<open>kernel/proc.h\<close>, the base of the kernel state that
  every component extends, and the part of \<^verbatim>\<open>kernel/proc.c\<close> and \<^verbatim>\<open>kernel/sleeplock.c\<close> on
  which blocking rests (\<open>sched\<close>, \<open>yield\<close>, \<open>sleep\<close>, \<open>wakeup\<close>, \<open>kill\<close>, \<open>scheduler\<close>, sleep locks).

  The kernel state is a record that each component extends with its own globals; an operation
  is polymorphic in the extensions that come after it. Spin locks are seen through the held-lock
  view that \<open>Spinlock\<close> proves of \<open>acquire\<close> and \<open>release\<close>: \<open>held\<close> is the set of locks of
  the hart that runs the modelled code.
\<close>

section \<open>Data of proc.h, spinlock.h and sleeplock.h\<close>

text \<open>The sleep locks of the kernel, its spin locks, and the channels threads sleep on.\<close>

datatype slid = SL_buf nat | SL_inode nat

datatype lockid =
    L_kmem | L_pid | L_wait | L_proc nat | L_vdisk | L_bcache | L_log | L_itable | L_ftable
  | L_pipe u64 | L_ticks | L_cons | L_uart | L_pr | L_sleep slid

datatype chan =
    Ch_sleeplock slid | Ch_proc nat | Ch_log | Ch_buf nat | Ch_vdisk_free
  | Ch_pipe_nread u64 | Ch_pipe_nwrite u64 | Ch_ticks | Ch_cons_r | Ch_uart_tx_r

datatype procstate = UNUSED | USED | SLEEPING | RUNNABLE | RUNNING | ZOMBIE

record kcontext =
  ctx_ra :: u64
  ctx_sp :: u64
  ctx_s :: "nat \<Rightarrow> u64"

record vma =
  vma_valid :: bool
  vma_addr :: u64
  vma_len :: u32
  vma_f :: nat
  vma_prot :: u32
  vma_flags :: u32
  vma_fd :: u32
  vma_offset :: u32

text \<open>
  Pointers to kernel tables are indices: \<open>p_parent\<close> into \<open>proc[]\<close>, \<open>p_ofile\<close> into
  \<open>ftable.file[]\<close>, \<open>p_cwd\<close> into \<open>itable.inode[]\<close>; a null pointer is \<open>None\<close>. Pages are
  addresses.
\<close>

record proc =
  p_state :: procstate
  p_chan :: "chan option"
  p_killed :: bool
  p_xstate :: u32
  p_pid :: u32
  p_parent :: "nat option"
  p_kstack :: u64
  p_sz :: u64
  p_pagetable :: u64
  p_trapframe :: u64
  p_context :: kcontext
  p_ofile :: "nat \<Rightarrow> nat option"
  p_cwd :: "nat option"
  p_name :: "u8 list"
  p_vma :: "nat \<Rightarrow> vma"

record sleeplock =
  sl_locked :: bool
  sl_pid :: u32

record kbase =
  held :: "lockid set"
  cur :: "nat option"
  procs :: "nat \<Rightarrow> proc"
  slocks :: "slid \<Rightarrow> sleeplock"
  nextpid :: u32
  initproc :: "nat option"

text \<open>The zero-filled image the kernel boots with.\<close>

definition zero_vma :: vma where
  "zero_vma = \<lparr>vma_valid = False, vma_addr = 0, vma_len = 0, vma_f = 0, vma_prot = 0,
     vma_flags = 0, vma_fd = 0, vma_offset = 0\<rparr>"

definition zero_proc :: proc where
  "zero_proc = \<lparr>p_state = UNUSED, p_chan = None, p_killed = False, p_xstate = 0, p_pid = 0,
     p_parent = None, p_kstack = 0, p_sz = 0, p_pagetable = 0, p_trapframe = 0,
     p_context = \<lparr>ctx_ra = 0, ctx_sp = 0, ctx_s = (\<lambda>_. 0)\<rparr>, p_ofile = (\<lambda>_. None), p_cwd = None,
     p_name = replicate 16 0, p_vma = (\<lambda>_. zero_vma)\<rparr>"

definition zero_kbase :: kbase where
  "zero_kbase = \<lparr>held = {}, cur = None, procs = (\<lambda>_. zero_proc),
     slocks = (\<lambda>_. \<lparr>sl_locked = False, sl_pid = 0\<rparr>), nextpid = 1, initproc = None\<rparr>"

section \<open>Spin locks, the current process\<close>

definition acquire :: "lockid \<Rightarrow> ('x kbase_scheme, unit) km" where
  "acquire l = (\<lambda>env s. case spec_acquire l (held s) of
     Inl e \<Rightarrow> Panic e | Inr H \<Rightarrow> Done () (s\<lparr>held := H\<rparr>))"

definition release :: "lockid \<Rightarrow> ('x kbase_scheme, unit) km" where
  "release l = (\<lambda>env s. case spec_release l (held s) of
     Inl e \<Rightarrow> Panic e | Inr H \<Rightarrow> Done () (s\<lparr>held := H\<rparr>))"

text \<open>
  \<open>myproc()\<close> where the caller dereferences the result: with no current process the kernel
  faults on the null pointer and \<open>kerneltrap\<close> panics.
\<close>

definition myproc :: "('x kbase_scheme, nat) km" where
  "myproc = bindM (getM cur) (\<lambda>c. case c of None \<Rightarrow> panicM ''kerneltrap'' | Some p \<Rightarrow> retM p)"

definition upd_proc :: "nat \<Rightarrow> (proc \<Rightarrow> proc) \<Rightarrow> ('x kbase_scheme, unit) km" where
  "upd_proc p f = modM (\<lambda>s. s\<lparr>procs := (procs s)(p := f (procs s p))\<rparr>)"

definition allocpid :: "('x kbase_scheme, u32) km" where
  "allocpid =
     seqM (acquire L_pid)
     (bindM (getM nextpid) (\<lambda>pid.
      seqM (modM (\<lambda>s. s\<lparr>nextpid := nextpid s + 1\<rparr>))
     (seqM (release L_pid)
     (retM pid))))"

section \<open>Giving up the processor\<close>

text \<open>
  \<open>sched\<close>: the nesting depth is the number of held locks (\<open>hart_ok\<close>), so \<open>noff != 1\<close> is that the
  process lock is not the only one, and interrupts are off while a lock is held, so that the last
  check of the C code cannot fire (\<open>only_lock_held\<close>). The flag \<open>intena\<close> that \<open>sched\<close> saves and
  restores is not part of the held-lock view.
\<close>

definition sched :: "('x kbase_scheme, unit) km" where
  "sched =
     bindM myproc (\<lambda>p. doM [
       panic_ifM (\<lambda>s. L_proc p \<notin> held s) ''sched p->lock'',
       panic_ifM (\<lambda>s. held s \<noteq> {L_proc p}) ''sched locks'',
       panic_ifM (\<lambda>s. p_state (procs s p) = RUNNING) ''sched running'',
       swtchM (\<lambda>s. cur s = Some p \<and> p_state (procs s p) = RUNNING)])"

definition yield :: "('x kbase_scheme, unit) km" where
  "yield =
     bindM myproc (\<lambda>p. doM [
       acquire (L_proc p),
       upd_proc p (p_state_update (\<lambda>_. RUNNABLE)),
       sched,
       release (L_proc p)])"

definition sleep :: "chan \<Rightarrow> lockid \<Rightarrow> ('x kbase_scheme, unit) km" where
  "sleep ch lk =
     bindM myproc (\<lambda>p. doM [
       acquire (L_proc p),
       release lk,
       upd_proc p (p_chan_update (\<lambda>_. Some ch)),
       upd_proc p (p_state_update (\<lambda>_. SLEEPING)),
       sched,
       upd_proc p (p_chan_update (\<lambda>_. None)),
       release (L_proc p),
       acquire lk])"

definition wakeup :: "chan \<Rightarrow> ('x kbase_scheme, unit) km" where
  "wakeup ch =
     eachM [0..<NPROC] (\<lambda>p. ifM (\<lambda>s. cur s \<noteq> Some p)
       (doM [
         acquire (L_proc p),
         ifM (\<lambda>s. p_state (procs s p) = SLEEPING \<and> p_chan (procs s p) = Some ch)
           (upd_proc p (p_state_update (\<lambda>_. RUNNABLE)))
           skipM,
         release (L_proc p)])
       skipM)"

text \<open>\<open>kill\<close> returns 0 (here \<open>True\<close>) or -1.\<close>

definition kill :: "u32 \<Rightarrow> ('x kbase_scheme, bool) km" where
  "kill pid =
     bindM (forM [0..<NPROC] (\<lambda>p.
       seqM (acquire (L_proc p))
       (ifM (\<lambda>s. p_pid (procs s p) = pid)
         (seqM (doM [
            upd_proc p (p_killed_update (\<lambda>_. True)),
            ifM (\<lambda>s. p_state (procs s p) = SLEEPING)
              (upd_proc p (p_state_update (\<lambda>_. RUNNABLE)))
              skipM,
            release (L_proc p)])
           (retM (Some True)))
         (seqM (release (L_proc p)) (retM None)))))
     (\<lambda>r. retM (r = Some True))"

text \<open>
  One slot of the scheduler's table scan. While the chosen process runs, the rest of the system
  is that process: it comes back through \<open>sched\<close>, which it calls holding its own lock and no
  longer \<open>RUNNING\<close>. As long as it has not, the scheduler's thread is parked.
\<close>

definition scheduler_slot :: "nat \<Rightarrow> ('x kbase_scheme, unit) km" where
  "scheduler_slot p = doM [
     acquire (L_proc p),
     ifM (\<lambda>s. p_state (procs s p) = RUNNABLE)
       (doM [
         upd_proc p (p_state_update (\<lambda>_. RUNNING)),
         modM (\<lambda>s. s\<lparr>cur := Some p\<rparr>),
         swtchM (\<lambda>s. p_state (procs s p) \<noteq> RUNNING),
         modM (\<lambda>s. s\<lparr>cur := None\<rparr>)])
       skipM,
     release (L_proc p)]"

text \<open>
  The scheduler, whose \<open>intr_on\<close> changes nothing in the held-lock view, and the rest of its work
  once the process of slot \<open>p\<close> has switched back to it.
\<close>

definition scheduler :: "('x kbase_scheme, unit) km" where
  "scheduler =
     seqM (modM (\<lambda>s. s\<lparr>cur := None\<rparr>))
       (whileM (\<lambda>_. True) (eachM [0..<NPROC] scheduler_slot))"

definition slot_rest :: "nat \<Rightarrow> ('x kbase_scheme, unit) km" where
  "slot_rest p = doM [modM (\<lambda>s. s\<lparr>cur := None\<rparr>), release (L_proc p)]"

definition scheduler_rest :: "nat \<Rightarrow> ('x kbase_scheme, unit) km" where
  "scheduler_rest p = doM [
     slot_rest p,
     eachM [Suc p..<NPROC] scheduler_slot,
     whileM (\<lambda>_. True) (eachM [0..<NPROC] scheduler_slot)]"

text \<open>The state a thread leaves behind when it returns or gives up the processor.\<close>

definition left_in :: "'s \<Rightarrow> ('s, 'a) outcome \<Rightarrow> 's" where
  "left_in s oc = (case oc of Done _ t \<Rightarrow> t | Parked t \<Rightarrow> t | _ \<Rightarrow> s)"

section \<open>Sleep locks\<close>

definition upd_slock :: "slid \<Rightarrow> (sleeplock \<Rightarrow> sleeplock) \<Rightarrow> ('x kbase_scheme, unit) km" where
  "upd_slock l f = modM (\<lambda>s. s\<lparr>slocks := (slocks s)(l := f (slocks s l))\<rparr>)"

definition initsleeplock :: "slid \<Rightarrow> ('x kbase_scheme, unit) km" where
  "initsleeplock l = upd_slock l (\<lambda>k. k\<lparr>sl_locked := False, sl_pid := 0\<rparr>)"

definition acquiresleep :: "slid \<Rightarrow> ('x kbase_scheme, unit) km" where
  "acquiresleep l =
     seqM (acquire (L_sleep l))
     (seqM (whileM (\<lambda>s. sl_locked (slocks s l)) (sleep (Ch_sleeplock l) (L_sleep l)))
     (seqM (upd_slock l (sl_locked_update (\<lambda>_. True)))
     (bindM myproc (\<lambda>p.
      bindM (getM (\<lambda>s. p_pid (procs s p))) (\<lambda>pid.
      seqM (upd_slock l (sl_pid_update (\<lambda>_. pid)))
     (release (L_sleep l)))))))"

definition releasesleep :: "slid \<Rightarrow> ('x kbase_scheme, unit) km" where
  "releasesleep l = doM [
     acquire (L_sleep l),
     upd_slock l (sl_locked_update (\<lambda>_. False)),
     upd_slock l (sl_pid_update (\<lambda>_. 0)),
     wakeup (Ch_sleeplock l),
     release (L_sleep l)]"

definition holdingsleep :: "slid \<Rightarrow> ('x kbase_scheme, bool) km" where
  "holdingsleep l =
     seqM (acquire (L_sleep l))
     (bindM (ifM (\<lambda>s. sl_locked (slocks s l))
               (bindM myproc (\<lambda>p. getM (\<lambda>s. sl_pid (slocks s l) = p_pid (procs s p))))
               (retM False)) (\<lambda>r.
      seqM (release (L_sleep l))
     (retM r)))"

section \<open>Rules\<close>

lemma wp_acquire [wp_simps]:
  "wp env (acquire l) Q s \<longleftrightarrow> l \<notin> held s \<and> Q () (s\<lparr>held := insert l (held s)\<rparr>)"
  by (simp add: wp_def acquire_def spec_acquire_def)

lemma wp_release [wp_simps]:
  "wp env (release l) Q s \<longleftrightarrow> l \<in> held s \<and> Q () (s\<lparr>held := held s - {l}\<rparr>)"
  by (simp add: wp_def release_def spec_release_def)

lemma wp_myproc [wp_simps]:
  "wp env myproc Q s \<longleftrightarrow> (\<exists>p. cur s = Some p \<and> Q p s)"
  by (simp add: myproc_def wp_simps split: option.splits)

lemma wp_upd_proc [wp_simps]:
  "wp env (upd_proc p f) Q s = Q () (s\<lparr>procs := (procs s)(p := f (procs s p))\<rparr>)"
  by (simp add: upd_proc_def wp_simps)

lemma wp_upd_slock [wp_simps]:
  "wp env (upd_slock l f) Q s = Q () (s\<lparr>slocks := (slocks s)(l := f (slocks s l))\<rparr>)"
  by (simp add: upd_slock_def wp_simps)

lemma run_acquire [run_simps]:
  "acquire l env s = (if l \<in> held s then Panic ''acquire'' else Done () (s\<lparr>held := insert l (held s)\<rparr>))"
  "seqM (acquire l) n env s =
     (if l \<in> held s then Panic ''acquire'' else n env (s\<lparr>held := insert l (held s)\<rparr>))"
  by (simp_all add: acquire_def spec_acquire_def seqM_def bindM_def)

lemma run_release [run_simps]:
  "release l env s = (if l \<in> held s then Done () (s\<lparr>held := held s - {l}\<rparr>) else Panic ''release'')"
  "seqM (release l) n env s =
     (if l \<in> held s then n env (s\<lparr>held := held s - {l}\<rparr>) else Panic ''release'')"
  by (simp_all add: release_def spec_release_def seqM_def bindM_def)

lemma run_myproc [run_simps]:
  "bindM myproc f env s = (case cur s of None \<Rightarrow> Panic ''kerneltrap'' | Some p \<Rightarrow> f p env s)"
  by (simp add: myproc_def run_simps split: option.split)

lemma run_upd [run_simps]:
  "seqM (upd_proc p g) n env s = n env (s\<lparr>procs := (procs s)(p := g (procs s p))\<rparr>)"
  "upd_proc p g env s = Done () (s\<lparr>procs := (procs s)(p := g (procs s p))\<rparr>)"
  "seqM (upd_slock l h) n env s = n env (s\<lparr>slocks := (slocks s)(l := h (slocks s l))\<rparr>)"
  "upd_slock l h env s = Done () (s\<lparr>slocks := (slocks s)(l := h (slocks s l))\<rparr>)"
  by (simp_all add: upd_proc_def upd_slock_def run_simps)

lemma slot_rest_run [run_simps]:
  "held s = {L_proc p} \<Longrightarrow> slot_rest p env s = Done () (s\<lparr>held := {}, cur := None\<rparr>)"
  by (simp add: slot_rest_def run_simps)

text \<open>A slot of the scan whose process does not come back: the scheduler is parked while it runs.\<close>

lemma scheduler_slot_resumes:
  assumes "held s = {}" "p_state (procs s p) = RUNNABLE"
    and "env (s\<lparr>held := {L_proc p}, procs := (procs s)(p := (procs s p)\<lparr>p_state := RUNNING\<rparr>), cur := Some p\<rparr>) = u"
    and "p_state (procs u p) = RUNNING"
  shows "scheduler_slot p env s = Parked u"
  using assms by (simp add: scheduler_slot_def run_simps)

lemma scheduler_slot_passes:
  assumes "held s = {}" "p_state (procs s p) \<noteq> RUNNABLE"
  shows "scheduler_slot p env s = Done () s"
  using assms by (simp add: scheduler_slot_def run_simps)

subsection \<open>wakeup and kill\<close>

text \<open>What \<open>wakeup(ch)\<close>, called by \<open>c\<close>, makes of the process table.\<close>

definition wake :: "chan \<Rightarrow> nat option \<Rightarrow> (nat \<Rightarrow> proc) \<Rightarrow> nat \<Rightarrow> proc" where
  "wake ch c ps = (\<lambda>p.
     if p < NPROC \<and> c \<noteq> Some p \<and> p_state (ps p) = SLEEPING \<and> p_chan (ps p) = Some ch
     then (ps p)\<lparr>p_state := RUNNABLE\<rparr> else ps p)"

definition no_proc_lock :: "'x kbase_scheme \<Rightarrow> bool" where
  "no_proc_lock s \<longleftrightarrow> (\<forall>p<NPROC. cur s \<noteq> Some p \<longrightarrow> L_proc p \<notin> held s)"

definition wakeup_one :: "chan \<Rightarrow> nat \<Rightarrow> ('x kbase_scheme, unit) km" where
  "wakeup_one ch p = ifM (\<lambda>s. cur s \<noteq> Some p)
       (doM [
         acquire (L_proc p),
         ifM (\<lambda>s. p_state (procs s p) = SLEEPING \<and> p_chan (procs s p) = Some ch)
           (upd_proc p (p_state_update (\<lambda>_. RUNNABLE)))
           skipM,
         release (L_proc p)])
       skipM"

lemma wakeup_one_run:
  assumes "cur t \<noteq> Some p \<longrightarrow> L_proc p \<notin> held t" "p < NPROC"
  shows "wakeup_one ch p env t = Done () (t\<lparr>procs := (procs t)(p := wake ch (cur t) (procs t) p)\<rparr>)"
  using assms
  by (auto simp: wakeup_one_def run_simps wake_def)

lemma wakeup_upto:
  assumes "no_proc_lock s" "n \<le> NPROC"
  shows "eachM [0..<n] (wakeup_one ch) env s =
    Done () (s\<lparr>procs := (\<lambda>p. if p < n then wake ch (cur s) (procs s) p else procs s p)\<rparr>)"
  using assms(2)
proof (induction n)
  case 0
  then show ?case by (simp add: skipM_def retM_def)
next
  case (Suc n)
  let ?ps = "\<lambda>n p. if p < n then wake ch (cur s) (procs s) p else procs s p"
  have "cur s \<noteq> Some n \<longrightarrow> L_proc n \<notin> held s"
    using assms(1) Suc.prems by (simp add: no_proc_lock_def)
  then have "wakeup_one ch n env (s\<lparr>procs := ?ps n\<rparr>) =
      Done () (s\<lparr>procs := (?ps n)(n := wake ch (cur s) (?ps n) n)\<rparr>)"
    using Suc.prems by (subst wakeup_one_run) simp_all
  moreover have "(?ps n)(n := wake ch (cur s) (?ps n) n) = ?ps (Suc n)"
    by (auto simp: fun_eq_iff less_Suc_eq wake_def)
  ultimately show ?case
    using Suc by (simp add: eachM_append seqM_def bindM_def skipM_def retM_def)
qed

lemma wakeup_run [run_simps]:
  "no_proc_lock s \<Longrightarrow> wakeup ch env s = Done () (s\<lparr>procs := wake ch (cur s) (procs s)\<rparr>)"
proof -
  assume "no_proc_lock s"
  moreover have "(\<lambda>p. if p < NPROC then wake ch (cur s) (procs s) p else procs s p) =
      wake ch (cur s) (procs s)"
    by (auto simp: wake_def)
  ultimately show ?thesis
    unfolding wakeup_def wakeup_one_def [symmetric] by (simp add: wakeup_upto)
qed

lemma wp_wakeup [wp_simps]:
  "no_proc_lock s \<Longrightarrow>
    wp env (wakeup ch) Q s = Q () (s\<lparr>procs := wake ch (cur s) (procs s)\<rparr>)"
  by (simp add: wp_def wakeup_run)

lemma kill_run:
  assumes "\<forall>p<NPROC. L_proc p \<notin> held s"
  shows "kill pid env s =
    (case find (\<lambda>p. p_pid (procs s p) = pid) [0..<NPROC] of
       None \<Rightarrow> Done False s
     | Some p \<Rightarrow> Done True (s\<lparr>procs := (procs s)(p := (procs s p)\<lparr>p_killed := True,
         p_state := if p_state (procs s p) = SLEEPING then RUNNABLE else p_state (procs s p)\<rparr>)\<rparr>))"
proof -
  let ?body = "\<lambda>p. seqM (acquire (L_proc p))
       (ifM (\<lambda>s. p_pid (procs s p) = pid)
         (seqM (doM [
            upd_proc p (p_killed_update (\<lambda>_. True)),
            ifM (\<lambda>s. p_state (procs s p) = SLEEPING)
              (upd_proc p (p_state_update (\<lambda>_. RUNNABLE)))
              skipM,
            release (L_proc p)])
           (retM (Some True)))
         (seqM (release (L_proc p)) (retM None)))"
  let ?upd = "\<lambda>p. s\<lparr>procs := (procs s)(p := (procs s p)\<lparr>p_killed := True,
         p_state := if p_state (procs s p) = SLEEPING then RUNNABLE else p_state (procs s p)\<rparr>)\<rparr>"
  have "forM [0..<NPROC] ?body env s =
      (case find (\<lambda>p. p_pid (procs s p) = pid) [0..<NPROC] of
        None \<Rightarrow> Done None s | Some p \<Rightarrow> Done (Some True) (?upd p))"
    by (rule forM_find) (use assms in \<open>auto simp: run_simps\<close>)
  then show ?thesis
    unfolding kill_def by (simp add: bindM_def retM_def split: option.splits)
qed

subsection \<open>sleep\<close>

text \<open>The state in which \<open>sleep(ch, lk)\<close> hands the processor over.\<close>

definition asleep :: "chan \<Rightarrow> nat \<Rightarrow> 'x kbase_scheme \<Rightarrow> 'x kbase_scheme" where
  "asleep ch p s = s\<lparr>held := {L_proc p},
     procs := (procs s)(p := (procs s p)\<lparr>p_chan := Some ch, p_state := SLEEPING\<rparr>)\<rparr>"

definition awake :: "lockid \<Rightarrow> nat \<Rightarrow> 'x kbase_scheme \<Rightarrow> 'x kbase_scheme" where
  "awake lk p u = u\<lparr>procs := (procs u)(p := (procs u p)\<lparr>p_chan := None\<rparr>),
     held := insert lk (held u - {L_proc p})\<rparr>"

lemma wp_sched:
  assumes "cur s = Some p" "held s = {L_proc p}" "p_state (procs s p) \<noteq> RUNNING"
  shows "wp env sched Q s \<longleftrightarrow>
    cur (env s) = Some p \<and> p_state (procs (env s) p) = RUNNING \<and> Q () (env s)"
  using assms by (simp add: sched_def wp_simps)

lemma wp_sleep:
  assumes "cur s = Some p" "held s = {lk}" "lk \<noteq> L_proc p"
  shows "wp env (sleep ch lk) Q s \<longleftrightarrow>
    (let u = env (asleep ch p s) in
     cur u = Some p \<and> p_state (procs u p) = RUNNING \<and> L_proc p \<in> held u \<and> lk \<notin> held u \<and>
     Q () (awake lk p u))"
proof -
  have h: "{L_proc p, lk} - {lk} = {L_proc p}" using assms(3) by auto
  have enter: "wp env (sleep ch lk) Q s = wp env (doM [sched,
      upd_proc p (p_chan_update (\<lambda>_. None)), release (L_proc p), acquire lk]) Q (asleep ch p s)"
    using assms by (simp add: sleep_def wp_simps h asleep_def)
  have t: "cur (asleep ch p s) = Some p" "held (asleep ch p s) = {L_proc p}"
      "p_state (procs (asleep ch p s) p) \<noteq> RUNNING"
    using assms by (simp_all add: asleep_def)
  show ?thesis
    unfolding enter using assms(3) by (simp add: wp_simps wp_sched [OF t] awake_def Let_def)
qed

text \<open>A thread that sleeps while it holds a second spin lock panics.\<close>

lemma sleep_with_other_lock:
  assumes "cur s = Some p" "{lk, l} \<subseteq> held s" "l \<noteq> lk" "L_proc p \<notin> held s"
  shows "sleep ch lk env s = Panic ''sched locks''"
proof -
  define H where "H = insert (L_proc p) (held s) - {lk}"
  define t where "t = s\<lparr>held := H,
    procs := (procs s)(p := (procs s p)\<lparr>p_chan := Some ch, p_state := SLEEPING\<rparr>)\<rparr>"
  let ?rest = "doM [upd_proc p (p_chan_update (\<lambda>_. None)), release (L_proc p), acquire lk]"
  have lk: "lk \<in> held s" "L_proc p \<notin> held s" using assms by auto
  have "l \<in> H" "l \<noteq> L_proc p" "L_proc p \<in> H" using assms by (auto simp: H_def)
  then have t: "cur t = Some p" "L_proc p \<in> held t" "held t \<noteq> {L_proc p}"
    using assms(1) by (auto simp: t_def)
  have "sleep ch lk env s = seqM sched ?rest env t"
    using lk assms(1) by (simp add: sleep_def run_simps t_def H_def)
  also have "\<dots> = Panic ''sched locks''"
    using t by (simp add: sched_def run_simps)
  finally show ?thesis .
qed

subsection \<open>Sleep locks\<close>

lemma sleeplock_collapse: "k\<lparr>sl_locked := a, sl_pid := b\<rparr> = \<lparr>sl_locked = a, sl_pid = b\<rparr>"
  by (cases k) simp

lemma wp_acquiresleep_free:
  assumes "\<not> sl_locked (slocks s l)" "L_sleep l \<notin> held s" "cur s = Some p"
  shows "wp env (acquiresleep l) Q s =
    Q () (s\<lparr>slocks := (slocks s)(l := \<lparr>sl_locked = True, sl_pid = p_pid (procs s p)\<rparr>)\<rparr>)"
  using assms by (simp add: acquiresleep_def wp_simps wp_whileM_False sleeplock_collapse)

lemma wp_releasesleep:
  assumes "L_sleep l \<notin> held s" "no_proc_lock s"
  shows "wp env (releasesleep l) Q s =
    Q () (s\<lparr>slocks := (slocks s)(l := \<lparr>sl_locked = False, sl_pid = 0\<rparr>),
           procs := wake (Ch_sleeplock l) (cur s) (procs s)\<rparr>)"
proof -
  have "no_proc_lock (s\<lparr>held := insert (L_sleep l) (held s), slocks := S\<rparr>)" for S
    using assms(2) by (simp add: no_proc_lock_def)
  then show ?thesis using assms(1) by (simp add: releasesleep_def wp_simps sleeplock_collapse)
qed

lemma wp_holdingsleep:
  assumes "L_sleep l \<notin> held s" "cur s = Some p"
  shows "wp env (holdingsleep l) Q s =
    Q (sl_locked (slocks s l) \<and> sl_pid (slocks s l) = p_pid (procs s p)) s"
  using assms by (simp add: holdingsleep_def wp_simps)

end
