(* ===== verification/Kalloc.thy ===== *)
theory Kalloc
  imports Sched
begin

text \<open>
  The physical page allocator, \<^verbatim>\<open>kernel/kalloc.c\<close>. The free list is threaded through the
  free pages themselves: the first eight bytes of a free page hold the address of the next one.
  The abstraction is the list of free pages; \<open>kfree\<close> and \<open>kalloc\<close> push to and pop from it.
\<close>

section \<open>State and operations\<close>

record kmem_state = kbase +
  mem :: memory
  freelist :: u64
  kernel_end :: u64   \<comment> \<open>the address of \<open>end[]\<close>, where the kernel image stops\<close>

text \<open>The allocator's state before \<open>kinit\<close>, on a memory \<open>m\<close> with the kernel ending at \<open>e\<close>.\<close>

definition boot_kmem :: "memory \<Rightarrow> u64 \<Rightarrow> kmem_state" where
  "boot_kmem m e = kbase.extend zero_kbase (kmem_state.fields m 0 e)"

definition kfree :: "u64 \<Rightarrow> ('x kmem_state_scheme, unit) km" where
  "kfree pa = doM [
     panic_ifM (\<lambda>s. pa mod PGSIZE \<noteq> 0 \<or> pa < kernel_end s \<or> pa \<ge> PHYSTOP) ''kfree'',
     modM (\<lambda>s. s\<lparr>mem := memset (mem s) pa 1 4096\<rparr>),
     acquire L_kmem,
     modM (\<lambda>s. s\<lparr>mem := store64 (mem s) pa (freelist s)\<rparr>),
     modM (\<lambda>s. s\<lparr>freelist := pa\<rparr>),
     release L_kmem]"

definition kalloc :: "('x kmem_state_scheme, u64) km" where
  "kalloc =
     seqM (acquire L_kmem)
     (bindM (getM freelist) (\<lambda>r.
      seqM (whenM (r \<noteq> 0) (modM (\<lambda>s. s\<lparr>freelist := load64 (mem s) r\<rparr>)))
     (seqM (release L_kmem)
     (seqM (whenM (r \<noteq> 0) (modM (\<lambda>s. s\<lparr>mem := memset (mem s) r 5 4096\<rparr>)))
     (retM r)))))"

definition freerange :: "u64 \<Rightarrow> u64 \<Rightarrow> ('x kmem_state_scheme, unit) km" where
  "freerange pa_start pa_end =
     loopM (\<lambda>p. if p + PGSIZE \<le> pa_end
                then seqM (kfree p) (retM (Inl (p + PGSIZE)))
                else retM (Inr ()))
       (PGROUNDUP pa_start)"

definition kinit :: "('x kmem_state_scheme, unit) km" where
  "kinit = bindM (getM kernel_end) (\<lambda>e. freerange e PHYSTOP)"

section \<open>Pages\<close>

definition aligned :: "u64 \<Rightarrow> bool" where
  "aligned a \<longleftrightarrow> a mod PGSIZE = 0"

definition in_page :: "u64 \<Rightarrow> u64 \<Rightarrow> bool" where
  "in_page p x \<longleftrightarrow> unat (x - p) < 4096"

definition page_ok :: "u64 \<Rightarrow> u64 \<Rightarrow> bool" where
  "page_ok e p \<longleftrightarrow> aligned p \<and> e \<le> p \<and> p < PHYSTOP \<and> p \<noteq> 0"

lemma aligned_unat: "aligned a \<longleftrightarrow> unat a mod 4096 = 0"
  by (simp add: aligned_def word_unat_eq_iff unat_mod)

lemma aligned_room:
  assumes "aligned p" "i < 4096"
  shows "unat (p + of_nat i) = unat p + i"
proof (rule unat_add_small)
  have "4096 dvd unat p" using assms(1) by (simp add: aligned_unat dvd_eq_mod_eq_0)
  then obtain k where k: "unat p = 4096 * k" by blast
  then have "4096 * k < 4096 * 2 ^ 52" using unat_u64 [of p] by simp
  then have "k < 2 ^ 52" by simp
  then have "unat p + 4096 \<le> 4096 * 2 ^ 52" using k by simp
  then show "unat p + i < 2 ^ 64" using assms(2) by simp
qed

lemma PGROUNDDOWN_in_page:
  assumes "aligned p" "i < 4096"
  shows "PGROUNDDOWN (p + of_nat i) = p"
proof -
  have "4096 dvd unat p" using assms(1) by (simp add: aligned_unat dvd_eq_mod_eq_0)
  then obtain k where k: "unat p = 4096 * k" by blast
  have "(4096 * k + i) div 4096 = k" using assms(2) by simp
  then have "unat (PGROUNDDOWN (p + of_nat i)) = unat p"
    using k assms by (simp add: unat_PGROUNDDOWN aligned_room)
  then show ?thesis by (simp add: word_unat_eq_iff)
qed

lemma pages_disjoint:
  assumes "aligned p" "aligned q" "p \<noteq> q" "n \<le> 4096" "k \<le> 4096"
  shows "disjoint_range p n q k"
  unfolding disjoint_range_def
  using assms PGROUNDDOWN_in_page by (metis le_less_trans not_less)

lemma in_page_unique:
  assumes "aligned p" "aligned q" "in_page p x" "in_page q x"
  shows "p = q"
proof -
  have "x = p + of_nat (unat (x - p))" "x = q + of_nat (unat (x - q))" by simp_all
  then show ?thesis using assms PGROUNDDOWN_in_page unfolding in_page_def by metis
qed

section \<open>The free list\<close>

fun chain :: "memory \<Rightarrow> u64 \<Rightarrow> u64 list \<Rightarrow> bool" where
  "chain m h [] \<longleftrightarrow> h = 0"
| "chain m h (p # ps) \<longleftrightarrow> h = p \<and> p \<noteq> 0 \<and> chain m (load64 m p) ps"

definition free_pages :: "'x kmem_state_scheme \<Rightarrow> u64 list \<Rightarrow> bool" where
  "free_pages s ps \<longleftrightarrow> chain (mem s) (freelist s) ps \<and> distinct ps \<and>
     (\<forall>p\<in>set ps. page_ok (kernel_end s) p)"

lemma chain_cong:
  "(\<And>p. p \<in> set ps \<Longrightarrow> load64 m' p = load64 m p) \<Longrightarrow> chain m' h ps = chain m h ps"
  by (induction ps arbitrary: h) auto

lemma chain_unique: "chain m h ps \<Longrightarrow> chain m h qs \<Longrightarrow> ps = qs"
proof (induction ps arbitrary: h qs)
  case Nil
  then show ?case by (cases qs) auto
next
  case (Cons p ps)
  then show ?case by (cases qs) auto
qed

lemma free_pages_unique: "free_pages s ps \<Longrightarrow> free_pages s qs \<Longrightarrow> ps = qs"
  by (auto simp: free_pages_def intro: chain_unique)

lemma load64_store64_page:
  "aligned p \<Longrightarrow> aligned q \<Longrightarrow> p \<noteq> q \<Longrightarrow> load64 (store64 m q w) p = load64 m p"
  by (simp add: load64_store64_other pages_disjoint)

lemma load64_memset_page:
  "aligned p \<Longrightarrow> aligned q \<Longrightarrow> p \<noteq> q \<Longrightarrow> load64 (memset m q c 4096) p = load64 m p"
  by (simp add: memset_load64 pages_disjoint)

lemma kfree_run:
  assumes "L_kmem \<notin> held s"
  shows "kfree pa env s =
    (if pa mod PGSIZE \<noteq> 0 \<or> pa < kernel_end s \<or> pa \<ge> PHYSTOP then Panic ''kfree''
     else Done () (s\<lparr>mem := store64 (memset (mem s) pa 1 4096) pa (freelist s), freelist := pa\<rparr>))"
  using assms by (simp add: kfree_def run_simps)

lemma kalloc_run:
  assumes "L_kmem \<notin> held s"
  shows "kalloc env s =
    (if freelist s = 0 then Done 0 s
     else Done (freelist s) (s\<lparr>freelist := load64 (mem s) (freelist s),
       mem := memset (mem s) (freelist s) 5 4096\<rparr>))"
  using assms by (simp add: kalloc_def run_simps)

lemma wp_kfree [wp_simps]:
  "L_kmem \<notin> held s \<Longrightarrow> wp env (kfree pa) Q s \<longleftrightarrow>
     pa mod PGSIZE = 0 \<and> kernel_end s \<le> pa \<and> pa < PHYSTOP \<and>
     Q () (s\<lparr>mem := store64 (memset (mem s) pa 1 4096) pa (freelist s), freelist := pa\<rparr>)"
  by (auto simp: wp_def kfree_run not_less not_le)

lemma wp_kalloc [wp_simps]:
  "L_kmem \<notin> held s \<Longrightarrow> wp env kalloc Q s =
     (if freelist s = 0 then Q 0 s
      else Q (freelist s) (s\<lparr>freelist := load64 (mem s) (freelist s),
        mem := memset (mem s) (freelist s) 5 4096\<rparr>))"
  by (simp add: wp_def kalloc_run)

lemma free_pages_kfree:
  assumes "free_pages s ps" "page_ok (kernel_end s) pa" "pa \<notin> set ps"
  shows "free_pages (s\<lparr>mem := store64 (memset (mem s) pa 1 4096) pa (freelist s), freelist := pa\<rparr>)
    (pa # ps)"
proof -
  have "chain (store64 (memset (mem s) pa 1 4096) pa (freelist s)) (freelist s) ps =
      chain (mem s) (freelist s) ps"
  proof (rule chain_cong)
    fix p
    assume "p \<in> set ps"
    then have "aligned p" "aligned pa" "p \<noteq> pa" using assms by (auto simp: free_pages_def page_ok_def)
    then show "load64 (store64 (memset (mem s) pa 1 4096) pa (freelist s)) p = load64 (mem s) p"
      by (simp add: load64_store64_page load64_memset_page)
  qed
  with assms show ?thesis
    by (auto simp: free_pages_def load64_store64_same page_ok_def)
qed

lemma free_pages_kalloc:
  assumes "free_pages s (p # ps)"
  shows "free_pages (s\<lparr>freelist := load64 (mem s) p, mem := memset (mem s) p c 4096\<rparr>) ps"
proof -
  have "chain (memset (mem s) p c 4096) (load64 (mem s) p) ps = chain (mem s) (load64 (mem s) p) ps"
  proof (rule chain_cong)
    fix q
    assume "q \<in> set ps"
    then have "aligned p" "aligned q" "q \<noteq> p" using assms by (auto simp: free_pages_def page_ok_def)
    then show "load64 (memset (mem s) p c 4096) q = load64 (mem s) q" by (simp add: load64_memset_page)
  qed
  with assms show ?thesis by (auto simp: free_pages_def)
qed

lemma store64_apply: "store64 m a w x = (if unat (x - a) < 8 then le_bytes 8 w ! unat (x - a) else m x)"
  by (simp add: store64_def store_bytes_def)

lemma kfree_frame:
  "\<not> in_page pa x \<Longrightarrow> store64 (memset m pa 1 4096) pa w x = m x"
  by (auto simp: store64_apply memset_apply in_page_def)

lemma memset_page: "memset m p c 4096 x = (if in_page p x then c else m x)"
  by (simp add: memset_apply in_page_def)

section \<open>The interface\<close>

text \<open>
  What the rest of the kernel relies on: \<open>free\<close> describes the pages that are not in use,
  allocation hands out a page of them and leaves every byte outside it alone, and giving a page
  back makes it available again.
\<close>

locale page_allocator =
  fixes free :: "'s \<Rightarrow> u64 list \<Rightarrow> bool"
    and usable :: "'s \<Rightarrow> u64 \<Rightarrow> bool"
    and ready :: "'s \<Rightarrow> bool"
    and byte_at :: "'s \<Rightarrow> u64 \<Rightarrow> u8"
    and alloc :: "('s, u64) km"
    and dealloc :: "u64 \<Rightarrow> ('s, unit) km"
  assumes free_usable: "free s ps \<Longrightarrow> distinct ps \<and> 0 \<notin> set ps \<and> (\<forall>p\<in>set ps. usable s p)"
    and alloc_some: "free s (p # ps) \<Longrightarrow> ready s \<Longrightarrow>
      wp env alloc (\<lambda>r t. r = p \<and> free t ps \<and> ready t \<and> usable t = usable s \<and>
        (\<forall>x. \<not> in_page p x \<longrightarrow> byte_at t x = byte_at s x)) s"
    and alloc_none: "free s [] \<Longrightarrow> ready s \<Longrightarrow> alloc env s = Done 0 s"
    and dealloc_usable: "free s ps \<Longrightarrow> ready s \<Longrightarrow> usable s p \<Longrightarrow> p \<notin> set ps \<Longrightarrow>
      wp env (dealloc p) (\<lambda>_ t. free t (p # ps) \<and> ready t \<and> usable t = usable s \<and>
        (\<forall>x. \<not> in_page p x \<longrightarrow> byte_at t x = byte_at s x)) s"
begin

lemma alloc_result:
  assumes "free s ps" "ready s"
  shows "wp env alloc (\<lambda>r t. (r = 0 \<longleftrightarrow> ps = []) \<and> (r \<noteq> 0 \<longrightarrow> ps = r # tl ps) \<and> free t (tl ps)) s"
proof (cases ps)
  case Nil
  then show ?thesis using alloc_none [of s] assms by (simp add: wp_iff)
next
  case (Cons p qs)
  have "p \<noteq> 0" using free_usable [OF assms(1)] Cons by auto
  with Cons show ?thesis using alloc_some [of s p qs env] assms by (auto elim: wp_conseq)
qed

lemma two_allocs_differ:
  assumes "free s (p # q # ps)" "ready s"
  shows "wp env (bindM alloc (\<lambda>a. bindM alloc (\<lambda>b. retM (a, b))))
    (\<lambda>(a, b) t. a \<noteq> b \<and> free t ps) s"
proof -
  have pq: "p \<noteq> q" using free_usable [OF assms(1)] by auto
  have "wp env alloc (\<lambda>b t. p \<noteq> b \<and> free t ps) u" if "free u (q # ps)" "ready u" for u
    using alloc_some [OF that, of env] pq by (auto elim: wp_conseq)
  then show ?thesis
    using alloc_some [OF assms, of env] by (auto simp: wp_simps elim!: wp_conseq)
qed

lemma alloc_dealloc_restores:
  assumes "free s (p # ps)" "ready s"
  shows "wp env (bindM alloc dealloc)
    (\<lambda>_ t. free t (p # ps) \<and> (\<forall>x. \<not> in_page p x \<longrightarrow> byte_at t x = byte_at s x)) s"
proof -
  have p: "usable s p" "p \<notin> set ps" using free_usable [OF assms(1)] by auto
  have "wp env (dealloc p)
      (\<lambda>_ t. free t (p # ps) \<and> (\<forall>x. \<not> in_page p x \<longrightarrow> byte_at t x = byte_at s x)) u"
    if "free u ps" "ready u" "usable u = usable s"
      "\<forall>x. \<not> in_page p x \<longrightarrow> byte_at u x = byte_at s x" for u
    using dealloc_usable [of u ps p env] that p by (auto elim: wp_conseq)
  then show ?thesis
    using alloc_some [OF assms, of env] by (auto simp: wp_simps elim!: wp_conseq)
qed

end

interpretation frames: page_allocator free_pages "\<lambda>s. page_ok (kernel_end s)"
  "\<lambda>s. L_kmem \<notin> held s" mem kalloc kfree
proof unfold_locales
  fix s :: "'a kmem_state_scheme" and ps
  show "free_pages s ps \<Longrightarrow> distinct ps \<and> 0 \<notin> set ps \<and> (\<forall>p\<in>set ps. page_ok (kernel_end s) p)"
    by (auto simp: free_pages_def page_ok_def)
next
  fix s :: "'a kmem_state_scheme" and p ps env
  assume a: "free_pages s (p # ps)" "L_kmem \<notin> held s"
  have "freelist s = p" "p \<noteq> 0" using a by (auto simp: free_pages_def)
  then show "wp env kalloc (\<lambda>r t. r = p \<and> free_pages t ps \<and> L_kmem \<notin> held t \<and>
      page_ok (kernel_end t) = page_ok (kernel_end s) \<and>
      (\<forall>x. \<not> in_page p x \<longrightarrow> mem t x = mem s x)) s"
    using a free_pages_kalloc [OF a(1)] by (simp add: wp_def kalloc_run memset_page)
next
  fix s :: "'a kmem_state_scheme" and env
  show "free_pages s [] \<Longrightarrow> L_kmem \<notin> held s \<Longrightarrow> kalloc env s = Done 0 s"
    by (simp add: kalloc_run free_pages_def)
next
  fix s :: "'a kmem_state_scheme" and ps p env
  assume a: "free_pages s ps" "L_kmem \<notin> held s" "page_ok (kernel_end s) p" "p \<notin> set ps"
  then have "p mod PGSIZE = 0" "\<not> p < kernel_end s" "\<not> p \<ge> PHYSTOP"
    by (auto simp: page_ok_def aligned_def)
  with a show "wp env (kfree p) (\<lambda>_ t. free_pages t (p # ps) \<and> L_kmem \<notin> held t \<and>
      page_ok (kernel_end t) = page_ok (kernel_end s) \<and>
      (\<forall>x. \<not> in_page p x \<longrightarrow> mem t x = mem s x)) s"
    using free_pages_kfree [OF a(1,3,4)] by (simp add: wp_def kfree_run kfree_frame)
qed

section \<open>Initialisation\<close>

lemma aligned_next:
  assumes "aligned p" "aligned q" "p < PHYSTOP"
  shows "q < p + PGSIZE \<longleftrightarrow> q < p \<or> q = p" and "aligned (p + PGSIZE)"
    and "unat (p + PGSIZE) = unat p + 4096" and "p + PGSIZE \<le> PHYSTOP"
proof -
  obtain a b where ab: "unat p = 4096 * a" "unat q = 4096 * b"
    using assms(1,2) by (auto simp: aligned_unat elim!: dvdE [OF mod_0_imp_dvd])
  have lt: "unat p < 2281701376" using assms(3) by (simp add: word_less_nat_alt)
  then show nxt: "unat (p + PGSIZE) = unat p + 4096"
    using unat_add_small [of p 4096] by simp
  then show "aligned (p + PGSIZE)" using ab by (simp add: aligned_unat)
  have "4096 * b < 4096 * a + 4096 \<longleftrightarrow> b \<le> a" by linarith
  then show "q < p + PGSIZE \<longleftrightarrow> q < p \<or> q = p"
    using ab nxt by (auto simp: word_less_nat_alt word_unat_eq_iff)
  have "a < 557056" using ab lt by simp
  then show "p + PGSIZE \<le> PHYSTOP" using ab nxt by (simp add: word_le_nat_alt)
qed

definition freed_upto :: "u64 \<Rightarrow> u64 \<Rightarrow> 'x kmem_state_scheme \<Rightarrow> bool" where
  "freed_upto e p t \<longleftrightarrow> aligned p \<and> e \<le> p \<and> p \<le> PHYSTOP \<and> kernel_end t = e \<and> L_kmem \<notin> held t \<and>
     (\<exists>ps. free_pages t ps \<and> set ps = {q. page_ok e q \<and> q < p})"

lemma freed_upto_step:
  assumes "freed_upto e p t" "p < PHYSTOP" "e \<noteq> 0"
  shows "wp env (kfree p) (\<lambda>_. freed_upto e (p + PGSIZE)) t"
proof -
  from assms(1) obtain ps where ps: "free_pages t ps" "set ps = {q. page_ok e q \<and> q < p}"
    and t: "aligned p" "e \<le> p" "kernel_end t = e" "L_kmem \<notin> held t"
    by (auto simp: freed_upto_def)
  have p: "page_ok e p" using t assms(2,3) by (auto simp: page_ok_def)
  have e: "e \<le> p + PGSIZE"
    using t(2) aligned_next(3) [OF t(1,1) assms(2)] by (simp add: word_le_nat_alt)
  have "set (p # ps) = {q. page_ok e q \<and> q < p + PGSIZE}"
    using ps(2) p aligned_next(1) [OF t(1) _ assms(2)] by (auto simp: page_ok_def)
  moreover have "free_pages (t\<lparr>mem := store64 (memset (mem t) p 1 4096) p (freelist t),
      freelist := p\<rparr>) (p # ps)"
    using ps p t(3) by (intro free_pages_kfree) auto
  moreover have "p mod PGSIZE = 0" "\<not> p < kernel_end t" "\<not> PHYSTOP \<le> p"
    using t assms(2) by (auto simp: aligned_def)
  ultimately show ?thesis
    unfolding wp_def kfree_run [OF t(4)]
    using t e aligned_next(2,4) [OF t(1,1) assms(2)] by (auto simp: freed_upto_def)
qed

lemma PGROUNDUP_bounds:
  assumes "e \<le> PHYSTOP"
  shows "aligned (PGROUNDUP e)" "e \<le> PGROUNDUP e" "PGROUNDUP e \<le> PHYSTOP"
    "aligned q \<Longrightarrow> q < PGROUNDUP e \<Longrightarrow> q < e"
proof -
  have e: "unat e \<le> 2281701376" using assms by (simp add: word_le_nat_alt)
  define k where "k = (unat e + 4095) div 4096"
  have k: "unat (PGROUNDUP e) = 4096 * k" using e by (subst unat_PGROUNDUP) (simp_all add: k_def)
  have lo: "unat e \<le> 4096 * k" and hi: "4096 * k < unat e + 4096" unfolding k_def by linarith+
  show "aligned (PGROUNDUP e)" using k by (simp add: aligned_unat)
  show "e \<le> PGROUNDUP e" using k lo by (simp add: word_le_nat_alt)
  have "k \<le> 557056" using hi e by linarith
  then show "PGROUNDUP e \<le> PHYSTOP" using k by (simp add: word_le_nat_alt)
  assume "aligned q" "q < PGROUNDUP e"
  then obtain b where b: "unat q = 4096 * b" "4096 * b < 4096 * k"
    using k by (auto simp: aligned_unat word_less_nat_alt elim!: dvdE [OF mod_0_imp_dvd])
  then have "4096 * b + 4096 \<le> 4096 * k" by simp
  then have "unat q < unat e" using b(1) hi by linarith
  then show "q < e" by (simp add: word_less_nat_alt)
qed

section \<open>Properties\<close>

text \<open>
  C25. \<open>kinit\<close> puts every page between the end of the kernel and \<open>PHYSTOP\<close> on the free list,
  each once and no other, and returns.
\<close>

theorem kinit_frees_all_pages:
  assumes "kernel_end s \<noteq> 0" "kernel_end s \<le> PHYSTOP" "freelist s = 0" "L_kmem \<notin> held s"
  shows "wp env kinit (\<lambda>_ t. \<exists>ps. free_pages t ps \<and> distinct ps \<and>
    set ps = {p. aligned p \<and> kernel_end s \<le> p \<and> p < PHYSTOP}) s"
proof -
  define e where "e = kernel_end s"
  have e: "e \<noteq> 0" "e \<le> PHYSTOP" using assms by (simp_all add: e_def)
  have ok: "page_ok e = (\<lambda>p. aligned p \<and> e \<le> p \<and> p < PHYSTOP)"
    using e by (auto simp: page_ok_def fun_eq_iff)
  have "wp env (freerange e PHYSTOP) (\<lambda>_. freed_upto e PHYSTOP) s"
    unfolding freerange_def
  proof (rule wp_loop [where I = "freed_upto e" and \<mu> = "\<lambda>p _. 2281701376 - unat p"])
    have "free_pages s []" using assms by (simp add: free_pages_def)
    moreover have "\<not> (page_ok e q \<and> q < PGROUNDUP e)" for q
      using PGROUNDUP_bounds(4) [OF e(2), of q] by (auto simp: page_ok_def)
    ultimately show "freed_upto e (PGROUNDUP e) s"
      using assms PGROUNDUP_bounds(1-3) [OF e(2)]
      by (auto simp: freed_upto_def e_def [symmetric])
  next
    fix p and t :: "'a kmem_state_scheme"
    assume inv: "freed_upto e p t"
    show "wp env (if p + PGSIZE \<le> PHYSTOP then seqM (kfree p) (retM (Inl (p + PGSIZE)))
        else retM (Inr ())) (\<lambda>r u. case r of Inl k \<Rightarrow> freed_upto e k u \<and>
        2281701376 - unat k < 2281701376 - unat p | Inr x \<Rightarrow> freed_upto e PHYSTOP u) t"
    proof (cases "p = PHYSTOP")
      case True
      then show ?thesis using inv by (simp add: wp_simps)
    next
      case False
      moreover have "aligned p" "p \<le> PHYSTOP" using inv unfolding freed_upto_def by blast+
      ultimately have p: "aligned p" "p < PHYSTOP" by simp_all
      from p(2) have "unat p < 2281701376" by (simp add: word_less_nat_alt)
      then have "2281701376 - unat (p + PGSIZE) < 2281701376 - unat p"
        using aligned_next(3) [OF p(1,1,2)] by simp
      then show ?thesis
        using freed_upto_step [OF inv p(2) e(1), of env] aligned_next(4) [OF p(1,1,2)]
        by (simp add: wp_simps)
    qed
  qed
  then show ?thesis
    unfolding kinit_def wp_bind wp_get e_def [symmetric]
    by (rule wp_conseq) (auto simp: freed_upto_def free_pages_def ok)
qed

theorem kinit_frees_all_pages_witness:
  "wp id kinit (\<lambda>_ t. \<exists>ps. free_pages t ps \<and> distinct ps \<and>
    set ps = {p. aligned p \<and> 0x87FFD123 \<le> p \<and> p < PHYSTOP}) (boot_kmem (\<lambda>_. 0) 0x87FFD123)"
  using kinit_frees_all_pages [of "boot_kmem (\<lambda>_. 0) 0x87FFD123" id]
  by (simp add: boot_kmem_def kbase.defs kmem_state.defs zero_kbase_def)

text \<open>
  C26. \<open>kalloc\<close> on a well-formed free list: it returns null exactly when no page is free, leaving
  the state as it was; otherwise it returns the first free page, takes it (and nothing else) off
  the list, fills it with 5s and leaves every byte outside it alone. It never panics.
\<close>

theorem kalloc_correct:
  assumes "free_pages s ps" "L_kmem \<notin> held s"
  shows "wp env kalloc (\<lambda>r t. case ps of
      [] \<Rightarrow> r = 0 \<and> t = s
    | p # qs \<Rightarrow> r = p \<and> r \<noteq> 0 \<and> page_ok (kernel_end s) r \<and> r \<notin> set qs \<and> free_pages t qs \<and>
        (\<forall>x. mem t x = (if in_page p x then 5 else mem s x)) \<and>
        t\<lparr>mem := mem s, freelist := freelist s\<rparr> = s) s"
proof (cases ps)
  case Nil
  then show ?thesis using assms by (simp add: wp_def kalloc_run free_pages_def)
next
  case (Cons p qs)
  have p: "freelist s = p" "p \<noteq> 0" "page_ok (kernel_end s) p" "p \<notin> set qs"
    using assms(1) Cons by (auto simp: free_pages_def)
  then show ?thesis
    using assms(2) free_pages_kalloc [of s p qs 5] assms(1) Cons
    by (simp add: wp_def kalloc_run memset_page)
qed

text \<open>
  C27. \<open>kfree\<close> panics exactly on an address that is not a page of the allocator's range (misaligned,
  inside the kernel image or above \<open>PHYSTOP\<close>); given a page in use it puts that page at the head
  of the free list, which stays well formed, and changes no byte outside the page.
\<close>

theorem kfree_correct:
  assumes "free_pages s ps" "L_kmem \<notin> held s" "pa \<notin> set ps" "kernel_end s \<noteq> 0"
  shows "kfree pa env s = Panic ''kfree'' \<and> \<not> page_ok (kernel_end s) pa \<or>
    page_ok (kernel_end s) pa \<and> wp env (kfree pa) (\<lambda>_ t. free_pages t (pa # ps) \<and>
      (\<forall>x. \<not> in_page pa x \<longrightarrow> mem t x = mem s x) \<and> t\<lparr>mem := mem s, freelist := freelist s\<rparr> = s) s"
proof (cases "page_ok (kernel_end s) pa")
  case True
  then have "\<not> (pa mod PGSIZE \<noteq> 0 \<or> pa < kernel_end s \<or> pa \<ge> PHYSTOP)"
    by (simp add: page_ok_def aligned_def not_less not_le)
  then show ?thesis
    using True assms(2) free_pages_kfree [OF assms(1) True assms(3)]
    by (auto simp: wp_def kfree_run kfree_frame)
next
  case False
  moreover have "pa < kernel_end s" if "pa = 0" using that assms(4) by (simp add: word_neq_0_conv)
  ultimately have "pa mod PGSIZE \<noteq> 0 \<or> pa < kernel_end s \<or> pa \<ge> PHYSTOP"
    unfolding page_ok_def aligned_def by (metis not_le)
  with False show ?thesis using assms(2) by (simp add: kfree_run)
qed

text \<open>A memory in which two pages are on the free list.\<close>

definition two_free :: kmem_state where
  "two_free = (boot_kmem (store64 (\<lambda>_. 0) 0x87FFE000 0x87FFF000) 0x87FFC123)
     \<lparr>freelist := 0x87FFE000\<rparr>"

lemma free_pages_two_free: "free_pages two_free [0x87FFE000, 0x87FFF000]" "held two_free = {}"
  "kernel_end two_free = 0x87FFC123"
proof -
  have "load64 (store64 (\<lambda>_. 0) 0x87FFE000 0x87FFF000) 0x87FFF000 = load64 (\<lambda>_. 0) 0x87FFF000"
    by (rule load64_store64_page) (simp_all add: aligned_def)
  moreover have "load64 (\<lambda>_. 0) 0x87FFF000 = 0"
    by (simp add: load64_def load_bytes_def of_le_def upt_rec)
  ultimately show "free_pages two_free [0x87FFE000, 0x87FFF000]"
    by (simp add: free_pages_def two_free_def boot_kmem_def kbase.defs kmem_state.defs
        load64_store64_same page_ok_def aligned_def)
  show "held two_free = {}" "kernel_end two_free = 0x87FFC123"
    by (simp_all add: two_free_def boot_kmem_def kbase.defs kmem_state.defs zero_kbase_def)
qed

theorem kalloc_correct_witness:
  "wp id kalloc (\<lambda>r t. r = 0x87FFE000 \<and> free_pages t [0x87FFF000]) two_free"
  using kalloc_correct [OF free_pages_two_free(1), of id] free_pages_two_free(2)
  by (auto elim!: wp_conseq)

theorem kfree_correct_witness:
  "wp id (kfree 0x87FFD000) (\<lambda>_ t. free_pages t [0x87FFD000, 0x87FFE000, 0x87FFF000]) two_free"
  using kfree_correct [OF free_pages_two_free(1), of "0x87FFD000" id]
  by (auto simp: free_pages_two_free page_ok_def aligned_def elim!: wp_conseq)

end
