(* ===== verification/Vm.thy ===== *)
theory Vm
  imports Kalloc
begin

text \<open>
  Page tables and user memory, \<^verbatim>\<open>kernel/vm.c\<close>: \<open>walk\<close> and \<open>mappages\<close> on the three-level
  Sv39 tree of 64-bit entries kept in page memory, the operations on a process's memory, and
  the copies between kernel and user. A kernel buffer that is not in page memory (a disk buffer,
  a pipe, a stack variable) is a list of bytes: \<open>copyout\<close> takes it, \<open>copyin\<close> and
  \<open>copyinstr\<close> return the bytes they wrote to it together with their success.
\<close>

section \<open>State\<close>

record vm_state = kmem_state +
  kernel_pagetable :: u64
  etext :: u64            \<comment> \<open>end of the kernel's code, set by the linker script\<close>
  trampoline :: u64       \<comment> \<open>physical address of \<^verbatim>\<open>trampoline.S\<close>\<close>
  satp :: u64             \<comment> \<open>the hart's page-table register\<close>

definition pte_at :: "u64 \<Rightarrow> 'x kmem_state_scheme \<Rightarrow> u64" where
  "pte_at a s = load64 (mem s) a"

definition set_pte :: "u64 \<Rightarrow> u64 \<Rightarrow> ('x kmem_state_scheme, unit) km" where
  "set_pte a w = modM (\<lambda>s. s\<lparr>mem := store64 (mem s) a w\<rparr>)"

definition zero_page :: "u64 \<Rightarrow> ('x kmem_state_scheme, unit) km" where
  "zero_page p = modM (\<lambda>s. s\<lparr>mem := memset (mem s) p 0 4096\<rparr>)"

text \<open>A load or store through a null pointer faults, and \<open>kerneltrap\<close> panics.\<close>

definition null_fault :: "('s, 'a) km" where
  "null_fault = panicM ''kerneltrap''"

section \<open>Walking and mapping\<close>

fun walk_from :: "nat \<Rightarrow> u64 \<Rightarrow> u64 \<Rightarrow> bool \<Rightarrow> ('x kmem_state_scheme, u64) km" where
  "walk_from 0 pagetable va alloc = retM (pagetable + 8 * PX 0 va)"
| "walk_from (Suc l) pagetable va alloc =
     (let pte = pagetable + 8 * PX (Suc l) va in
      bindM (getM (pte_at pte)) (\<lambda>e.
        if e AND PTE_V \<noteq> 0 then walk_from l (PTE2PA e) va alloc
        else if \<not> alloc then retM 0
        else bindM kalloc (\<lambda>pg.
          if pg = 0 then retM 0
          else seqM (zero_page pg)
              (seqM (set_pte pte (PA2PTE pg OR PTE_V))
              (walk_from l pg va alloc)))))"

definition walk :: "u64 \<Rightarrow> u64 \<Rightarrow> bool \<Rightarrow> ('x kmem_state_scheme, u64) km" where
  "walk pagetable va alloc =
     (if va \<ge> MAXVA then panicM ''walk'' else walk_from 2 pagetable va alloc)"

definition walkaddr :: "u64 \<Rightarrow> u64 \<Rightarrow> ('x kmem_state_scheme, u64) km" where
  "walkaddr pagetable va =
     (if va \<ge> MAXVA then retM 0
      else bindM (walk pagetable va False) (\<lambda>pte.
        if pte = 0 then retM 0
        else bindM (getM (pte_at pte)) (\<lambda>e.
          if e AND PTE_V = 0 then retM 0
          else if e AND PTE_U = 0 then retM 0
          else retM (PTE2PA e))))"

text \<open>
  One round of the \<open>for(;;)\<close> of \<open>mappages\<close>, and the function. \<open>True\<close> is the C result 0,
  \<open>False\<close> is -1.
\<close>

definition mappages_body :: "u64 \<Rightarrow> u64 \<Rightarrow> u64 \<Rightarrow> u64 \<times> u64 \<Rightarrow>
    ('x kmem_state_scheme, u64 \<times> u64 + bool) km" where
  "mappages_body pagetable last_a perm = (\<lambda>(a, pa).
     bindM (walk pagetable a True) (\<lambda>pte.
       if pte = 0 then retM (Inr False)
       else seqM (panic_ifM (\<lambda>s. pte_at pte s AND PTE_V \<noteq> 0) ''mappages: remap'')
           (seqM (set_pte pte (PA2PTE pa OR perm OR PTE_V))
           (retM (if a = last_a then Inr True else Inl (a + PGSIZE, pa + PGSIZE))))))"

definition mappages :: "u64 \<Rightarrow> u64 \<Rightarrow> u64 \<Rightarrow> u64 \<Rightarrow> u64 \<Rightarrow> ('x kmem_state_scheme, bool) km" where
  "mappages pagetable va sz pa perm =
     (if sz = 0 then panicM ''mappages: size''
      else loopM (mappages_body pagetable (PGROUNDDOWN (va + sz - 1)) perm) (PGROUNDDOWN va, pa))"

definition kvmmap :: "u64 \<Rightarrow> u64 \<Rightarrow> u64 \<Rightarrow> u64 \<Rightarrow> u64 \<Rightarrow> ('x kmem_state_scheme, unit) km" where
  "kvmmap kpgtbl va pa sz perm =
     bindM (mappages kpgtbl va sz pa perm) (\<lambda>ok. if ok then skipM else panicM ''kvmmap'')"

section \<open>The kernel's page table\<close>

text \<open>\<open>proc_mapstacks\<close> is in \<^verbatim>\<open>kernel/proc.c\<close>.\<close>

definition proc_mapstacks :: "u64 \<Rightarrow> ('x kmem_state_scheme, unit) km" where
  "proc_mapstacks kpgtbl =
     eachM [0..<NPROC] (\<lambda>p. bindM kalloc (\<lambda>pa.
       if pa = 0 then panicM ''kalloc''
       else kvmmap kpgtbl (KSTACK p) pa PGSIZE (PTE_R OR PTE_W)))"

definition kvmmake :: "('x vm_state_scheme, u64) km" where
  "kvmmake =
     bindM kalloc (\<lambda>kpgtbl. if kpgtbl = 0 then null_fault else
     bindM (getM etext) (\<lambda>et.
     bindM (getM trampoline) (\<lambda>tr.
     seqM (doM [
       zero_page kpgtbl,
       kvmmap kpgtbl UART0 UART0 PGSIZE (PTE_R OR PTE_W),
       kvmmap kpgtbl VIRTIO0 VIRTIO0 PGSIZE (PTE_R OR PTE_W),
       kvmmap kpgtbl PLIC PLIC 0x400000 (PTE_R OR PTE_W),
       kvmmap kpgtbl KERNBASE KERNBASE (et - KERNBASE) (PTE_R OR PTE_X),
       kvmmap kpgtbl et et (PHYSTOP - et) (PTE_R OR PTE_W),
       kvmmap kpgtbl TRAMPOLINE tr PGSIZE (PTE_R OR PTE_X),
       proc_mapstacks kpgtbl])
     (retM kpgtbl))))"

definition kvminit :: "('x vm_state_scheme, unit) km" where
  "kvminit = bindM kvmmake (\<lambda>pt. modM (\<lambda>s. s\<lparr>kernel_pagetable := pt\<rparr>))"

definition MAKE_SATP :: "u64 \<Rightarrow> u64" where
  "MAKE_SATP pagetable = push_bit 60 8 OR drop_bit 12 pagetable"

definition kvminithart :: "('x vm_state_scheme, unit) km" where
  "kvminithart = modM (\<lambda>s. s\<lparr>satp := MAKE_SATP (kernel_pagetable s)\<rparr>)"

section \<open>User memory\<close>

definition uvmunmap_body :: "u64 \<Rightarrow> u64 \<Rightarrow> bool \<Rightarrow> u64 \<Rightarrow> ('x kmem_state_scheme, u64 + unit) km" where
  "uvmunmap_body pagetable end_va do_free = (\<lambda>a.
     if a < end_va then
       bindM (walk pagetable a False) (\<lambda>pte.
         if pte = 0 then panicM ''uvmunmap: walk''
         else bindM (getM (pte_at pte)) (\<lambda>e.
           if e AND PTE_V = 0 then retM (Inl (a + PGSIZE))
           else if PTE_FLAGS e = PTE_V then panicM ''uvmunmap: not a leaf''
           else seqM (whenM do_free (kfree (PTE2PA e)))
               (seqM (set_pte pte 0)
               (retM (Inl (a + PGSIZE))))))
     else retM (Inr ()))"

definition uvmunmap :: "u64 \<Rightarrow> u64 \<Rightarrow> u64 \<Rightarrow> bool \<Rightarrow> ('x kmem_state_scheme, unit) km" where
  "uvmunmap pagetable va npages do_free =
     (if va mod PGSIZE \<noteq> 0 then panicM ''uvmunmap: not aligned''
      else loopM (uvmunmap_body pagetable (va + npages * PGSIZE) do_free) va)"

definition uvmcreate :: "('x kmem_state_scheme, u64) km" where
  "uvmcreate =
     bindM kalloc (\<lambda>pagetable.
       if pagetable = 0 then retM 0
       else seqM (zero_page pagetable) (retM pagetable))"

definition uvminit :: "u64 \<Rightarrow> u8 list \<Rightarrow> ('x kmem_state_scheme, unit) km" where
  "uvminit pagetable src =
     (if length src \<ge> 4096 then panicM ''inituvm: more than a page''
      else bindM kalloc (\<lambda>pg. if pg = 0 then null_fault else
        seqM (zero_page pg)
       (seqM (mappages pagetable 0 PGSIZE pg (PTE_W OR PTE_R OR PTE_X OR PTE_U))
       (modM (\<lambda>s. s\<lparr>mem := store_bytes (mem s) pg src\<rparr>)))))"

text \<open>\<open>int npages\<close>: the page count goes through a 32-bit signed variable.\<close>

definition uvmdealloc :: "u64 \<Rightarrow> u64 \<Rightarrow> u64 \<Rightarrow> ('x kmem_state_scheme, u64) km" where
  "uvmdealloc pagetable oldsz newsz =
     (if newsz \<ge> oldsz then retM oldsz
      else seqM
        (whenM (PGROUNDUP newsz < PGROUNDUP oldsz)
          (let npages = (ucast ((PGROUNDUP oldsz - PGROUNDUP newsz) div PGSIZE) :: u32)
           in uvmunmap pagetable (PGROUNDUP newsz) (scast npages) True))
        (retM newsz))"

definition uvmalloc :: "u64 \<Rightarrow> u64 \<Rightarrow> u64 \<Rightarrow> ('x kmem_state_scheme, u64) km" where
  "uvmalloc pagetable oldsz newsz =
     (if newsz < oldsz then retM oldsz
      else let oldsz = PGROUNDUP oldsz in
        loopM (\<lambda>a.
          if a < newsz then
            bindM kalloc (\<lambda>pg.
              if pg = 0 then seqM (uvmdealloc pagetable a oldsz) (retM (Inr 0))
              else seqM (zero_page pg)
                (bindM (mappages pagetable a PGSIZE pg (PTE_W OR PTE_X OR PTE_R OR PTE_U)) (\<lambda>ok.
                  if ok then retM (Inl (a + PGSIZE))
                  else seqM (kfree pg)
                      (seqM (uvmdealloc pagetable a oldsz)
                      (retM (Inr 0))))))
          else retM (Inr newsz)) oldsz)"

text \<open>
  The recursion of \<open>freewalk\<close> follows the tree of page-table pages; \<open>d\<close> bounds its depth, three
  for a tree built by \<open>walk\<close>. Deeper recursion would be a cycle through the tables.
\<close>

fun freewalk :: "nat \<Rightarrow> u64 \<Rightarrow> ('x kmem_state_scheme, unit) km" where
  "freewalk 0 pagetable = (\<lambda>env s. Diverge)"
| "freewalk (Suc d) pagetable =
     seqM (eachM [0..<512] (\<lambda>i.
       let slot = pagetable + 8 * of_nat i in
       bindM (getM (pte_at slot)) (\<lambda>pte.
         if pte AND PTE_V \<noteq> 0 \<and> pte AND (PTE_R OR PTE_W OR PTE_X) = 0
         then seqM (freewalk d (PTE2PA pte)) (set_pte slot 0)
         else whenM (pte AND PTE_V \<noteq> 0) (panicM ''freewalk: leaf''))))
     (kfree pagetable)"

definition uvmfree :: "u64 \<Rightarrow> u64 \<Rightarrow> ('x kmem_state_scheme, unit) km" where
  "uvmfree pagetable sz = doM [
     whenM (sz > 0) (uvmunmap pagetable 0 (PGROUNDUP sz div PGSIZE) True),
     freewalk 3 pagetable]"

definition uvmcopy :: "u64 \<Rightarrow> u64 \<Rightarrow> u64 \<Rightarrow> ('x kmem_state_scheme, bool) km" where
  "uvmcopy old new sz =
     loopM (\<lambda>i.
       if i < sz then
         bindM (walk old i False) (\<lambda>pte.
           if pte = 0 then panicM ''uvmcopy: pte should exist''
           else bindM (getM (pte_at pte)) (\<lambda>e.
             if e AND PTE_V = 0 then retM (Inl (i + PGSIZE))
             else bindM kalloc (\<lambda>pg.
               if pg = 0 then seqM (uvmunmap new 0 (i div PGSIZE) True) (retM (Inr False))
               else seqM (modM (\<lambda>s. s\<lparr>mem := memmove (mem s) pg (PTE2PA e) 4096\<rparr>))
                 (bindM (mappages new i PGSIZE pg (PTE_FLAGS e)) (\<lambda>ok.
                   if ok then retM (Inl (i + PGSIZE))
                   else seqM (kfree pg)
                       (seqM (uvmunmap new 0 (i div PGSIZE) True)
                       (retM (Inr False))))))))
       else retM (Inr True)) 0"

definition uvmclear :: "u64 \<Rightarrow> u64 \<Rightarrow> ('x kmem_state_scheme, unit) km" where
  "uvmclear pagetable va =
     bindM (walk pagetable va False) (\<lambda>pte.
       if pte = 0 then panicM ''uvmclear''
       else bindM (getM (pte_at pte)) (\<lambda>e. set_pte pte (e AND NOT PTE_U)))"

section \<open>Copies between kernel and user\<close>

text \<open>Each copy is a loop over pages; its body is a definition of its own.\<close>

definition copyout_body :: "u64 \<Rightarrow> u64 \<times> u8 list \<Rightarrow> ('x kmem_state_scheme, u64 \<times> u8 list + bool) km" where
  "copyout_body pagetable = (\<lambda>(dstva, src).
     if length src > 0 then
       let va0 = PGROUNDDOWN dstva in
       bindM (walkaddr pagetable va0) (\<lambda>pa0.
         if pa0 = 0 then retM (Inr False)
         else let n = min (unat (PGSIZE - (dstva - va0))) (length src) in
           seqM (modM (\<lambda>s. s\<lparr>mem := store_bytes (mem s) (pa0 + (dstva - va0)) (take n src)\<rparr>))
           (retM (Inl (va0 + PGSIZE, drop n src))))
     else retM (Inr True))"

definition copyout :: "u64 \<Rightarrow> u64 \<Rightarrow> u8 list \<Rightarrow> ('x kmem_state_scheme, bool) km" where
  "copyout pagetable dstva src = loopM (copyout_body pagetable) (dstva, src)"

definition copyin_body :: "u64 \<Rightarrow> u8 list \<times> u64 \<times> nat \<Rightarrow>
    ('x kmem_state_scheme, u8 list \<times> u64 \<times> nat + u8 list \<times> bool) km" where
  "copyin_body pagetable = (\<lambda>(dst, srcva, len).
     if len > 0 then
       let va0 = PGROUNDDOWN srcva in
       bindM (walkaddr pagetable va0) (\<lambda>pa0.
         if pa0 = 0 then retM (Inr (dst, False))
         else let n = min (unat (PGSIZE - (srcva - va0))) len in
           bindM (getM (\<lambda>s. load_bytes (mem s) (pa0 + (srcva - va0)) n)) (\<lambda>bs.
           retM (Inl (dst @ bs, va0 + PGSIZE, len - n))))
     else retM (Inr (dst, True)))"

definition copyin :: "u64 \<Rightarrow> u64 \<Rightarrow> nat \<Rightarrow> ('x kmem_state_scheme, u8 list \<times> bool) km" where
  "copyin pagetable srcva len = loopM (copyin_body pagetable) ([], srcva, len)"

text \<open>The inner loop of \<open>copyinstr\<close>: the bytes put at \<open>dst\<close> and \<open>got_null\<close>.\<close>

fun copyinstr_page :: "memory \<Rightarrow> u64 \<Rightarrow> nat \<Rightarrow> u8 list \<times> bool" where
  "copyinstr_page m p 0 = ([], False)"
| "copyinstr_page m p (Suc n) =
     (if m p = 0 then ([0], True)
      else let (bs, got_null) = copyinstr_page m (p + 1) n in (m p # bs, got_null))"

definition copyinstr_body :: "u64 \<Rightarrow> u8 list \<times> bool \<times> u64 \<times> nat \<Rightarrow>
    ('x kmem_state_scheme, u8 list \<times> bool \<times> u64 \<times> nat + u8 list \<times> bool) km" where
  "copyinstr_body pagetable = (\<lambda>(dst, got_null, srcva, max_len).
     if \<not> got_null \<and> max_len > 0 then
       let va0 = PGROUNDDOWN srcva in
       bindM (walkaddr pagetable va0) (\<lambda>pa0.
         if pa0 = 0 then retM (Inr (dst, False))
         else let n = min (unat (PGSIZE - (srcva - va0))) max_len in
           bindM (getM (\<lambda>s. copyinstr_page (mem s) (pa0 + (srcva - va0)) n)) (\<lambda>(bs, got).
           retM (Inl (dst @ bs, got, va0 + PGSIZE, max_len - (length bs - (if got then 1 else 0))))))
     else retM (Inr (dst, got_null)))"

definition copyinstr :: "u64 \<Rightarrow> u64 \<Rightarrow> nat \<Rightarrow> ('x kmem_state_scheme, u8 list \<times> bool) km" where
  "copyinstr pagetable srcva max_len = loopM (copyinstr_body pagetable) ([], False, srcva, max_len)"

end
