(* ===== verification/Pagetable.thy ===== *)
theory Pagetable
  imports Vm
begin

text \<open>
  What the page-table code of \<open>Vm\<close> means. The tree of table pages is seen through \<open>node\<close>
  (the table page at a path of indices) and \<open>pte_of\<close> (the leaf entry of a virtual address, 0
  when there is none): an address space is the map \<open>pte_of\<close>. In a well-formed tree each table
  page sits at one path and none of them is free. \<open>walk\<close> grows the tree without changing the
  map, \<open>mappages\<close> and \<open>uvmunmap\<close> update it at the pages of their range, and the copies read and
  write the bytes the map translates to.
\<close>

section \<open>Entries and nodes\<close>

definition ent :: "memory \<Rightarrow> u64 \<Rightarrow> nat \<Rightarrow> u64" where
  "ent m p i = load64 m (p + 8 * of_nat i)"

definition pte_v :: "u64 \<Rightarrow> bool" where
  "pte_v e \<longleftrightarrow> e AND PTE_V \<noteq> 0"

fun node :: "memory \<Rightarrow> u64 \<Rightarrow> nat list \<Rightarrow> u64 option" where
  "node m pt [] = Some pt"
| "node m pt (i # is) = (if pte_v (ent m pt i) then node m (PTE2PA (ent m pt i)) is else None)"

definition path :: "u64 \<Rightarrow> nat list" where
  "path va = [unat (PX 2 va), unat (PX 1 va)]"

definition leaf_slot :: "memory \<Rightarrow> u64 \<Rightarrow> u64 \<Rightarrow> u64 option" where
  "leaf_slot m pt va = map_option (\<lambda>t. t + 8 * PX 0 va) (node m pt (path va))"

definition pte_of :: "memory \<Rightarrow> u64 \<Rightarrow> u64 \<Rightarrow> u64" where
  "pte_of m pt va = (case node m pt (path va) of None \<Rightarrow> 0 | Some t \<Rightarrow> ent m t (unat (PX 0 va)))"

definition good_path :: "nat list \<Rightarrow> bool" where
  "good_path is \<longleftrightarrow> length is \<le> 2 \<and> (\<forall>i\<in>set is. i < 512)"

definition table_pages :: "memory \<Rightarrow> u64 \<Rightarrow> u64 set" where
  "table_pages m pt = {a. \<exists>is. good_path is \<and> node m pt is = Some a}"

definition wf_table :: "memory \<Rightarrow> u64 \<Rightarrow> bool" where
  "wf_table m pt \<longleftrightarrow> (\<forall>a\<in>table_pages m pt. aligned a) \<and>
     (\<forall>is js a. good_path is \<longrightarrow> good_path js \<longrightarrow> node m pt is = Some a \<longrightarrow> node m pt js = Some a \<longrightarrow>
        is = js)"

lemma slot_unat: "of_nat (unat (PX l va)) = PX l va"
  by simp

lemma node_snoc:
  "node m pt (is @ [i]) = (case node m pt is of None \<Rightarrow> None
     | Some a \<Rightarrow> if pte_v (ent m a i) then Some (PTE2PA (ent m a i)) else None)"
  by (induction "is" arbitrary: pt) auto

lemma good_path_snoc: "good_path (is @ [i]) \<longleftrightarrow> good_path is \<and> length is \<le> 1 \<and> i < 512"
  by (auto simp: good_path_def)

lemma good_path_path [simp]: "good_path (path va)"
  by (simp add: good_path_def path_def PX_bound)

lemma slots_disjoint:
  assumes "aligned p" "aligned q" "i < 512" "j < 512" "(p, i) \<noteq> (q, j)"
  shows "disjoint_range (p + 8 * of_nat i) 8 (q + 8 * of_nat j) 8"
  unfolding disjoint_range_def
proof (intro allI impI)
  fix k l :: nat
  assume kl: "k < 8" "l < 8"
  have b: "8 * i + k < 4096" "8 * j + l < 4096" using assms(3,4) kl by linarith+
  show "p + 8 * of_nat i + of_nat k \<noteq> q + 8 * of_nat j + of_nat l"
  proof
    assume eq: "p + 8 * of_nat i + of_nat k = q + 8 * of_nat j + of_nat l"
    then have eq': "p + of_nat (8 * i + k) = q + of_nat (8 * j + l)" by (simp add: algebra_simps)
    then have "p = q" using PGROUNDDOWN_in_page assms(1,2) b by metis
    moreover have "unat p + (8 * i + k) = unat q + (8 * j + l)"
      using arg_cong [OF eq', of unat] aligned_room assms(1,2) b by metis
    ultimately have "8 * i + k = 8 * j + l" by simp
    then have "i = j" using kl by presburger
    with \<open>p = q\<close> assms(5) show False by simp
  qed
qed

lemma ent_store [mem_simps]:
  assumes "aligned p" "aligned q" "i < 512" "j < 512"
  shows "ent (store64 m (q + 8 * of_nat j) w) p i = (if p = q \<and> i = j then w else ent m p i)"
  using assms slots_disjoint [of p q i j]
  by (auto simp: ent_def load64_store64_same load64_store64_other)

lemma ent_store_PX [mem_simps]:
  assumes "aligned p" "aligned q" "i < 512"
  shows "ent (store64 m (q + 8 * PX l va) w) p i =
    (if p = q \<and> i = unat (PX l va) then w else ent m p i)"
  using ent_store [OF assms PX_bound, of m l va w] by simp

lemma slot_in_page:
  assumes "aligned p" "i < 512" "k < 8"
  shows "in_page p (p + 8 * of_nat i + of_nat k)"
proof -
  have "8 * i + k < 4096" using assms(2,3) by linarith
  moreover have "p + 8 * of_nat i + of_nat k - p = of_nat (8 * i + k)" by (simp add: algebra_simps)
  ultimately show ?thesis
    unfolding in_page_def by (simp only: unat_of_nat) (simp add: take_bit_nat_eq_self_iff)
qed

lemma load_bytes_cong:
  "(\<And>k. k < n \<Longrightarrow> m' (a + of_nat k) = m (a + of_nat k)) \<Longrightarrow> load_bytes m' a n = load_bytes m a n"
  by (simp add: load_bytes_def)

lemma ent_cong:
  assumes "aligned p" "i < 512" "\<And>x. in_page p x \<Longrightarrow> m' x = m x"
  shows "ent m' p i = ent m p i"
  unfolding ent_def load64_def
  using assms slot_in_page by (intro arg_cong [where f = of_le] load_bytes_cong) blast

lemma ent_memset_other:
  assumes "aligned p" "aligned q" "i < 512" "p \<noteq> q"
  shows "ent (memset m q c 4096) p i = ent m p i"
  using assms in_page_unique by (intro ent_cong) (auto simp: memset_page)

lemma ent_memset_zero:
  assumes "aligned q" "i < 512"
  shows "ent (memset m q 0 4096) q i = 0"
proof -
  have "load_bytes (memset m q 0 4096) (q + 8 * of_nat i) 8 = replicate 8 0"
    using slot_in_page [OF assms] by (auto simp: load_bytes_def memset_page intro!: nth_equalityI)
  then show ?thesis by (simp add: ent_def load64_def of_le_def numeral_eq_Suc)
qed

lemma pte_v_zero [simp]: "\<not> pte_v 0"
  by (simp add: pte_v_def)

lemma pte_v_odd: "pte_v e \<longleftrightarrow> odd e"
  by (simp add: pte_v_def and_one_eq odd_iff_mod_2_eq_one even_iff_mod_2_eq_zero)

lemma pte_v_or_1 [simp]: "pte_v (x OR 1)"
  by (simp add: pte_v_odd even_or_iff)

section \<open>Changing the tree\<close>

lemma wf_tableD:
  assumes "wf_table m pt" "good_path is" "node m pt is = Some a"
  shows "aligned a" and "good_path js \<Longrightarrow> node m pt js = Some a \<Longrightarrow> js = is"
  using assms unfolding wf_table_def table_pages_def by blast+

text \<open>Writing the entry \<open>j\<close> of the level-0 table at \<open>path va\<close>: no node moves.\<close>

lemma node_store_leaf:
  assumes wf: "wf_table m pt" and t: "good_path ts" "length ts = 2" "node m pt ts = Some t"
    and j: "j < 512" and p: "good_path is"
  shows "node (store64 m (t + 8 * of_nat j) w) pt is = node m pt is"
  using p
proof (induction "is" rule: rev_induct)
  case Nil
  then show ?case by simp
next
  case (snoc i "is")
  let ?m' = "store64 m (t + 8 * of_nat j) w"
  have gp: "good_path is" "length is \<le> 1" "i < 512" using snoc.prems by (simp_all add: good_path_snoc)
  have IH: "node ?m' pt is = node m pt is" using snoc.IH gp(1) by simp
  show ?case
  proof (cases "node m pt is")
    case None
    then show ?thesis by (simp add: node_snoc IH)
  next
    case (Some a)
    have "a \<noteq> t" using wf_tableD(2) [OF wf gp(1) Some t(1)] t(2,3) gp(2) by auto
    then have "ent ?m' a i = ent m a i"
      using wf_tableD(1) [OF wf gp(1) Some] wf_tableD(1) [OF wf t(1,3)] j gp(3)
      by (simp add: ent_store)
    with Some show ?thesis by (simp add: node_snoc IH)
  qed
qed

lemma wf_table_cong:
  assumes "wf_table m pt" "\<And>is. good_path is \<Longrightarrow> node m' pt is = node m pt is"
  shows "wf_table m' pt" "table_pages m' pt = table_pages m pt"
proof -
  show "table_pages m' pt = table_pages m pt" using assms(2) by (auto simp: table_pages_def)
  with assms show "wf_table m' pt" unfolding wf_table_def by metis
qed

lemma node_cong_pages:
  assumes "wf_table m pt" "\<And>a x. a \<in> table_pages m pt \<Longrightarrow> in_page a x \<Longrightarrow> m' x = m x" "good_path is"
  shows "node m' pt is = node m pt is"
  using assms(3)
proof (induction "is" rule: rev_induct)
  case Nil
  then show ?case by simp
next
  case (snoc i "is")
  then have gp: "good_path is" "i < 512" by (simp_all add: good_path_snoc)
  have "ent m' a i = ent m a i" if "node m pt is = Some a" for a
  proof (rule ent_cong [OF _ gp(2)])
    show "aligned a" using wf_tableD(1) [OF assms(1) gp(1) that] .
    show "m' x = m x" if "in_page a x" for x
      using assms(2) that gp(1) \<open>node m pt is = Some a\<close> by (auto simp: table_pages_def)
  qed
  with snoc.IH [OF gp(1)] show ?case by (simp add: node_snoc split: option.splits)
qed

lemma pte_of_cong_pages:
  assumes "wf_table m pt" "\<And>a x. a \<in> table_pages m pt \<Longrightarrow> in_page a x \<Longrightarrow> m' x = m x"
  shows "pte_of m' pt va = pte_of m pt va"
proof -
  have "node m' pt (path va) = node m pt (path va)" using node_cong_pages [OF assms] by simp
  moreover have "ent m' t (unat (PX 0 va)) = ent m t (unat (PX 0 va))"
    if "node m pt (path va) = Some t" for t
    using that assms wf_tableD(1) [OF assms(1) _ that]
    by (intro ent_cong) (auto simp: PX_bound table_pages_def intro: good_path_path)
  ultimately show ?thesis by (simp add: pte_of_def split: option.splits)
qed

lemma same_leaf_iff:
  assumes "va < MAXVA" "vb < MAXVA"
  shows "path vb = path va \<and> PX 0 vb = PX 0 va \<longleftrightarrow> PGROUNDDOWN vb = PGROUNDDOWN va"
proof
  assume "path vb = path va \<and> PX 0 vb = PX 0 va"
  then show "PGROUNDDOWN vb = PGROUNDDOWN va"
    using PX_inj [OF assms(2,1)] by (simp add: path_def word_unat_eq_iff)
next
  assume eq: "PGROUNDDOWN vb = PGROUNDDOWN va"
  have "unat vb div 4096 * 4096 = unat va div 4096 * 4096"
    unfolding unat_PGROUNDDOWN [symmetric] eq ..
  then have d: "unat vb div 4096 = unat va div 4096" by simp
  have "unat (PX l v) = unat v div 4096 div 2 ^ (9 * l) mod 512" for l v
    by (simp add: unat_PX PXSHIFT_def div_mult2_eq power_add)
  with d show "path vb = path va \<and> PX 0 vb = PX 0 va"
    by (simp add: path_def word_unat_eq_iff)
qed

lemma store_leaf:
  fixes w :: u64
  assumes wf: "wf_table m pt" and va: "va < MAXVA" and slot: "leaf_slot m pt va = Some a"
  defines "m' \<equiv> store64 m a w"
  shows "wf_table m' pt" "table_pages m' pt = table_pages m pt"
    and "vb < MAXVA \<Longrightarrow>
      pte_of m' pt vb = (if PGROUNDDOWN vb = PGROUNDDOWN va then w else pte_of m pt vb)"
    and "leaf_slot m' pt vb = leaf_slot m pt vb"
proof -
  obtain t where t: "node m pt (path va) = Some t" "a = t + 8 * of_nat (unat (PX 0 va))"
    using slot by (auto simp: leaf_slot_def)
  have len: "length (path va) = 2" by (simp add: path_def)
  have nodes: "node m' pt is = node m pt is" if "good_path is" for "is"
    unfolding m'_def t(2) using node_store_leaf [OF wf good_path_path len t(1) PX_bound that] .
  show "wf_table m' pt" "table_pages m' pt = table_pages m pt"
    using wf_table_cong [OF wf nodes] by simp_all
  show "leaf_slot m' pt vb = leaf_slot m pt vb" by (simp add: leaf_slot_def nodes)
  assume vb: "vb < MAXVA"
  have "ent m' b (unat (PX 0 vb)) = (if path vb = path va \<and> PX 0 vb = PX 0 va then w
      else ent m b (unat (PX 0 vb)))" if b: "node m pt (path vb) = Some b" for b
  proof -
    have "path vb = path va \<longleftrightarrow> b = t"
      using wf_tableD(2) [OF wf good_path_path t(1) good_path_path, of vb] b t(1) by auto
    then show ?thesis
      using wf_tableD(1) [OF wf good_path_path b] wf_tableD(1) [OF wf good_path_path t(1)] PX_bound
      by (simp add: m'_def t(2) ent_store_PX word_unat_eq_iff)
  qed
  moreover have "path vb \<noteq> path va" if "node m pt (path vb) = None" using that t(1) by auto
  ultimately show "pte_of m' pt vb = (if PGROUNDDOWN vb = PGROUNDDOWN va then w else pte_of m pt vb)"
    using same_leaf_iff [OF va vb] by (auto simp: pte_of_def nodes split: option.splits)
qed

text \<open>
  Hanging a fresh, zeroed page \<open>g\<close> into the invalid entry \<open>j\<close> of an inner node: the tree gains
  the node \<open>qs @ [j]\<close> and the address space does not change.
\<close>

lemma attach_node:
  fixes g :: u64
  assumes wf: "wf_table m pt" and q: "good_path (qs @ [j])" "node m pt qs = Some q"
    and inv: "\<not> pte_v (ent m q j)"
    and g: "aligned g" "g < 2 ^ 56" "g \<notin> table_pages m pt"
  defines "m' \<equiv> store64 (memset m g 0 4096) (q + 8 * of_nat j) (PA2PTE g OR PTE_V)"
  assumes p: "good_path is"
  shows "node m' pt is = (if is = qs @ [j] then Some g
    else if length qs < length is \<and> take (length qs + 1) is = qs @ [j] then None else node m pt is)"
  using p
proof (induction "is" rule: rev_induct)
  case Nil
  then show ?case by simp
next
  case (snoc i "is")
  have gq: "good_path qs" "j < 512" using q(1) by (simp_all add: good_path_snoc)
  have gp: "good_path is" "i < 512" using snoc.prems by (simp_all add: good_path_snoc)
  have al: "aligned q" "q \<noteq> g" using wf_tableD(1) [OF wf gq(1) q(2)] g(3) q(2) gq(1)
    by (auto simp: table_pages_def)
  have e: "ent m' a k = (if a = q \<and> k = j then PA2PTE g OR PTE_V else if a = g then 0 else ent m a k)"
    if "aligned a" "k < 512" for a k
    using that al g(1) gq(2)
    by (auto simp: m'_def ent_store ent_memset_other ent_memset_zero)
  have pa: "PTE2PA (PA2PTE g OR PTE_V) = g"
    using g by (intro PTE2PA_PA2PTE_flags) (simp_all add: aligned_unat)
  consider (at) "is = qs" "i = j" | (below) "length qs < length is" "take (length qs + 1) is = qs @ [j]"
    | (off) "is @ [i] \<noteq> qs @ [j]" "\<not> (length qs < length is \<and> take (length qs + 1) is = qs @ [j])"
    by auto
  then show ?case
  proof cases
    case at
    then have "node m' pt is = Some q" using snoc.IH [OF gp(1)] q(2) by simp
    with at show ?thesis using e [OF al(1) gq(2)] pa by (simp add: node_snoc)
  next
    case below
    then have "node m' pt is = None \<or> node m' pt is = Some g" using snoc.IH [OF gp(1)] by auto
    with below show ?thesis using e [OF g(1) gp(2)] al(2) by (auto simp: node_snoc)
  next
    case off
    then have same: "node m' pt is = node m pt is"
      using snoc.IH [OF gp(1)] by (auto split: if_splits)
    have "ent m' a i = ent m a i" if a: "node m pt is = Some a" for a
    proof -
      have "a \<noteq> g" using a gp(1) g(3) by (auto simp: table_pages_def)
      moreover have "a = q \<Longrightarrow> is = qs" using wf_tableD(2) [OF wf gq(1) q(2) gp(1)] a by simp
      ultimately show ?thesis
        using e [OF wf_tableD(1) [OF wf gp(1) a] gp(2)] off(1) by auto
    qed
    moreover have "\<not> (length qs < length (is @ [i]) \<and> take (length qs + 1) (is @ [i]) = qs @ [j])"
    proof (cases "length qs < length is")
      case True
      with off(2) show ?thesis by simp
    next
      case False
      with off(1) show ?thesis by auto
    qed
    ultimately show ?thesis
      using off(1) same by (auto simp: node_snoc split: option.splits)
  qed
qed

lemma attach_node_invalid_below:
  assumes "node m pt qs = Some q" "\<not> pte_v (ent m q j)"
    "length qs < length is" "take (length qs + 1) is = qs @ [j]"
  shows "node m pt is = None"
proof -
  have none: "node m pt (qs @ [j]) = None" using assms(1,2) by (simp add: node_snoc)
  have app: "node m pt xs = None \<Longrightarrow> node m pt (xs @ ys) = None" for xs ys
  proof (induction ys arbitrary: xs)
    case (Cons y ys)
    have "node m pt ((xs @ [y]) @ ys) = None"
      using Cons.prems by (intro Cons.IH) (simp add: node_snoc)
    then show ?case by simp
  qed simp
  have "is = (qs @ [j]) @ drop (length qs + 1) is"
    using assms(4) append_take_drop_id [of "length qs + 1" "is"] by simp
  then show ?thesis using app [OF none] by metis
qed

lemma attach_node_tree:
  fixes g :: u64
  assumes wf: "wf_table m pt" and q: "good_path (qs @ [j])" "node m pt qs = Some q"
    and inv: "\<not> pte_v (ent m q j)"
    and g: "aligned g" "g < 2 ^ 56" "g \<notin> table_pages m pt"
  defines "m' \<equiv> store64 (memset m g 0 4096) (q + 8 * of_nat j) (PA2PTE g OR PTE_V)"
  shows "wf_table m' pt" "table_pages m' pt = insert g (table_pages m pt)"
    "node m' pt (qs @ [j]) = Some g" "pte_of m' pt va = pte_of m pt va"
proof -
  note nd = attach_node [OF wf q inv g, folded m'_def]
  note gone = attach_node_invalid_below [OF q(2) inv]
  have old: "node m pt is = None" if "is = qs @ [j] \<or> length qs < length is \<and>
      take (length qs + 1) is = qs @ [j]" for "is"
    using that gone by auto
  show at: "node m' pt (qs @ [j]) = Some g" using nd [OF q(1)] by simp
  have cases: "node m' pt is = Some a \<longleftrightarrow> is = qs @ [j] \<and> a = g \<or> node m pt is = Some a"
    if "good_path is" for "is" a
    using nd [OF that] old [of "is"] by (auto split: if_splits)
  then show pages: "table_pages m' pt = insert g (table_pages m pt)"
    using q(1) by (auto simp: table_pages_def)
  have "is = js" if "good_path is" "good_path js" "node m' pt is = Some a" "node m' pt js = Some a"
    for "is" js a
    using that cases g(3) wf unfolding wf_table_def table_pages_def by auto
  then show "wf_table m' pt"
    using wf g(1) unfolding wf_table_def pages by blast
  have len: "length qs \<le> 1" "j < 512" using q(1) by (simp_all add: good_path_snoc)
  have al: "aligned q" "q \<noteq> g"
    using wf_tableD(1) [OF wf _ q(2)] g(3) q by (auto simp: table_pages_def good_path_snoc)
  show "pte_of m' pt va = pte_of m pt va"
  proof (cases "node m pt (path va)")
    case None
    then have "node m' pt (path va) = None \<or> node m' pt (path va) = Some g"
      using cases [of "path va"] by (cases "node m' pt (path va)") auto
    then show ?thesis
      using None ent_memset_zero [OF g(1) PX_bound] al g(1) len(2)
      by (auto simp: pte_of_def m'_def ent_store PX_bound)
  next
    case (Some t)
    then have t': "node m' pt (path va) = Some t" using cases by simp
    have "t \<noteq> g" using Some g(3) good_path_path [of va] by (auto simp: table_pages_def simp del: good_path_path)
    moreover have "t \<noteq> q"
      using wf_tableD(2) [OF wf good_path_path Some, of qs] q len by (auto simp: good_path_snoc path_def)
    ultimately have "ent m' t (unat (PX 0 va)) = ent m t (unat (PX 0 va))"
      using wf_tableD(1) [OF wf good_path_path Some] al g(1) len(2)
      by (simp add: m'_def ent_store ent_memset_other PX_bound)
    with Some t' show ?thesis by (simp add: pte_of_def)
  qed
qed

section \<open>walk\<close>

text \<open>
  The page table at \<open>pt\<close> and the free list \<open>ps\<close>: the tree is well formed and made of pages of the
  allocator that are not free.
\<close>

definition ptinv :: "'x kmem_state_scheme \<Rightarrow> u64 \<Rightarrow> u64 list \<Rightarrow> bool" where
  "ptinv s pt ps \<longleftrightarrow> free_pages s ps \<and> wf_table (mem s) pt \<and>
     (\<forall>a\<in>table_pages (mem s) pt. page_ok (kernel_end s) a \<and> a \<notin> set ps)"

lemma page_ok_bounds: "page_ok e p \<Longrightarrow> aligned p \<and> p \<noteq> 0 \<and> p < 2 ^ 56 \<and> unat p < 0x88000000"
  by (auto simp: page_ok_def word_less_nat_alt)

lemma slot_nonzero:
  assumes "page_ok e t"
  shows "t + 8 * PX l va \<noteq> 0"
proof -
  have t: "aligned t" "t \<noteq> 0" using page_ok_bounds [OF assms] by simp_all
  have b: "8 * unat (PX l va) < 4096" using PX_bound [of l va] by simp
  have "unat (t + of_nat (8 * unat (PX l va))) = unat t + 8 * unat (PX l va)"
    using t(1) b by (rule aligned_room)
  then have "unat (t + 8 * PX l va) = unat t + 8 * unat (PX l va)" by simp
  moreover have "0 < unat t" using t(2) by (simp add: unat_gt_0)
  ultimately show ?thesis by (metis add_is_0 less_not_refl unat_0)
qed

lemma walk_from_lookup:
  "walk_from l pt va False env s = Done (case node (mem s) pt (map (\<lambda>k. unat (PX k va)) (rev [1..<Suc l])) of
     None \<Rightarrow> 0 | Some t \<Rightarrow> t + 8 * PX 0 va) s"
proof (induction l arbitrary: pt)
  case 0
  then show ?case by (simp add: run_simps)
next
  case (Suc l)
  then show ?case by (simp add: Let_def run_simps ent_def pte_v_def pte_at_def)
qed

lemma walk_lookup:
  assumes "va < MAXVA"
  shows "walk pt va False env s =
    Done (case leaf_slot (mem s) pt va of None \<Rightarrow> 0 | Some a \<Rightarrow> a) s"
proof -
  have "map (\<lambda>k. unat (PX k va)) (rev [1..<Suc 2]) = path va"
    by (simp add: path_def numeral_2_eq_2)
  moreover have "(MAXVA \<le> va) = False" using assms by (simp add: not_le)
  ultimately show ?thesis
    using walk_from_lookup [of 2 pt va env s]
    by (simp add: walk_def leaf_slot_def split: option.splits)
qed

text \<open>
  The effect of a \<open>walk\<close> that may allocate: some free pages \<open>us\<close> became table pages, the address
  space is the same, and nothing outside the table pages changed.
\<close>

definition mem_only :: "'x kmem_state_scheme \<Rightarrow> 'x kmem_state_scheme \<Rightarrow> bool" where
  "mem_only s t \<longleftrightarrow> (\<exists>m f. t = s\<lparr>mem := m, freelist := f\<rparr>)"

definition grown :: "u64 \<Rightarrow> 'x kmem_state_scheme \<Rightarrow> u64 list \<Rightarrow> 'x kmem_state_scheme \<Rightarrow> u64 list \<Rightarrow> bool" where
  "grown pt s ps t ps' \<longleftrightarrow> ptinv t pt ps' \<and>
     (\<exists>us. ps = us @ ps' \<and> table_pages (mem t) pt = table_pages (mem s) pt \<union> set us) \<and>
     (\<forall>va. pte_of (mem t) pt va = pte_of (mem s) pt va) \<and>
     (\<forall>x. (\<forall>a\<in>table_pages (mem t) pt. \<not> in_page a x) \<longrightarrow> mem t x = mem s x) \<and>
     mem_only s t"

lemma mem_only_refl [simp]: "mem_only s s"
  unfolding mem_only_def by (rule exI [of _ "mem s"], rule exI [of _ "freelist s"]) simp

lemma mem_only_upd [simp]:
  "mem_only s (s\<lparr>mem := m\<rparr>)" "mem_only s (s\<lparr>freelist := f\<rparr>)" "mem_only s (s\<lparr>freelist := f, mem := m\<rparr>)"
  unfolding mem_only_def
  by (rule exI [of _ m], rule exI [of _ "freelist s"], simp)
    (rule exI [of _ "mem s"], rule exI [of _ f], simp,
     rule exI [of _ m], rule exI [of _ f], simp)

lemma mem_only_trans: "mem_only s t \<Longrightarrow> mem_only t u \<Longrightarrow> mem_only s u"
  unfolding mem_only_def by (elim exE) (simp, blast)

lemma mem_only_frame:
  "mem_only s t \<Longrightarrow> held t = held s \<and> kernel_end t = kernel_end s \<and> cur t = cur s \<and> procs t = procs s"
  unfolding mem_only_def by (elim exE) simp

lemma grown_refl: "ptinv s pt ps \<Longrightarrow> grown pt s ps s ps"
  by (simp add: grown_def)

lemma grown_trans:
  assumes "grown pt s ps t ps'" "grown pt t ps' u ps''"
  shows "grown pt s ps u ps''"
proof -
  obtain us vs where
    "ps = us @ ps'" "table_pages (mem t) pt = table_pages (mem s) pt \<union> set us"
    "ps' = vs @ ps''" "table_pages (mem u) pt = table_pages (mem t) pt \<union> set vs"
    using assms unfolding grown_def by blast
  then have "ps = (us @ vs) @ ps''" "table_pages (mem u) pt = table_pages (mem s) pt \<union> set (us @ vs)"
    "\<forall>a\<in>table_pages (mem t) pt. a \<in> table_pages (mem u) pt" by auto
  moreover have "mem_only s u" using assms unfolding grown_def by (blast intro: mem_only_trans)
  moreover have "mem u x = mem s x" if "\<forall>a\<in>table_pages (mem u) pt. \<not> in_page a x" for x
    using that assms calculation(3) unfolding grown_def by metis
  ultimately show ?thesis using assms unfolding grown_def by metis
qed

lemma grown_frame: "grown pt s ps t ps' \<Longrightarrow> held t = held s \<and> kernel_end t = kernel_end s"
  unfolding grown_def by (auto dest: mem_only_frame)

lemma load64_cong_page:
  assumes "\<And>x. in_page p x \<Longrightarrow> m' x = m x"
  shows "load64 m' p = load64 m p"
proof -
  have "in_page p (p + of_nat k)" if "k < 8" for k
    using that by (simp add: in_page_def unat_of_nat take_bit_nat_eq_self_iff)
  then show ?thesis
    unfolding load64_def using assms by (intro arg_cong [where f = of_le] load_bytes_cong) blast
qed

lemma free_pages_cong:
  assumes "free_pages s ps" "freelist t = freelist s" "kernel_end t = kernel_end s"
    "\<And>p x. p \<in> set ps \<Longrightarrow> in_page p x \<Longrightarrow> mem t x = mem s x"
  shows "free_pages t ps"
proof -
  have "chain (mem t) (freelist s) ps = chain (mem s) (freelist s) ps"
    using assms(4) by (intro chain_cong load64_cong_page) blast
  with assms show ?thesis by (simp add: free_pages_def)
qed

lemma memset_memset: "memset (memset m g c 4096) g d 4096 = memset m g d 4096"
  by (simp add: memset_page fun_eq_iff)

lemma store64_slot_frame:
  assumes "aligned q" "j < 512" "\<not> in_page q x"
  shows "store64 m (q + 8 * of_nat j) w x = m x"
proof -
  have "x \<noteq> q + 8 * of_nat j + of_nat k" if "k < 8" for k
    using slot_in_page [OF assms(1,2) that] assms(3) by blast
  then have "\<not> unat (x - (q + 8 * of_nat j)) < 8" by (subst unat_diff_lt_iff) auto
  then show ?thesis by (simp add: store64_apply)
qed

lemma attach_grown:
  fixes s :: "'x kmem_state_scheme" and q :: u64 and j :: nat
  assumes inv: "ptinv s pt (g # ps)" and q: "good_path (qs @ [j])" "node (mem s) pt qs = Some q"
    and bad: "\<not> pte_v (ent (mem s) q j)"
  defines "t \<equiv> s\<lparr>freelist := load64 (mem s) g,
    mem := store64 (memset (mem s) g 0 4096) (q + 8 * of_nat j) (PA2PTE g OR PTE_V)\<rparr>"
  shows "grown pt s (g # ps) t ps" "node (mem t) pt (qs @ [j]) = Some g"
proof -
  have wf: "wf_table (mem s) pt" and fp: "free_pages s (g # ps)"
    and tp: "\<And>a. a \<in> table_pages (mem s) pt \<Longrightarrow> page_ok (kernel_end s) a \<and> a \<notin> set (g # ps)"
    using inv by (auto simp: ptinv_def)
  have okg: "page_ok (kernel_end s) g" "g \<notin> set ps" using fp by (auto simp: free_pages_def)
  have g: "aligned g" "g < 2 ^ 56" "g \<notin> table_pages (mem s) pt"
    using page_ok_bounds [OF okg(1)] tp by auto
  have qtp: "q \<in> table_pages (mem s) pt" and j: "j < 512"
    using q by (auto simp: table_pages_def good_path_snoc)
  have al: "aligned q" using wf qtp by (simp add: wf_table_def)
  note tree = attach_node_tree [OF wf q bad g]
  have memt: "mem t = store64 (memset (mem s) g 0 4096) (q + 8 * of_nat j) (PA2PTE g OR PTE_V)"
    and other: "kernel_end t = kernel_end s" "freelist t = load64 (mem s) g"
    by (simp_all add: t_def)
  show "node (mem t) pt (qs @ [j]) = Some g" using tree(3) by (simp add: memt)
  have "free_pages t ps"
  proof (rule free_pages_cong [OF free_pages_kalloc [OF fp, of 0]])
    fix p x
    assume "p \<in> set ps" "in_page p x"
    moreover have "aligned p" "p \<noteq> q" if "p \<in> set ps" for p
      using that tp [OF qtp] fp by (auto simp: free_pages_def page_ok_def)
    ultimately have "\<not> in_page q x" using in_page_unique al by blast
    then show "mem t x = mem (s\<lparr>freelist := load64 (mem s) g, mem := memset (mem s) g 0 4096\<rparr>) x"
      using store64_slot_frame [OF al j] by (simp add: memt)
  qed (simp_all add: other)
  moreover have "mem t x = mem s x" if "\<forall>a\<in>table_pages (mem t) pt. \<not> in_page a x" for x
    using that tree(2) qtp store64_slot_frame [OF al j] by (simp add: memt memset_page)
  moreover have "a \<notin> set ps" "page_ok (kernel_end s) a" if "a \<in> table_pages (mem t) pt" for a
    using that tree(2) tp okg by (auto simp: memt)
  ultimately show "grown pt s (g # ps) t ps"
    using tree(1,2,4) unfolding grown_def ptinv_def
    by (auto simp: memt other intro: exI [of _ "[g]"]) (simp add: t_def)
qed

definition walked :: "u64 \<Rightarrow> u64 \<Rightarrow> 'x kmem_state_scheme \<Rightarrow> u64 list \<Rightarrow> u64 \<Rightarrow> 'x kmem_state_scheme \<Rightarrow> bool" where
  "walked pt va s ps r t \<longleftrightarrow> (\<exists>ps'. grown pt s ps t ps' \<and>
     (r = 0 \<and> ps' = [] \<or> r \<noteq> 0 \<and> leaf_slot (mem t) pt va = Some r))"

lemma walked_grown: "grown pt s ps t ps' \<Longrightarrow> walked pt va t ps' r u \<Longrightarrow> walked pt va s ps r u"
  unfolding walked_def by (blast intro: grown_trans)

lemma free_pages_head:
  "free_pages s ps \<Longrightarrow> (freelist s = 0 \<longleftrightarrow> ps = []) \<and> (ps \<noteq> [] \<longrightarrow> freelist s = hd ps)"
  by (cases ps) (auto simp: free_pages_def)

lemma walk_from_alloc:
  assumes "ptinv s pt ps" "L_kmem \<notin> held s" "node (mem s) pt qs = Some p"
    "qs @ map (\<lambda>k. unat (PX k va)) (rev [1..<Suc l]) = path va"
  shows "wp env (walk_from l p va True) (walked pt va s ps) s"
  using assms
proof (induction l arbitrary: s ps qs p)
  case 0
  have at: "node (mem s) pt (path va) = Some p" using "0.prems" by simp
  then have "p \<in> table_pages (mem s) pt" by (auto simp: table_pages_def intro: good_path_path)
  then have "page_ok (kernel_end s) p" using "0.prems"(1) by (simp add: ptinv_def)
  then show ?case
    using "0.prems"(1) at slot_nonzero
    by (auto simp: wp_simps walked_def leaf_slot_def intro: grown_refl)
next
  case (Suc l)
  define j where "j = unat (PX (Suc l) va)"
  define e where "e = ent (mem s) p j"
  have pth: "(qs @ [j]) @ map (\<lambda>k. unat (PX k va)) (rev [1..<Suc l]) = path va"
    using Suc.prems(4) by (simp add: j_def)
  then have gp: "good_path (qs @ [j])"
    using good_path_path [of va] unfolding good_path_def
    by (metis UnCI length_append le_add1 le_trans set_append)
  have load: "pte_at (p + 8 * PX (Suc l) va) s = e" by (simp add: pte_at_def e_def ent_def j_def)
  show ?case
  proof (cases "pte_v e")
    case True
    then have "node (mem s) pt (qs @ [j]) = Some (PTE2PA e)"
      using Suc.prems(3) by (simp add: node_snoc e_def)
    then show ?thesis
      using Suc.IH [OF Suc.prems(1,2) _ pth] True load by (simp add: Let_def wp_simps pte_v_def)
  next
    case False
    show ?thesis
    proof (cases ps)
      case Nil
      then have "freelist s = 0" using Suc.prems(1) by (simp add: ptinv_def free_pages_def)
      then show ?thesis
        using Suc.prems(1,2) False load Nil
        by (auto simp: Let_def wp_simps pte_v_def walked_def intro: grown_refl)
    next
      case (Cons g rest)
      define t where "t = s\<lparr>freelist := load64 (mem s) g,
        mem := store64 (memset (mem s) g 0 4096) (p + 8 * of_nat j) (PA2PTE g OR PTE_V)\<rparr>"
      have fl: "freelist s = g" "g \<noteq> 0"
        using Suc.prems(1) Cons by (auto simp: ptinv_def free_pages_def)
      have gr: "grown pt s ps t rest" and nd: "node (mem t) pt (qs @ [j]) = Some g"
        using attach_grown [OF _ gp Suc.prems(3), of g rest] Suc.prems(1) Cons False
        by (simp_all add: t_def e_def)
      have "wp env (walk_from l g va True) (walked pt va t rest) t"
        using gr grown_frame [OF gr] Suc.prems(2)
        by (intro Suc.IH [OF _ _ nd pth]) (simp_all add: grown_def)
      then have "wp env (walk_from l g va True) (walked pt va s ps) t"
        by (rule wp_conseq) (rule walked_grown [OF gr])
      then show ?thesis
        using False load fl Suc.prems(2)
        by (simp add: Let_def wp_simps pte_v_def zero_page_def set_pte_def memset_memset t_def j_def)
    qed
  qed
qed

lemma walk_alloc:
  assumes "ptinv s pt ps" "L_kmem \<notin> held s" "va < MAXVA"
  shows "wp env (walk pt va True) (walked pt va s ps) s"
proof -
  have "[] @ map (\<lambda>k. unat (PX k va)) (rev [1..<Suc 2]) = path va"
    by (simp add: path_def numeral_2_eq_2)
  moreover have "(MAXVA \<le> va) = False" using assms(3) by (simp add: not_le)
  ultimately show ?thesis
    using walk_from_alloc [OF assms(1,2), of "[]" pt va 2 env] by (simp add: walk_def)
qed

section \<open>mappages\<close>

lemma aligned_dvd: "aligned a \<longleftrightarrow> 4096 dvd unat a"
  by (simp add: aligned_unat dvd_eq_mod_eq_0)

lemma aligned_diff: "aligned a \<Longrightarrow> aligned b \<Longrightarrow> aligned (a - b)"
  unfolding aligned_dvd unat_sub_if' by (auto intro!: dvd_diff_nat)

lemma aligned_add: "aligned a \<Longrightarrow> aligned b \<Longrightarrow> aligned (a + b)"
  unfolding aligned_dvd unat_plus_if' by (auto intro!: dvd_diff_nat)

lemma aligned_PGROUNDDOWN [simp]: "aligned (PGROUNDDOWN a)"
  using PGROUNDDOWN_aligned by (simp add: aligned_def)

text \<open>
  The effect of changing an address space: \<open>t\<close> has the map \<open>f\<close> in place of that of \<open>s\<close>,
  possibly with some free pages turned into table pages, and nothing else changed.
\<close>

definition respaced :: "u64 \<Rightarrow> 'x kmem_state_scheme \<Rightarrow> u64 list \<Rightarrow> (u64 \<Rightarrow> u64) \<Rightarrow> 'x kmem_state_scheme \<Rightarrow>
    u64 list \<Rightarrow> bool" where
  "respaced pt s ps f t ps' \<longleftrightarrow> ptinv t pt ps' \<and>
     (\<exists>us. ps = us @ ps' \<and> table_pages (mem t) pt = table_pages (mem s) pt \<union> set us) \<and>
     (\<forall>va<MAXVA. pte_of (mem t) pt va = f va) \<and>
     (\<forall>x. (\<forall>a\<in>table_pages (mem t) pt. \<not> in_page a x) \<longrightarrow> mem t x = mem s x) \<and>
     mem_only s t"

lemma respaced_refl: "ptinv s pt ps \<Longrightarrow> respaced pt s ps (pte_of (mem s) pt) s ps"
  by (simp add: respaced_def)

lemma respaced_grown:
  assumes "respaced pt s ps f t ps'" "grown pt t ps' u ps''"
  shows "respaced pt s ps f u ps''"
proof -
  obtain us vs where
    "ps = us @ ps'" "table_pages (mem t) pt = table_pages (mem s) pt \<union> set us"
    "ps' = vs @ ps''" "table_pages (mem u) pt = table_pages (mem t) pt \<union> set vs"
    using assms unfolding grown_def respaced_def by blast
  then have "ps = (us @ vs) @ ps''" "table_pages (mem u) pt = table_pages (mem s) pt \<union> set (us @ vs)"
    and sub: "\<forall>a\<in>table_pages (mem t) pt. a \<in> table_pages (mem u) pt" by auto
  moreover have "mem_only s u"
    using assms unfolding grown_def respaced_def by (blast intro: mem_only_trans)
  moreover have "mem u x = mem s x" if "\<forall>a\<in>table_pages (mem u) pt. \<not> in_page a x" for x
    using that assms sub unfolding grown_def respaced_def by metis
  moreover have "\<forall>va<MAXVA. pte_of (mem u) pt va = f va"
    using assms unfolding grown_def respaced_def by simp
  ultimately show ?thesis using assms(2) unfolding grown_def respaced_def by blast
qed

lemma respaced_frame:
  "respaced pt s ps f t ps' \<Longrightarrow> ptinv t pt ps' \<and> held t = held s \<and> kernel_end t = kernel_end s"
  unfolding respaced_def by (auto dest: mem_only_frame)

lemma leaf_slotD:
  assumes "leaf_slot m pt va = Some r"
  obtains t where "node m pt (path va) = Some t" "r = t + 8 * of_nat (unat (PX 0 va))"
    "t \<in> table_pages m pt" "unat (PX 0 va) < 512"
  using assms good_path_path [of va] PX_bound [of 0 va]
  by (auto simp: leaf_slot_def table_pages_def simp del: good_path_path)

lemma pte_at_leaf: "leaf_slot (mem s) pt va = Some r \<Longrightarrow> pte_at r s = pte_of (mem s) pt va"
  by (elim leaf_slotD) (simp add: pte_at_def pte_of_def ent_def)

lemma respaced_store:
  assumes t: "respaced pt s ps f t ps'" and va: "va < MAXVA" and r: "leaf_slot (mem t) pt va = Some r"
  shows "respaced pt s ps (\<lambda>vb. if PGROUNDDOWN vb = PGROUNDDOWN va then w else f vb)
    (t\<lparr>mem := store64 (mem t) r w\<rparr>) ps'"
proof -
  let ?u = "t\<lparr>mem := store64 (mem t) r w\<rparr>"
  have inv: "ptinv t pt ps'" using t by (simp add: respaced_def)
  then have wf: "wf_table (mem t) pt" and fp: "free_pages t ps'" by (simp_all add: ptinv_def)
  obtain q j where q: "r = q + 8 * of_nat j" "q \<in> table_pages (mem t) pt" "j < 512"
    using r by (elim leaf_slotD) blast
  have al: "aligned q" using wf q(2) by (simp add: wf_table_def)
  note leaf = store_leaf [OF wf va r, where w = w]
  have frame: "mem ?u x = mem t x" if "\<not> in_page q x" for x
    using store64_slot_frame [OF al q(3) that] by (simp add: q(1))
  have "free_pages ?u ps'"
  proof (rule free_pages_cong [OF fp])
    fix p x
    assume p: "p \<in> set ps'" "in_page p x"
    then have "aligned p" "p \<noteq> q"
      using fp inv q(2) by (auto simp: free_pages_def page_ok_def ptinv_def)
    then show "mem ?u x = mem t x" using in_page_unique al p(2) by (intro frame) blast
  qed simp_all
  then have "ptinv ?u pt ps'" using inv leaf(1,2) by (simp add: ptinv_def)
  moreover have "mem_only s t" using t by (simp add: respaced_def)
  then have "mem_only s ?u" by (rule mem_only_trans) (rule mem_only_upd)
  moreover have "mem ?u x = mem s x" if "\<forall>a\<in>table_pages (mem ?u) pt. \<not> in_page a x" for x
    using that t q(2) leaf(2) frame [of x] by (simp add: respaced_def)
  moreover have "pte_of (mem ?u) pt vb = (if PGROUNDDOWN vb = PGROUNDDOWN va then w else f vb)"
    if "vb < MAXVA" for vb
    using leaf(3) [OF that] t that by (simp add: respaced_def)
  moreover have "\<exists>us. ps = us @ ps' \<and> table_pages (mem ?u) pt = table_pages (mem s) pt \<union> set us"
    using t leaf(2) by (simp add: respaced_def)
  ultimately show ?thesis unfolding respaced_def by blast
qed

text \<open>The map after \<open>i\<close> pages from \<open>a\<close> were mapped to the frames from \<open>pa\<close>.\<close>

definition mapped :: "(u64 \<Rightarrow> u64) \<Rightarrow> u64 \<Rightarrow> u64 \<Rightarrow> u64 \<Rightarrow> nat \<Rightarrow> u64 \<Rightarrow> u64" where
  "mapped f a pa perm i = (\<lambda>vb. let d = PGROUNDDOWN vb - a in
     if unat d < 4096 * i then PA2PTE (pa + d) OR perm OR PTE_V else f vb)"

lemma mapped_0 [simp]: "mapped f a pa perm 0 = f"
  by (simp add: mapped_def Let_def)

lemma page_diff:
  assumes "aligned a" "unat a + 4096 * i < 2 ^ 64"
  shows "PGROUNDDOWN vb = a + of_nat (4096 * i) \<longleftrightarrow> unat (PGROUNDDOWN vb - a) = 4096 * i"
    and "4096 dvd unat (PGROUNDDOWN vb - a)"
proof -
  have i: "4096 * i < 2 ^ 64" using assms(2) by simp
  show "PGROUNDDOWN vb = a + of_nat (4096 * i) \<longleftrightarrow> unat (PGROUNDDOWN vb - a) = 4096 * i"
  proof
    assume "PGROUNDDOWN vb = a + of_nat (4096 * i)"
    then show "unat (PGROUNDDOWN vb - a) = 4096 * i"
      using i by (simp only: add_diff_cancel_left' unat_of_nat) (simp add: take_bit_nat_eq_self_iff)
  next
    assume "unat (PGROUNDDOWN vb - a) = 4096 * i"
    then have "(of_nat (unat (PGROUNDDOWN vb - a)) :: u64) = of_nat (4096 * i)" by simp
    then have "PGROUNDDOWN vb - a = of_nat (4096 * i)" by (simp only: of_nat_unat ucast_id)
    then show "PGROUNDDOWN vb = a + of_nat (4096 * i)" by (simp add: algebra_simps)
  qed
  have "aligned (PGROUNDDOWN vb - a)"
    using PGROUNDDOWN_aligned [of vb] assms(1) by (intro aligned_diff) (simp_all add: aligned_def)
  then show "4096 dvd unat (PGROUNDDOWN vb - a)" by (simp add: aligned_unat mod_0_imp_dvd)
qed

lemma mapped_Suc:
  assumes "aligned a" "unat a + 4096 * i < 2 ^ 64"
  shows "mapped f a pa perm (Suc i) = (\<lambda>vb. if PGROUNDDOWN vb = a + of_nat (4096 * i)
     then PA2PTE (pa + of_nat (4096 * i)) OR perm OR PTE_V else mapped f a pa perm i vb)"
proof (rule ext)
  fix vb
  have "unat (PGROUNDDOWN vb - a) < 4096 * Suc i \<longleftrightarrow>
      unat (PGROUNDDOWN vb - a) < 4096 * i \<or> unat (PGROUNDDOWN vb - a) = 4096 * i"
    using page_diff(2) [OF assms, of vb] by (auto elim!: dvdE)
  then show "mapped f a pa perm (Suc i) vb = (if PGROUNDDOWN vb = a + of_nat (4096 * i)
     then PA2PTE (pa + of_nat (4096 * i)) OR perm OR PTE_V else mapped f a pa perm i vb)"
    using page_diff(1) [OF assms, of vb] by (auto simp: mapped_def Let_def)
qed

definition mapping_result :: "u64 \<Rightarrow> 'x kmem_state_scheme \<Rightarrow> u64 list \<Rightarrow> u64 \<Rightarrow> u64 \<Rightarrow> u64 \<Rightarrow> nat \<Rightarrow>
    bool \<Rightarrow> 'x kmem_state_scheme \<Rightarrow> bool" where
  "mapping_result pt s ps a pa perm n r t \<longleftrightarrow>
     (\<exists>ps' i. respaced pt s ps (mapped (pte_of (mem s) pt) a pa perm i) t ps' \<and>
        (if r then i = n else i < n \<and> ps' = []))"

lemma page_number:
  assumes "aligned a" "unat a + 4096 * n \<le> 2 ^ 38" "i < n"
  shows "unat (a + of_nat (4096 * i)) = unat a + 4096 * i" "a + of_nat (4096 * i) < MAXVA"
    "aligned (a + of_nat (4096 * i))" "PGROUNDDOWN (a + of_nat (4096 * i)) = a + of_nat (4096 * i)"
proof -
  have lt: "unat a + 4096 * i < 2 ^ 38" using assms(2,3) by linarith
  show u: "unat (a + of_nat (4096 * i)) = unat a + 4096 * i"
    by (rule unat_add_small) (use lt in simp)
  then show "a + of_nat (4096 * i) < MAXVA" using lt by (simp add: word_less_nat_alt)
  show "aligned (a + of_nat (4096 * i))" using assms(1) u by (simp add: aligned_unat)
  then show "PGROUNDDOWN (a + of_nat (4096 * i)) = a + of_nat (4096 * i)"
    by (simp add: aligned_unat PGROUNDDOWN_id)
qed

lemma mappages_step:
  assumes inv: "respaced pt s ps (mapped (pte_of (mem s) pt) a pa perm i) t ps'"
    and a: "aligned a" "unat a + 4096 * n \<le> 2 ^ 38" "i < n" and lk: "L_kmem \<notin> held s"
    and free: "\<not> pte_v (pte_of (mem s) pt (a + of_nat (4096 * i)))"
  defines "b \<equiv> a + of_nat (4096 * i)"
  shows "wp env (walk pt b True) (\<lambda>r u.
    r = 0 \<and> mapping_result pt s ps a pa perm n False u \<or>
    r \<noteq> 0 \<and> \<not> pte_v (pte_at r u) \<and> (\<exists>ps''. respaced pt s ps (mapped (pte_of (mem s) pt) a pa perm (Suc i))
      (u\<lparr>mem := store64 (mem u) r (PA2PTE (pa + of_nat (4096 * i)) OR perm OR PTE_V)\<rparr>) ps'')) t"
proof -
  note pn = page_number [OF a, folded b_def]
  have room: "unat a + 4096 * i < 2 ^ 64" using a(2,3) by simp
  have t: "ptinv t pt ps'" "L_kmem \<notin> held t" using respaced_frame [OF inv] lk by simp_all
  have "mapped (pte_of (mem s) pt) a pa perm i b = pte_of (mem s) pt b"
    using page_diff(1) [OF a(1) room, of b] pn(4) by (simp add: mapped_def Let_def b_def)
  then have unmapped: "\<not> pte_v (mapped (pte_of (mem s) pt) a pa perm i b)"
    using free by (simp add: b_def)
  show ?thesis
  proof (rule wp_conseq [OF walk_alloc [OF t pn(2)]])
    fix r u
    assume "walked pt b t ps' r u"
    then obtain ps'' where gr: "grown pt t ps' u ps''"
      and r: "r = 0 \<and> ps'' = [] \<or> r \<noteq> 0 \<and> leaf_slot (mem u) pt b = Some r"
      by (auto simp: walked_def)
    note u = respaced_grown [OF inv gr]
    show "r = 0 \<and> mapping_result pt s ps a pa perm n False u \<or>
      r \<noteq> 0 \<and> \<not> pte_v (pte_at r u) \<and> (\<exists>ps''. respaced pt s ps (mapped (pte_of (mem s) pt) a pa perm (Suc i))
      (u\<lparr>mem := store64 (mem u) r (PA2PTE (pa + of_nat (4096 * i)) OR perm OR PTE_V)\<rparr>) ps'')"
    proof (cases "r = 0")
      case True
      with r u a(3) show ?thesis by (auto simp: mapping_result_def)
    next
      case False
      then have slot: "leaf_slot (mem u) pt b = Some r" using r by simp
      have "\<not> pte_v (pte_at r u)"
        using pte_at_leaf [OF slot] u pn(2) unmapped by (simp add: respaced_def)
      moreover note respaced_store [OF u pn(2) slot, of "PA2PTE (pa + of_nat (4096 * i)) OR perm OR PTE_V"]
      ultimately show ?thesis
        using False pn(4) mapped_Suc [OF a(1) room] by (auto simp: b_def)
    qed
  qed
qed

definition mapping_inv :: "u64 \<Rightarrow> 'x kmem_state_scheme \<Rightarrow> u64 list \<Rightarrow> u64 \<Rightarrow> u64 \<Rightarrow> u64 \<Rightarrow> nat \<Rightarrow>
    u64 \<times> u64 \<Rightarrow> 'x kmem_state_scheme \<Rightarrow> bool" where
  "mapping_inv pt s ps a pa perm n = (\<lambda>(b, p) t. \<exists>i<n. \<exists>ps'.
     b = a + of_nat (4096 * i) \<and> p = pa + of_nat (4096 * i) \<and>
     respaced pt s ps (mapped (pte_of (mem s) pt) a pa perm i) t ps')"

lemma mappages_body_wp:
  assumes inv: "mapping_inv pt s ps a pa perm n bp t"
    and a: "aligned a" "unat a + 4096 * n \<le> 2 ^ 38" "0 < n" and lk: "L_kmem \<notin> held s"
    and last: "last_a = a + of_nat (4096 * (n - 1))"
    and free: "\<And>i. i < n \<Longrightarrow> \<not> pte_v (pte_of (mem s) pt (a + of_nat (4096 * i)))"
  shows "wp env (mappages_body pt last_a perm bp)
    (\<lambda>r u. case r of Inl k \<Rightarrow> mapping_inv pt s ps a pa perm n k u \<and>
        2 ^ 38 - unat (fst k) < 2 ^ 38 - unat (fst bp)
      | Inr x \<Rightarrow> mapping_result pt s ps a pa perm n x u) t"
proof -
  from inv obtain i ps' where i: "i < n" "bp = (a + of_nat (4096 * i), pa + of_nat (4096 * i))"
    and t: "respaced pt s ps (mapped (pte_of (mem s) pt) a pa perm i) t ps'"
    by (auto simp: mapping_inv_def)
  note pn = page_number [OF a(1,2)]
  have lst: "a + of_nat (4096 * i) = last_a \<longleftrightarrow> Suc i = n"
    using pn(1) [OF i(1)] pn(1) [of "n - 1"] last a(3) by (auto simp: word_unat_eq_iff)
  have dec: "2 ^ 38 - unat (a + of_nat (4096 * i) + PGSIZE) < 2 ^ 38 - unat (a + of_nat (4096 * i))"
    if "Suc i < n"
    using pn(1) [OF that] pn(1) [OF i(1)] a(2) i(1) by (simp add: algebra_simps)
  show ?thesis
    unfolding mappages_body_def i(2) prod.case wp_bind
  proof (rule wp_conseq [OF mappages_step [OF t a(1,2) i(1) lk free [OF i(1)]]], elim disjE conjE exE)
    fix r u ps''
    assume r: "r \<noteq> 0" "\<not> pte_v (pte_at r u)" and
      u: "respaced pt s ps (mapped (pte_of (mem s) pt) a pa perm (Suc i))
        (u\<lparr>mem := store64 (mem u) r (PA2PTE (pa + of_nat (4096 * i)) OR perm OR PTE_V)\<rparr>) ps''"
    have "mapping_inv pt s ps a pa perm n
        (a + of_nat (4096 * i) + PGSIZE, pa + of_nat (4096 * i) + PGSIZE)
        (u\<lparr>mem := store64 (mem u) r (PA2PTE (pa + of_nat (4096 * i)) OR perm OR PTE_V)\<rparr>)"
      if "Suc i < n"
      using that u by (auto simp: mapping_inv_def algebra_simps intro!: exI [of _ "Suc i"])
    then show "wp env (if r = 0 then retM (Inr False)
          else seqM (panic_ifM (\<lambda>s. pte_at r s AND PTE_V \<noteq> 0) ''mappages: remap'')
              (seqM (set_pte r (PA2PTE (pa + of_nat (4096 * i)) OR perm OR PTE_V))
              (retM (if a + of_nat (4096 * i) = last_a then Inr True
                 else Inl (a + of_nat (4096 * i) + PGSIZE, pa + of_nat (4096 * i) + PGSIZE)))))
      (\<lambda>r u. case r of Inl k \<Rightarrow> mapping_inv pt s ps a pa perm n k u \<and>
          2 ^ 38 - unat (fst k) < 2 ^ 38 - unat (fst (a + of_nat (4096 * i), pa + of_nat (4096 * i)))
        | Inr x \<Rightarrow> mapping_result pt s ps a pa perm n x u) u"
      using r u lst dec i(1)
      by (cases "Suc i = n") (auto simp: wp_simps set_pte_def pte_v_def mapping_result_def)
  qed (simp add: wp_simps)
qed

lemma mappages_pages:
  assumes s: "ptinv s pt ps" "L_kmem \<notin> held s"
    and a: "aligned a" "unat a + 4096 * n \<le> 2 ^ 38" "0 < n"
    and va: "PGROUNDDOWN va = a" "PGROUNDDOWN (va + sz - 1) = a + of_nat (4096 * (n - 1))" "sz \<noteq> 0"
    and free: "\<And>i. i < n \<Longrightarrow> \<not> pte_v (pte_of (mem s) pt (a + of_nat (4096 * i)))"
  shows "wp env (mappages pt va sz pa perm) (mapping_result pt s ps a pa perm n) s"
  unfolding mappages_def if_not_P [OF va(3)]
proof (rule wp_loop [where I = "mapping_inv pt s ps a pa perm n" and \<mu> = "\<lambda>k _. 2 ^ 38 - unat (fst k)"])
  show "mapping_inv pt s ps a pa perm n (PGROUNDDOWN va, pa) s"
    using a(3) va(1) respaced_refl [OF s(1)] by (auto simp: mapping_inv_def intro!: exI [of _ 0])
qed (rule mappages_body_wp [OF _ a s(2) va(2) free])

lemma page_range:
  assumes "sz \<noteq> 0" "unat va + unat sz \<le> 2 ^ 38"
  defines "a \<equiv> PGROUNDDOWN va" and "p \<equiv> unat va div 4096" and "q \<equiv> (unat va + unat sz - 1) div 4096"
  shows "unat a = 4096 * p" "p \<le> q" "unat a + 4096 * (q - p + 1) \<le> 2 ^ 38"
    "PGROUNDDOWN (va + sz - 1) = a + of_nat (4096 * (q - p))"
    "vb < MAXVA \<Longrightarrow> unat (PGROUNDDOWN vb - a) < 4096 * (q - p + 1) \<longleftrightarrow>
      p \<le> unat vb div 4096 \<and> unat vb div 4096 \<le> q"
proof -
  show a: "unat a = 4096 * p" by (simp add: a_def p_def unat_PGROUNDDOWN)
  have sz: "0 < unat sz" using assms(1) by (simp add: unat_gt_0)
  show pq: "p \<le> q" unfolding p_def q_def using sz by (intro div_le_mono) simp
  have "unat va + unat sz - 1 < 4096 * 2 ^ 26" using assms(2) sz by simp
  then have q: "q < 2 ^ 26" unfolding q_def by (simp add: less_mult_imp_div_less mult.commute)
  then show "unat a + 4096 * (q - p + 1) \<le> 2 ^ 38" using a pq by simp
  have m1: "unat (sz - 1) = unat sz - 1" using assms(1) by (rule unat_minus_one)
  have "unat (va + of_nat (unat (sz - 1))) = unat va + unat (sz - 1)"
    by (rule unat_add_small) (use assms(2) m1 in simp)
  then have "unat (va + (sz - 1)) = unat va + unat (sz - 1)" by (simp only: of_nat_unat ucast_id)
  then have "unat (va + sz - 1) = unat va + unat sz - 1" using sz m1 by (simp add: algebra_simps)
  then have last: "unat (PGROUNDDOWN (va + sz - 1)) = 4096 * q"
    by (simp add: unat_PGROUNDDOWN q_def)
  have "unat (a + of_nat (4096 * (q - p))) = unat a + 4096 * (q - p)"
    using a q pq by (intro unat_add_small) simp
  then show "PGROUNDDOWN (va + sz - 1) = a + of_nat (4096 * (q - p))"
    using last a pq by (simp add: word_unat_eq_iff)
  assume vb: "vb < MAXVA"
  have b: "unat (PGROUNDDOWN vb) = 4096 * (unat vb div 4096)" by (simp add: unat_PGROUNDDOWN)
  have "unat vb div 4096 < 2 ^ 26" using vb by (simp add: word_less_nat_alt less_mult_imp_div_less)
  then show "unat (PGROUNDDOWN vb - a) < 4096 * (q - p + 1) \<longleftrightarrow>
      p \<le> unat vb div 4096 \<and> unat vb div 4096 \<le> q"
    using a b pq q by (auto simp: unat_sub_if')
qed

section \<open>Properties\<close>

text \<open>
  C3. \<open>mappages\<close> on a well-formed page table and an unmapped range below \<open>MAXVA\<close> never panics. If it
  returns 0, the leaf entry of every page that meets \<open>[va, va + sz)\<close> is the given frame (advancing
  page by page from \<open>pa\<close>) with the given permissions and \<open>PTE_V\<close>, and the entry of every other page is
  what it was. It returns -1 only when no free page is left. The table stays well formed, its new
  table pages come off the free list, and no byte outside the table pages changes.
\<close>

theorem mappages_correct:
  assumes "ptinv s pt ps" "L_kmem \<notin> held s" "sz \<noteq> 0" "unat va + unat sz \<le> 2 ^ 38"
    and "\<And>vb. unat va div 4096 \<le> unat vb div 4096 \<Longrightarrow>
      unat vb div 4096 \<le> (unat va + unat sz - 1) div 4096 \<Longrightarrow> \<not> pte_v (pte_of (mem s) pt vb)"
  shows "wp env (mappages pt va sz pa perm) (\<lambda>ok t. \<exists>ps'. ptinv t pt ps' \<and>
    (ok \<longrightarrow> (\<forall>vb<MAXVA. pte_of (mem t) pt vb =
       (if unat va div 4096 \<le> unat vb div 4096 \<and> unat vb div 4096 \<le> (unat va + unat sz - 1) div 4096
        then PA2PTE (pa + (PGROUNDDOWN vb - PGROUNDDOWN va)) OR perm OR PTE_V
        else pte_of (mem s) pt vb))) \<and>
    (\<not> ok \<longrightarrow> ps' = []) \<and>
    table_pages (mem t) pt = table_pages (mem s) pt \<union> (set ps - set ps') \<and>
    (\<forall>x. (\<forall>a\<in>table_pages (mem t) pt. \<not> in_page a x) \<longrightarrow> mem t x = mem s x) \<and> mem_only s t) s"
proof -
  define a n where "a = PGROUNDDOWN va" and
    "n = (unat va + unat sz - 1) div 4096 - unat va div 4096 + 1"
  note rng = page_range [OF assms(3,4), folded a_def]
  have n: "unat a + 4096 * n \<le> 2 ^ 38" "0 < n" "aligned a"
    using rng(3) by (simp_all add: n_def a_def)
  have "\<not> pte_v (pte_of (mem s) pt (a + of_nat (4096 * i)))" if "i < n" for i
  proof -
    have "unat (a + of_nat (4096 * i)) = 4096 * (unat va div 4096 + i)"
      using page_number(1) [OF n(3,1) that] rng(1) by simp
    moreover have "unat va div 4096 + i \<le> (unat va + unat sz - 1) div 4096"
      using that rng(2) unfolding n_def by linarith
    ultimately show ?thesis by (intro assms(5)) simp_all
  qed
  then have "wp env (mappages pt va sz pa perm) (mapping_result pt s ps a pa perm n) s"
    using assms(1-3) n rng(4) by (intro mappages_pages) (simp_all add: a_def n_def)
  then show ?thesis
  proof (rule wp_conseq)
    fix ok t
    assume "mapping_result pt s ps a pa perm n ok t"
    then obtain ps' i where r: "respaced pt s ps (mapped (pte_of (mem s) pt) a pa perm i) t ps'"
      "if ok then i = n else i < n \<and> ps' = []" by (auto simp: mapping_result_def)
    obtain us where us: "ps = us @ ps'" "table_pages (mem t) pt = table_pages (mem s) pt \<union> set us"
      using r(1) by (auto simp: respaced_def)
    then have "set us = set ps - set ps'"
      using assms(1) by (auto simp: ptinv_def free_pages_def)
    then show "\<exists>ps'. ptinv t pt ps' \<and>
      (ok \<longrightarrow> (\<forall>vb<MAXVA. pte_of (mem t) pt vb =
       (if unat va div 4096 \<le> unat vb div 4096 \<and> unat vb div 4096 \<le> (unat va + unat sz - 1) div 4096
        then PA2PTE (pa + (PGROUNDDOWN vb - PGROUNDDOWN va)) OR perm OR PTE_V
        else pte_of (mem s) pt vb))) \<and> (\<not> ok \<longrightarrow> ps' = []) \<and>
      table_pages (mem t) pt = table_pages (mem s) pt \<union> (set ps - set ps') \<and>
      (\<forall>x. (\<forall>a\<in>table_pages (mem t) pt. \<not> in_page a x) \<longrightarrow> mem t x = mem s x) \<and> mem_only s t"
      using r us rng(5) by (intro exI [of _ ps'])
        (auto simp: respaced_def mapped_def Let_def n_def a_def [symmetric] split: if_splits)
  qed
qed

text \<open>A page table with an empty root page, beside two free pages.\<close>

lemma node_zero_root:
  assumes "\<And>x. in_page pt x \<Longrightarrow> m x = 0" "aligned pt" "good_path is" "node m pt is = Some a"
  shows "is = [] \<and> a = pt"
proof (cases "is")
  case (Cons i js)
  then have i: "i < 512" using assms(3) by (simp add: good_path_def)
  have "ent m pt i = ent (memset m pt 0 4096) pt i"
    using assms(1,2) i by (intro ent_cong) (simp_all add: memset_page)
  then have "ent m pt i = 0" using ent_memset_zero [OF assms(2) i] by simp
  with Cons assms(4) show ?thesis by simp
qed (use assms(4) in simp)

lemma empty_table:
  assumes "\<And>x. in_page pt x \<Longrightarrow> m x = 0" "aligned pt"
  shows "wf_table m pt" "table_pages m pt = {pt}" "pte_of m pt va = 0" "leaf_slot m pt va = None"
proof -
  have nd: "is = [] \<and> a = pt" if "good_path is" "node m pt is = Some a" for "is" a
    using node_zero_root [of pt m, OF _ assms(2) that] assms(1) by simp
  show tp: "table_pages m pt = {pt}"
    using nd by (auto simp: table_pages_def good_path_def intro: exI [of _ "[]"])
  show "wf_table m pt" unfolding wf_table_def tp using assms(2) nd by blast
  have "node m pt (path va) = None"
    using nd [OF good_path_path [of va]] by (cases "node m pt (path va)") (auto simp: path_def)
  then show "pte_of m pt va = 0" "leaf_slot m pt va = None" by (simp_all add: pte_of_def leaf_slot_def)
qed

lemma two_free_root:
  assumes "in_page 0x87FFD000 x"
  shows "mem two_free x = 0"
proof -
  have "\<not> in_page 0x87FFE000 x"
    using assms in_page_unique [of "0x87FFD000" "0x87FFE000" x] by (auto simp: aligned_def)
  then have "\<not> unat (x - 0x87FFE000) < 8" by (simp add: in_page_def)
  then show ?thesis
    by (simp add: two_free_def boot_kmem_def kbase.defs kmem_state.defs store64_apply)
qed

lemmas empty_two_free = empty_table [where m = "mem two_free" and pt = "0x87FFD000", OF two_free_root]

lemma ptinv_two_free: "ptinv two_free 0x87FFD000 [0x87FFE000, 0x87FFF000]"
  using empty_two_free free_pages_two_free by (simp add: ptinv_def aligned_def page_ok_def)

theorem mappages_correct_witness:
  "wp id (mappages 0x87FFD000 0x1000 0x1000 0x80000000 (PTE_R OR PTE_U))
     (\<lambda>ok t. ok \<longrightarrow> pte_of (mem t) 0x87FFD000 0x1234 = PA2PTE 0x80000000 OR (PTE_R OR PTE_U) OR PTE_V)
     two_free"
proof -
  have z: "\<not> pte_v (pte_of (mem two_free) 0x87FFD000 vb)" for vb
    using empty_two_free(3) by (simp add: aligned_def)
  have "PGROUNDDOWN (0x1234 :: u64) = 0x1000" "PGROUNDDOWN (0x1000 :: u64) = 0x1000"
    by (simp_all add: PGROUNDDOWN_def)
  then show ?thesis
    using mappages_correct [OF ptinv_two_free, of "0x1000" "0x1000" id "0x80000000" "PTE_R OR PTE_U"] z
      free_pages_two_free(2)
    by (auto elim!: wp_conseq)
qed

text \<open>
  C40. \<open>uvmunmap\<close> panics the kernel when the first page of its range lies in a region that has no
  level-0 table yet, as the pages of a mapping that were never touched do.
\<close>

theorem uvmunmap_untouched_region_panics:
  assumes "aligned va" "va < MAXVA" "va < va + npages * PGSIZE" "leaf_slot (mem s) pt va = None"
  shows "uvmunmap pt va npages do_free env s = Panic ''uvmunmap: walk''"
  using assms
  by (subst uvmunmap_def, subst loopM_unfold)
    (simp add: uvmunmap_body_def bindM_def panicM_def walk_lookup aligned_def)

theorem uvmunmap_untouched_region_panics_witness:
  "uvmunmap 0x87FFD000 0x3000000000 1 True id two_free = Panic ''uvmunmap: walk''"
  using uvmunmap_untouched_region_panics [of "0x3000000000" 1 two_free "0x87FFD000" True id]
    empty_two_free(4)
  by (simp add: aligned_def)

end
