(* ===== verification/Usermem.thy ===== *)
theory Usermem
  imports Pagetable
begin

text \<open>
  Copies between kernel and user memory. \<open>upage\<close> is the frame a page of user memory is mapped
  to, \<open>uread_bytes\<close> and \<open>uwrite_bytes\<close> are byte-at-a-time reference definitions; the pagewise
  loops of \<open>copyin\<close>, \<open>copyinstr\<close> and \<open>copyout\<close> compute them.
\<close>

section \<open>Reference definitions\<close>

definition upage :: "memory \<Rightarrow> u64 \<Rightarrow> u64 \<Rightarrow> u64" where
  "upage m pt va =
     (if va < MAXVA \<and> pte_v (pte_of m pt va) \<and> pte_of m pt va AND PTE_U \<noteq> 0
      then PTE2PA (pte_of m pt va) else 0)"

definition page_off :: "u64 \<Rightarrow> u64" where
  "page_off va = va - PGROUNDDOWN va"

definition uaddr :: "memory \<Rightarrow> u64 \<Rightarrow> u64 \<Rightarrow> u64 option" where
  "uaddr m pt va = (let p = upage m pt (PGROUNDDOWN va) in
     if p = 0 then None else Some (p + page_off va))"

fun uread_bytes :: "memory \<Rightarrow> u64 \<Rightarrow> u64 \<Rightarrow> nat \<Rightarrow> u8 list \<times> bool" where
  "uread_bytes m pt va 0 = ([], True)"
| "uread_bytes m pt va (Suc n) = (case uaddr m pt va of
     None \<Rightarrow> ([], False)
   | Some a \<Rightarrow> (let (bs, ok) = uread_bytes m pt (va + 1) n in (m a # bs, ok)))"

text \<open>\<open>m0\<close> is the memory the page table is read from.\<close>

fun uwrite_bytes :: "memory \<Rightarrow> u64 \<Rightarrow> memory \<Rightarrow> u64 \<Rightarrow> u8 list \<Rightarrow> memory \<times> bool" where
  "uwrite_bytes m0 pt m va [] = (m, True)"
| "uwrite_bytes m0 pt m va (b # bs) = (case uaddr m0 pt va of
     None \<Rightarrow> (m, False)
   | Some a \<Rightarrow> uwrite_bytes m0 pt (m(a := b)) (va + 1) bs)"

fun ureadstr :: "memory \<Rightarrow> u64 \<Rightarrow> u64 \<Rightarrow> nat \<Rightarrow> u8 list \<times> bool" where
  "ureadstr m pt va 0 = ([], False)"
| "ureadstr m pt va (Suc n) = (case uaddr m pt va of
     None \<Rightarrow> ([], False)
   | Some a \<Rightarrow> if m a = 0 then ([0], True)
       else (let (bs, ok) = ureadstr m pt (va + 1) n in (m a # bs, ok)))"

section \<open>walkaddr\<close>

text \<open>A usable page table; one whose user pages are not its own table pages.\<close>

definition pt_ok :: "'x kmem_state_scheme \<Rightarrow> u64 \<Rightarrow> bool" where
  "pt_ok s pt \<longleftrightarrow> wf_table (mem s) pt \<and> (\<forall>a\<in>table_pages (mem s) pt. page_ok (kernel_end s) a)"

definition user_ok :: "'x kmem_state_scheme \<Rightarrow> u64 \<Rightarrow> bool" where
  "user_ok s pt \<longleftrightarrow> pt_ok s pt \<and>
     (\<forall>va. upage (mem s) pt va \<noteq> 0 \<longrightarrow> upage (mem s) pt va \<notin> table_pages (mem s) pt)"

lemma ptinv_pt_ok: "ptinv s pt ps \<Longrightarrow> pt_ok s pt"
  by (simp add: ptinv_def pt_ok_def)

lemma walkaddr_run:
  assumes "pt_ok s pt"
  shows "walkaddr pt va env s = Done (upage (mem s) pt va) s"
proof (cases "va < MAXVA")
  case False
  then have "MAXVA \<le> va" by (simp add: not_less)
  with False show ?thesis by (simp add: walkaddr_def upage_def run_simps)
next
  case True
  then have lt: "(MAXVA \<le> va) = False" by (simp add: not_le)
  show ?thesis
  proof (cases "leaf_slot (mem s) pt va")
    case None
    then have "pte_of (mem s) pt va = 0" by (simp add: leaf_slot_def pte_of_def)
    with None lt True show ?thesis
      by (simp add: walkaddr_def bindM_def retM_def walk_lookup upage_def)
  next
    case (Some r)
    obtain t where t: "r = t + 8 * PX 0 va" "t \<in> table_pages (mem s) pt"
      using Some by (elim leaf_slotD) auto
    then have "page_ok (kernel_end s) t" using assms by (simp add: pt_ok_def)
    then have "r \<noteq> 0" using t(1) slot_nonzero by simp
    with Some lt True show ?thesis
      by (simp add: walkaddr_def bindM_def retM_def getM_def walk_lookup upage_def pte_at_leaf pte_v_def)
  qed
qed

lemma wp_walkaddr:
  "pt_ok s pt \<Longrightarrow> wp env (walkaddr pt va) Q s = Q (upage (mem s) pt va) s"
  by (simp add: wp_def walkaddr_run)

section \<open>Inside a page\<close>

lemma unat_page_off: "unat (page_off va) = unat va mod 4096"
  by (simp add: page_off_def PGROUNDDOWN_offset)

lemma page_split: "va = PGROUNDDOWN va + page_off va"
  by (simp add: page_off_def)

lemma PGROUNDDOWN_add:
  assumes "unat (page_off va) + k < 4096"
  shows "PGROUNDDOWN (va + of_nat k) = PGROUNDDOWN va" "page_off (va + of_nat k) = page_off va + of_nat k"
proof -
  have "va + of_nat k = PGROUNDDOWN va + of_nat (unat (page_off va) + k)"
    by (simp add: page_off_def)
  then show eq: "PGROUNDDOWN (va + of_nat k) = PGROUNDDOWN va"
    using PGROUNDDOWN_in_page [OF aligned_PGROUNDDOWN assms] by metis
  then show "page_off (va + of_nat k) = page_off va + of_nat k" by (simp add: page_off_def)
qed

definition page_room :: "u64 \<Rightarrow> nat" where
  "page_room va = unat (PGSIZE - page_off va)"

lemma page_room_eq: "page_room va = 4096 - unat (page_off va)"
proof -
  have "unat (page_off va) < 4096" by (simp add: unat_page_off)
  then have "page_off va \<le> PGSIZE" by (simp add: word_le_nat_alt)
  then show ?thesis by (simp add: page_room_def unat_sub)
qed

lemma page_room_pos: "0 < page_room va"
  using unat_page_off [of va] by (simp add: page_room_eq)

lemma next_page: "va + of_nat (page_room va) = PGROUNDDOWN va + PGSIZE"
proof -
  have "of_nat (page_room va) = PGSIZE - page_off va" by (simp add: page_room_def)
  then show ?thesis by (simp add: page_off_def)
qed

lemma page_step:
  assumes "Suc k \<le> page_room va" "k \<noteq> 0"
  shows "PGROUNDDOWN (va + 1) = PGROUNDDOWN va" "page_off (va + 1) = page_off va + 1"
    "k \<le> page_room (va + 1)"
proof -
  have lt: "unat (page_off va) + 1 < 4096" using assms by (simp add: page_room_eq)
  then show pg: "PGROUNDDOWN (va + 1) = PGROUNDDOWN va" "page_off (va + 1) = page_off va + 1"
    using PGROUNDDOWN_add [of va 1] by simp_all
  have "unat (page_off va + 1) = unat (page_off va) + 1"
    using unat_add_small [of "page_off va" 1] lt by simp
  then show "k \<le> page_room (va + 1)" using assms(1) pg by (simp add: page_room_eq)
qed

lemma load_bytes_Suc: "load_bytes m a (Suc n) = m a # load_bytes m (a + 1) n"
  by (simp add: load_bytes_def map_upt_Suc del: upt_Suc) (simp add: algebra_simps)

lemma uread_bytes_page:
  assumes "k \<le> page_room va" "upage m pt (PGROUNDDOWN va) = p"
  shows "uread_bytes m pt va (k + n) =
    (if p = 0 \<and> 0 < k then ([], False)
     else let (bs, ok) = uread_bytes m pt (va + of_nat k) n
          in (load_bytes m (p + page_off va) k @ bs, ok))"
  using assms
proof (induction k arbitrary: va)
  case 0
  then show ?case by (simp add: load_bytes_def)
next
  case (Suc k)
  show ?case
  proof (cases "p = 0")
    case True
    then show ?thesis using Suc.prems by (simp add: uaddr_def)
  next
    case False
    have "uread_bytes m pt (va + 1) (k + n) =
      (let (bs, ok) = uread_bytes m pt (va + of_nat (Suc k)) n
       in (load_bytes m (p + page_off va + 1) k @ bs, ok))"
    proof (cases "k = 0")
      case True
      then show ?thesis by (simp add: load_bytes_def)
    next
      case k: False
      show ?thesis
        using Suc.IH [OF page_step(3) [OF Suc.prems(1) k]] page_step(1,2) [OF Suc.prems(1) k]
          Suc.prems(2) False by (simp add: algebra_simps)
    qed
    with False Suc.prems(2) show ?thesis
      by (simp add: uaddr_def load_bytes_Suc split: prod.splits)
  qed
qed

section \<open>copyin\<close>

lemma copyin_loop:
  assumes "pt_ok s pt"
  shows "loopM (copyin_body pt) (dst, va, n) env s =
    Done (dst @ fst (uread_bytes (mem s) pt va n), snd (uread_bytes (mem s) pt va n)) s"
proof (induction n arbitrary: dst va rule: less_induct)
  case (less n)
  let ?p = "upage (mem s) pt (PGROUNDDOWN va)"
  define k where "k = min (page_room va) n"
  show ?case
  proof (cases "n = 0 \<or> ?p = 0")
    case True
    then show ?thesis
      using uread_bytes_page [of n va "mem s" pt ?p 0] walkaddr_run [OF assms]
      by (cases n) (subst loopM_unfold,
          simp add: copyin_body_def bindM_def retM_def uaddr_def Let_def)+
  next
    case False
    have k: "0 < k" "k \<le> page_room va" "k \<le> n"
      using False page_room_pos by (auto simp: k_def)
    have body: "copyin_body pt (dst, va, n) env s =
        Done (Inl (dst @ load_bytes (mem s) (?p + page_off va) k, PGROUNDDOWN va + PGSIZE, n - k)) s"
      using False walkaddr_run [OF assms]
      by (simp add: copyin_body_def bindM_def retM_def getM_def Let_def page_room_def page_off_def
          k_def)
    have "va + of_nat k = PGROUNDDOWN va + PGSIZE \<or> n - k = 0"
      using next_page [of va] by (simp add: min_def k_def)
    then have rest: "uread_bytes (mem s) pt (va + of_nat k) (n - k) =
        uread_bytes (mem s) pt (PGROUNDDOWN va + PGSIZE) (n - k)" by auto
    have "uread_bytes (mem s) pt va (k + (n - k)) =
        (let (bs, ok) = uread_bytes (mem s) pt (PGROUNDDOWN va + PGSIZE) (n - k)
         in (load_bytes (mem s) (?p + page_off va) k @ bs, ok))"
      using uread_bytes_page [OF k(2) refl, where n = "n - k"] False rest by simp
    moreover have "k + (n - k) = n" "n - k < n" using k by simp_all
    ultimately show ?thesis
      using less.IH [of "n - k"] body
      by (subst loopM_unfold) (simp add: bindM_def Let_def split: prod.splits)
  qed
qed

lemma copyin_run:
  "pt_ok s pt \<Longrightarrow> copyin pt va n env s = Done (uread_bytes (mem s) pt va n) s"
  by (simp add: copyin_def copyin_loop)

section \<open>copyinstr\<close>

lemma copyinstr_page_length: "copyinstr_page m p k = (bs, False) \<Longrightarrow> length bs = k"
  by (induction k arbitrary: p bs) (auto simp: Let_def split: prod.splits if_splits)

lemma ureadstr_page:
  assumes "k \<le> page_room va" "upage m pt (PGROUNDDOWN va) = p"
  shows "ureadstr m pt va (k + n) =
    (if p = 0 \<and> 0 < k then ([], False)
     else let (bs, got) = copyinstr_page m (p + page_off va) k in
          if got then (bs, True)
          else let (cs, ok) = ureadstr m pt (va + of_nat k) n in (bs @ cs, ok))"
  using assms
proof (induction k arbitrary: va)
  case 0
  then show ?case by simp
next
  case (Suc k)
  show ?case
  proof (cases "k = 0 \<or> p = 0")
    case True
    with Suc.prems(2) show ?thesis by (auto simp: uaddr_def Let_def split: prod.splits)
  next
    case False
    with Suc.IH [OF page_step(3) [OF Suc.prems(1)]] page_step(1,2) [OF Suc.prems(1)] Suc.prems(2)
    show ?thesis by (simp add: uaddr_def Let_def algebra_simps split: prod.splits)
  qed
qed

lemma copyinstr_loop:
  assumes "pt_ok s pt"
  shows "loopM (copyinstr_body pt) (dst, False, va, n) env s =
    Done (dst @ fst (ureadstr (mem s) pt va n), snd (ureadstr (mem s) pt va n)) s"
proof (induction n arbitrary: dst va rule: less_induct)
  case (less n)
  let ?p = "upage (mem s) pt (PGROUNDDOWN va)"
  define k where "k = min (page_room va) n"
  obtain bs got where bs: "copyinstr_page (mem s) (?p + page_off va) k = (bs, got)" by force
  show ?case
  proof (cases "n = 0 \<or> ?p = 0")
    case True
    then show ?thesis
      using walkaddr_run [OF assms]
      by (cases n) (subst loopM_unfold,
          simp add: copyinstr_body_def bindM_def retM_def uaddr_def Let_def)+
  next
    case False
    have k: "0 < k" "k \<le> page_room va" "k \<le> n"
      using False page_room_pos by (auto simp: k_def)
    have body: "copyinstr_body pt (dst, False, va, n) env s =
        Done (Inl (dst @ bs, got, PGROUNDDOWN va + PGSIZE, n - (length bs - (if got then 1 else 0)))) s"
      using False bs walkaddr_run [OF assms]
      by (simp add: copyinstr_body_def bindM_def retM_def getM_def Let_def page_room_def page_off_def
          k_def)
    have "va + of_nat k = PGROUNDDOWN va + PGSIZE \<or> n - k = 0"
      using next_page [of va] by (simp add: min_def k_def)
    then have rest: "ureadstr (mem s) pt (va + of_nat k) (n - k) =
        ureadstr (mem s) pt (PGROUNDDOWN va + PGSIZE) (n - k)" by auto
    have all: "ureadstr (mem s) pt va n = (if got then (bs, True) else
        let (cs, ok) = ureadstr (mem s) pt (PGROUNDDOWN va + PGSIZE) (n - k) in (bs @ cs, ok))"
      using ureadstr_page [OF k(2) refl, where n = "n - k"] k(3) False rest bs by simp
    have fin: "copyinstr_body pt (d, True, v, l) env s = Done (Inr (d, True)) s" for d v l
      by (simp add: copyinstr_body_def retM_def)
    show ?thesis
    proof (cases got)
      case True
      then show ?thesis
        using all fin by (subst loopM_unfold) (simp add: bindM_def body, subst loopM_unfold,
            simp add: bindM_def retM_def)
    next
      case False
      then have "length bs = k"
        using copyinstr_page_length bs by simp
      then show ?thesis
        using False all less.IH [of "n - k"] k
        by (subst loopM_unfold) (simp add: bindM_def body Let_def split: prod.splits)
    qed
  qed
qed

lemma copyinstr_run:
  "pt_ok s pt \<Longrightarrow> copyinstr pt va n env s = Done (ureadstr (mem s) pt va n) s"
  by (simp add: copyinstr_def copyinstr_loop)

section \<open>copyout\<close>

lemma store_bytes_Cons:
  assumes "length bs < 2 ^ 64 - 1"
  shows "store_bytes m a (b # bs) = store_bytes (m(a := b)) (a + 1) bs"
proof (rule ext)
  fix x
  show "store_bytes m a (b # bs) x = store_bytes (m(a := b)) (a + 1) bs x"
  proof (cases "x = a")
    case True
    have "unat (- 1 :: u64) = 2 ^ 64 - 1" by (simp add: unsigned_minus_1_eq_mask mask_eq_exp_minus_1)
    then have "\<not> unat (a - (a + 1)) < length bs" using assms by simp
    with True show ?thesis by (simp add: store_bytes_def)
  next
    case False
    then have "x - a \<noteq> 0" by simp
    then have "unat (x - (a + 1)) = unat (x - a) - 1" "unat (x - a) \<noteq> 0"
      using unat_minus_one [of "x - a"] by (simp_all add: algebra_simps unat_eq_zero)
    with False show ?thesis
      by (auto simp: store_bytes_def nth_Cons split: nat.splits)
  qed
qed

lemma uwrite_bytes_page:
  assumes "length xs \<le> page_room va" "upage m0 pt (PGROUNDDOWN va) = p"
  shows "uwrite_bytes m0 pt m va (xs @ ys) =
    (if p = 0 \<and> xs \<noteq> [] then (m, False)
     else uwrite_bytes m0 pt (store_bytes m (p + page_off va) xs) (va + of_nat (length xs)) ys)"
  using assms
proof (induction xs arbitrary: va m)
  case Nil
  then show ?case by (simp add: store_bytes_def)
next
  case (Cons b xs)
  have len: "length xs < 2 ^ 64 - 1" using Cons.prems(1) by (simp add: page_room_eq)
  show ?case
  proof (cases "xs = [] \<or> p = 0")
    case True
    with Cons.prems(2) show ?thesis
      by (auto simp: uaddr_def Let_def store_bytes_Cons) (simp add: store_bytes_def fun_upd_def)
  next
    case False
    then have ne: "length xs \<noteq> 0" by simp
    have room: "Suc (length xs) \<le> page_room va" using Cons.prems(1) by simp
    show ?thesis
      using Cons.IH [OF page_step(3) [OF room ne]] page_step(1,2) [OF room ne] Cons.prems(2) False
        store_bytes_Cons [OF len, of m "p + page_off va" b]
      by (simp add: uaddr_def Let_def algebra_simps)
  qed
qed

lemma in_page_store:
  assumes "aligned p" "length xs \<le> page_room va" "store_bytes m (p + page_off va) xs x \<noteq> m x"
  shows "in_page p x"
proof -
  have "unat (x - (p + page_off va)) < length xs"
    using assms(3) by (auto simp: store_bytes_def split: if_splits)
  then obtain i where i: "i < length xs" "x = p + page_off va + of_nat i"
    using unat_diff_lt_iff [of "length xs" x "p + page_off va"] assms(2) by (auto simp: page_room_eq)
  have "unat (page_off va) + i < 4096" using i(1) assms(2) by (simp add: page_room_eq)
  moreover have "x - p = of_nat (unat (page_off va) + i)" using i(2) by simp
  ultimately show ?thesis
    unfolding in_page_def by (simp only: unat_of_nat) (simp add: take_bit_nat_eq_self_iff)
qed

lemma PTE2PA_aligned: "aligned (PTE2PA e)"
proof -
  have "take_bit 12 (PTE2PA e) = 0" by (simp add: PTE2PA_def take_bit_push_bit)
  then have "unat (take_bit 12 (PTE2PA e)) = 0" by simp
  then show ?thesis by (simp add: unat_take_bit_mod aligned_unat)
qed

lemma upage_aligned: "aligned (upage m pt va)"
  by (simp add: upage_def PTE2PA_aligned) (simp add: aligned_def)

text \<open>Memories that agree on the table pages have the same address space.\<close>

definition tables_agree :: "memory \<Rightarrow> u64 \<Rightarrow> memory \<Rightarrow> bool" where
  "tables_agree m0 pt m \<longleftrightarrow> (\<forall>a\<in>table_pages m0 pt. \<forall>x. in_page a x \<longrightarrow> m x = m0 x)"

lemma tables_agree_same:
  assumes "pt_ok s pt" "tables_agree (mem s) pt m"
  shows "pt_ok (s\<lparr>mem := m\<rparr>) pt" "upage m pt va = upage (mem s) pt va"
proof -
  have wf: "wf_table (mem s) pt" using assms(1) by (simp add: pt_ok_def)
  have eq: "\<And>a x. a \<in> table_pages (mem s) pt \<Longrightarrow> in_page a x \<Longrightarrow> m x = mem s x"
    using assms(2) by (auto simp: tables_agree_def)
  note nodes = node_cong_pages [OF wf eq]
  show "pt_ok (s\<lparr>mem := m\<rparr>) pt"
    using assms(1) wf_table_cong [OF wf nodes] by (simp add: pt_ok_def)
  show "upage m pt va = upage (mem s) pt va" by (simp add: upage_def pte_of_cong_pages [OF wf eq])
qed

lemma tables_agree_store:
  assumes "user_ok s pt" "tables_agree (mem s) pt m" "upage (mem s) pt (PGROUNDDOWN va) = p" "p \<noteq> 0"
    "length xs \<le> page_room va"
  shows "tables_agree (mem s) pt (store_bytes m (p + page_off va) xs)"
  unfolding tables_agree_def
proof (intro ballI allI impI)
  fix a x
  assume a: "a \<in> table_pages (mem s) pt" "in_page a x"
  have "aligned a" "p \<notin> table_pages (mem s) pt" "aligned p"
    using assms(1,3,4) a(1) upage_aligned [of "mem s" pt "PGROUNDDOWN va"]
    by (auto simp: user_ok_def pt_ok_def wf_table_def)
  then have "\<not> in_page p x" using in_page_unique a by blast
  then have "store_bytes m (p + page_off va) xs x = m x"
    using in_page_store [OF \<open>aligned p\<close> assms(5)] by blast
  then show "store_bytes m (p + page_off va) xs x = mem s x"
    using assms(2) a by (simp add: tables_agree_def)
qed

lemma copyout_loop:
  assumes "user_ok s pt" "tables_agree (mem s) pt m"
  shows "loopM (copyout_body pt) (va, bs) env (s\<lparr>mem := m\<rparr>) =
    Done (snd (uwrite_bytes (mem s) pt m va bs)) (s\<lparr>mem := fst (uwrite_bytes (mem s) pt m va bs)\<rparr>)"
  using assms(2)
proof (induction bs arbitrary: m va rule: length_induct)
  case (1 bs)
  have ok: "pt_ok s pt" using assms(1) by (simp add: user_ok_def)
  let ?p = "upage (mem s) pt (PGROUNDDOWN va)"
  have wa: "walkaddr pt (PGROUNDDOWN va) env (s\<lparr>mem := m\<rparr>) = Done ?p (s\<lparr>mem := m\<rparr>)"
    using walkaddr_run [OF tables_agree_same(1) [OF ok "1.prems"]] tables_agree_same(2) [OF ok "1.prems"]
    by simp
  define k where "k = min (page_room va) (length bs)"
  show ?case
  proof (cases "bs = [] \<or> ?p = 0")
    case True
    then show ?thesis
      using wa by (cases bs) (subst loopM_unfold,
          simp add: copyout_body_def bindM_def retM_def uaddr_def Let_def)+
  next
    case False
    have k: "0 < k" "k \<le> page_room va" "k \<le> length bs"
      using False page_room_pos by (auto simp: k_def)
    let ?m = "store_bytes m (?p + page_off va) (take k bs)"
    have body: "copyout_body pt (va, bs) env (s\<lparr>mem := m\<rparr>) =
        Done (Inl (PGROUNDDOWN va + PGSIZE, drop k bs)) (s\<lparr>mem := ?m\<rparr>)"
      using False wa
      by (simp add: copyout_body_def run_defs Let_def page_room_def page_off_def k_def)
    have "va + of_nat k = PGROUNDDOWN va + PGSIZE \<or> drop k bs = []"
      using next_page [of va] by (auto simp: min_def k_def)
    then have "uwrite_bytes (mem s) pt ?m (va + of_nat k) (drop k bs) =
        uwrite_bytes (mem s) pt ?m (PGROUNDDOWN va + PGSIZE) (drop k bs)" by auto
    then have "uwrite_bytes (mem s) pt m va bs =
        uwrite_bytes (mem s) pt ?m (PGROUNDDOWN va + PGSIZE) (drop k bs)"
      using uwrite_bytes_page [of "take k bs" va "mem s" pt ?p m "drop k bs"] k False
      by (simp add: min_def split: if_splits)
    moreover have "tables_agree (mem s) pt ?m"
      using tables_agree_store [OF assms(1) "1.prems" refl] False k by simp
    ultimately show ?thesis
      using "1.IH" k body by (subst loopM_unfold) (simp add: bindM_def)
  qed
qed

lemma copyout_run:
  assumes "user_ok s pt"
  shows "copyout pt va bs env s = Done (snd (uwrite_bytes (mem s) pt (mem s) va bs))
    (s\<lparr>mem := fst (uwrite_bytes (mem s) pt (mem s) va bs)\<rparr>)"
  using copyout_loop [OF assms, of "mem s" va bs env] by (simp add: copyout_def tables_agree_def)

section \<open>Reading back what was written\<close>

text \<open>No two user pages share a frame.\<close>

definition user_inj :: "memory \<Rightarrow> u64 \<Rightarrow> bool" where
  "user_inj m pt \<longleftrightarrow> (\<forall>va vb. upage m pt (PGROUNDDOWN va) \<noteq> 0 \<longrightarrow>
     upage m pt (PGROUNDDOWN va) = upage m pt (PGROUNDDOWN vb) \<longrightarrow> PGROUNDDOWN va = PGROUNDDOWN vb)"

lemma uaddr_inj:
  assumes "user_inj m pt" "uaddr m pt va = Some a" "uaddr m pt vb = Some a"
  shows "va = vb"
proof -
  let ?p = "upage m pt (PGROUNDDOWN va)" and ?q = "upage m pt (PGROUNDDOWN vb)"
  have a: "?p \<noteq> 0" "a = ?p + of_nat (unat (page_off va))" "a = ?q + of_nat (unat (page_off vb))"
    using assms(2,3) by (auto simp: uaddr_def Let_def split: if_splits)
  have off: "unat (page_off va) < 4096" "unat (page_off vb) < 4096" by (simp_all add: unat_page_off)
  have "?p = ?q" using PGROUNDDOWN_in_page [OF upage_aligned off(1)] PGROUNDDOWN_in_page [OF upage_aligned off(2)]
    a(2,3) by metis
  moreover from this have "page_off va = page_off vb" using a(2,3) by simp
  ultimately show ?thesis
    using assms(1) a(1) page_split [of va] page_split [of vb] unfolding user_inj_def by metis
qed

lemma uwrite_effect:
  assumes "user_inj m0 pt" "uwrite_bytes m0 pt m va bs = (m', True)" "length bs < 2 ^ 64"
  shows "(\<forall>i<length bs. \<exists>a. uaddr m0 pt (va + of_nat i) = Some a \<and> m' a = bs ! i) \<and>
    (\<forall>x. (\<forall>i<length bs. uaddr m0 pt (va + of_nat i) \<noteq> Some x) \<longrightarrow> m' x = m x)"
  using assms(2,3)
proof (induction bs arbitrary: m va)
  case Nil
  then show ?case by simp
next
  case (Cons b bs)
  then obtain a where a: "uaddr m0 pt va = Some a" "uwrite_bytes m0 pt (m(a := b)) (va + 1) bs = (m', True)"
    by (auto split: option.splits)
  note IH = Cons.IH [OF a(2)]
  have shift: "va + 1 + of_nat i = va + of_nat (Suc i)" for i by (simp add: algebra_simps)
  have "uaddr m0 pt (va + 1 + of_nat i) \<noteq> Some a" if "i < length bs" for i
  proof
    assume "uaddr m0 pt (va + 1 + of_nat i) = Some a"
    then have "va + 1 + of_nat i = va" by (rule uaddr_inj [OF assms(1) _ a(1)])
    then have "va + of_nat (Suc i) = va + 0" by (simp only: shift add_0_right)
    then have z: "(of_nat (Suc i) :: u64) = 0" by (rule add_left_imp_eq)
    have "Suc i < 2 ^ 64" using that Cons.prems(2) by simp
    then have "unat (of_nat (Suc i) :: u64) = Suc i"
      by (simp only: unat_of_nat) (simp add: take_bit_nat_eq_self_iff)
    with z show False by (simp only: unat_0)
  qed
  then have "m' a = b" using IH Cons.prems(2) by simp
  then show ?case
    using IH Cons.prems(2) a(1) unfolding shift
    by (simp add: All_less_Suc2 fun_upd_apply del: of_nat_Suc)
qed

lemma uread_bytes_all:
  assumes "\<And>i. i < length bs \<Longrightarrow> \<exists>a. uaddr m pt (va + of_nat i) = Some a \<and> m a = bs ! i"
  shows "uread_bytes m pt va (length bs) = (bs, True)"
  using assms
proof (induction bs arbitrary: va)
  case Nil
  then show ?case by simp
next
  case (Cons b bs)
  have "uread_bytes m pt (va + 1) (length bs) = (bs, True)"
    using Cons.prems [of "Suc i" for i] by (intro Cons.IH) (force simp: algebra_simps)
  moreover have "\<exists>a. uaddr m pt va = Some a \<and> m a = b" using Cons.prems [of 0] by simp
  ultimately show ?case by auto
qed

lemma uwrite_tables:
  assumes "user_ok s pt" "tables_agree (mem s) pt m"
  shows "tables_agree (mem s) pt (fst (uwrite_bytes (mem s) pt m va bs))"
  using assms(2)
proof (induction bs arbitrary: m va)
  case (Cons b bs)
  show ?case
  proof (cases "uaddr (mem s) pt va")
    case (Some a)
    then have a: "upage (mem s) pt (PGROUNDDOWN va) \<noteq> 0" "a = upage (mem s) pt (PGROUNDDOWN va) + page_off va"
      by (auto simp: uaddr_def Let_def split: if_splits)
    have "store_bytes m a [b] = m(a := b)" by (auto simp: store_bytes_def fun_eq_iff unat_eq_zero)
    then have "tables_agree (mem s) pt (m(a := b))"
      using tables_agree_store [OF assms(1) Cons.prems refl a(1), of "[b]"] page_room_pos [of va] a(2)
      by (simp add: Suc_le_eq)
    then show ?thesis using Cons.IH Some by simp
  qed (use Cons.prems in simp)
qed simp

section \<open>Properties\<close>

text \<open>A page table with one user page, the frame \<open>0x87FFF000\<close> at address \<open>0x1000\<close>.\<close>

definition demo_mem :: memory where
  "demo_mem = store64 (store64 (store64 (\<lambda>_. 0) 0x87FFC000 (PA2PTE 0x87FFD000 OR PTE_V))
     0x87FFD000 (PA2PTE 0x87FFE000 OR PTE_V)) 0x87FFE008 (PA2PTE 0x87FFF000 OR 0x17)"

definition demo_state :: kmem_state where
  "demo_state = boot_kmem demo_mem 0x87FF0123"

lemma memset_zero_mem: "memset (\<lambda>_. 0) g 0 4096 = (\<lambda>_. 0)"
  by (simp add: fun_eq_iff memset_page)

lemma memset_zero_frame:
  assumes "\<And>x. in_page g x \<Longrightarrow> m x = 0"
  shows "memset m g 0 4096 = m"
  using assms by (simp add: fun_eq_iff memset_page)

lemma demo_table:
  "wf_table demo_mem 0x87FFC000" "table_pages demo_mem 0x87FFC000 = {0x87FFC000, 0x87FFD000, 0x87FFE000}"
  "vb < MAXVA \<Longrightarrow> pte_of demo_mem 0x87FFC000 vb =
     (if PGROUNDDOWN vb = 0x1000 then PA2PTE 0x87FFF000 OR 0x17 else 0)"
proof -
  define m1 :: memory where "m1 = store64 (\<lambda>_. 0) 0x87FFC000 (PA2PTE 0x87FFD000 OR PTE_V)"
  define m2 where "m2 = store64 m1 0x87FFD000 (PA2PTE 0x87FFE000 OR PTE_V)"
  have al: "aligned 0x87FFC000" "aligned 0x87FFD000" "aligned 0x87FFE000" by (simp_all add: aligned_def)
  have "(\<lambda>_. 0 :: u8) x = 0" for x :: u64 by simp
  note e = empty_table [where m = "\<lambda>_. 0" and pt = "0x87FFC000", OF this al(1)]
  have ent0: "ent (\<lambda>_. 0) a i = 0" for a i
    by (simp add: ent_def load64_def load_bytes_def of_le_def map_replicate_const numeral_eq_Suc)
  have t1: "wf_table m1 0x87FFC000" "table_pages m1 0x87FFC000 = {0x87FFC000, 0x87FFD000}"
    "node m1 0x87FFC000 [0] = Some 0x87FFD000" "pte_of m1 0x87FFC000 va = 0" for va
    using attach_node_tree [OF e(1), of "[]" 0 "0x87FFC000" "0x87FFD000"] e(2,3) al ent0
    by (auto simp: m1_def memset_zero_mem good_path_def)
  have z: "m1 x = 0" if "in_page 0x87FFE000 x" for x
    using that store64_slot_frame [OF al(1), of 0 x] in_page_unique [OF al(1,3), of x]
    by (auto simp: m1_def)
  have "ent m1 0x87FFD000 0 = 0"
    using ent_store [OF al(2,1), of 0 0] by (simp add: m1_def ent0)
  then have t2: "wf_table m2 0x87FFC000"
    "table_pages m2 0x87FFC000 = {0x87FFC000, 0x87FFD000, 0x87FFE000}"
    "node m2 0x87FFC000 [0, 0] = Some 0x87FFE000" "pte_of m2 0x87FFC000 va = 0" for va
    using attach_node_tree [OF t1(1), of "[0]" 0 "0x87FFD000" "0x87FFE000"] t1(2-) al
      memset_zero_frame [OF z]
    by (auto simp: m2_def good_path_def)
  have px: "PX 0 0x1000 = 1" "path 0x1000 = [0, 0]" by (simp_all add: PX_def PXSHIFT_def path_def)
  then have slot: "leaf_slot m2 0x87FFC000 0x1000 = Some 0x87FFE008"
    using t2(3) by (simp add: leaf_slot_def)
  have pg: "PGROUNDDOWN 0x1000 = 0x1000" by (simp add: PGROUNDDOWN_def)
  note leaf = store_leaf [OF t2(1) _ slot, where w = "PA2PTE 0x87FFF000 OR 0x17"]
  have dm: "demo_mem = store64 m2 0x87FFE008 (PA2PTE 0x87FFF000 OR 0x17)"
    by (simp only: demo_mem_def m2_def m1_def)
  show "wf_table demo_mem 0x87FFC000"
    "table_pages demo_mem 0x87FFC000 = {0x87FFC000, 0x87FFD000, 0x87FFE000}"
    "vb < MAXVA \<Longrightarrow> pte_of demo_mem 0x87FFC000 vb =
      (if PGROUNDDOWN vb = 0x1000 then PA2PTE 0x87FFF000 OR 0x17 else 0)"
    using leaf t2 pg by (simp_all add: dm)
qed

lemma demo_upage: "upage demo_mem 0x87FFC000 (PGROUNDDOWN va) =
    (if PGROUNDDOWN va = 0x1000 then 0x87FFF000 else 0)"
proof -
  have pg: "PGROUNDDOWN (PGROUNDDOWN va) = PGROUNDDOWN va"
    using aligned_PGROUNDDOWN [of va] by (simp add: aligned_unat PGROUNDDOWN_id)
  have "PTE2PA (PA2PTE 0x87FFF000 OR 0x17) = 0x87FFF000" "pte_v (PA2PTE 0x87FFF000 OR 0x17)"
    "(PA2PTE 0x87FFF000 OR 0x17) AND PTE_U \<noteq> 0"
    by (simp_all add: PTE2PA_def PA2PTE_def pte_v_def)
  moreover have "PGROUNDDOWN va < MAXVA" if "PGROUNDDOWN va = 0x1000" using that by simp
  ultimately show ?thesis
    using demo_table(3) [of "PGROUNDDOWN va"] pg
    by (cases "PGROUNDDOWN va < MAXVA"; cases "PGROUNDDOWN va = 0x1000") (auto simp: upage_def)
qed

lemma demo_state_simps [simp]: "mem demo_state = demo_mem" "kernel_end demo_state = 0x87FF0123"
  by (simp_all add: demo_state_def boot_kmem_def kbase.defs kmem_state.defs)

lemma demo_ok: "pt_ok demo_state 0x87FFC000"
  using demo_table(1,2) by (simp add: pt_ok_def page_ok_def aligned_def)

lemma demo_user_ok: "user_ok demo_state 0x87FFC000" "user_inj demo_mem 0x87FFC000"
proof -
  have up: "upage demo_mem 0x87FFC000 va \<in> {0, 0x87FFF000}" for va
  proof -
    have "PTE2PA (PA2PTE 0x87FFF000 OR 0x17) = 0x87FFF000" by (simp add: PTE2PA_def PA2PTE_def)
    then show ?thesis
      using demo_table(3) [of va] by (cases "PGROUNDDOWN va = 0x1000") (auto simp: upage_def)
  qed
  have "{0, 0x87FFF000} \<inter> {0x87FFC000, 0x87FFD000, 0x87FFE000 :: u64} = {}" by simp
  then have "upage demo_mem 0x87FFC000 va \<notin> table_pages demo_mem 0x87FFC000" for va
    using up [of va] unfolding demo_table(2) by blast
  then show "user_ok demo_state 0x87FFC000" using demo_ok by (simp add: user_ok_def)
  show "user_inj demo_mem 0x87FFC000" by (simp add: user_inj_def demo_upage)
qed

lemma demo_uaddr: "PGROUNDDOWN va = 0x1000 \<Longrightarrow> uaddr demo_mem 0x87FFC000 va = Some (0x87FFF000 + (va - 0x1000))"
  using demo_upage [of va] by (simp add: uaddr_def page_off_def)

section \<open>Properties\<close>

text \<open>
  C9. \<open>copyin\<close> and \<open>copyinstr\<close>, which work a page at a time, do what a byte-at-a-time copy through
  the page table does: they transfer exactly the bytes up to the first one that is unmapped, not
  user-accessible or above \<open>MAXVA\<close> (for a string, up to and including the first null, or up to the
  size limit), succeed exactly when they got all of them, always return, and leave the state alone.
\<close>

theorem copyin_bytewise:
  assumes "pt_ok s pt"
  shows "copyin pt va n env s = Done (uread_bytes (mem s) pt va n) s \<and>
    copyinstr pt va n env s = Done (ureadstr (mem s) pt va n) s"
  using assms by (simp add: copyin_run copyinstr_run)

theorem copyin_bytewise_witness:
  "copyin 0x87FFC000 0x1FFF (Suc (Suc 0)) id demo_state = Done ([demo_mem 0x87FFFFFF], False) demo_state"
proof -
  have "PGROUNDDOWN 0x1FFF = 0x1000" "PGROUNDDOWN 0x2000 = 0x2000" by (simp_all add: PGROUNDDOWN_def)
  then have "uread_bytes demo_mem 0x87FFC000 0x1FFF (Suc (Suc 0)) = ([demo_mem 0x87FFFFFF], False)"
    using demo_upage [of "0x1FFF"] demo_upage [of "0x2000"] by (simp add: uaddr_def page_off_def)
  then show ?thesis using copyin_bytewise [OF demo_ok, of "0x1FFF" "Suc (Suc 0)" id] by simp
qed

text \<open>
  C8. What \<open>copyout\<close> stored \<open>copyin\<close> reads back: if \<open>copyout\<close> succeeds on a page table whose user
  pages are distinct frames outside the table, \<open>copyin\<close> from the same place succeeds and returns the
  same bytes.
\<close>

theorem copyout_copyin_roundtrip:
  assumes "user_ok s pt" "user_inj (mem s) pt" "length bs < 2 ^ 64"
    and "copyout pt va bs env s = Done True t"
  shows "copyin pt va (length bs) env' t = Done (bs, True) t"
proof -
  obtain m' where m': "uwrite_bytes (mem s) pt (mem s) va bs = (m', True)" "t = s\<lparr>mem := m'\<rparr>"
    using assms(4) copyout_run [OF assms(1), of va bs env]
    by (cases "uwrite_bytes (mem s) pt (mem s) va bs") auto
  have "tables_agree (mem s) pt m'"
    using uwrite_tables [OF assms(1), of "mem s" va bs] m'(1) by (simp add: tables_agree_def)
  then have ok: "pt_ok t pt" and same: "uaddr m' pt vb = uaddr (mem s) pt vb" for vb
    using tables_agree_same [of s pt m'] assms(1) m'(2) by (simp_all add: user_ok_def uaddr_def)
  have "uread_bytes m' pt va (length bs) = (bs, True)"
    using uwrite_effect [OF assms(2) m'(1) assms(3)] same by (intro uread_bytes_all) simp
  then show ?thesis using copyin_run [OF ok, of va "length bs" env'] m'(2) by simp
qed

theorem copyout_copyin_roundtrip_witness:
  "\<exists>t. copyout 0x87FFC000 0x1010 [7, 8] id demo_state = Done True t \<and>
    copyin 0x87FFC000 0x1010 (length [7, 8 :: u8]) id t = Done ([7, 8], True) t"
proof -
  have "PGROUNDDOWN 0x1010 = 0x1000" "PGROUNDDOWN 0x1011 = 0x1000" by (simp_all add: PGROUNDDOWN_def)
  then have "snd (uwrite_bytes demo_mem 0x87FFC000 demo_mem 0x1010 [7, 8])"
    by (simp add: demo_uaddr)
  then obtain t where t: "copyout 0x87FFC000 0x1010 [7, 8] id demo_state = Done True t"
    using copyout_run [OF demo_user_ok(1), of "0x1010" "[7, 8]" id] by simp
  then have "copyin 0x87FFC000 0x1010 (length [7, 8 :: u8]) id t = Done ([7, 8], True) t"
    using demo_user_ok by (intro copyout_copyin_roundtrip) simp_all
  with t show ?thesis by blast
qed

end
