(* ===== verification/Virtio.thy ===== *)
theory Virtio
  imports Vm
begin

text \<open>
  The disk driver, \<^verbatim>\<open>kernel/virtio_disk.c\<close>. Driver and device share descriptors and two
  rings in memory; the model keeps them typed: the address in a descriptor is a tagged pointer
  to a request header, to a buffer's data or to a status byte. The device is not part of the
  kernel: it is a function \<open>dev\<close> on the state, assumed to do what the virtio specification says
  of one outstanding request whose descriptors are well formed (\<open>virtio_device\<close>, \<open>request_ok\<close>). \<open>irq_env dev\<close> is the environment of a thread
  that sleeps for the disk on an otherwise idle hart: the scheduler loop runs, the device works
  and interrupts, \<open>virtio_disk_intr\<close> runs, and the scheduler resumes the thread.
\<close>

section \<open>State\<close>

abbreviation (input) NUM :: nat where "NUM \<equiv> 8"
abbreviation (input) BSIZE :: nat where "BSIZE \<equiv> 1024"
abbreviation (input) VRING_DESC_F_NEXT :: u16 where "VRING_DESC_F_NEXT \<equiv> 1"
abbreviation (input) VRING_DESC_F_WRITE :: u16 where "VRING_DESC_F_WRITE \<equiv> 2"
abbreviation (input) VIRTIO_BLK_T_IN :: u32 where "VIRTIO_BLK_T_IN \<equiv> 0"
abbreviation (input) VIRTIO_BLK_T_OUT :: u32 where "VIRTIO_BLK_T_OUT \<equiv> 1"

record buf =
  b_valid :: bool
  b_disk :: bool
  b_dev :: u32
  b_blockno :: u32
  b_refcnt :: u32
  b_prev :: nat
  b_next :: nat
  b_data :: "u8 list"

datatype daddr = DNull | DOp nat | DData nat | DStatus nat

record virtq_desc =
  d_addr :: daddr
  d_len :: u32
  d_flags :: u16
  d_next :: u16

record virtio_blk_req =
  r_type :: u32
  r_reserved :: u32
  r_sector :: u64

text \<open>\<open>struct disk\<close>: the shared rings, the book-keeping of the driver, and the device registers.\<close>

record vdisk =
  desc :: "nat \<Rightarrow> virtq_desc"
  avail_idx :: u16
  avail_ring :: "nat \<Rightarrow> u16"
  used_ring_idx :: u16            \<comment> \<open>\<open>used->idx\<close>, written by the device\<close>
  used_ring :: "nat \<Rightarrow> u32"
  free :: "nat \<Rightarrow> bool"
  used_idx :: u16
  info_b :: "nat \<Rightarrow> nat option"
  info_status :: "nat \<Rightarrow> u8"
  ops :: "nat \<Rightarrow> virtio_blk_req"
  pages_addr :: u64               \<comment> \<open>address of \<open>disk.pages\<close>\<close>
  vregs :: "u32 \<Rightarrow> u32"           \<comment> \<open>memory-mapped device registers by offset\<close>
  dev_seen :: u16                 \<comment> \<open>device: how far it has read the avail ring\<close>

text \<open>
  \<open>disk_img\<close> is the content of the disk by 1024-byte block, \<open>disk_log\<close> the sequence of block
  writes the device has performed.
\<close>

record disk_state = vm_state +
  bufs :: "nat \<Rightarrow> buf"
  vq :: vdisk
  disk_img :: "nat \<Rightarrow> u8 list"
  disk_log :: "(nat \<times> u8 list) list"

definition upd_buf :: "nat \<Rightarrow> (buf \<Rightarrow> buf) \<Rightarrow> ('x disk_state_scheme, unit) km" where
  "upd_buf b f = modM (\<lambda>s. s\<lparr>bufs := (bufs s)(b := f (bufs s b))\<rparr>)"

definition upd_vq :: "(vdisk \<Rightarrow> vdisk) \<Rightarrow> ('x disk_state_scheme, unit) km" where
  "upd_vq f = modM (\<lambda>s. s\<lparr>vq := f (vq s)\<rparr>)"

definition upd_desc :: "nat \<Rightarrow> (virtq_desc \<Rightarrow> virtq_desc) \<Rightarrow> ('x disk_state_scheme, unit) km" where
  "upd_desc i f = upd_vq (\<lambda>v. v\<lparr>desc := (desc v)(i := f (desc v i))\<rparr>)"

definition write_reg :: "u32 \<Rightarrow> u32 \<Rightarrow> ('x disk_state_scheme, unit) km" where
  "write_reg r w = upd_vq (\<lambda>v. v\<lparr>vregs := (vregs v)(r := w)\<rparr>)"

definition read_reg :: "u32 \<Rightarrow> ('x disk_state_scheme, u32) km" where
  "read_reg r = getM (\<lambda>s. vregs (vq s) r)"

section \<open>Initialisation\<close>

definition zero_desc :: virtq_desc where
  "zero_desc = \<lparr>d_addr = DNull, d_len = 0, d_flags = 0, d_next = 0\<rparr>"

text \<open>Bits 5, 7, 11, 12, 27, 29, 28 are the features the driver does not want.\<close>

definition negotiate :: "u32 \<Rightarrow> u32" where
  "negotiate f = ucast (fold (\<lambda>k w. w AND NOT (push_bit k 1)) [5, 7, 11, 12, 27, 29, 28] (ucast f :: u64))"

definition virtio_disk_init :: "('x disk_state_scheme, unit) km" where
  "virtio_disk_init =
     bindM (read_reg 0x000) (\<lambda>magic.
     bindM (read_reg 0x004) (\<lambda>version.
     bindM (read_reg 0x008) (\<lambda>device_id.
     bindM (read_reg 0x00c) (\<lambda>vendor_id.
     if magic \<noteq> 0x74726976 \<or> version \<noteq> 1 \<or> device_id \<noteq> 2 \<or> vendor_id \<noteq> 0x554d4551
     then panicM ''could not find virtio disk''
     else
      seqM (write_reg 0x070 1)
     (seqM (write_reg 0x070 3)
     (bindM (read_reg 0x010) (\<lambda>features.
      seqM (write_reg 0x020 (negotiate features))
     (seqM (write_reg 0x070 11)
     (seqM (write_reg 0x070 15)
     (seqM (write_reg 0x028 4096)
     (seqM (write_reg 0x030 0)
     (bindM (read_reg 0x034) (\<lambda>max_num.
      if max_num = 0 then panicM ''virtio disk has no queue 0''
      else if max_num < of_nat NUM then panicM ''virtio disk max queue too short''
      else doM [
        write_reg 0x038 (of_nat NUM),
        upd_vq (\<lambda>v. v\<lparr>desc := (\<lambda>_. zero_desc), avail_idx := 0, avail_ring := (\<lambda>_. 0),
          used_ring_idx := 0, used_ring := (\<lambda>_. 0)\<rparr>),
        bindM (getM (\<lambda>s. pages_addr (vq s))) (\<lambda>a. write_reg 0x040 (ucast (drop_bit 12 a))),
        eachM [0..<NUM] (\<lambda>i. upd_vq (\<lambda>v. v\<lparr>free := (free v)(i := True)\<rparr>))])))))))))))))"

section \<open>Descriptors\<close>

definition alloc_desc :: "('x disk_state_scheme, nat option) km" where
  "alloc_desc = forM [0..<NUM] (\<lambda>i. ifM (\<lambda>s. free (vq s) i)
     (seqM (upd_vq (\<lambda>v. v\<lparr>free := (free v)(i := False)\<rparr>)) (retM (Some i)))
     (retM None))"

definition free_desc :: "nat \<Rightarrow> ('x disk_state_scheme, unit) km" where
  "free_desc i = doM [
     panic_ifM (\<lambda>_. i \<ge> NUM) ''free_desc 1'',
     panic_ifM (\<lambda>s. free (vq s) i) ''free_desc 2'',
     upd_desc i (\<lambda>_. zero_desc),
     upd_vq (\<lambda>v. v\<lparr>free := (free v)(i := True)\<rparr>),
     wakeup Ch_vdisk_free]"

definition free_chain_body :: "nat \<Rightarrow> ('x disk_state_scheme, nat + unit) km" where
  "free_chain_body i =
     bindM (getM (\<lambda>s. d_flags (desc (vq s) i))) (\<lambda>flag.
     bindM (getM (\<lambda>s. unat (d_next (desc (vq s) i)))) (\<lambda>nxt.
     seqM (free_desc i)
     (retM (if flag AND VRING_DESC_F_NEXT \<noteq> 0 then Inl nxt else Inr ()))))"

definition free_chain :: "nat \<Rightarrow> ('x disk_state_scheme, unit) km" where
  "free_chain i = loopM free_chain_body i"

definition alloc3_desc :: "('x disk_state_scheme, (nat \<times> nat \<times> nat) option) km" where
  "alloc3_desc =
     bindM alloc_desc (\<lambda>i0. case i0 of None \<Rightarrow> retM None | Some i0 \<Rightarrow>
     bindM alloc_desc (\<lambda>i1. case i1 of None \<Rightarrow> seqM (free_desc i0) (retM None) | Some i1 \<Rightarrow>
     bindM alloc_desc (\<lambda>i2. case i2 of
         None \<Rightarrow> seqM (free_desc i0) (seqM (free_desc i1) (retM None))
       | Some i2 \<Rightarrow> retM (Some (i0, i1, i2)))))"

section \<open>Requests and interrupts\<close>

text \<open>Fill in the request header and the chain of three descriptors.\<close>

definition format_request :: "nat \<Rightarrow> bool \<Rightarrow> u64 \<Rightarrow> nat \<times> nat \<times> nat \<Rightarrow> ('x disk_state_scheme, unit) km" where
  "format_request b write sector = (\<lambda>(i0, i1, i2). doM [
     upd_vq (\<lambda>v. v\<lparr>ops := (ops v)(i0 :=
       \<lparr>r_type = (if write then VIRTIO_BLK_T_OUT else VIRTIO_BLK_T_IN), r_reserved = 0,
        r_sector = sector\<rparr>)\<rparr>),
     upd_desc i0 (\<lambda>_. \<lparr>d_addr = DOp i0, d_len = 16, d_flags = VRING_DESC_F_NEXT, d_next = of_nat i1\<rparr>),
     upd_desc i1 (\<lambda>_. \<lparr>d_addr = DData b, d_len = 1024,
       d_flags = (if write then 0 else VRING_DESC_F_WRITE) OR VRING_DESC_F_NEXT, d_next = of_nat i2\<rparr>),
     upd_vq (\<lambda>v. v\<lparr>info_status := (info_status v)(i0 := 0xff)\<rparr>),
     upd_desc i2 (\<lambda>_. \<lparr>d_addr = DStatus i0, d_len = 1, d_flags = VRING_DESC_F_WRITE, d_next = 0\<rparr>)])"

text \<open>Put the chain on the avail ring and notify the device.\<close>

definition submit_request :: "nat \<Rightarrow> nat \<Rightarrow> ('x disk_state_scheme, unit) km" where
  "submit_request b i0 = doM [
     upd_buf b (b_disk_update (\<lambda>_. True)),
     upd_vq (\<lambda>v. v\<lparr>info_b := (info_b v)(i0 := Some b)\<rparr>),
     upd_vq (\<lambda>v. v\<lparr>avail_ring := (avail_ring v)(unat (avail_idx v) mod NUM := of_nat i0)\<rparr>),
     upd_vq (\<lambda>v. v\<lparr>avail_idx := avail_idx v + 1\<rparr>),
     write_reg 0x050 0]"

definition alloc_wait :: "('x disk_state_scheme, nat \<times> nat \<times> nat) km" where
  "alloc_wait = loopM (\<lambda>_. bindM alloc3_desc (\<lambda>r. case r of
       Some idx \<Rightarrow> retM (Inr idx)
     | None \<Rightarrow> seqM (sleep Ch_vdisk_free L_vdisk) (retM (Inl ())))) ()"

definition virtio_disk_rw :: "nat \<Rightarrow> bool \<Rightarrow> ('x disk_state_scheme, unit) km" where
  "virtio_disk_rw b write =
     bindM (getM (\<lambda>s. ucast (b_blockno (bufs s b) * 2) :: u64)) (\<lambda>sector.
     seqM (acquire L_vdisk)
     (bindM alloc_wait (\<lambda>(i0, i1, i2).
      doM [
        format_request b write sector (i0, i1, i2),
        submit_request b i0,
        whileM (\<lambda>s. b_disk (bufs s b)) (sleep (Ch_buf b) L_vdisk),
        upd_vq (\<lambda>v. v\<lparr>info_b := (info_b v)(i0 := None)\<rparr>),
        free_chain i0,
        release L_vdisk])))"

definition virtio_disk_intr :: "('x disk_state_scheme, unit) km" where
  "virtio_disk_intr = doM [
     acquire L_vdisk,
     bindM (read_reg 0x060) (\<lambda>st. write_reg 0x064 (st AND 3)),
     whileM (\<lambda>s. used_idx (vq s) \<noteq> used_ring_idx (vq s))
       (bindM (getM (\<lambda>s. unat (used_ring (vq s) (unat (used_idx (vq s)) mod NUM)))) (\<lambda>id.
        seqM (panic_ifM (\<lambda>s. info_status (vq s) id \<noteq> 0) ''virtio_disk_intr status'')
       (bindM (getM (\<lambda>s. info_b (vq s) id)) (\<lambda>ob.
        case ob of None \<Rightarrow> null_fault | Some b \<Rightarrow> doM [
          upd_buf b (b_disk_update (\<lambda>_. False)),
          wakeup (Ch_buf b),
          upd_vq (\<lambda>v. v\<lparr>used_idx := used_idx v + 1\<rparr>)])))),
     release L_vdisk]"

section \<open>The device and the idle hart\<close>

text \<open>
  What the virtio specification says of block requests. The driver has put the head \<open>h\<close> of a chain of
  three descriptors on the avail ring and notified queue 0: a request header of 16 bytes that the
  device only reads, a block of data that it reads for a write request and writes for a read
  request, and one byte for the status that it writes. Then the device carries out the request,
  stores status 0, and puts the head of the chain on the used ring. The disk is assumed to be
  large enough and free of I/O errors. Nothing is assumed of the device when the chain is
  malformed in any of its types, lengths, flags or links; \<open>complete_request\<close>, a device that satisfies
  the specification, then ignores it.
\<close>

definition dev_writes :: "virtq_desc \<Rightarrow> bool" where
  "dev_writes d \<longleftrightarrow> d_flags d AND VRING_DESC_F_WRITE \<noteq> 0"

definition chained :: "virtq_desc \<Rightarrow> bool" where
  "chained d \<longleftrightarrow> d_flags d AND VRING_DESC_F_NEXT \<noteq> 0 \<and> unat (d_next d) < NUM"

definition request_ok :: "vdisk \<Rightarrow> nat \<Rightarrow> bool" where
  "request_ok v h =
     (let d0 = desc v h; d1 = desc v (unat (d_next d0)); d2 = desc v (unat (d_next d1))
      in h < NUM \<and> vregs v 0x050 = 0 \<and>
         chained d0 \<and> \<not> dev_writes d0 \<and> d_len d0 = 16 \<and>
         chained d1 \<and> d_len d1 = 1024 \<and>
         d_flags d2 AND VRING_DESC_F_NEXT = 0 \<and> dev_writes d2 \<and> d_len d2 = 1 \<and>
         (case (d_addr d0, d_addr d1, d_addr d2) of
            (DOp k, DData _, DStatus _) \<Rightarrow>
              r_type (ops v k) = VIRTIO_BLK_T_IN \<and> dev_writes d1 \<or>
              r_type (ops v k) = VIRTIO_BLK_T_OUT \<and> \<not> dev_writes d1
          | _ \<Rightarrow> False))"

definition transfer_bufs :: "bool \<Rightarrow> nat \<Rightarrow> nat \<Rightarrow> (nat \<Rightarrow> buf) \<Rightarrow> (nat \<Rightarrow> u8 list) \<Rightarrow> nat \<Rightarrow> buf" where
  "transfer_bufs out blk b B D = (if out then B else B(b := (B b)\<lparr>b_data := D blk\<rparr>))"

definition transfer :: "bool \<Rightarrow> nat \<Rightarrow> nat \<Rightarrow> 'x disk_state_scheme \<Rightarrow> 'x disk_state_scheme" where
  "transfer out blk b s = s\<lparr>
     bufs := transfer_bufs out blk b (bufs s) (disk_img s),
     disk_img := (if out then (disk_img s)(blk := b_data (bufs s b)) else disk_img s),
     disk_log := (if out then disk_log s @ [(blk, b_data (bufs s b))] else disk_log s)\<rparr>"

definition next_request :: "vdisk \<Rightarrow> nat" where
  "next_request v = unat (avail_ring v (unat (dev_seen v) mod NUM))"

definition complete_request :: "'x disk_state_scheme \<Rightarrow> 'x disk_state_scheme" where
  "complete_request s =
     (let v = vq s; h = next_request v;
          d0 = desc v h; d1 = desc v (unat (d_next d0)); d2 = desc v (unat (d_next d1))
      in if \<not> request_ok v h then s else case (d_addr d0, d_addr d1, d_addr d2) of
           (DOp k, DData b, DStatus j) \<Rightarrow>
             (transfer (r_type (ops v k) = VIRTIO_BLK_T_OUT) (unat (r_sector (ops v k)) div 2) b s)\<lparr>vq := v\<lparr>info_status := (info_status v)(j := 0),
               used_ring := (used_ring v)(unat (used_ring_idx v) mod NUM := of_nat h),
               used_ring_idx := used_ring_idx v + 1, dev_seen := dev_seen v + 1\<rparr>\<rparr>
         | _ \<Rightarrow> s)"

definition virtio_device :: "('x disk_state_scheme \<Rightarrow> 'x disk_state_scheme) \<Rightarrow> bool" where
  "virtio_device dev \<longleftrightarrow> (\<forall>s. avail_idx (vq s) = dev_seen (vq s) + 1 \<longrightarrow>
     request_ok (vq s) (next_request (vq s)) \<longrightarrow> dev s = complete_request s)"

text \<open>
  A thread has called \<open>sched\<close> and no other process is runnable. The scheduler takes over, releases
  the process lock and idles with interrupts on; the device works and raises its interrupt, which
  \<open>virtio_disk_intr\<close> handles; the scan of the scheduler reaches the thread and resumes it if it was
  made runnable.
\<close>

definition irq_env :: "('x disk_state_scheme \<Rightarrow> 'x disk_state_scheme) \<Rightarrow>
    'x disk_state_scheme \<Rightarrow> 'x disk_state_scheme" where
  "irq_env dev s = (case cur s of None \<Rightarrow> s | Some p \<Rightarrow>
     left_in (s\<lparr>held := {}, cur := None\<rparr>)
       (doM [slot_rest p, modM dev, virtio_disk_intr, scheduler_slot p] id s))"

section \<open>One request\<close>

definition storage_chan :: "chan \<Rightarrow> bool" where
  "storage_chan ch = (case ch of Ch_buf _ \<Rightarrow> True | Ch_vdisk_free \<Rightarrow> True | Ch_sleeplock _ \<Rightarrow> True
     | Ch_log \<Rightarrow> True | _ \<Rightarrow> False)"

text \<open>
  The running process \<open>p\<close> holds no spin lock and no other process waits for the storage stack;
  the driver has no request in flight.
\<close>

definition quiet :: "nat \<Rightarrow> 'x kbase_scheme \<Rightarrow> bool" where
  "quiet p s \<longleftrightarrow> cur s = Some p \<and> p < NPROC \<and> held s = {} \<and>
     p_state (procs s p) = RUNNING \<and> p_chan (procs s p) = None \<and>
     (\<forall>q ch. q < NPROC \<longrightarrow> p_state (procs s q) = SLEEPING \<longrightarrow> p_chan (procs s q) = Some ch \<longrightarrow>
        \<not> storage_chan ch)"

definition idle :: "vdisk \<Rightarrow> bool" where
  "idle v \<longleftrightarrow> (\<forall>i<NUM. free v i) \<and> dev_seen v = avail_idx v \<and> used_ring_idx v = used_idx v"

lemma wake_quiet:
  assumes "storage_chan ch"
    "\<And>q ch. q < NPROC \<Longrightarrow> p_state (ps q) = SLEEPING \<Longrightarrow> p_chan (ps q) = Some ch \<Longrightarrow> \<not> storage_chan ch"
  shows "wake ch c ps = ps"
  using assms by (auto simp: wake_def fun_eq_iff)

lemma run_vq [run_simps]:
  "upd_buf b f env s = Done () (s\<lparr>bufs := (bufs s)(b := f (bufs s b))\<rparr>)"
  "seqM (upd_buf b f) n env s = n env (s\<lparr>bufs := (bufs s)(b := f (bufs s b))\<rparr>)"
  "upd_vq g env s = Done () (s\<lparr>vq := g (vq s)\<rparr>)"
  "seqM (upd_vq g) n env s = n env (s\<lparr>vq := g (vq s)\<rparr>)"
  "seqM (upd_desc i h) n env s = n env (s\<lparr>vq := (vq s)\<lparr>desc := (desc (vq s))(i := h (desc (vq s) i))\<rparr>\<rparr>)"
  "upd_desc i h env s = Done () (s\<lparr>vq := (vq s)\<lparr>desc := (desc (vq s))(i := h (desc (vq s) i))\<rparr>\<rparr>)"
  "write_reg r w env s = Done () (s\<lparr>vq := (vq s)\<lparr>vregs := (vregs (vq s))(r := w)\<rparr>\<rparr>)"
  "seqM (write_reg r w) n env s = n env (s\<lparr>vq := (vq s)\<lparr>vregs := (vregs (vq s))(r := w)\<rparr>\<rparr>)"
  "bindM (read_reg r) k env s = k (vregs (vq s) r) env s"
  by (simp_all add: upd_buf_def upd_vq_def upd_desc_def write_reg_def read_reg_def run_simps)

lemma alloc_desc_run:
  "alloc_desc env s = (case find (free (vq s)) [0..<NUM] of None \<Rightarrow> Done None s
     | Some i \<Rightarrow> Done (Some i) (s\<lparr>vq := (vq s)\<lparr>free := (free (vq s))(i := False)\<rparr>\<rparr>))"
  unfolding alloc_desc_def by (rule forM_find [where r = "\<lambda>i. i"]) (simp_all add: run_simps)

lemma upt_8: "[0..<8] = [0, 1, 2, 3, 4, 5, 6, 7 :: nat]"
  by (simp add: upt_rec)

lemma alloc_wait_idle:
  assumes "idle (vq s)"
  shows "alloc_wait env s =
    Done (0, 1, 2) (s\<lparr>vq := (vq s)\<lparr>free := (free (vq s))(0 := False, 1 := False, 2 := False)\<rparr>\<rparr>)"
proof -
  have f: "free (vq s) 0" "free (vq s) 1" "free (vq s) 2" using assms by (simp_all add: idle_def)
  then have "alloc3_desc env s = Done (Some (0, 1, 2))
      (s\<lparr>vq := (vq s)\<lparr>free := (free (vq s))(0 := False, 1 := False, 2 := False)\<rparr>\<rparr>)"
    by (simp add: alloc3_desc_def bindM_def alloc_desc_run upt_8 retM_def)
  then show ?thesis
    unfolding alloc_wait_def by (subst loopM_unfold) (simp add: bindM_def retM_def)
qed

text \<open>The driver's data once a request for buffer \<open>b\<close> is with the device.\<close>

definition in_flight :: "nat \<Rightarrow> bool \<Rightarrow> u64 \<Rightarrow> vdisk \<Rightarrow> vdisk" where
  "in_flight b write sector v = v\<lparr>
     free := (free v)(0 := False, 1 := False, 2 := False),
     ops := (ops v)(0 := \<lparr>r_type = (if write then VIRTIO_BLK_T_OUT else VIRTIO_BLK_T_IN),
       r_reserved = 0, r_sector = sector\<rparr>),
     info_status := (info_status v)(0 := 0xff),
     desc := (desc v)(
       0 := \<lparr>d_addr = DOp 0, d_len = 16, d_flags = VRING_DESC_F_NEXT, d_next = 1\<rparr>,
       1 := \<lparr>d_addr = DData b, d_len = 1024,
         d_flags = (if write then 0 else VRING_DESC_F_WRITE) OR VRING_DESC_F_NEXT, d_next = 2\<rparr>,
       2 := \<lparr>d_addr = DStatus 0, d_len = 1, d_flags = VRING_DESC_F_WRITE, d_next = 0\<rparr>),
     info_b := (info_b v)(0 := Some b),
     avail_ring := (avail_ring v)(unat (avail_idx v) mod NUM := 0),
     avail_idx := avail_idx v + 1,
     vregs := (vregs v)(0x050 := 0)\<rparr>"

lemma submit_run:
  "seqM (format_request b write sector (0, 1, 2)) (doM (submit_request b 0 # ms)) env
     (s\<lparr>vq := (vq s)\<lparr>free := (free (vq s))(0 := False, 1 := False, 2 := False)\<rparr>\<rparr>) =
   doM ms env (s\<lparr>bufs := (bufs s)(b := (bufs s b)\<lparr>b_disk := True\<rparr>),
     vq := in_flight b write sector (vq s)\<rparr>)"
  by (simp add: format_request_def submit_request_def run_simps in_flight_def)

lemma wakeup_run_seq [run_simps]:
  "no_proc_lock s \<Longrightarrow> seqM (wakeup ch) n env s = n env (s\<lparr>procs := wake ch (cur s) (procs s)\<rparr>)"
  by (simp add: seqM_def bindM_def wakeup_run)

lemma intr_one:
  fixes t :: "'x disk_state_scheme" and b h :: nat
  assumes "held t = {}" "cur t = None"
    and "used_ring_idx (vq t) = used_idx (vq t) + 1"
    and "unat (used_ring (vq t) (unat (used_idx (vq t)) mod NUM)) = h"
    and "info_status (vq t) h = 0" "info_b (vq t) h = Some b"
  shows "virtio_disk_intr env t = Done () (t\<lparr>
      bufs := (bufs t)(b := (bufs t b)\<lparr>b_disk := False\<rparr>),
      procs := wake (Ch_buf b) None (procs t),
      vq := (vq t)\<lparr>vregs := (vregs (vq t))(0x064 := vregs (vq t) 0x060 AND 3),
        used_idx := used_idx (vq t) + 1\<rparr>\<rparr>)"
proof -
  have ne: "used_idx (vq t) \<noteq> used_idx (vq t) + 1" by simp
  have np: "no_proc_lock (t\<lparr>held := {L_vdisk}, vq := x, bufs := y\<rparr>)" for x y
    by (simp add: no_proc_lock_def)
  show ?thesis
    unfolding virtio_disk_intr_def
    using assms ne np by (simp add: run_simps seqM_whileM)
qed

text \<open>The driver's data when the thread that made the request runs again.\<close>

definition completed :: "vdisk \<Rightarrow> vdisk" where
  "completed v = v\<lparr>info_status := (info_status v)(0 := 0),
     used_ring := (used_ring v)(unat (used_ring_idx v) mod NUM := 0),
     used_ring_idx := used_ring_idx v + 1, dev_seen := dev_seen v + 1,
     vregs := (vregs v)(0x064 := vregs v 0x060 AND 3), used_idx := used_idx v + 1\<rparr>"

text \<open>The chain the driver builds is one the device must serve.\<close>

lemma in_flight_request:
  assumes "idle v"
  shows "next_request (in_flight b w sector v) = 0" "request_ok (in_flight b w sector v) 0"
proof -
  show "next_request (in_flight b w sector v) = 0"
    using assms by (simp add: next_request_def in_flight_def idle_def)
  show "request_ok (in_flight b w sector v) 0"
    by (simp add: request_ok_def Let_def in_flight_def chained_def dev_writes_def)
qed

lemma irq_env_run:
  assumes "cur s = Some p" "held s = {L_proc p}"
    and i: "virtio_disk_intr id (dev (s\<lparr>held := {}, cur := None\<rparr>)) = Done () t"
    and t: "held t = {}" "p_state (procs t p) = RUNNABLE"
  shows "irq_env dev s = t\<lparr>held := {L_proc p}, procs := (procs t)(p := (procs t p)\<lparr>p_state := RUNNING\<rparr>), cur := Some p\<rparr>"
proof -
  have "scheduler_slot p id t =
      Parked (t\<lparr>held := {L_proc p}, procs := (procs t)(p := (procs t p)\<lparr>p_state := RUNNING\<rparr>), cur := Some p\<rparr>)"
    by (rule scheduler_slot_resumes [OF t]) simp_all
  then show ?thesis
    using assms(1,2)
    by (simp add: irq_env_def run_simps seqM_Done [where m = "slot_rest p", OF slot_rest_run] seqM_Done [where m = virtio_disk_intr, OF i])
      (simp add: left_in_def seqM_def bindM_def)
qed

lemma irq_env_request:
  fixes s :: "'x disk_state_scheme" and dev
  assumes dev: "virtio_device dev" and v: "idle v" "vq s = in_flight b w sector v"
    and p: "cur s = Some p" "p < NPROC"
    and others: "\<And>q ch. q < NPROC \<Longrightarrow> p_state (procs s q) = SLEEPING \<Longrightarrow>
      p_chan (procs s q) = Some ch \<Longrightarrow> \<not> storage_chan ch"
  shows "irq_env dev (asleep (Ch_buf b) p s) =
    (let t = transfer w (unat sector div 2) b s in
     t\<lparr>held := {L_proc p}, bufs := (bufs t)(b := (bufs t b)\<lparr>b_disk := False\<rparr>),
       procs := (procs s)(p := (procs s p)\<lparr>p_chan := Some (Ch_buf b), p_state := RUNNING\<rparr>),
       vq := completed (vq s)\<rparr>)"
proof -
  define u where "u = (asleep (Ch_buf b) p s)\<lparr>held := {}, cur := None\<rparr>"
  have vu: "vq u = in_flight b w sector v" by (simp add: u_def asleep_def v)
  have pend: "avail_idx (vq u) = dev_seen (vq u) + 1"
    using v(1) by (simp add: vu in_flight_def idle_def)
  define t where "t = (transfer w (unat sector div 2) b u)\<lparr>vq := (vq u)\<lparr>info_status := (info_status (vq u))(0 := 0),
     used_ring := (used_ring (vq u))(unat (used_ring_idx (vq u)) mod NUM := 0),
     used_ring_idx := used_ring_idx (vq u) + 1, dev_seen := dev_seen (vq u) + 1\<rparr>\<rparr>"
  note req = in_flight_request [OF v(1), of b w sector, folded vu]
  have "dev u = complete_request u"
    using dev pend req unfolding virtio_device_def by metis
  also have "\<dots> = t"
    unfolding complete_request_def Let_def req(1) using req(2) by (simp add: t_def vu in_flight_def)
  finally have "dev u = t" .
  moreover have "virtio_disk_intr id t = Done () (t\<lparr>
      bufs := (bufs t)(b := (bufs t b)\<lparr>b_disk := False\<rparr>),
      procs := wake (Ch_buf b) None (procs t),
      vq := (vq t)\<lparr>vregs := (vregs (vq t))(0x064 := vregs (vq t) 0x060 AND 3),
        used_idx := used_idx (vq t) + 1\<rparr>\<rparr>)"
  proof (rule intr_one [where h = 0])
    show "held t = {}" "cur t = None" by (simp_all add: t_def transfer_def u_def)
    show "used_ring_idx (vq t) = used_idx (vq t) + 1" "info_b (vq t) 0 = Some b"
      "info_status (vq t) 0 = 0" "unat (used_ring (vq t) (unat (used_idx (vq t)) mod NUM)) = 0"
      using v(1) by (simp_all add: t_def vu in_flight_def idle_def)
  qed
  moreover have "procs t = (procs s)(p := (procs s p)\<lparr>p_chan := Some (Ch_buf b), p_state := SLEEPING\<rparr>)"
    by (simp add: t_def transfer_def u_def asleep_def)
  moreover have "wake (Ch_buf b) None (procs t) =
      (procs s)(p := (procs s p)\<lparr>p_chan := Some (Ch_buf b), p_state := RUNNABLE\<rparr>)"
    if "procs t = (procs s)(p := (procs s p)\<lparr>p_chan := Some (Ch_buf b), p_state := SLEEPING\<rparr>)"
  proof -
    have "\<not> (q < NPROC \<and> p_state (procs s q) = SLEEPING \<and> p_chan (procs s q) = Some (Ch_buf b))" for q
      using others [of q "Ch_buf b"] by (auto simp: storage_chan_def)
    with that p(2) show ?thesis by (auto simp: wake_def fun_eq_iff)
  qed
  ultimately show ?thesis
    using p(1) irq_env_run [of "asleep (Ch_buf b) p s" p dev, folded u_def]
    by (simp add: asleep_def t_def transfer_def u_def Let_def completed_def)
qed

lemma procs_noop: "ps = procs t \<Longrightarrow> t\<lparr>procs := ps\<rparr> = t"
  by simp

lemma free_desc_run:
  assumes "i < NUM" "\<not> free (vq s) i" "no_proc_lock s" "wake Ch_vdisk_free (cur s) (procs s) = procs s"
  shows "free_desc i env s =
    Done () (s\<lparr>vq := (vq s)\<lparr>desc := (desc (vq s))(i := zero_desc), free := (free (vq s))(i := True)\<rparr>\<rparr>)"
proof -
  let ?t = "s\<lparr>vq := (vq s)\<lparr>desc := (desc (vq s))(i := zero_desc), free := (free (vq s))(i := True)\<rparr>\<rparr>"
  have np: "no_proc_lock ?t" using assms(3) by (simp add: no_proc_lock_def)
  have "free_desc i env s = wakeup Ch_vdisk_free env ?t"
    using assms(1,2) by (simp add: free_desc_def run_simps seqM_def bindM_def split: outcome.splits)
  then show ?thesis using wakeup_run [OF np] assms(4) by (simp add: procs_noop)
qed

lemma free_chain_run:
  assumes "no_proc_lock s" "wake Ch_vdisk_free (cur s) (procs s) = procs s"
    and "\<not> free (vq s) 0" "\<not> free (vq s) 1" "\<not> free (vq s) 2"
    and "d_flags (desc (vq s) 0) = 1" "d_next (desc (vq s) 0) = 1"
    and "d_flags (desc (vq s) 1) AND 1 = 1" "d_next (desc (vq s) 1) = 2"
    and "d_flags (desc (vq s) 2) = 2"
  shows "free_chain 0 env s = Done () (s\<lparr>vq := (vq s)\<lparr>
    desc := (desc (vq s))(0 := zero_desc, 1 := zero_desc, 2 := zero_desc),
    free := (free (vq s))(0 := True, 1 := True, 2 := True)\<rparr>\<rparr>)"
proof -
  have np: "no_proc_lock (s\<lparr>vq := x\<rparr>)" for x using assms(1) by (simp add: no_proc_lock_def)
  let ?v = "vq s"
  define v1 where "v1 = ?v\<lparr>desc := (desc ?v)(0 := zero_desc), free := (free ?v)(0 := True)\<rparr>"
  define v2 where "v2 = v1\<lparr>desc := (desc v1)(1 := zero_desc), free := (free v1)(1 := True)\<rparr>"
  define v3 where "v3 = v2\<lparr>desc := (desc v2)(2 := zero_desc), free := (free v2)(2 := True)\<rparr>"
  have "free_chain_body 0 env s = Done (Inl 1) (s\<lparr>vq := v1\<rparr>)"
    using assms by (simp add: free_chain_body_def run_defs free_desc_run v1_def)
  moreover have "free_chain_body 1 env (s\<lparr>vq := v1\<rparr>) = Done (Inl 2) (s\<lparr>vq := v2\<rparr>)"
    using assms np by (simp add: free_chain_body_def run_defs free_desc_run v1_def v2_def)
  moreover have "free_chain_body 2 env (s\<lparr>vq := v2\<rparr>) = Done (Inr ()) (s\<lparr>vq := v3\<rparr>)"
    using assms np by (simp add: free_chain_body_def run_defs free_desc_run v1_def v2_def v3_def)
  ultimately have "free_chain 0 env s = Done () (s\<lparr>vq := v3\<rparr>)"
    unfolding free_chain_def using loopM_step by metis
  then show ?thesis by (simp add: v1_def v2_def v3_def)
qed

text \<open>The block a request for block number \<open>bn\<close> addresses (the sector number wraps at 32 bits).\<close>

definition blk_of :: "u32 \<Rightarrow> nat" where
  "blk_of bn = unat (ucast (bn * 2) :: u64) div 2"

lemma sleep_run:
  assumes "cur s = Some p" "held s = {lk}" "lk \<noteq> L_proc p"
    and "cur (env (asleep ch p s)) = Some p" "p_state (procs (env (asleep ch p s)) p) = RUNNING"
    and "L_proc p \<in> held (env (asleep ch p s))" "lk \<notin> held (env (asleep ch p s))"
  shows "sleep ch lk env s = Done () (awake lk p (env (asleep ch p s)))"
  using wp_sleep [OF assms(1-3), of env ch "\<lambda>_ t. t = awake lk p (env (asleep ch p s))"]
    assms(4-) by (simp add: wp_iff Let_def)

lemma wait_run:
  fixes s :: "'x disk_state_scheme"
  assumes dev: "virtio_device dev" and v: "idle v" "vq s = in_flight b w sector v"
    and p: "cur s = Some p" "p < NPROC" "held s = {L_vdisk}" "b_disk (bufs s b)"
      "p_state (procs s p) = RUNNING" "p_chan (procs s p) = None"
    and others: "\<And>q ch. q < NPROC \<Longrightarrow> p_state (procs s q) = SLEEPING \<Longrightarrow>
      p_chan (procs s q) = Some ch \<Longrightarrow> \<not> storage_chan ch"
  shows "seqM (whileM (\<lambda>s. b_disk (bufs s b)) (sleep (Ch_buf b) L_vdisk)) n (irq_env dev) s =
    n (irq_env dev) (let t = transfer w (unat sector div 2) b s in
      t\<lparr>bufs := (bufs t)(b := (bufs t b)\<lparr>b_disk := False\<rparr>), vq := completed (vq s)\<rparr>)"
proof -
  let ?t = "transfer w (unat sector div 2) b s"
  let ?u = "?t\<lparr>bufs := (bufs ?t)(b := (bufs ?t b)\<lparr>b_disk := False\<rparr>), vq := completed (vq s)\<rparr>"
  have r: "irq_env dev (asleep (Ch_buf b) p s) = ?t\<lparr>held := {L_proc p},
      bufs := (bufs ?t)(b := (bufs ?t b)\<lparr>b_disk := False\<rparr>),
      procs := (procs s)(p := (procs s p)\<lparr>p_chan := Some (Ch_buf b), p_state := RUNNING\<rparr>),
      vq := completed (vq s)\<rparr>"
    using irq_env_request [OF dev v p(1,2)] others by (simp add: Let_def)
  have "(procs s p)\<lparr>p_state := RUNNING, p_chan := None\<rparr> = procs s p"
    using p(5,6) by (cases "procs s p") simp
  then have aw: "awake L_vdisk p (irq_env dev (asleep (Ch_buf b) p s)) = ?u"
    unfolding r using p(1,3) by (simp add: awake_def transfer_def)
  have "sleep (Ch_buf b) L_vdisk (irq_env dev) s =
      Done () (awake L_vdisk p (irq_env dev (asleep (Ch_buf b) p s)))"
    by (rule sleep_run) (simp_all add: p r transfer_def)
  then have "sleep (Ch_buf b) L_vdisk (irq_env dev) s = Done () ?u" unfolding aw .
  moreover have "\<not> b_disk (bufs ?u b)" by simp
  ultimately show ?thesis
    using p(4) by (simp add: seqM_whileM seqM_Done Let_def)
qed

lemma virtio_disk_rw_run:
  fixes s :: "'x disk_state_scheme"
  assumes dev: "virtio_device dev" and q: "quiet p s" and v: "idle (vq s)" and b: "\<not> b_disk (bufs s b)"
  shows "\<exists>v. idle v \<and> virtio_disk_rw b w (irq_env dev) s =
    Done () ((transfer w (blk_of (b_blockno (bufs s b))) b s)\<lparr>vq := v\<rparr>)"
proof -
  let ?sector = "ucast (b_blockno (bufs s b) * 2) :: u64"
  let ?B = "(bufs s)(b := (bufs s b)\<lparr>b_disk := True\<rparr>)"
  define s1 where "s1 = s\<lparr>held := {L_vdisk}, bufs := ?B, vq := in_flight b w ?sector (vq s)\<rparr>"
  define v1 where "v1 = completed (in_flight b w ?sector (vq s))"
  define v2 where "v2 = v1\<lparr>info_b := (info_b v1)(0 := None)\<rparr>"
  define v3 where "v3 = v2\<lparr>desc := (desc v2)(0 := zero_desc, 1 := zero_desc, 2 := zero_desc),
    free := (free v2)(0 := True, 1 := True, 2 := True)\<rparr>"
  define t where "t = transfer w (blk_of (b_blockno (bufs s b))) b s"
  have p: "cur s = Some p" "p < NPROC" "held s = {}" "p_state (procs s p) = RUNNING"
    "p_chan (procs s p) = None"
    and others: "\<And>q ch. q < NPROC \<Longrightarrow> p_state (procs s q) = SLEEPING \<Longrightarrow>
      p_chan (procs s q) = Some ch \<Longrightarrow> \<not> storage_chan ch"
    using q unfolding quiet_def by blast+
  let ?finish = "doM [upd_vq (\<lambda>v. v\<lparr>info_b := (info_b v)(0 := None)\<rparr>), free_chain 0, release L_vdisk]"
  have undo: "(bufs s b)\<lparr>b_disk := False\<rparr> = bufs s b"
    "(bufs s b)\<lparr>b_data := d, b_disk := False\<rparr> = (bufs s b)\<lparr>b_data := d\<rparr>" for d
    using b by (cases "bufs s b", simp)+
  have "virtio_disk_rw b w (irq_env dev) s =
      seqM (whileM (\<lambda>s. b_disk (bufs s b)) (sleep (Ch_buf b) L_vdisk)) ?finish (irq_env dev) s1"
    using p(3) alloc_wait_idle [of "s\<lparr>held := {L_vdisk}\<rparr>" "irq_env dev"] v
      submit_run [of b w ?sector _ "irq_env dev" "s\<lparr>held := {L_vdisk}\<rparr>"]
    by (simp add: virtio_disk_rw_def run_simps bindM_Done s1_def)
  also have "\<dots> = ?finish (irq_env dev) (t\<lparr>held := {L_vdisk}, vq := v1\<rparr>)"
  proof -
    let ?t = "transfer w (unat ?sector div 2) b s1"
    have "?t\<lparr>bufs := (bufs ?t)(b := (bufs ?t b)\<lparr>b_disk := False\<rparr>), vq := completed (vq s1)\<rparr> =
        t\<lparr>held := {L_vdisk}, vq := v1\<rparr>"
      using undo by (simp add: s1_def v1_def t_def transfer_def transfer_bufs_def blk_of_def)
    moreover have "vq s1 = in_flight b w ?sector (vq s)" "cur s1 = Some p" "held s1 = {L_vdisk}"
      "b_disk (bufs s1 b)" "procs s1 = procs s"
      using p by (simp_all add: s1_def)
    ultimately show ?thesis
      using wait_run [OF dev v, of s1 b w ?sector p ?finish] p others by (simp add: Let_def)
  qed
  also have "\<dots> = seqM (free_chain 0) (doM [release L_vdisk]) (irq_env dev) (t\<lparr>held := {L_vdisk}, vq := v2\<rparr>)"
    by (simp add: run_simps v2_def)
  also have "\<dots> = Done () (t\<lparr>vq := v3\<rparr>)"
  proof -
    have "wake Ch_vdisk_free (cur s) (procs s) = procs s"
      using others by (intro wake_quiet) (auto simp: storage_chan_def)
    then have "free_chain 0 (irq_env dev) (t\<lparr>held := {L_vdisk}, vq := v2\<rparr>) =
        Done () (t\<lparr>held := {L_vdisk}, vq := v3\<rparr>)"
      using free_chain_run [of "t\<lparr>held := {L_vdisk}, vq := v2\<rparr>" "irq_env dev"]
      by (simp add: v3_def no_proc_lock_def v2_def v1_def completed_def in_flight_def t_def transfer_def)
    moreover have "held t = {}" using p(3) by (simp add: t_def transfer_def)
    ultimately show ?thesis by (simp add: seqM_Done run_simps)
  qed
  finally have "virtio_disk_rw b w (irq_env dev) s = Done () (t\<lparr>vq := v3\<rparr>)" .
  moreover have "idle v3"
    using v by (auto simp: idle_def v3_def v2_def v1_def completed_def in_flight_def)
  ultimately show ?thesis unfolding t_def by blast
qed

section \<open>The interface\<close>

text \<open>
  What the buffer cache relies on: run in the environment \<open>env\<close>, a request on a quiet system
  returns, has transferred one block between the buffer and the disk, and leaves the driver idle.
\<close>

locale disk_env =
  fixes env :: "'x disk_state_scheme \<Rightarrow> 'x disk_state_scheme"
  assumes rw_returns: "quiet p s \<Longrightarrow> idle (vq s) \<Longrightarrow> \<not> b_disk (bufs s b) \<Longrightarrow>
    \<exists>v. idle v \<and> virtio_disk_rw b w env s =
      Done () ((transfer w (blk_of (b_blockno (bufs s b))) b s)\<lparr>vq := v\<rparr>)"
begin

lemma wp_rw:
  assumes "quiet p s" "idle (vq s)" "\<not> b_disk (bufs s b)"
    and "\<And>v. idle v \<Longrightarrow> Q () ((transfer w (blk_of (b_blockno (bufs s b))) b s)\<lparr>vq := v\<rparr>)"
  shows "wp env (virtio_disk_rw b w) Q s"
  using rw_returns [OF assms(1-3), of w] assms(4) by (auto simp: wp_iff)

end

lemma disk_env_irq: "virtio_device dev \<Longrightarrow> disk_env (irq_env dev)"
  by unfold_locales (rule virtio_disk_rw_run)

lemma virtio_device_complete_request: "virtio_device complete_request"
  by (simp add: virtio_device_def)

interpretation qemu: disk_env "irq_env complete_request"
  by (rule disk_env_irq [OF virtio_device_complete_request])

end
