(* ===== verification/Bio.thy ===== *)
theory Bio
  imports Virtio
begin

text \<open>
  The buffer cache, \<^verbatim>\<open>kernel/bio.c\<close>. The buffers are \<open>bufs 0 .. bufs (NBUF - 1)\<close>; index
  \<open>NBUF\<close> is \<open>bcache.head\<close>, of which only the links are used. The links form a doubly-linked list
  in order of use.
\<close>

abbreviation (input) bhead :: nat where "bhead \<equiv> NBUF"

definition set_next :: "nat \<Rightarrow> nat \<Rightarrow> ('x disk_state_scheme, unit) km" where
  "set_next b n = upd_buf b (b_next_update (\<lambda>_. n))"

definition set_prev :: "nat \<Rightarrow> nat \<Rightarrow> ('x disk_state_scheme, unit) km" where
  "set_prev b n = upd_buf b (b_prev_update (\<lambda>_. n))"

text \<open>The code both \<open>binit\<close> and \<open>brelse\<close> have for putting \<open>b\<close> right after the head.\<close>

definition link_front :: "nat \<Rightarrow> ('x disk_state_scheme, unit) km" where
  "link_front b = doM [
     bindM (getM (\<lambda>s. b_next (bufs s bhead))) (set_next b),
     set_prev b bhead,
     bindM (getM (\<lambda>s. b_next (bufs s bhead))) (\<lambda>h. set_prev h b),
     set_next bhead b]"

definition binit_body :: "nat \<Rightarrow> ('x disk_state_scheme, unit) km" where
  "binit_body b = doM [
       bindM (getM (\<lambda>s. b_next (bufs s bhead))) (set_next b),
       set_prev b bhead,
       initsleeplock (SL_buf b),
       bindM (getM (\<lambda>s. b_next (bufs s bhead))) (\<lambda>h. set_prev h b),
       set_next bhead b]"

definition binit :: "('x disk_state_scheme, unit) km" where
  "binit = doM [
     set_prev bhead bhead,
     set_next bhead bhead,
     eachM [0..<NBUF] binit_body]"

definition bget_cached_body :: "u32 \<Rightarrow> u32 \<Rightarrow> nat \<Rightarrow> ('x disk_state_scheme, nat + nat option) km" where
  "bget_cached_body dev blockno b =
     (if b = bhead then retM (Inr None)
      else ifM (\<lambda>s. b_dev (bufs s b) = dev \<and> b_blockno (bufs s b) = blockno)
        (seqM (doM [
           upd_buf b (\<lambda>k. k\<lparr>b_refcnt := b_refcnt k + 1\<rparr>),
           release L_bcache,
           acquiresleep (SL_buf b)])
          (retM (Inr (Some b))))
        (bindM (getM (\<lambda>s. b_next (bufs s b))) (\<lambda>n. retM (Inl n))))"

definition bget_recycle_body :: "u32 \<Rightarrow> u32 \<Rightarrow> nat \<Rightarrow> ('x disk_state_scheme, nat + nat option) km" where
  "bget_recycle_body dev blockno b =
     (if b = bhead then retM (Inr None)
      else ifM (\<lambda>s. b_refcnt (bufs s b) = 0)
        (seqM (doM [
           upd_buf b (\<lambda>k. k\<lparr>b_dev := dev, b_blockno := blockno, b_valid := False, b_refcnt := 1\<rparr>),
           release L_bcache,
           acquiresleep (SL_buf b)])
          (retM (Inr (Some b))))
        (bindM (getM (\<lambda>s. b_prev (bufs s b))) (\<lambda>n. retM (Inl n))))"

definition bget :: "u32 \<Rightarrow> u32 \<Rightarrow> ('x disk_state_scheme, nat) km" where
  "bget dev blockno =
     seqM (acquire L_bcache)
     (bindM (getM (\<lambda>s. b_next (bufs s bhead))) (\<lambda>first.
      bindM (loopM (bget_cached_body dev blockno) first) (\<lambda>r. case r of
        Some b \<Rightarrow> retM b
      | None \<Rightarrow>
          bindM (getM (\<lambda>s. b_prev (bufs s bhead))) (\<lambda>lru.
          bindM (loopM (bget_recycle_body dev blockno) lru) (\<lambda>r. case r of
            Some b \<Rightarrow> retM b
          | None \<Rightarrow> panicM ''bget: no buffers'')))))"

definition bread :: "u32 \<Rightarrow> u32 \<Rightarrow> ('x disk_state_scheme, nat) km" where
  "bread dev blockno =
     bindM (bget dev blockno) (\<lambda>b.
     seqM (ifM (\<lambda>s. \<not> b_valid (bufs s b))
       (seqM (virtio_disk_rw b False) (upd_buf b (b_valid_update (\<lambda>_. True))))
       skipM)
     (retM b))"

definition bwrite :: "nat \<Rightarrow> ('x disk_state_scheme, unit) km" where
  "bwrite b =
     bindM (holdingsleep (SL_buf b)) (\<lambda>h.
     if \<not> h then panicM ''bwrite'' else virtio_disk_rw b True)"

text \<open>What \<open>brelse\<close> does with a buffer no one is waiting for.\<close>

definition relink :: "nat \<Rightarrow> ('x disk_state_scheme, unit) km" where
  "relink b = doM [
     bindM (getM (\<lambda>s. bufs s b)) (\<lambda>k. set_prev (b_next k) (b_prev k)),
     bindM (getM (\<lambda>s. bufs s b)) (\<lambda>k. set_next (b_prev k) (b_next k)),
     link_front b]"

definition brelse :: "nat \<Rightarrow> ('x disk_state_scheme, unit) km" where
  "brelse b =
     bindM (holdingsleep (SL_buf b)) (\<lambda>h.
     if \<not> h then panicM ''brelse''
     else doM [
       releasesleep (SL_buf b),
       acquire L_bcache,
       upd_buf b (\<lambda>k. k\<lparr>b_refcnt := b_refcnt k - 1\<rparr>),
       ifM (\<lambda>s. b_refcnt (bufs s b) = 0)
         (relink b)
         skipM,
       release L_bcache])"

definition bpin :: "nat \<Rightarrow> ('x disk_state_scheme, unit) km" where
  "bpin b = doM [
     acquire L_bcache,
     upd_buf b (\<lambda>k. k\<lparr>b_refcnt := b_refcnt k + 1\<rparr>),
     release L_bcache]"

definition bunpin :: "nat \<Rightarrow> ('x disk_state_scheme, unit) km" where
  "bunpin b = doM [
     acquire L_bcache,
     upd_buf b (\<lambda>k. k\<lparr>b_refcnt := b_refcnt k - 1\<rparr>),
     release L_bcache]"

section \<open>The list of buffers\<close>

lemma find_SomeD: "find P xs = Some x \<Longrightarrow> x \<in> set xs \<and> P x"
  by (induction xs) (auto split: if_splits)

text \<open>Consecutive elements of a list of buffers point to each other.\<close>

fun links :: "(nat \<Rightarrow> buf) \<Rightarrow> nat list \<Rightarrow> bool" where
  "links B (a # b # ys) \<longleftrightarrow> b_next (B a) = b \<and> b_prev (B b) = a \<and> links B (b # ys)"
| "links B _ \<longleftrightarrow> True"

text \<open>\<open>xs\<close> are the buffers from \<open>head.next\<close> to \<open>head.prev\<close>.\<close>

definition lru :: "(nat \<Rightarrow> buf) \<Rightarrow> nat list \<Rightarrow> bool" where
  "lru B xs \<longleftrightarrow> links B (bhead # xs @ [bhead]) \<and> distinct xs \<and> set xs = {..<NBUF}"

lemma links_append:
  "links B (xs @ a # ys) \<longleftrightarrow> links B (xs @ [a]) \<and> links B (a # ys)"
  by (induction B xs rule: links.induct) auto

lemma links_cong:
  assumes "\<And>x. x \<in> set (butlast ys) \<Longrightarrow> b_next (B' x) = b_next (B x)"
    and "\<And>x. x \<in> set (tl ys) \<Longrightarrow> b_prev (B' x) = b_prev (B x)"
  shows "links B' ys = links B ys"
  using assms
proof (induction B ys rule: links.induct)
  case (1 B a b ys)
  have "links B' (b # ys) = links B (b # ys)"
    by (rule 1) (use "1.prems" in \<open>cases ys; auto\<close>)+
  moreover have "b_next (B' a) = b_next (B a)" "b_prev (B' b) = b_prev (B b)"
    using "1.prems" by simp_all
  ultimately show ?case by simp
qed auto

text \<open>Taking out the middle of three neighbours.\<close>

lemma links_unlink:
  assumes l: "links B (us @ u # b # v # vs)"
    and d: "distinct (us @ [u])" "distinct (v # vs)" "u \<notin> set (butlast (v # vs))" "v \<notin> set (tl (us @ [u]))"
    and B': "\<And>x. b_next (B' x) = (if x = u then v else b_next (B x))"
      "\<And>x. b_prev (B' x) = (if x = v then u else b_prev (B x))"
  shows "links B' (us @ u # v # vs)"
proof -
  have "links B (us @ [u])" "links B (v # vs)"
    using l links_append [of B us u "b # v # vs"] by auto
  moreover have "links B' (us @ [u]) = links B (us @ [u])"
    using d by (intro links_cong) (auto simp: B' butlast_append)
  moreover have "links B' (v # vs) = links B (v # vs)"
    using d by (intro links_cong) (auto simp: B')
  ultimately show ?thesis
    using links_append [of B' us u "v # vs"] by (simp add: B')
qed

text \<open>Putting \<open>b\<close> right after the first element.\<close>

lemma links_insert:
  assumes l: "links B (h # n # ys)"
    and d: "b \<noteq> h" "b \<notin> set (n # ys)" "distinct (n # ys)" "h \<notin> set (butlast (n # ys))"
    and B': "\<And>x. b_next (B' x) = (if x = h then b else if x = b then n else b_next (B x))"
      "\<And>x. b_prev (B' x) = (if x = n then b else if x = b then h else b_prev (B x))"
  shows "links B' (h # b # n # ys)"
proof -
  have "b \<notin> set (butlast (n # ys))" using d(2) by (meson in_set_butlastD)
  then have "links B' (n # ys) = links B (n # ys)"
    using d by (intro links_cong) (auto simp: B' split: if_splits)
  then show ?thesis using l d by (auto simp: B')
qed

lemma links_snoc:
  "links B (a # xs @ [x]) \<longleftrightarrow>
     links B (a # xs) \<and> b_next (B (last (a # xs))) = x \<and> b_prev (B x) = last (a # xs)"
  by (induction xs arbitrary: a) auto

lemma links_outer:
  assumes "links B (h # xs @ [h])"
  shows "b_next (B h) = hd (xs @ [h])" "b_prev (B h) = last (h # xs)"
proof -
  show "b_next (B h) = hd (xs @ [h])" using assms by (cases xs) auto
  show "b_prev (B h) = last (h # xs)" using assms links_snoc by blast
qed

text \<open>A released buffer becomes the most recently used one.\<close>

definition unlink_buf :: "nat \<Rightarrow> (nat \<Rightarrow> buf) \<Rightarrow> nat \<Rightarrow> buf" where
  "unlink_buf b B =
     (let B1 = B(b_next (B b) := (B (b_next (B b)))\<lparr>b_prev := b_prev (B b)\<rparr>)
      in B1(b_prev (B1 b) := (B1 (b_prev (B1 b)))\<lparr>b_next := b_next (B1 b)\<rparr>))"

definition put_front :: "nat \<Rightarrow> (nat \<Rightarrow> buf) \<Rightarrow> nat \<Rightarrow> buf" where
  "put_front b B =
     (let B3 = B(b := (B b)\<lparr>b_next := b_next (B bhead)\<rparr>);
          B4 = B3(b := (B3 b)\<lparr>b_prev := bhead\<rparr>);
          B5 = B4(b_next (B4 bhead) := (B4 (b_next (B4 bhead)))\<lparr>b_prev := b\<rparr>)
      in B5(bhead := (B5 bhead)\<lparr>b_next := b\<rparr>))"

lemma put_front_links:
  assumes l: "links B (bhead # n # ys)"
    and d: "b \<noteq> bhead" "b \<notin> set (n # ys)" "distinct (n # ys)" "bhead \<notin> set (butlast (n # ys))"
  shows "links (put_front b B) (bhead # b # n # ys)"
proof -
  have "b_next (B bhead) = n" "b \<noteq> n" using l d by auto
  with d(1) show ?thesis
    by (intro links_insert [OF l d]) (auto simp: put_front_def Let_def)
qed

lemma lru_to_front:
  assumes "lru B xs" "b < NBUF"
  shows "lru (put_front b (unlink_buf b B)) (b # remove1 b xs)"
proof -
  from assms have b: "b \<in> set xs" "b \<noteq> bhead" and d: "distinct xs" "bhead \<notin> set xs"
    by (auto simp: lru_def)
  then obtain xs1 xs2 where xs: "xs = xs1 @ b # xs2" "b \<notin> set xs1"
    by (meson split_list_first)
  define us u v vs where "us = butlast (bhead # xs1)" and "u = last (bhead # xs1)"
    and "v = hd (xs2 @ [bhead])" and "vs = tl (xs2 @ [bhead])"
  have uv: "us @ [u] = bhead # xs1" "v # vs = xs2 @ [bhead]"
    by (simp_all add: us_def u_def v_def vs_def)
  have ring: "bhead # xs @ [bhead] = us @ u # b # v # vs"
    using uv by (metis append.assoc append_Cons append_Nil xs(1))
  have l: "links B (us @ u # b # v # vs)" using assms(1) ring by (simp add: lru_def)
  then have nb: "b_next (B b) = v" "b_prev (B b) = u"
    using links_append [of B us u "b # v # vs"] by auto
  define B2 where "B2 = unlink_buf b B"
  have "u \<in> set (bhead # xs1)" unfolding u_def by (rule last_in_set) simp
  moreover have "v \<in> set (xs2 @ [bhead])" unfolding v_def by (rule hd_in_set) simp
  ultimately have bv: "b \<noteq> v" "b \<noteq> u" "v \<notin> set xs1" "u \<notin> set xs2"
    using b d xs by auto
  have l2: "links B2 (us @ u # v # vs)"
  proof (rule links_unlink [OF l])
    show "distinct (us @ [u])" "distinct (v # vs)" unfolding uv using d xs by auto
    show "u \<notin> set (butlast (v # vs))" unfolding uv using bv(4) by simp
    show "v \<notin> set (tl (us @ [u]))" unfolding uv using bv(3) by simp
  qed (use bv in \<open>auto simp: B2_def unlink_buf_def Let_def nb\<close>)
  have mid: "us @ u # v # vs = bhead # xs1 @ xs2 @ [bhead]"
    using uv by (metis append.assoc append_Cons append_Nil)
  obtain n ys where n: "xs1 @ xs2 @ [bhead] = n # ys" by (cases "xs1 @ xs2 @ [bhead]") auto
  have l3: "links B2 (bhead # n # ys)" using l2 mid n by simp
  have nys: "b \<notin> set (n # ys)" "distinct (n # ys)" "bhead \<notin> set (butlast (n # ys))"
    unfolding n [symmetric] using b d xs by (auto simp: butlast_append)
  have "links (put_front b B2) (bhead # b # n # ys)"
    by (rule put_front_links [OF l3 b(2) nys])
  moreover have "remove1 b xs = xs1 @ xs2" using xs by (simp add: remove1_append)
  moreover have "set xs = insert b (set (xs1 @ xs2))" using xs by auto
  ultimately show ?thesis
    using assms(1) d xs n by (auto simp: lru_def B2_def)
qed

lemma link_front_run [run_simps]:
  "link_front b env s = Done () (s\<lparr>bufs := put_front b (bufs s)\<rparr>)"
  "seqM (link_front b) n env s = n env (s\<lparr>bufs := put_front b (bufs s)\<rparr>)"
  by (simp_all add: link_front_def set_next_def set_prev_def run_simps put_front_def Let_def)

text \<open>\<open>binit\<close> builds the list of all buffers, the last one first, with every buffer lock free.\<close>

lemma binit_body_run:
  "binit_body b env s = Done () (s\<lparr>bufs := put_front b (bufs s),
     slocks := (slocks s)(SL_buf b := \<lparr>sl_locked = False, sl_pid = 0\<rparr>)\<rparr>)"
  by (simp add: binit_body_def run_simps set_next_def set_prev_def initsleeplock_def put_front_def
      Let_def sleeplock_collapse)

lemma binit_upto:
  assumes "n \<le> NBUF" "b_prev (bufs s bhead) = bhead" "b_next (bufs s bhead) = bhead"
  shows "\<exists>t. eachM [0..<n] binit_body env s = Done () t \<and>
     links (bufs t) (bhead # rev [0..<n] @ [bhead])"
  using assms(1)
proof (induction n)
  case 0
  then show ?case using assms by (simp add: run_simps)
next
  case (Suc n)
  then obtain t where t: "eachM [0..<n] binit_body env s = Done () t"
     "links (bufs t) (bhead # rev [0..<n] @ [bhead])" by auto
  obtain m ys where m: "rev [0..<n] @ [bhead] = m # ys" by (cases "rev [0..<n] @ [bhead]") auto
  have "n < NBUF" using Suc.prems by simp
  then have ok: "n \<noteq> bhead" "n \<notin> set (m # ys)" "distinct (m # ys)" "bhead \<notin> set (butlast (m # ys))"
    unfolding m [symmetric] by (auto simp: butlast_append)
  have "links (put_front n (bufs t)) (bhead # n # m # ys)"
    using put_front_links [OF _ ok] t(2) m by simp
  then have "links (put_front n (bufs t)) (bhead # rev [0..<Suc n] @ [bhead])" using m by simp
  moreover have "eachM [0..<Suc n] binit_body env s = seqM (binit_body n) skipM env t"
    by (simp add: eachM_append seqM_Done [where m = "eachM [0..<n] binit_body", OF t(1)])
  moreover have "seqM (binit_body n) skipM env t = binit_body n env t"
    by (simp add: seqM_def bindM_def binit_body_run [of n env t] run_simps)
  ultimately show ?case by (simp add: binit_body_run [of n env t])
qed

lemma binit_lru: "\<exists>t. binit env s = Done () t \<and> lru (bufs t) (rev [0..<NBUF])"
proof -
  define s1 where "s1 = s\<lparr>bufs := (bufs s)(bhead := (bufs s bhead)\<lparr>b_prev := bhead, b_next := bhead\<rparr>)\<rparr>"
  have s1: "b_prev (bufs s1 bhead) = bhead" "b_next (bufs s1 bhead) = bhead" by (simp_all add: s1_def)
  obtain t where t: "eachM [0..<NBUF] binit_body env s1 = Done () t" "links (bufs t) (bhead # rev [0..<NBUF] @ [bhead])"
    using binit_upto [OF order_refl s1] by blast
  have "binit env s = Done () t"
    using t(1) by (simp add: binit_def run_simps set_next_def set_prev_def s1_def seqM_Done)
  with t(2) show ?thesis by (auto simp: lru_def atLeast_upt)
qed

section \<open>The cache invariant\<close>

text \<open>
  \<open>L\<close> are the buffers the running process has locked, \<open>P\<close> those the log has pinned; \<open>D\<close> is
  the disk. A valid buffer that is neither locked nor pinned has the content of its disk block,
  and no block of the device has two buffers.
\<close>

definition buf_ok :: "u32 \<Rightarrow> bool \<Rightarrow> bool \<Rightarrow> (nat \<Rightarrow> u8 list) \<Rightarrow> buf \<Rightarrow> bool" where
  "buf_ok d lk pn D k \<longleftrightarrow>
     b_refcnt k = of_bool lk + of_bool pn \<and> \<not> b_disk k \<and>
     (lk \<or> pn \<longrightarrow> b_valid k) \<and> b_valid k = (b_dev k = d) \<and>
     (b_valid k \<longrightarrow> b_blockno k < 2 ^ 31 \<and> length (b_data k) = BSIZE) \<and>
     (b_valid k \<and> \<not> lk \<and> \<not> pn \<longrightarrow> b_data k = D (unat (b_blockno k)))"

definition bufs_ok :: "u32 \<Rightarrow> nat set \<Rightarrow> nat set \<Rightarrow> (nat \<Rightarrow> buf) \<Rightarrow> (nat \<Rightarrow> u8 list) \<Rightarrow> bool" where
  "bufs_ok d L P B D \<longleftrightarrow>
     (\<forall>i<NBUF. buf_ok d (i \<in> L) (i \<in> P) D (B i)) \<and>
     (\<forall>i<NBUF. \<forall>j<NBUF. b_dev (B i) = d \<and> b_dev (B j) = d \<and> b_blockno (B i) = b_blockno (B j) \<longrightarrow> i = j) \<and>
     (\<exists>xs. lru B xs)"

definition cache :: "u32 \<Rightarrow> nat \<Rightarrow> nat set \<Rightarrow> nat set \<Rightarrow> 'x disk_state_scheme \<Rightarrow> bool" where
  "cache d p L P s \<longleftrightarrow> quiet p s \<and> idle (vq s) \<and> L \<subseteq> {..<NBUF} \<and> P \<subseteq> {..<NBUF} \<and>
     bufs_ok d L P (bufs s) (disk_img s) \<and> (\<forall>k. length (disk_img s k) = BSIZE) \<and>
     (\<forall>i<NBUF. sl_locked (slocks s (SL_buf i)) = (i \<in> L)) \<and>
     (\<forall>i\<in>L. sl_pid (slocks s (SL_buf i)) = p_pid (procs s p))"

text \<open>The content of a block as the cache presents it.\<close>

definition in_cache :: "u32 \<Rightarrow> u32 \<Rightarrow> (nat \<Rightarrow> buf) \<Rightarrow> nat \<Rightarrow> bool" where
  "in_cache d bn B i \<longleftrightarrow> i < NBUF \<and> b_valid (B i) \<and> b_dev (B i) = d \<and> b_blockno (B i) = bn"

definition look :: "u32 \<Rightarrow> (nat \<Rightarrow> buf) \<Rightarrow> (nat \<Rightarrow> u8 list) \<Rightarrow> u32 \<Rightarrow> u8 list" where
  "look d B D bn = (case find (in_cache d bn B) [0..<NBUF] of
     None \<Rightarrow> D (unat bn) | Some i \<Rightarrow> b_data (B i))"

lemma bufs_okD:
  assumes "bufs_ok d L P B D" "i < NBUF"
  shows "b_refcnt (B i) = of_bool (i \<in> L) + of_bool (i \<in> P)" "\<not> b_disk (B i)"
    "i \<in> L \<union> P \<Longrightarrow> b_valid (B i)"
    "b_valid (B i) = (b_dev (B i) = d)" "b_valid (B i) \<Longrightarrow> b_blockno (B i) < 2 ^ 31"
    "b_valid (B i) \<Longrightarrow> length (b_data (B i)) = BSIZE"
    "b_valid (B i) \<Longrightarrow> i \<notin> L \<union> P \<Longrightarrow> b_data (B i) = D (unat (b_blockno (B i)))"
  using assms by (auto simp: bufs_ok_def buf_ok_def)

lemma bufs_ok_unique:
  assumes "bufs_ok d L P B D" "i < NBUF" "j < NBUF" "b_dev (B i) = d" "b_dev (B j) = d"
    "b_blockno (B i) = b_blockno (B j)"
  shows "i = j"
  using assms unfolding bufs_ok_def by blast

lemma look_cached:
  assumes "bufs_ok d L P B D" "in_cache d bn B i"
  shows "look d B D bn = b_data (B i)"
proof (cases "find (in_cache d bn B) [0..<NBUF]")
  case None
  with assms(2) show ?thesis by (auto simp: find_None_iff in_cache_def)
next
  case (Some j)
  then have "in_cache d bn B j" by (auto simp: find_Some_iff)
  with assms have "j = i" by (auto simp: in_cache_def intro: bufs_ok_unique)
  with Some show ?thesis by (simp add: look_def)
qed

lemma look_uncached: "(\<And>i. \<not> in_cache d bn B i) \<Longrightarrow> look d B D bn = D (unat bn)"
  by (simp add: look_def find_None_iff [THEN iffD2])

lemma look_locked:
  assumes "bufs_ok d L P B D" "i \<in> L \<union> P" "i < NBUF"
  shows "look d B D (b_blockno (B i)) = b_data (B i)"
  using assms bufs_okD(3) [OF assms(1,3)] bufs_okD(4) [OF assms(1,3)]
  by (intro look_cached) (auto simp: in_cache_def)

lemma look_cong:
  assumes "\<And>i. in_cache d bn B' i = in_cache d bn B i"
    and "\<And>i. in_cache d bn B i \<Longrightarrow> b_data (B' i) = b_data (B i)" and "D' (unat bn) = D (unat bn)"
  shows "look d B' D' bn = look d B D bn"
proof -
  have "in_cache d bn B' = in_cache d bn B" using assms(1) by blast
  moreover have "in_cache d bn B i" if "find (in_cache d bn B) [0..<NBUF] = Some i" for i
    using that by (auto simp: find_Some_iff)
  ultimately show ?thesis
    using assms(2,3) by (auto simp: look_def split: option.split)
qed

section \<open>bread, bwrite, brelse\<close>

lemma wp_cached_loop:
  assumes "links (bufs s) (xs @ [bhead])" "bhead \<notin> set xs"
  shows "wp env (loopM (bget_cached_body d bn) (hd (xs @ [bhead]))) Q s =
    (case find (\<lambda>i. b_dev (bufs s i) = d \<and> b_blockno (bufs s i) = bn) xs of
       None \<Rightarrow> Q None s
     | Some i \<Rightarrow> wp env (doM [
           upd_buf i (\<lambda>k. k\<lparr>b_refcnt := b_refcnt k + 1\<rparr>),
           release L_bcache,
           acquiresleep (SL_buf i)]) (\<lambda>_. Q (Some i)) s)"
  using assms
proof (induction xs)
  case Nil
  then show ?case by (subst wp_loop_unfold) (simp add: bget_cached_body_def wp_simps)
next
  case (Cons x xs)
  have nxt: "b_next (bufs s x) = hd (xs @ [bhead])" using Cons.prems(1) by (cases xs) auto
  have "links (bufs s) (xs @ [bhead])" using Cons.prems(1) by (cases xs) auto
  with Cons show ?case
    by (subst wp_loop_unfold) (simp add: bget_cached_body_def [of d bn x] wp_simps nxt)
qed

lemma wp_recycle_loop:
  assumes "links (bufs s) (bhead # xs)" "bhead \<notin> set xs"
  shows "wp env (loopM (bget_recycle_body d bn) (last (bhead # xs))) Q s =
    (case find (\<lambda>i. b_refcnt (bufs s i) = 0) (rev xs) of
       None \<Rightarrow> Q None s
     | Some i \<Rightarrow> wp env (doM [
           upd_buf i (\<lambda>k. k\<lparr>b_dev := d, b_blockno := bn, b_valid := False, b_refcnt := 1\<rparr>),
           release L_bcache,
           acquiresleep (SL_buf i)]) (\<lambda>_. Q (Some i)) s)"
  using assms
proof (induction xs rule: rev_induct)
  case Nil
  then show ?case by (subst wp_loop_unfold) (simp add: bget_recycle_body_def wp_simps)
next
  case (snoc x xs)
  have l: "links (bufs s) (bhead # xs)" "b_prev (bufs s x) = last (bhead # xs)"
    using snoc.prems(1) links_snoc [of "bufs s" bhead xs x] by blast+
  have x: "last (bhead # xs @ [x]) = x" by simp
  from l snoc show ?case
    by (subst wp_loop_unfold) (simp add: x bget_recycle_body_def [of d bn x] wp_simps del: last.simps)
qed

lemma wp_link_front [wp_simps]:
  "wp env (link_front b) Q s = Q () (s\<lparr>bufs := put_front b (bufs s)\<rparr>)"
  by (simp add: wp_def run_simps)

lemma wp_relink [wp_simps]:
  "wp env (relink b) Q s = Q () (s\<lparr>bufs := put_front b (unlink_buf b (bufs s))\<rparr>)"
  by (simp add: wp_def relink_def run_simps set_prev_def set_next_def unlink_buf_def Let_def)

lemma wp_upd_buf [wp_simps]:
  "wp env (upd_buf b f) Q s = Q () (s\<lparr>bufs := (bufs s)(b := f (bufs s b))\<rparr>)"
  by (simp add: wp_def run_simps)

lemma lru_cong:
  "(\<And>x. b_next (B' x) = b_next (B x)) \<Longrightarrow> (\<And>x. b_prev (B' x) = b_prev (B x)) \<Longrightarrow> lru B' xs = lru B xs"
  using links_cong [of "bhead # xs @ [bhead]" B' B] by (simp add: lru_def)

text \<open>Changing one buffer, and its lock and pin, while its place in the list stays.\<close>

lemma bufs_ok_upd:
  assumes ok: "bufs_ok d L P B D" and k: "buf_ok d (i \<in> L') (i \<in> P') D k"
    and others: "\<And>j. j \<noteq> i \<Longrightarrow> (j \<in> L') = (j \<in> L)" "\<And>j. j \<noteq> i \<Longrightarrow> (j \<in> P') = (j \<in> P)"
    and links: "b_next k = b_next (B i)" "b_prev k = b_prev (B i)"
    and uniq: "\<And>j. j < NBUF \<Longrightarrow> j \<noteq> i \<Longrightarrow> b_dev (B j) = d \<Longrightarrow> b_dev k = d \<Longrightarrow> b_blockno (B j) \<noteq> b_blockno k"
  shows "bufs_ok d L' P' (B(i := k)) D"
proof -
  have "lru (B(i := k)) xs = lru B xs" for xs by (rule lru_cong) (auto simp: links)
  moreover have "buf_ok d (j \<in> L') (j \<in> P') D ((B(i := k)) j)" if "j < NBUF" for j
    using ok k others that by (cases "j = i") (auto simp: bufs_ok_def)
  moreover have "m = j" if "m < NBUF" "j < NBUF" "b_dev ((B(i := k)) m) = d" "b_dev ((B(i := k)) j) = d"
      "b_blockno ((B(i := k)) m) = b_blockno ((B(i := k)) j)" for m j
  proof (cases "m = i \<or> j = i")
    case True
    with that uniq [of m] uniq [of j] show ?thesis by (auto split: if_splits)
  next
    case False
    with that bufs_ok_unique [OF ok, of m j] show ?thesis by simp
  qed
  ultimately show ?thesis using ok unfolding bufs_ok_def by blast
qed

lemma bufs_ok_hit:
  assumes ok: "bufs_ok d L P B D" and i: "i < NBUF" "i \<notin> L" "b_dev (B i) = d"
  shows "bufs_ok d (insert i L) P (B(i := (B i)\<lparr>b_refcnt := b_refcnt (B i) + 1\<rparr>)) D"
  using i bufs_okD [OF ok i(1)] bufs_ok_unique [OF ok _ i(1)]
  by (intro bufs_ok_upd [OF ok]) (auto simp: buf_ok_def)

lemma refcnt_0_iff:
  assumes "bufs_ok d L P B D" "i < NBUF"
  shows "b_refcnt (B i) = 0 \<longleftrightarrow> i \<notin> L \<union> P"
  using bufs_okD(1) [OF assms] by (auto simp: of_bool_def)

lemma bufs_ok_miss:
  assumes ok: "bufs_ok d L P B D" and i: "i < NBUF" "i \<notin> L \<union> P"
    and new: "\<And>j. j < NBUF \<Longrightarrow> \<not> (b_dev (B j) = d \<and> b_blockno (B j) = bn)"
    and bn: "bn < 2 ^ 31" "length (D (unat bn)) = BSIZE"
  shows "bufs_ok d (insert i L) P (B(i := (B i)\<lparr>b_dev := d, b_blockno := bn, b_valid := True,
    b_refcnt := 1, b_data := D (unat bn)\<rparr>)) D"
  using i bufs_okD(2) [OF ok i(1)] bn new
  by (intro bufs_ok_upd [OF ok]) (auto simp: buf_ok_def)

lemma look_hit: "look d (B(i := (B i)\<lparr>b_refcnt := n\<rparr>)) D bn = look d B D bn"
  by (rule look_cong) (auto simp: in_cache_def)

lemma look_miss:
  assumes ok: "bufs_ok d L P B D" and i: "i < NBUF" "i \<notin> L \<union> P"
    and new: "\<And>j. j < NBUF \<Longrightarrow> \<not> (b_dev (B j) = d \<and> b_blockno (B j) = bn)"
    and bn: "bn < 2 ^ 31" "length (D (unat bn)) = BSIZE"
  defines "B' \<equiv> B(i := (B i)\<lparr>b_dev := d, b_blockno := bn, b_valid := True, b_refcnt := 1,
    b_data := D (unat bn)\<rparr>)"
  shows "look d B' D bn' = look d B D bn'"
proof (cases "bn' = bn")
  case True
  have "look d B D bn = D (unat bn)" using new by (intro look_uncached) (auto simp: in_cache_def)
  moreover have "in_cache d bn B' i" using i by (simp add: in_cache_def B'_def)
  then have "look d B' D bn = b_data (B' i)"
    using bufs_ok_miss [OF ok i new bn] unfolding B'_def by (rule look_cached [rotated])
  ultimately show ?thesis using True by (simp add: B'_def)
next
  case False
  have same: "in_cache d bn' B' j = in_cache d bn' B j" if "j \<noteq> i" for j
    using that by (simp add: in_cache_def B'_def)
  show ?thesis
  proof (cases "in_cache d bn' B i")
    case True
    have "\<not> in_cache d bn' B' j" for j
      using same True False bufs_ok_unique [OF ok _ i(1), of j]
      by (cases "j = i") (auto simp: in_cache_def B'_def)
    then have "look d B' D bn' = D (unat bn')" by (rule look_uncached)
    then show ?thesis
      using look_cached [OF ok True] bufs_okD(7) [OF ok i(1)] True i(2) by (simp add: in_cache_def)
  next
    case notin: False
    then show ?thesis
      using False same by (intro look_cong) (auto simp: in_cache_def B'_def)
  qed
qed

text \<open>The state after \<open>bget\<close> took buffer \<open>i\<close>, with the buffers now \<open>B\<close>.\<close>

definition took :: "nat \<Rightarrow> nat \<Rightarrow> (nat \<Rightarrow> buf) \<Rightarrow> 'x disk_state_scheme \<Rightarrow> 'x disk_state_scheme" where
  "took p i B s = s\<lparr>bufs := B,
     slocks := (slocks s)(SL_buf i := \<lparr>sl_locked = True, sl_pid = p_pid (procs s p)\<rparr>)\<rparr>"

lemma wp_take:
  assumes "held s = {}" "cur s = Some p" "\<not> sl_locked (slocks s (SL_buf i))"
  shows "wp env (acquiresleep (SL_buf i)) Q (s\<lparr>bufs := B, held := {}\<rparr>) = Q () (took p i B s)"
proof -
  have noop: "s\<lparr>bufs := B, held := {}, slocks := S\<rparr> = s\<lparr>bufs := B, slocks := S\<rparr>" for B S
    using assms(1) by simp
  show ?thesis
    using assms by (simp add: wp_simps wp_acquiresleep_free took_def noop)
qed

lemma wp_bget:
  assumes xs: "lru (bufs s) xs" and s: "held s = {}" "cur s = Some p"
    and hit: "\<And>i. i \<in> set xs \<Longrightarrow> b_dev (bufs s i) = d \<Longrightarrow> b_blockno (bufs s i) = bn \<Longrightarrow>
      \<not> sl_locked (slocks s (SL_buf i))"
    and unused: "\<And>i. i \<in> set xs \<Longrightarrow> b_refcnt (bufs s i) = 0 \<Longrightarrow> \<not> sl_locked (slocks s (SL_buf i))"
  shows "wp env (bget d bn) Q s =
    (case find (\<lambda>i. b_dev (bufs s i) = d \<and> b_blockno (bufs s i) = bn) xs of
       Some i \<Rightarrow> Q i (took p i ((bufs s)(i := (bufs s i)\<lparr>b_refcnt := b_refcnt (bufs s i) + 1\<rparr>)) s)
     | None \<Rightarrow> (case find (\<lambda>i. b_refcnt (bufs s i) = 0) (rev xs) of
         Some i \<Rightarrow> Q i (took p i ((bufs s)(i := (bufs s i)\<lparr>b_dev := d, b_blockno := bn,
           b_valid := False, b_refcnt := 1\<rparr>)) s)
       | None \<Rightarrow> False))"
proof -
  let ?s = "s\<lparr>held := {L_bcache}\<rparr>"
  have ring: "links (bufs s) (bhead # xs @ [bhead])" "bhead \<notin> set xs"
    using xs by (auto simp: lru_def)
  note ends = links_outer [OF ring(1)]
  have l1: "links (bufs ?s) (xs @ [bhead])" using ring(1) by (cases xs) auto
  have l2: "links (bufs ?s) (bhead # xs)" using ring(1) links_snoc [of "bufs s" bhead xs bhead] by simp
  show ?thesis
  proof (cases "find (\<lambda>i. b_dev (bufs s i) = d \<and> b_blockno (bufs s i) = bn) xs")
    case (Some i)
    then have "\<not> sl_locked (slocks s (SL_buf i))" using hit find_SomeD [OF Some] by blast
    with Some show ?thesis
      using s wp_cached_loop [OF l1 ring(2)]
      by (simp add: bget_def wp_simps ends wp_take)
  next
    case None
    show ?thesis
    proof (cases "find (\<lambda>i. b_refcnt (bufs s i) = 0) (rev xs)")
      case (Some i)
      then have "\<not> sl_locked (slocks s (SL_buf i))" using unused find_SomeD [OF Some] by auto
      with Some None show ?thesis
        using s wp_cached_loop [OF l1 ring(2)] wp_recycle_loop [OF l2 ring(2)]
        by (simp add: bget_def wp_simps ends wp_take)
    next
      case none: None
      with None show ?thesis
        using s wp_cached_loop [OF l1 ring(2)] wp_recycle_loop [OF l2 ring(2)]
        by (simp add: bget_def wp_simps ends)
    qed
  qed
qed

text \<open>
  What the storage layer may change; every later component's fields are kept, and so are the
  sleep locks of inodes.
\<close>

definition storage_frame :: "'x disk_state_scheme \<Rightarrow> 'x disk_state_scheme \<Rightarrow> bool" where
  "storage_frame s t \<longleftrightarrow> t = s\<lparr>slocks := slocks t, bufs := bufs t, vq := vq t,
     disk_img := disk_img t, disk_log := disk_log t\<rparr> \<and> (\<forall>i. slocks t (SL_inode i) = slocks s (SL_inode i))"

lemma storage_frame_refl [simp]: "storage_frame s s"
  by (simp add: storage_frame_def)

lemma storage_frame_trans [trans]: "storage_frame s t \<Longrightarrow> storage_frame t u \<Longrightarrow> storage_frame s u"
  unfolding storage_frame_def
  by (cases s, cases t, cases u) simp

text \<open>The view a client has of the blocks.\<close>

definition view :: "u32 \<Rightarrow> 'x disk_state_scheme \<Rightarrow> u32 \<Rightarrow> u8 list" where
  "view d s = look d (bufs s) (disk_img s)"

text \<open>
  \<open>got d p L P bn s b t\<close>: \<open>bread(d, bn)\<close> took \<open>s\<close> to \<open>t\<close> and returned buffer \<open>b\<close>, locked and
  with the content of the block; nothing else can be observed.
\<close>

definition got :: "u32 \<Rightarrow> nat \<Rightarrow> nat set \<Rightarrow> nat set \<Rightarrow> u32 \<Rightarrow> 'x disk_state_scheme \<Rightarrow> nat \<Rightarrow>
    'x disk_state_scheme \<Rightarrow> bool" where
  "got d p L P bn s b t \<longleftrightarrow> b < NBUF \<and> b \<notin> L \<and> cache d p (insert b L) P t \<and>
     b_blockno (bufs t b) = bn \<and> b_data (bufs t b) = view d s bn \<and> view d t = view d s \<and>
     disk_img t = disk_img s \<and> disk_log t = disk_log s \<and>
     (\<forall>i\<in>L \<union> P. b_blockno (bufs t i) = b_blockno (bufs s i)) \<and> storage_frame s t"

lemma blk_of_small: "bn < 2 ^ 31 \<Longrightarrow> blk_of bn = unat bn"
proof -
  assume "bn < 2 ^ 31"
  then have small: "unat bn < 2 ^ 31" by (simp add: word_less_nat_alt)
  then have double: "unat (bn * 2) = unat bn * 2" by (simp add: unat_word_ariths)
  have "unat (ucast (bn * 2) :: u64) = unat (bn * 2)"
    using small double by (simp add: unsigned_ucast_eq take_bit_nat_eq_self)
  with double show ?thesis by (simp add: blk_of_def)
qed

lemma quiet_took: "quiet p (took q i B s) = quiet p s"
  by (simp add: quiet_def took_def)

lemma cache_took:
  assumes c: "cache d p L P s" and i: "i < NBUF"
    and ok: "bufs_ok d (insert i L) P B (disk_img s)"
  shows "cache d p (insert i L) P ((took p i B s)\<lparr>vq := v\<rparr>) \<longleftrightarrow> idle v"
  using assms by (auto simp: cache_def took_def quiet_def)

context disk_env
begin

lemma wp_bread:
  assumes c: "cache d p L P s" and bn: "bn < 2 ^ 31"
    and unlocked: "\<And>i. i \<in> L \<Longrightarrow> b_blockno (bufs s i) \<noteq> bn" and room: "(\<exists>i<NBUF. i \<notin> L \<union> P) \<or> (\<exists>i. in_cache d bn (bufs s) i)"
    and Q: "\<And>b t. got d p L P bn s b t \<Longrightarrow> Q b t"
  shows "wp env (bread d bn) Q s"
proof -
  from c have q: "quiet p s" "idle (vq s)" and ok: "bufs_ok d L P (bufs s) (disk_img s)"
    and len: "\<And>k. length (disk_img s k) = BSIZE"
    and lk: "\<And>i. i < NBUF \<Longrightarrow> sl_locked (slocks s (SL_buf i)) = (i \<in> L)" and L: "L \<subseteq> {..<NBUF}"
    by (auto simp: cache_def)
  from q have p: "held s = {}" "cur s = Some p" by (auto simp: quiet_def)
  obtain xs where xs: "lru (bufs s) xs" using ok by (auto simp: bufs_ok_def)
  then have xs_set: "set xs = {..<NBUF}" by (simp add: lru_def)
  have hit: "\<not> sl_locked (slocks s (SL_buf i))"
    if "i \<in> set xs" "b_dev (bufs s i) = d" "b_blockno (bufs s i) = bn" for i
    using that unlocked lk xs_set by auto
  have unused: "\<not> sl_locked (slocks s (SL_buf i))" if "i \<in> set xs" "b_refcnt (bufs s i) = 0" for i
    using that lk xs_set refcnt_0_iff [OF ok] by auto
  note bget = wp_bget [OF xs p hit unused]
  show ?thesis
  proof (cases "find (\<lambda>i. b_dev (bufs s i) = d \<and> b_blockno (bufs s i) = bn) xs")
    case (Some i)
    then have i: "i < NBUF" "b_dev (bufs s i) = d" "b_blockno (bufs s i) = bn"
      using find_SomeD [OF Some] xs_set by auto
    then have "i \<notin> L" "b_valid (bufs s i)" using unlocked bufs_okD(4) [OF ok] by auto
    let ?B = "(bufs s)(i := (bufs s i)\<lparr>b_refcnt := b_refcnt (bufs s i) + 1\<rparr>)"
    have ok': "bufs_ok d (insert i L) P ?B (disk_img s)" by (rule bufs_ok_hit [OF ok i(1) \<open>i \<notin> L\<close> i(2)])
    have "look d (bufs s) (disk_img s) bn = b_data (bufs s i)"
      using i \<open>b_valid (bufs s i)\<close> by (intro look_cached [OF ok]) (simp add: in_cache_def)
    then have "got d p L P bn s i (took p i ?B s)"
      using cache_took [OF c i(1) ok', of "vq s"] q(2) i \<open>i \<notin> L\<close>
      by (auto simp: got_def view_def look_hit took_def storage_frame_def fun_eq_iff)
    then show ?thesis
      using Some \<open>b_valid (bufs s i)\<close> Q by (simp add: bread_def wp_simps bget took_def)
  next
    case None
    then have new: "\<not> (b_dev (bufs s j) = d \<and> b_blockno (bufs s j) = bn)" if "j < NBUF" for j
      using that xs_set by (auto simp: find_None_iff)
    obtain i where i: "find (\<lambda>i. b_refcnt (bufs s i) = 0) (rev xs) = Some i" "i < NBUF" "i \<notin> L \<union> P"
    proof -
      obtain j where "j < NBUF" "j \<notin> L \<union> P" using room new by (auto simp: in_cache_def)
      then have "find (\<lambda>i. b_refcnt (bufs s i) = 0) (rev xs) \<noteq> None"
        using refcnt_0_iff [OF ok] xs_set by (auto simp: find_None_iff)
      then obtain i where fi: "find (\<lambda>i. b_refcnt (bufs s i) = 0) (rev xs) = Some i" by blast
      then have "i < NBUF" "i \<notin> L \<union> P" using find_SomeD [OF fi] xs_set refcnt_0_iff [OF ok] by auto
      with fi show ?thesis using that by blast
    qed
    let ?B1 = "(bufs s)(i := (bufs s i)\<lparr>b_dev := d, b_blockno := bn, b_valid := False, b_refcnt := 1\<rparr>)"
    let ?B = "(bufs s)(i := (bufs s i)\<lparr>b_dev := d, b_blockno := bn, b_valid := True, b_refcnt := 1,
      b_data := disk_img s (unat bn)\<rparr>)"
    have ok': "bufs_ok d (insert i L) P ?B (disk_img s)"
      by (rule bufs_ok_miss [OF ok i(2,3) new bn len])
    have seen: "look d ?B (disk_img s) bn' = look d (bufs s) (disk_img s) bn'" for bn'
      by (rule look_miss [OF ok i(2,3) new bn len])
    have "look d (bufs s) (disk_img s) bn = disk_img s (unat bn)"
      using new by (intro look_uncached) (auto simp: in_cache_def)
    then have got: "got d p L P bn s i ((took p i ?B s)\<lparr>vq := v\<rparr>)" if "idle v" for v
      using cache_took [OF c i(2) ok', of v] that i(2,3)
      by (auto simp: got_def view_def seen took_def storage_frame_def fun_eq_iff)
    have "wp env (virtio_disk_rw i False) (\<lambda>_. wp env (upd_buf i (b_valid_update (\<lambda>_. True))) (\<lambda>_. Q i))
        (took p i ?B1 s)"
    proof (rule wp_rw)
      show "quiet p (took p i ?B1 s)" "idle (vq (took p i ?B1 s))" "\<not> b_disk (bufs (took p i ?B1 s) i)"
        using q bufs_okD(2) [OF ok i(2)] by (simp_all add: quiet_took) (simp_all add: took_def)
      fix v
      assume "idle v"
      then have "Q i ((took p i ?B s)\<lparr>vq := v\<rparr>)" by (intro Q got)
      moreover have k: "(bufs s i)\<lparr>b_dev := d, b_blockno := bn, b_refcnt := 1, b_data := x, b_valid := True\<rparr> =
          (bufs s i)\<lparr>b_dev := d, b_blockno := bn, b_valid := True, b_refcnt := 1, b_data := x\<rparr>" for x
        by simp
      define t where "t = (transfer False (blk_of (b_blockno (bufs (took p i ?B1 s) i))) i
        (took p i ?B1 s))\<lparr>vq := v\<rparr>"
      moreover have "t\<lparr>bufs := (bufs t)(i := (bufs t i)\<lparr>b_valid := True\<rparr>)\<rparr> = (took p i ?B s)\<lparr>vq := v\<rparr>"
        by (simp add: k t_def transfer_def transfer_bufs_def took_def blk_of_small [OF bn])
      ultimately show "wp env (upd_buf i (b_valid_update (\<lambda>_. True))) (\<lambda>_. Q i) t"
        by (simp add: wp_simps)
    qed
    then show ?thesis
      using None i(1) by (simp add: bread_def wp_simps bget took_def)
  qed
qed

lemma wp_bwrite:
  assumes c: "cache d p L P s" and b: "b \<in> L"
    and Q: "\<And>v. idle v \<Longrightarrow> Q () (s\<lparr>disk_img := (disk_img s)(unat (b_blockno (bufs s b)) := b_data (bufs s b)),
      disk_log := disk_log s @ [(unat (b_blockno (bufs s b)), b_data (bufs s b))], vq := v\<rparr>)"
  shows "wp env (bwrite b) Q s"
proof -
  from c b have q: "quiet p s" "idle (vq s)" and ok: "bufs_ok d L P (bufs s) (disk_img s)"
    and bN: "b < NBUF" and lk: "sl_locked (slocks s (SL_buf b))" "sl_pid (slocks s (SL_buf b)) = p_pid (procs s p)"
    by (auto simp: cache_def)
  note bk = bufs_okD [OF ok bN]
  have blk: "blk_of (b_blockno (bufs s b)) = unat (b_blockno (bufs s b))"
    using bk(3,5) b by (intro blk_of_small) auto
  have "wp env (virtio_disk_rw b True) Q s"
  proof (rule wp_rw [OF q bk(2)])
    fix v
    assume "idle v"
    then show "Q () ((transfer True (blk_of (b_blockno (bufs s b))) b s)\<lparr>vq := v\<rparr>)"
      using Q by (simp add: transfer_def transfer_bufs_def blk)
  qed
  then show ?thesis
    using q lk by (simp add: bwrite_def wp_simps wp_holdingsleep quiet_def)
qed

end

text \<open>Writing a locked buffer to its block keeps the invariant and the view.\<close>

lemma cache_written:
  fixes w :: "(nat \<times> u8 list) list"
  assumes c: "cache d p L P s" and b: "b \<in> L" and "idle v"
  defines "t \<equiv> s\<lparr>disk_img := (disk_img s)(unat (b_blockno (bufs s b)) := b_data (bufs s b)),
    disk_log := w, vq := v\<rparr>"
  shows "cache d p L P t" "view d t = view d s" "storage_frame s t"
proof -
  from c b have ok: "bufs_ok d L P (bufs s) (disk_img s)" and bN: "b < NBUF" by (auto simp: cache_def)
  let ?bn = "b_blockno (bufs s b)"
  have bb: "b_valid (bufs s b)" "b_dev (bufs s b) = d" using bufs_okD(3,4) [OF ok bN] b by auto
  have ok': "bufs_ok d L P (bufs s) ((disk_img s)(unat ?bn := b_data (bufs s b)))"
  proof -
    have "buf_ok d (i \<in> L) (i \<in> P) ((disk_img s)(unat ?bn := b_data (bufs s b))) (bufs s i)" if "i < NBUF" for i
      using ok that bufs_ok_unique [OF ok that bN] bb b
      by (auto simp: bufs_ok_def buf_ok_def unsigned_word_eqI dest: unsigned_word_eqI)
    then show ?thesis using ok by (simp add: bufs_ok_def)
  qed
  from ok' show "cache d p L P t"
    using c assms(3) bufs_okD(6) [OF ok bN bb(1)] by (auto simp: cache_def t_def quiet_def)
  have "view d t bn = view d s bn" for bn
  proof (cases "bn = ?bn")
    case True
    have "in_cache d ?bn (bufs s) b" using bb bN by (simp add: in_cache_def)
    from look_cached [OF ok this] look_cached [OF ok' this] True show ?thesis
      by (simp add: view_def t_def)
  next
    case False
    then have "unat bn \<noteq> unat ?bn" by (simp add: word_unat_eq_iff)
    then show ?thesis by (simp add: view_def t_def look_def split: option.split)
  qed
  then show "view d t = view d s" by blast
  show "storage_frame s t" by (simp add: t_def storage_frame_def)
qed

text \<open>A buffer without its links.\<close>

definition core :: "buf \<Rightarrow> buf" where
  "core k = k\<lparr>b_prev := 0, b_next := 0\<rparr>"

lemma core_upd [simp]: "core (k\<lparr>b_prev := n\<rparr>) = core k" "core (k\<lparr>b_next := n\<rparr>) = core k"
  by (simp_all add: core_def)

lemma core_sel:
  assumes "core k = core k'"
  shows "b_valid k = b_valid k'" "b_disk k = b_disk k'" "b_dev k = b_dev k'"
    "b_blockno k = b_blockno k'" "b_refcnt k = b_refcnt k'" "b_data k = b_data k'"
  using assms by (cases k; cases k'; simp add: core_def)+

lemma core_relink: "core (put_front b B x) = core (B x)" "core (unlink_buf b B x) = core (B x)"
  by (simp_all add: put_front_def unlink_buf_def Let_def)

lemma buf_ok_core: "core k = core k' \<Longrightarrow> buf_ok d l n D k = buf_ok d l n D k'"
  by (simp add: buf_ok_def core_sel [of k k'])

lemma look_core: "(\<And>i. core (B' i) = core (B i)) \<Longrightarrow> look d B' D bn = look d B D bn"
  by (rule look_cong) (simp_all add: in_cache_def core_sel [of "B' _" "B _"])

lemma bufs_ok_core:
  assumes ok: "bufs_ok d L P B D" and same: "\<And>i. core (B' i) = core (B i)" and "lru B' xs"
  shows "bufs_ok d L P B' D"
proof -
  have "buf_ok d (i \<in> L) (i \<in> P) D (B' i)" if "i < NBUF" for i
    using ok that buf_ok_core [OF same] by (simp add: bufs_ok_def)
  moreover have "i = j" if "i < NBUF" "j < NBUF" "b_dev (B' i) = d" "b_dev (B' j) = d"
      "b_blockno (B' i) = b_blockno (B' j)" for i j
    using that bufs_ok_unique [OF ok, of i j] core_sel(3,4) [OF same] by simp
  ultimately show ?thesis using assms(3) unfolding bufs_ok_def by blast
qed

lemma bufs_ok_unlock:
  assumes ok: "bufs_ok d L P B D" and b: "b \<in> L" "b < NBUF"
    and clean: "b \<in> P \<or> b_data (B b) = D (unat (b_blockno (B b)))"
  shows "bufs_ok d (L - {b}) P (B(b := (B b)\<lparr>b_refcnt := b_refcnt (B b) - 1\<rparr>)) D"
  using b clean bufs_okD [OF ok b(2)] bufs_ok_unique [OF ok _ b(2)]
  by (intro bufs_ok_upd [OF ok]) (auto simp: buf_ok_def)

lemma wp_brelse:
  fixes s :: "'x disk_state_scheme"
  assumes c: "cache d p L P s" and b: "b \<in> L"
    and clean: "b \<in> P \<or> b_data (bufs s b) = disk_img s (unat (b_blockno (bufs s b)))"
    and Q: "\<And>t. cache d p (L - {b}) P t \<Longrightarrow> view d t = view d s \<Longrightarrow> disk_img t = disk_img s \<Longrightarrow>
      disk_log t = disk_log s \<Longrightarrow> (\<And>i. b_blockno (bufs t i) = b_blockno (bufs s i)) \<Longrightarrow>
      storage_frame s t \<Longrightarrow> Q () t"
  shows "wp env (brelse b) Q s"
proof -
  from c b have q: "quiet p s" and ok: "bufs_ok d L P (bufs s) (disk_img s)"
    and bN: "b < NBUF" and lk: "sl_locked (slocks s (SL_buf b))" "sl_pid (slocks s (SL_buf b)) = p_pid (procs s p)"
    by (auto simp: cache_def)
  from q have p: "held s = {}" "cur s = Some p" "no_proc_lock s" by (auto simp: quiet_def no_proc_lock_def)
  have wake: "wake (Ch_sleeplock (SL_buf b)) (Some p) (procs s) = procs s"
    using q by (intro wake_quiet) (auto simp: quiet_def storage_chan_def)
  let ?S = "(slocks s)(SL_buf b := \<lparr>sl_locked = False, sl_pid = 0\<rparr>)"
  let ?B = "(bufs s)(b := (bufs s b)\<lparr>b_refcnt := b_refcnt (bufs s b) - 1\<rparr>)"
  define B1 where "B1 = ?B"
  have ok1: "bufs_ok d (L - {b}) P B1 (disk_img s)"
    unfolding B1_def by (rule bufs_ok_unlock [OF ok b bN clean])
  have post: "Q () (s\<lparr>slocks := ?S, bufs := B'\<rparr>)"
    if B': "bufs_ok d (L - {b}) P B' (disk_img s)" "\<And>i. core (B' i) = core (B1 i)" for B'
  proof (rule Q)
    let ?t = "s\<lparr>slocks := ?S, bufs := B'\<rparr>"
    show "cache d p (L - {b}) P ?t" using c B'(1) by (auto simp: cache_def quiet_def)
    have "look d B' (disk_img s) bn = look d (bufs s) (disk_img s) bn" for bn
      using look_core [of B' B1 d "disk_img s" bn, OF B'(2)] unfolding B1_def look_hit .
    then show "view d ?t = view d s" by (simp add: view_def fun_eq_iff)
    show "b_blockno (bufs ?t i) = b_blockno (bufs s i)" for i
      using core_sel(4) [OF B'(2)] by (simp add: B1_def)
  qed (simp_all add: storage_frame_def)
  have start: "wp env (brelse b) Q s =
      wp env (doM [ifM (\<lambda>s. b_refcnt (bufs s b) = 0) (relink b) skipM, release L_bcache]) Q
        (s\<lparr>slocks := ?S, held := {L_bcache}, bufs := B1\<rparr>)"
  proof -
    have noop: "s\<lparr>slocks := A, procs := procs s, held := H\<rparr> = s\<lparr>slocks := A, held := H\<rparr>" for A H by simp
    show ?thesis
      using p lk wake by (simp add: brelse_def wp_simps wp_holdingsleep wp_releasesleep noop B1_def)
  qed
  have noop: "s\<lparr>slocks := A, bufs := B, held := {}\<rparr> = s\<lparr>slocks := A, bufs := B\<rparr>" for A B
    using p(1) by simp
  show ?thesis
  proof (cases "b_refcnt (B1 b) = 0")
    case True
    obtain xs where "lru B1 xs" using ok1 by (auto simp: bufs_ok_def)
    from lru_to_front [OF this bN] have "bufs_ok d (L - {b}) P (put_front b (unlink_buf b B1)) (disk_img s)"
      by (intro bufs_ok_core [OF ok1]) (simp_all add: core_relink)
    then have "Q () (s\<lparr>slocks := ?S, bufs := put_front b (unlink_buf b B1)\<rparr>)"
      by (rule post) (simp only: core_relink)
    then show ?thesis
      unfolding start using True by (simp add: wp_simps noop)
  next
    case False
    then show ?thesis
      unfolding start using post [OF ok1] by (simp add: wp_simps noop)
  qed
qed

lemma wp_bpin:
  "wp env (bpin b) Q s \<longleftrightarrow> L_bcache \<notin> held s \<and>
     Q () (s\<lparr>bufs := (bufs s)(b := (bufs s b)\<lparr>b_refcnt := b_refcnt (bufs s b) + 1\<rparr>)\<rparr>)"
proof -
  have "s\<lparr>bufs := B, held := held s\<rparr> = s\<lparr>bufs := B\<rparr>" for B by simp
  then show ?thesis by (auto simp: bpin_def wp_simps)
qed

lemma wp_bunpin:
  "wp env (bunpin b) Q s \<longleftrightarrow> L_bcache \<notin> held s \<and>
     Q () (s\<lparr>bufs := (bufs s)(b := (bufs s b)\<lparr>b_refcnt := b_refcnt (bufs s b) - 1\<rparr>)\<rparr>)"
proof -
  have "s\<lparr>bufs := B, held := held s\<rparr> = s\<lparr>bufs := B\<rparr>" for B by simp
  then show ?thesis by (auto simp: bunpin_def wp_simps)
qed

lemma cache_upd:
  assumes "cache d p L P s" "bufs_ok d L P' B (disk_img s)" "P' \<subseteq> {..<NBUF}"
  shows "cache d p L P' (s\<lparr>bufs := B\<rparr>)"
  using assms by (auto simp: cache_def quiet_def)

lemma cache_pin:
  assumes c: "cache d p L P s" and b: "b \<in> L" "b \<notin> P"
  defines "t \<equiv> s\<lparr>bufs := (bufs s)(b := (bufs s b)\<lparr>b_refcnt := b_refcnt (bufs s b) + 1\<rparr>)\<rparr>"
  shows "cache d p L (insert b P) t" "view d t = view d s"
proof -
  from c b have ok: "bufs_ok d L P (bufs s) (disk_img s)" and bN: "b < NBUF" "P \<subseteq> {..<NBUF}"
    by (auto simp: cache_def)
  have "bufs_ok d L (insert b P) ((bufs s)(b := (bufs s b)\<lparr>b_refcnt := b_refcnt (bufs s b) + 1\<rparr>)) (disk_img s)"
    using b bufs_okD [OF ok bN(1)] bufs_ok_unique [OF ok _ bN(1)]
    by (intro bufs_ok_upd [OF ok]) (auto simp: buf_ok_def)
  then show "cache d p L (insert b P) t" unfolding t_def using bN by (intro cache_upd [OF c]) auto
  show "view d t = view d s" by (simp add: view_def t_def fun_eq_iff look_hit)
qed

lemma cache_unpin:
  assumes c: "cache d p L P s" and b: "b \<in> L" "b \<in> P"
  defines "t \<equiv> s\<lparr>bufs := (bufs s)(b := (bufs s b)\<lparr>b_refcnt := b_refcnt (bufs s b) - 1\<rparr>)\<rparr>"
  shows "cache d p L (P - {b}) t" "view d t = view d s"
proof -
  from c b have ok: "bufs_ok d L P (bufs s) (disk_img s)" and bN: "b < NBUF" "P \<subseteq> {..<NBUF}"
    by (auto simp: cache_def)
  have "bufs_ok d L (P - {b}) ((bufs s)(b := (bufs s b)\<lparr>b_refcnt := b_refcnt (bufs s b) - 1\<rparr>)) (disk_img s)"
    using b bufs_okD [OF ok bN(1)] bufs_ok_unique [OF ok _ bN(1)]
    by (intro bufs_ok_upd [OF ok]) (auto simp: buf_ok_def)
  then show "cache d p L (P - {b}) t" unfolding t_def using bN by (intro cache_upd [OF c]) auto
  show "view d t = view d s" by (simp add: view_def t_def fun_eq_iff look_hit)
qed

text \<open>A write to a locked buffer's data is a write to the block, as later readers will see it.\<close>

lemma cache_set_data:
  assumes c: "cache d p L P s" and b: "b \<in> L" and len: "length bs = BSIZE"
  defines "t \<equiv> s\<lparr>bufs := (bufs s)(b := (bufs s b)\<lparr>b_data := bs\<rparr>)\<rparr>"
  shows "cache d p L P t" "view d t = (view d s)(b_blockno (bufs s b) := bs)"
proof -
  from c b have ok: "bufs_ok d L P (bufs s) (disk_img s)" and bN: "b < NBUF" "P \<subseteq> {..<NBUF}"
    by (auto simp: cache_def)
  let ?B = "(bufs s)(b := (bufs s b)\<lparr>b_data := bs\<rparr>)"
  have ok': "bufs_ok d L P ?B (disk_img s)"
    using b len bufs_okD [OF ok bN(1)] bufs_ok_unique [OF ok _ bN(1)]
    by (intro bufs_ok_upd [OF ok]) (auto simp: buf_ok_def)
  then show "cache d p L P t" unfolding t_def using bN by (intro cache_upd [OF c]) auto
  have "look d ?B (disk_img s) bn = ((view d s)(b_blockno (bufs s b) := bs)) bn" for bn
  proof (cases "bn = b_blockno (bufs s b)")
    case True
    then show ?thesis using look_locked [OF ok', of b] b bN(1) by simp
  next
    case False
    have "look d ?B (disk_img s) bn = look d (bufs s) (disk_img s) bn"
      using False by (intro look_cong) (auto simp: in_cache_def)
    then show ?thesis using False by (simp add: view_def)
  qed
  then show "view d t = (view d s)(b_blockno (bufs s b) := bs)" by (simp add: view_def t_def fun_eq_iff)
qed

end
