(* ===== verification/Log.thy ===== *)
theory Log
  imports Bio "HOL-Library.Sublist"
begin

text \<open>
  The redo log, \<^verbatim>\<open>kernel/log.c\<close>: transactions of block writes, commit and recovery. The
  header block holds the count and the home block numbers of the logged blocks as little-endian
  32-bit words. The C \<open>int\<close> fields are integers, which the C code keeps far from overflow as long as
  the header on the disk is one it wrote; the block numbers, which \<open>bread\<close> takes as
  \<open>uint\<close>, are 32-bit words.
\<close>

section \<open>State and operations\<close>

record log_state = disk_state +
  log_start :: int
  log_size :: int
  log_outstanding :: int
  log_committing :: bool
  log_dev :: u32
  lh_n :: int
  lh_block :: "nat \<Rightarrow> u32"

definition set_data :: "nat \<Rightarrow> u8 list \<Rightarrow> ('x disk_state_scheme, unit) km" where
  "set_data b bs = upd_buf b (b_data_update (\<lambda>_. bs))"

definition data_of :: "nat \<Rightarrow> ('x disk_state_scheme, u8 list) km" where
  "data_of b = getM (\<lambda>s. b_data (bufs s b))"

text \<open>\<open>lh->n\<close> and \<open>lh->block[i]\<close> of the header in a block's data.\<close>

definition hdr_n :: "u8 list \<Rightarrow> int" where
  "hdr_n bs = sint (get32 bs 0)"

definition hdr_block :: "u8 list \<Rightarrow> nat \<Rightarrow> u32" where
  "hdr_block bs i = get32 bs (4 + 4 * i)"

definition read_head :: "('x log_state_scheme, unit) km" where
  "read_head =
     bindM (getM (\<lambda>s. (log_dev s, of_int (log_start s)))) (\<lambda>(dev, start).
     bindM (bread dev start) (\<lambda>b.
     bindM (data_of b) (\<lambda>lh.
     seqM (modM (\<lambda>s. s\<lparr>lh_n := hdr_n lh\<rparr>))
     (seqM (eachM [0..<nat (hdr_n lh)] (\<lambda>i.
        modM (\<lambda>s. s\<lparr>lh_block := (lh_block s)(i := hdr_block lh i)\<rparr>)))
     (brelse b)))))"

definition write_head :: "('x log_state_scheme, unit) km" where
  "write_head =
     bindM (getM (\<lambda>s. (log_dev s, of_int (log_start s)))) (\<lambda>(dev, start).
     bindM (bread dev start) (\<lambda>b.
     bindM (getM lh_n) (\<lambda>n.
     doM [
       bindM (data_of b) (\<lambda>hb. set_data b (put32 hb 0 (of_int n))),
       eachM [0..<nat n] (\<lambda>i. bindM (getM (\<lambda>s. lh_block s i)) (\<lambda>bn.
         bindM (data_of b) (\<lambda>hb. set_data b (put32 hb (4 + 4 * i) bn)))),
       bwrite b,
       brelse b])))"

definition install_one :: "bool \<Rightarrow> nat \<Rightarrow> ('x log_state_scheme, unit) km" where
  "install_one recovering tail =
     bindM (getM (\<lambda>s. (log_dev s, of_int (log_start s + int tail + 1), lh_block s tail)))
       (\<lambda>(dev, lb, db).
     bindM (bread dev lb) (\<lambda>lbuf.
     bindM (bread dev db) (\<lambda>dbuf.
     doM [
       bindM (data_of lbuf) (set_data dbuf),
       bwrite dbuf,
       whenM (\<not> recovering) (bunpin dbuf),
       brelse lbuf,
       brelse dbuf])))"

definition install_trans :: "bool \<Rightarrow> ('x log_state_scheme, unit) km" where
  "install_trans recovering = bindM (getM lh_n) (\<lambda>n. eachM [0..<nat n] (install_one recovering))"

definition recover_from_log :: "('x log_state_scheme, unit) km" where
  "recover_from_log = doM [
     read_head,
     install_trans True,
     modM (\<lambda>s. s\<lparr>lh_n := 0\<rparr>),
     write_head]"

text \<open>The superblock's \<open>logstart\<close> and \<open>nlog\<close>; the header is 124 bytes, less than a block.\<close>

definition initlog :: "u32 \<Rightarrow> u32 \<Rightarrow> u32 \<Rightarrow> ('x log_state_scheme, unit) km" where
  "initlog dev logstart nlog = doM [
     modM (\<lambda>s. s\<lparr>log_start := sint logstart\<rparr>),
     modM (\<lambda>s. s\<lparr>log_size := sint nlog\<rparr>),
     modM (\<lambda>s. s\<lparr>log_dev := dev\<rparr>),
     recover_from_log]"

definition begin_op_body :: "unit \<Rightarrow> ('x log_state_scheme, unit + unit) km" where
  "begin_op_body _ =
     ifM log_committing
       (seqM (sleep Ch_log L_log) (retM (Inl ())))
       (ifM (\<lambda>s. lh_n s + (log_outstanding s + 1) * int MAXOPBLOCKS > int LOGSIZE)
         (seqM (sleep Ch_log L_log) (retM (Inl ())))
         (seqM (modM (\<lambda>s. s\<lparr>log_outstanding := log_outstanding s + 1\<rparr>))
         (seqM (release L_log)
         (retM (Inr ())))))"

definition begin_op :: "('x log_state_scheme, unit) km" where
  "begin_op = seqM (acquire L_log) (loopM begin_op_body ())"

definition write_log_one :: "nat \<Rightarrow> ('x log_state_scheme, unit) km" where
  "write_log_one tail =
     bindM (getM (\<lambda>s. (log_dev s, of_int (log_start s + int tail + 1), lh_block s tail)))
       (\<lambda>(dev, lb, cb).
     bindM (bread dev lb) (\<lambda>to.
     bindM (bread dev cb) (\<lambda>from_b.
     doM [
       bindM (data_of from_b) (set_data to),
       bwrite to,
       brelse from_b,
       brelse to])))"

definition write_log :: "('x log_state_scheme, unit) km" where
  "write_log = bindM (getM lh_n) (\<lambda>n. eachM [0..<nat n] write_log_one)"

definition commit :: "('x log_state_scheme, unit) km" where
  "commit = ifM (\<lambda>s. lh_n s > 0)
     (doM [
       write_log,
       write_head,
       install_trans False,
       modM (\<lambda>s. s\<lparr>lh_n := 0\<rparr>),
       write_head])
     skipM"

definition end_op :: "('x log_state_scheme, unit) km" where
  "end_op =
     seqM (acquire L_log)
     (seqM (modM (\<lambda>s. s\<lparr>log_outstanding := log_outstanding s - 1\<rparr>))
     (seqM (panic_ifM log_committing ''log.committing'')
     (bindM (ifM (\<lambda>s. log_outstanding s = 0)
              (seqM (modM (\<lambda>s. s\<lparr>log_committing := True\<rparr>)) (retM True))
              (seqM (wakeup Ch_log) (retM False))) (\<lambda>do_commit.
      seqM (release L_log)
     (whenM do_commit (doM [
        commit,
        acquire L_log,
        modM (\<lambda>s. s\<lparr>log_committing := False\<rparr>),
        wakeup Ch_log,
        release L_log]))))))"

text \<open>\<open>log_slot\<close> is the index at which the absorption loop of \<open>log_write\<close> stops.\<close>

definition log_slot :: "'x log_state_scheme \<Rightarrow> u32 \<Rightarrow> nat" where
  "log_slot s bn = (case find (\<lambda>i. lh_block s i = bn) [0..<nat (lh_n s)] of
     Some i \<Rightarrow> i | None \<Rightarrow> nat (lh_n s))"

definition log_write :: "nat \<Rightarrow> ('x log_state_scheme, unit) km" where
  "log_write b =
     seqM (acquire L_log)
     (seqM (panic_ifM (\<lambda>s. lh_n s \<ge> int LOGSIZE \<or> lh_n s \<ge> log_size s - 1) ''too big a transaction'')
     (seqM (panic_ifM (\<lambda>s. log_outstanding s < 1) ''log_write outside of trans'')
     (bindM (getM (\<lambda>s. log_slot s (b_blockno (bufs s b)))) (\<lambda>i.
      seqM (modM (\<lambda>s. s\<lparr>lh_block := (lh_block s)(i := b_blockno (bufs s b))\<rparr>))
     (seqM (ifM (\<lambda>s. int i = lh_n s)
        (seqM (bpin b) (modM (\<lambda>s. s\<lparr>lh_n := lh_n s + 1\<rparr>)))
        skipM)
     (release L_log))))))"

section \<open>Reading and writing blocks\<close>

text \<open>The effect of a sequence of block writes.\<close>

definition upds :: "('k \<Rightarrow> 'v) \<Rightarrow> ('k \<times> 'v) list \<Rightarrow> 'k \<Rightarrow> 'v" where
  "upds f ws = fold (\<lambda>(k, v) g. g(k := v)) ws f"

lemma upds_simps [simp]:
  "upds f [] = f" "upds f ((k, v) # ws) = upds (f(k := v)) ws" "upds f (ws @ vs) = upds (upds f ws) vs"
  by (simp_all add: upds_def)

lemma upds_other: "k \<notin> fst ` set ws \<Longrightarrow> upds f ws k = f k"
  by (induction ws arbitrary: f) auto

text \<open>
  \<open>wrote d p P ws s t\<close>: the blocks \<open>ws\<close> were written through to the disk, in that order, and no
  buffer is left locked; \<open>P\<close> are the buffers still pinned.
\<close>

definition wrote :: "u32 \<Rightarrow> nat \<Rightarrow> nat set \<Rightarrow> (u32 \<times> u8 list) list \<Rightarrow> 'x disk_state_scheme \<Rightarrow>
    'x disk_state_scheme \<Rightarrow> bool" where
  "wrote d p P ws s t \<longleftrightarrow> cache d p {} P t \<and> view d t = upds (view d s) ws \<and>
     disk_img t = upds (disk_img s) (map (apfst unat) ws) \<and> disk_log t = disk_log s @ map (apfst unat) ws \<and>
     (\<forall>i\<in>P. b_blockno (bufs t i) = b_blockno (bufs s i)) \<and> storage_frame s t"

lemma wrote_Nil: "cache d p {} P s \<Longrightarrow> wrote d p P [] s s"
  by (simp add: wrote_def)

lemma wrote_append:
  "wrote d p P ws s t \<Longrightarrow> wrote d p P' vs t u \<Longrightarrow> P' \<subseteq> P \<Longrightarrow> wrote d p P' (ws @ vs) s u"
  using storage_frame_trans by (fastforce simp: wrote_def)

lemma wp_set_data [wp_simps]:
  "wp env (set_data b bs) Q s = Q () (s\<lparr>bufs := (bufs s)(b := (bufs s b)\<lparr>b_data := bs\<rparr>)\<rparr>)"
  by (simp add: set_data_def wp_simps)

lemma wp_data_of [wp_simps]: "wp env (data_of b) Q s = Q (b_data (bufs s b)) s"
  by (simp add: data_of_def wp_simps)

lemma cache_data:
  assumes "cache d p L P s" "b \<in> L"
  shows "view d s (b_blockno (bufs s b)) = b_data (bufs s b)" "length (b_data (bufs s b)) = BSIZE"
    "b < NBUF" "b_blockno (bufs s b) < 2 ^ 31" "b_valid (bufs s b)" "b_dev (bufs s b) = d"
proof -
  from assms have ok: "bufs_ok d L P (bufs s) (disk_img s)" and b: "b < NBUF" by (auto simp: cache_def)
  show "b < NBUF" by (rule b)
  note k = bufs_okD [OF ok b]
  show "b_valid (bufs s b)" using k(3) assms(2) by blast
  with k show "length (b_data (bufs s b)) = BSIZE" "b_blockno (bufs s b) < 2 ^ 31" "b_dev (bufs s b) = d"
    by blast+
  show "view d s (b_blockno (bufs s b)) = b_data (bufs s b)"
    using look_locked [OF ok] assms(2) b by (auto simp: view_def)
qed

lemma cache_same_buf:
  assumes "cache d p L P s" "i \<in> L \<union> P" "j \<in> L \<union> P" "b_blockno (bufs s i) = b_blockno (bufs s j)"
  shows "i = j"
proof -
  from assms have ok: "bufs_ok d L P (bufs s) (disk_img s)" and b: "i < NBUF" "j < NBUF"
    by (auto simp: cache_def)
  show ?thesis
    using bufs_okD(3,4) [OF ok b(1)] bufs_okD(3,4) [OF ok b(2)] assms(2-4)
    by (intro bufs_ok_unique [OF ok b]) auto
qed

lemma view_disk:
  assumes c: "cache d p L P s" and no: "\<And>i. i \<in> L \<union> P \<Longrightarrow> b_blockno (bufs s i) \<noteq> bn"
  shows "view d s bn = disk_img s (unat bn)"
proof (cases "\<exists>i. in_cache d bn (bufs s) i")
  case True
  then obtain i where i: "in_cache d bn (bufs s) i" by blast
  have ok: "bufs_ok d L P (bufs s) (disk_img s)" using c by (simp add: cache_def)
  have "i < NBUF" "b_valid (bufs s i)" "b_blockno (bufs s i) = bn" "i \<notin> L \<union> P"
    using i no by (auto simp: in_cache_def)
  then show ?thesis using look_cached [OF ok i] bufs_okD(7) [OF ok, of i] by (simp add: view_def)
qed (simp add: view_def look_uncached)

lemma unused_buf:
  assumes "card P < NBUF" "P \<subseteq> {..<NBUF}"
  shows "\<exists>i<NBUF. i \<notin> P"
proof (rule ccontr)
  assume "\<not> ?thesis"
  then have "{..<NBUF} \<subseteq> P" by auto
  from card_mono [OF _ this] assms show False using finite_subset by auto
qed

context disk_env
begin

lemma wp_bread2:
  assumes c: "cache d p {} P s" and bn: "a < 2 ^ 31" "h < 2 ^ 31" "a \<noteq> h" and P: "card P < NBUF"
    and room: "card P + 1 < NBUF \<or> (\<exists>i\<in>P. b_blockno (bufs s i) = h)"
    and Q: "\<And>x y t. cache d p {x, y} P t \<Longrightarrow> x \<noteq> y \<Longrightarrow> b_blockno (bufs t x) = a \<Longrightarrow>
      b_blockno (bufs t y) = h \<Longrightarrow> view d t = view d s \<Longrightarrow> disk_img t = disk_img s \<Longrightarrow>
      disk_log t = disk_log s \<Longrightarrow> (\<And>i. i \<in> P \<Longrightarrow> b_blockno (bufs t i) = b_blockno (bufs s i)) \<Longrightarrow>
      storage_frame s t \<Longrightarrow> wp env (k x y) Q t"
  shows "wp env (bindM (bread d a) (\<lambda>x. bindM (bread d h) (k x))) Q s"
  unfolding wp_bind
proof (rule wp_bread [OF c bn(1)])
  have PN: "P \<subseteq> {..<NBUF}" using c by (simp add: cache_def)
  have fin: "finite P" using PN finite_subset by blast
  show "(\<exists>i<NBUF. i \<notin> {} \<union> P) \<or> (\<exists>i. in_cache d a (bufs s) i)" using unused_buf [OF P PN] by simp
  fix x t1
  assume g1: "got d p {} P a s x t1"
  then have c1: "cache d p {x} P t1" and x: "x < NBUF" "b_blockno (bufs t1 x) = a"
    and t1: "view d t1 = view d s" "disk_img t1 = disk_img s" "disk_log t1 = disk_log s" "storage_frame s t1"
    and P1: "\<And>i. i \<in> P \<Longrightarrow> b_blockno (bufs t1 i) = b_blockno (bufs s i)"
    by (auto simp: got_def)
  show "wp env (bread d h) (\<lambda>y. wp env (k x y) Q) t1"
  proof (rule wp_bread [OF c1 bn(2)])
    show "b_blockno (bufs t1 i) \<noteq> h" if "i \<in> {x}" for i using that x bn(3) by simp
    show "(\<exists>i<NBUF. i \<notin> {x} \<union> P) \<or> (\<exists>i. in_cache d h (bufs t1) i)"
    proof (cases "\<exists>i\<in>P. b_blockno (bufs s i) = h")
      case True
      then obtain i where i: "i \<in> P" "b_blockno (bufs t1 i) = h" using P1 by auto
      from c1 i have ok: "bufs_ok d {x} P (bufs t1) (disk_img t1)" and iN: "i < NBUF" by (auto simp: cache_def)
      show ?thesis
        using bufs_okD(3,4) [OF ok iN] i iN by (auto simp: in_cache_def)
    next
      case False
      then have "card P + 1 < NBUF" using room by blast
      then have "card (insert x P) < NBUF" using fin by (simp add: card_insert_if)
      then show ?thesis using unused_buf [of "insert x P"] x(1) PN by auto
    qed
    fix y t2
    assume g2: "got d p {x} P h t1 y t2"
    then have "cache d p {x, y} P t2" "x \<noteq> y" "b_blockno (bufs t2 y) = h" "storage_frame t1 t2"
      "view d t2 = view d s" "disk_img t2 = disk_img s" "disk_log t2 = disk_log s"
      "b_blockno (bufs t2 x) = a" "\<And>i. i \<in> P \<Longrightarrow> b_blockno (bufs t2 i) = b_blockno (bufs s i)"
      using t1 x P1 by (auto simp: got_def insert_commute)
    with t1(4) show "wp env (k x y) Q t2" by (intro Q) (auto intro: storage_frame_trans)
  qed
qed auto

text \<open>Releasing the two buffers of a copy.\<close>

lemma wp_brelse2:
  assumes c: "cache d p {x, y} P s" and xy: "x \<noteq> y"
    and clean: "\<And>b. b \<in> {x, y} \<Longrightarrow> b \<in> P \<or> view d s (b_blockno (bufs s b)) = disk_img s (unat (b_blockno (bufs s b)))"
    and Q: "\<And>t. cache d p {} P t \<Longrightarrow> view d t = view d s \<Longrightarrow> disk_img t = disk_img s \<Longrightarrow>
      disk_log t = disk_log s \<Longrightarrow> (\<And>i. b_blockno (bufs t i) = b_blockno (bufs s i)) \<Longrightarrow>
      storage_frame s t \<Longrightarrow> Q () t"
  shows "wp env (brelse y) (\<lambda>_. wp env (brelse x) Q) s"
proof (rule wp_brelse [OF c])
  show "y \<in> P \<or> b_data (bufs s y) = disk_img s (unat (b_blockno (bufs s y)))"
    using cache_data(1) [OF c, of y] clean [of y] by auto
  fix t
  assume t: "cache d p ({x, y} - {y}) P t" "view d t = view d s" "disk_img t = disk_img s"
    "disk_log t = disk_log s" "\<And>i. b_blockno (bufs t i) = b_blockno (bufs s i)" "storage_frame s t"
  have c1: "cache d p {x} P t" using t(1) xy by (simp add: insert_Diff_if)
  show "wp env (brelse x) Q t"
  proof (rule wp_brelse [OF c1])
    show "x \<in> P \<or> b_data (bufs t x) = disk_img t (unat (b_blockno (bufs t x)))"
      using cache_data(1) [OF c1, of x] clean [of x] t by auto
  qed (use t in \<open>auto intro!: Q intro: storage_frame_trans\<close>)
qed auto

text \<open>Writing new data of a locked buffer through to the disk.\<close>

lemma wp_write_through:
  assumes c: "cache d p L P t" and x: "x \<in> L" and len: "length bs = BSIZE"
    and R: "\<And>u. cache d p L P u \<Longrightarrow> view d u = (view d t)(b_blockno (bufs t x) := bs) \<Longrightarrow>
      disk_img u = (disk_img t)(unat (b_blockno (bufs t x)) := bs) \<Longrightarrow>
      disk_log u = disk_log t @ [(unat (b_blockno (bufs t x)), bs)] \<Longrightarrow>
      (\<And>i. b_blockno (bufs u i) = b_blockno (bufs t i)) \<Longrightarrow> storage_frame t u \<Longrightarrow> R u"
  shows "wp env (bwrite x) (\<lambda>_. R) (t\<lparr>bufs := (bufs t)(x := (bufs t x)\<lparr>b_data := bs\<rparr>)\<rparr>)"
proof -
  define t1 where "t1 = t\<lparr>bufs := (bufs t)(x := (bufs t x)\<lparr>b_data := bs\<rparr>)\<rparr>"
  note c1 = cache_set_data [OF c x len, folded t1_def]
  have x1: "b_blockno (bufs t1 x) = b_blockno (bufs t x)" "b_data (bufs t1 x) = bs" by (simp_all add: t1_def)
  have "wp env (bwrite x) (\<lambda>_. R) t1"
  proof (rule wp_bwrite [OF c1(1) x])
    fix v
    assume v: "idle v"
    note w = cache_written [OF c1(1) x v, of "disk_log t1 @ [(unat (b_blockno (bufs t1 x)), b_data (bufs t1 x))]"]
    have "storage_frame t t1" by (simp add: t1_def storage_frame_def)
    from storage_frame_trans [OF this w(3)] w(1,2)
    show "R (t1\<lparr>disk_img := (disk_img t1)(unat (b_blockno (bufs t1 x)) := b_data (bufs t1 x)),
        disk_log := disk_log t1 @ [(unat (b_blockno (bufs t1 x)), b_data (bufs t1 x))], vq := v\<rparr>)"
      by (intro R) (simp_all add: x1 c1(2), simp_all add: t1_def)
  qed
  then show ?thesis by (simp add: t1_def)
qed

lemma wp_copy_write:
  assumes c: "cache d p L P t" and x: "x \<in> L" and y: "y \<in> L"
    and R: "\<And>u. cache d p L P u \<Longrightarrow> view d u = (view d t)(b_blockno (bufs t x) := b_data (bufs t y)) \<Longrightarrow>
      disk_img u = (disk_img t)(unat (b_blockno (bufs t x)) := b_data (bufs t y)) \<Longrightarrow>
      disk_log u = disk_log t @ [(unat (b_blockno (bufs t x)), b_data (bufs t y))] \<Longrightarrow>
      (\<And>i. b_blockno (bufs u i) = b_blockno (bufs t i)) \<Longrightarrow> storage_frame t u \<Longrightarrow> R u"
  shows "wp env (bindM (data_of y) (set_data x)) (\<lambda>_. wp env (bwrite x) (\<lambda>_. R)) t"
  using wp_write_through [OF c x cache_data(2) [OF c y] R] by (simp add: wp_simps)

end

section \<open>The log's blocks\<close>

definition hdr_bn :: "'x log_state_scheme \<Rightarrow> u32" where
  "hdr_bn s = of_int (log_start s)"

definition log_bn :: "'x log_state_scheme \<Rightarrow> nat \<Rightarrow> u32" where
  "log_bn s i = of_int (log_start s + int i + 1)"

definition log_geom :: "u32 \<Rightarrow> 'x log_state_scheme \<Rightarrow> bool" where
  "log_geom d s \<longleftrightarrow> log_dev s = d \<and> 0 \<le> log_start s \<and> log_start s + int LOGSIZE < 2 ^ 31"

text \<open>A block that is not part of the log: its header and \<open>LOGSIZE - 1\<close> data blocks.\<close>

definition outside :: "'x log_state_scheme \<Rightarrow> u32 \<Rightarrow> bool" where
  "outside s bn \<longleftrightarrow> bn < 2 ^ 31 \<and> bn \<noteq> hdr_bn s \<and> (\<forall>i < LOGSIZE - 1. bn \<noteq> log_bn s i)"

text \<open>
  The transaction in memory: at most \<open>LOGSIZE - 1\<close> distinct home blocks; while it is open, their
  buffers are exactly the pinned ones.
\<close>

definition homes :: "u32 \<Rightarrow> 'x log_state_scheme \<Rightarrow> bool" where
  "homes d s \<longleftrightarrow> log_geom d s \<and> 0 \<le> lh_n s \<and> lh_n s \<le> int LOGSIZE - 1 \<and>
     (\<forall>i < nat (lh_n s). outside s (lh_block s i)) \<and> inj_on (lh_block s) {..<nat (lh_n s)}"

definition txn :: "u32 \<Rightarrow> nat set \<Rightarrow> 'x log_state_scheme \<Rightarrow> bool" where
  "txn d P s \<longleftrightarrow> homes d s \<and> (\<lambda>b. b_blockno (bufs s b)) ` P = lh_block s ` {..<nat (lh_n s)}"

lemma frame_log:
  assumes "storage_frame s t"
  shows "log_start t = log_start s" "log_size t = log_size s" "log_dev t = log_dev s"
    "lh_n t = lh_n s" "lh_block t = lh_block s" "log_outstanding t = log_outstanding s"
    "log_committing t = log_committing s" "hdr_bn t = hdr_bn s" "log_bn t = log_bn s"
proof -
  have eq: "t = s\<lparr>slocks := slocks t, bufs := bufs t, vq := vq t, disk_img := disk_img t, disk_log := disk_log t\<rparr>"
    using assms unfolding storage_frame_def by blast
  show "log_start t = log_start s" "log_size t = log_size s" "log_dev t = log_dev s"
    "lh_n t = lh_n s" "lh_block t = lh_block s" "log_outstanding t = log_outstanding s"
    "log_committing t = log_committing s"
    by (subst eq, simp)+
  then show "hdr_bn t = hdr_bn s" "log_bn t = log_bn s" by (simp_all add: hdr_bn_def log_bn_def fun_eq_iff)
qed

lemma unat_of_int_u32: "0 \<le> k \<Longrightarrow> k < 2 ^ 32 \<Longrightarrow> unat (of_int k :: u32) = nat k"
  by (simp add: unat_eq_nat_uint uint_word_of_int take_bit_int_eq_self)

lemma log_blocks:
  assumes "log_geom d s"
  shows "unat (hdr_bn s) = nat (log_start s)" "hdr_bn s < 2 ^ 31"
    "i < LOGSIZE \<Longrightarrow> unat (log_bn s i) = nat (log_start s) + i + 1" "i < LOGSIZE \<Longrightarrow> log_bn s i < 2 ^ 31"
    "i < LOGSIZE \<Longrightarrow> log_bn s i \<noteq> hdr_bn s"
    "i < LOGSIZE \<Longrightarrow> j < LOGSIZE \<Longrightarrow> log_bn s i = log_bn s j \<longleftrightarrow> i = j"
proof -
  show h: "unat (hdr_bn s) = nat (log_start s)"
    using assms by (auto simp: log_geom_def hdr_bn_def unat_of_int_u32)
  show l: "i < LOGSIZE \<Longrightarrow> unat (log_bn s i) = nat (log_start s) + i + 1" for i
    unfolding log_bn_def
    by (subst unat_of_int_u32) (use assms in \<open>auto simp: log_geom_def\<close>)
  have st: "nat (log_start s) + LOGSIZE < 2 ^ 31"
    using assms by (auto simp: log_geom_def nat_less_iff)
  show "hdr_bn s < 2 ^ 31" unfolding word_less_nat_alt h using st by simp
  show "log_bn s i < 2 ^ 31" if "i < LOGSIZE" for i
    unfolding word_less_nat_alt l [OF that] using st that by simp
  show "log_bn s i \<noteq> hdr_bn s" if "i < LOGSIZE"
    using h l [OF that] by (metis add_is_0 add_left_cancel group_cancel.rule0 add.assoc one_neq_zero)
  show "log_bn s i = log_bn s j \<longleftrightarrow> i = j" if "i < LOGSIZE" "j < LOGSIZE"
    using l [OF that(1)] l [OF that(2)] by (metis add_left_imp_eq add_right_imp_eq)
qed

lemma txn_frame:
  assumes "txn d P s" "storage_frame s t" "\<And>i. i \<in> P \<Longrightarrow> b_blockno (bufs t i) = b_blockno (bufs s i)"
  shows "txn d P t"
  using assms(1,3) by (simp add: txn_def homes_def log_geom_def outside_def frame_log [OF assms(2)] cong: image_cong)

lemma txn_card:
  assumes "txn d P s" "cache d p L P s"
  shows "card P = nat (lh_n s)" "card P < NBUF"
proof -
  have "inj_on (\<lambda>b. b_blockno (bufs s b)) P"
    using cache_same_buf [OF assms(2)] by (auto intro!: inj_onI)
  from card_image [OF this] assms(1) have "card P = card (lh_block s ` {..<nat (lh_n s)})"
    by (simp add: txn_def homes_def)
  also have "\<dots> = nat (lh_n s)" using assms(1) by (simp add: txn_def homes_def card_image)
  finally show "card P = nat (lh_n s)" .
  then show "card P < NBUF" using assms(1) by (auto simp: txn_def homes_def nat_less_iff)
qed

lemma txn_home:
  assumes "txn d P s" "i < nat (lh_n s)"
  obtains b where "b \<in> P" "b_blockno (bufs s b) = lh_block s i"
proof -
  have "lh_block s i \<in> (\<lambda>b. b_blockno (bufs s b)) ` P" using assms by (auto simp: txn_def homes_def)
  then show ?thesis using that by auto
qed

lemma txn_outside:
  assumes "txn d P s" "b \<in> P"
  shows "outside s (b_blockno (bufs s b))"
proof -
  have "b_blockno (bufs s b) \<in> lh_block s ` {..<nat (lh_n s)}" using assms by (auto simp: txn_def)
  then show ?thesis using assms(1) by (auto simp: txn_def homes_def)
qed

text \<open>The header block that \<open>write_head\<close> makes of the old one.\<close>

fun put_blocks :: "(nat \<Rightarrow> u32) \<Rightarrow> nat \<Rightarrow> u8 list \<Rightarrow> u8 list" where
  "put_blocks f 0 hb = hb"
| "put_blocks f (Suc i) hb = put32 (put_blocks f i hb) (4 + 4 * i) (f i)"

definition mk_hdr :: "int \<Rightarrow> (nat \<Rightarrow> u32) \<Rightarrow> u8 list \<Rightarrow> u8 list" where
  "mk_hdr n f hb = put_blocks f (nat n) (put32 hb 0 (of_int n))"

lemma put_blocks:
  assumes "4 + 4 * n \<le> length hb"
  shows "length (put_blocks f n hb) = length hb" "get32 (put_blocks f n hb) 0 = get32 hb 0"
    "i < n \<Longrightarrow> get32 (put_blocks f n hb) (4 + 4 * i) = f i"
  using assms by (induction n arbitrary: i) (auto simp: mem_simps less_Suc_eq)

lemma mk_hdr:
  assumes "length hb = BSIZE" "0 \<le> n" "n \<le> int LOGSIZE"
  shows "length (mk_hdr n f hb) = BSIZE" "hdr_n (mk_hdr n f hb) = n"
    "i < nat n \<Longrightarrow> hdr_block (mk_hdr n f hb) i = f i"
proof -
  let ?hb = "put32 hb 0 (of_int n)"
  have l: "length ?hb = BSIZE" "4 + 4 * nat n \<le> length ?hb" using assms by simp_all
  note p = put_blocks [OF l(2), where f = f]
  show "length (mk_hdr n f hb) = BSIZE" using p(1) l by (simp add: mk_hdr_def)
  have "sint (of_int n :: u32) = n" using assms by (simp add: sint_sbintrunc' signed_take_bit_int_eq_self)
  then show "hdr_n (mk_hdr n f hb) = n"
    using p(2) assms by (simp add: mk_hdr_def hdr_n_def mem_simps)
  show "i < nat n \<Longrightarrow> hdr_block (mk_hdr n f hb) i = f i"
    using p(3) [of i] by (simp add: mk_hdr_def hdr_block_def)
qed

definition log_writes :: "u32 \<Rightarrow> nat \<Rightarrow> 'x log_state_scheme \<Rightarrow> (u32 \<times> u8 list) list" where
  "log_writes d n s = map (\<lambda>i. (log_bn s i, view d s (lh_block s i))) [0..<n]"

definition home_writes :: "u32 \<Rightarrow> nat \<Rightarrow> 'x log_state_scheme \<Rightarrow> (u32 \<times> u8 list) list" where
  "home_writes d n s = map (\<lambda>i. (lh_block s i, view d s (log_bn s i))) [0..<n]"

text \<open>What \<open>commit\<close> writes, in order: the log, the header, the home blocks, the empty header.\<close>

definition commit_writes :: "u32 \<Rightarrow> 'x log_state_scheme \<Rightarrow> (u32 \<times> u8 list) list" where
  "commit_writes d s =
     (let n = nat (lh_n s); h = mk_hdr (lh_n s) (lh_block s) (view d s (hdr_bn s)) in
      log_writes d n s @ [(hdr_bn s, h)] @
      map (\<lambda>i. (lh_block s i, view d s (lh_block s i))) [0..<n] @ [(hdr_bn s, mk_hdr 0 (lh_block s) h)])"

text \<open>A header that names at most \<open>LOGSIZE - 1\<close> distinct blocks outside the log, and what recovery writes.\<close>

definition hdr_ok :: "'x log_state_scheme \<Rightarrow> u8 list \<Rightarrow> bool" where
  "hdr_ok s hb \<longleftrightarrow> 0 \<le> hdr_n hb \<and> hdr_n hb \<le> int LOGSIZE - 1 \<and>
     (\<forall>i < nat (hdr_n hb). outside s (hdr_block hb i)) \<and> inj_on (hdr_block hb) {..<nat (hdr_n hb)}"

definition recover_writes :: "u32 \<Rightarrow> 'x log_state_scheme \<Rightarrow> (u32 \<times> u8 list) list" where
  "recover_writes d s = (let hb = view d s (hdr_bn s) in
     map (\<lambda>i. (hdr_block hb i, view d s (log_bn s i))) [0..<nat (hdr_n hb)] @ [(hdr_bn s, put32 hb 0 0)])"

lemma mk_hdr_0 [simp]: "mk_hdr 0 f hb = put32 hb 0 0"
  by (simp add: mk_hdr_def)

text \<open>The in-memory block numbers after \<open>read_head\<close>.\<close>

fun head_blocks :: "u8 list \<Rightarrow> nat \<Rightarrow> (nat \<Rightarrow> u32) \<Rightarrow> nat \<Rightarrow> u32" where
  "head_blocks hb 0 f = f"
| "head_blocks hb (Suc n) f = (head_blocks hb n f)(n := hdr_block hb n)"

lemma head_blocks: "i < n \<Longrightarrow> head_blocks hb n f i = hdr_block hb i"
  by (induction n) auto

lemma lh_simps [simp]:
  "view d (s\<lparr>lh_n := k\<rparr>) = view d s" "cache d p L P (s\<lparr>lh_n := k\<rparr>) = cache d p L P s"
  "hdr_bn (s\<lparr>lh_n := k\<rparr>) = hdr_bn s" "log_bn (s\<lparr>lh_n := k\<rparr>) = log_bn s"
  "log_geom d (s\<lparr>lh_n := k\<rparr>) = log_geom d s" "outside (s\<lparr>lh_n := k\<rparr>) = outside s"
  "view d (s\<lparr>lh_block := f\<rparr>) = view d s" "cache d p L P (s\<lparr>lh_block := f\<rparr>) = cache d p L P s"
  "hdr_bn (s\<lparr>lh_block := f\<rparr>) = hdr_bn s" "log_bn (s\<lparr>lh_block := f\<rparr>) = log_bn s"
  "log_geom d (s\<lparr>lh_block := f\<rparr>) = log_geom d s" "outside (s\<lparr>lh_block := f\<rparr>) = outside s"
  by (simp_all add: view_def cache_def quiet_def hdr_bn_def log_bn_def log_geom_def outside_def fun_eq_iff)

lemma frame_lh_n:
  assumes "storage_frame s t"
  shows "storage_frame (s\<lparr>lh_n := k\<rparr>) (t\<lparr>lh_n := k\<rparr>)"
proof -
  have "t\<lparr>lh_n := k\<rparr> = s\<lparr>slocks := slocks t, bufs := bufs t, vq := vq t, disk_img := disk_img t,
      disk_log := disk_log t\<rparr>\<lparr>lh_n := k\<rparr>"
    using assms unfolding storage_frame_def by (elim conjE) (rule arg_cong)
  moreover have "\<forall>i. slocks t (SL_inode i) = slocks s (SL_inode i)" using assms unfolding storage_frame_def by blast
  ultimately show ?thesis by (simp add: storage_frame_def)
qed

lemma frame_lh_block:
  assumes "storage_frame s t"
  shows "storage_frame (s\<lparr>lh_block := f\<rparr>) (t\<lparr>lh_block := f\<rparr>)"
proof -
  have "t\<lparr>lh_block := f\<rparr> = s\<lparr>slocks := slocks t, bufs := bufs t, vq := vq t, disk_img := disk_img t,
      disk_log := disk_log t\<rparr>\<lparr>lh_block := f\<rparr>"
    using assms unfolding storage_frame_def by (elim conjE) (rule arg_cong)
  moreover have "\<forall>i. slocks t (SL_inode i) = slocks s (SL_inode i)" using assms unfolding storage_frame_def by blast
  ultimately show ?thesis by (simp add: storage_frame_def)
qed

lemma wrote_lh_n: "wrote d p P ws s t \<Longrightarrow> wrote d p P ws (s\<lparr>lh_n := k\<rparr>) (t\<lparr>lh_n := k\<rparr>)"
  using frame_lh_n [of s t k] by (simp add: wrote_def)

lemma upds_nth:
  assumes "i < n" "inj_on f {..<n}"
  shows "upds V (map (\<lambda>i. (f i, g i)) [0..<n]) (f i) = g i"
  using assms
proof (induction n)
  case (Suc n)
  show ?case
  proof (cases "i = n")
    case False
    with Suc.prems have i: "i < n" and ne: "f i \<noteq> f n" by (auto dest: inj_onD)
    have "inj_on f {..<n}" using Suc.prems(2) by (rule inj_on_subset) auto
    then show ?thesis using Suc.IH i ne by simp
  qed simp
qed simp

lemma txn_blocks:
  assumes "txn d P s"
  defines "n \<equiv> nat (lh_n s)"
  shows "i < n \<Longrightarrow> i < LOGSIZE - 1" "i < n \<Longrightarrow> log_bn s i \<noteq> hdr_bn s" "i < n \<Longrightarrow> lh_block s i \<noteq> hdr_bn s"
    "i < n \<Longrightarrow> outside s (lh_block s i)" "inj_on (log_bn s) {..<n}" "hdr_bn s \<notin> fst ` set (log_writes d n s)"
proof -
  from assms have geom: "log_geom d s" and n: "lh_n s \<le> int LOGSIZE - 1" by (auto simp: txn_def homes_def)
  show iL: "i < LOGSIZE - 1" if "i < n" for i using that n unfolding n_def by linarith
  have iN: "i < LOGSIZE" if "i < n" for i using iL [OF that] by linarith
  show lne: "log_bn s i \<noteq> hdr_bn s" if "i < n" for i by (rule log_blocks(5) [OF geom iN [OF that]])
  show "outside s (lh_block s i)" if "i < n" for i
    using assms that by (simp add: txn_def homes_def)
  then show "lh_block s i \<noteq> hdr_bn s" if "i < n" for i using that by (simp add: outside_def)
  show "hdr_bn s \<notin> fst ` set (log_writes d n s)" using lne [THEN not_sym] by (simp add: log_writes_def image_iff)
  show "inj_on (log_bn s) {..<n}"
    using log_blocks(6) [OF geom iN iN] by (intro inj_onI) blast
qed

lemma homes_frame: "homes d s \<Longrightarrow> storage_frame s t \<Longrightarrow> homes d t"
  by (simp add: homes_def log_geom_def outside_def frame_log)

text \<open>A run of the log's code needs an environment that serves disk requests.\<close>

locale log_disk = disk_env env
  for env :: "'y log_state_scheme \<Rightarrow> 'y log_state_scheme"
begin

lemma wp_write_log_one:
  assumes c: "cache d p {} P s" and tx: "txn d P s" and i: "i < nat (lh_n s)"
    and Q: "\<And>t. wrote d p P [(log_bn s i, view d s (lh_block s i))] s t \<Longrightarrow> Q () t"
  shows "wp env (write_log_one i) Q s"
proof -
  have iL: "i < LOGSIZE - 1" and geom: "log_geom d s" and home: "outside s (lh_block s i)"
    using tx i by (auto simp: txn_def homes_def)
  then have bn: "log_bn s i < 2 ^ 31" "lh_block s i < 2 ^ 31" "log_bn s i \<noteq> lh_block s i"
    using log_blocks(4) [OF geom, of i] by (auto simp: outside_def)
  obtain b where b: "b \<in> P" "b_blockno (bufs s b) = lh_block s i" using txn_home [OF tx i] .
  let ?bs = "view d s (lh_block s i)"
  have "wp env (bindM (bread d (log_bn s i)) (\<lambda>to. bindM (bread d (lh_block s i)) (\<lambda>from_b.
      doM [bindM (data_of from_b) (set_data to), bwrite to, brelse from_b, brelse to]))) Q s"
  proof (rule wp_bread2 [OF c bn txn_card(2) [OF tx c]])
    show "card P + 1 < NBUF \<or> (\<exists>i'\<in>P. b_blockno (bufs s i') = lh_block s i)" using b by blast
    fix to from_b t
    assume t: "cache d p {to, from_b} P t" "to \<noteq> from_b" "b_blockno (bufs t to) = log_bn s i"
      "b_blockno (bufs t from_b) = lh_block s i" "view d t = view d s" "disk_img t = disk_img s"
      "disk_log t = disk_log s" "\<And>i. i \<in> P \<Longrightarrow> b_blockno (bufs t i) = b_blockno (bufs s i)"
      "storage_frame s t"
    have y: "b_data (bufs t from_b) = ?bs" "from_b \<in> P"
      using cache_data(1) [OF t(1), of from_b] t(4,5) cache_same_buf [OF t(1), of from_b b] b t(8) by auto
    show "wp env (doM [bindM (data_of from_b) (set_data to), bwrite to, brelse from_b, brelse to]) Q t"
      unfolding wp_doM_Cons
    proof (rule wp_copy_write [OF t(1)])
      fix u
      assume u: "cache d p {to, from_b} P u"
        "view d u = (view d t)(b_blockno (bufs t to) := b_data (bufs t from_b))"
        "disk_img u = (disk_img t)(unat (b_blockno (bufs t to)) := b_data (bufs t from_b))"
        "disk_log u = disk_log t @ [(unat (b_blockno (bufs t to)), b_data (bufs t from_b))]"
        "\<And>i. b_blockno (bufs u i) = b_blockno (bufs t i)" "storage_frame t u"
      show "wp env (brelse from_b) (\<lambda>_. wp env (brelse to) (\<lambda>_. wp env (doM []) Q)) u"
      proof (rule wp_brelse2 [OF u(1) t(2)], goal_cases)
        case (1 b)
        then show ?case using y u t by auto
      next
        case (2 v)
        then have "wrote d p P [(log_bn s i, ?bs)] s v"
          using u t y storage_frame_trans [OF t(9) u(6)] by (auto simp: wrote_def intro: storage_frame_trans)
        then show ?case by (simp add: wp_simps Q)
      qed
    qed auto
  qed
  then show ?thesis
    using geom by (simp add: write_log_one_def wp_simps log_geom_def log_bn_def split_def)
qed

lemma wp_write_log:
  assumes c: "cache d p {} P s" and tx: "txn d P s"
    and Q: "\<And>t. wrote d p P (log_writes d (nat (lh_n s)) s) s t \<Longrightarrow> Q () t"
  shows "wp env write_log Q s"
  unfolding write_log_def wp_bind wp_get
proof (rule wp_eachM [where I = "\<lambda>k. wrote d p P (log_writes d k s) s"])
  show "wrote d p P (log_writes d 0 s) s s" using c by (simp add: wrote_Nil log_writes_def)
  fix k t
  assume k: "k < length [0..<nat (lh_n s)]" and w: "wrote d p P (log_writes d k s) s t"
  then have fr: "storage_frame s t" and ct: "cache d p {} P t" and tt: "txn d P t"
    and v: "view d t = upds (view d s) (log_writes d k s)"
    using txn_frame [OF tx] by (auto simp: wrote_def)
  have "outside s (lh_block s k)" using tx k by (auto simp: txn_def homes_def)
  then have "upds (view d s) (log_writes d k s) (lh_block s k) = view d s (lh_block s k)"
    using k tx by (intro upds_other) (auto simp: log_writes_def outside_def txn_def homes_def)
  then have one: "log_writes d k s @ [(log_bn t k, view d t (lh_block t k))] = log_writes d (Suc k) s"
    using v by (simp add: log_writes_def frame_log [OF fr])
  have "wp env (write_log_one k) (\<lambda>_. wrote d p P (log_writes d (Suc k) s) s) t"
  proof (rule wp_write_log_one [OF ct tt])
    show "k < nat (lh_n t)" using k by (simp add: frame_log [OF fr])
    show "wrote d p P (log_writes d (Suc k) s) s u"
      if "wrote d p P [(log_bn t k, view d t (lh_block t k))] t u" for u
      using wrote_append [OF w that] one by simp
  qed
  then show "wp env (write_log_one ([0..<nat (lh_n s)] ! k)) (\<lambda>_. wrote d p P (log_writes d (Suc k) s) s) t"
    using k by simp
qed (simp add: Q)

lemma wp_write_head:
  assumes c: "cache d p {} P s" and geom: "log_geom d s" and n: "0 \<le> lh_n s" "lh_n s \<le> int LOGSIZE"
    and P: "card P < NBUF"
    and Q: "\<And>t. wrote d p P [(hdr_bn s, mk_hdr (lh_n s) (lh_block s) (view d s (hdr_bn s)))] s t \<Longrightarrow> Q () t"
  shows "wp env write_head Q s"
proof -
  have dev: "log_dev s = d" and bn: "hdr_bn s < 2 ^ 31" using geom log_blocks(2) [OF geom] by (auto simp: log_geom_def)
  let ?hdr = "mk_hdr (lh_n s) (lh_block s) (view d s (hdr_bn s))"
  have "wp env (bread d (hdr_bn s)) (\<lambda>b. wp env (bindM (getM lh_n) (\<lambda>n. doM [
       bindM (data_of b) (\<lambda>hb. set_data b (put32 hb 0 (of_int n))),
       eachM [0..<nat n] (\<lambda>i. bindM (getM (\<lambda>s. lh_block s i)) (\<lambda>bn.
         bindM (data_of b) (\<lambda>hb. set_data b (put32 hb (4 + 4 * i) bn)))),
       bwrite b, brelse b])) Q) s"
  proof (rule wp_bread [OF c bn])
    show "(\<exists>i<NBUF. i \<notin> {} \<union> P) \<or> (\<exists>i. in_cache d (hdr_bn s) (bufs s) i)"
      using unused_buf [OF P] c by (auto simp: cache_def)
    fix b t
    assume "got d p {} P (hdr_bn s) s b t"
    then have ct: "cache d p {b} P t" and t: "b_blockno (bufs t b) = hdr_bn s"
      "b_data (bufs t b) = view d s (hdr_bn s)" "view d t = view d s"
      "disk_img t = disk_img s" "disk_log t = disk_log s" "storage_frame s t"
      and Pt: "\<And>i. i \<in> P \<Longrightarrow> b_blockno (bufs t i) = b_blockno (bufs s i)"
      by (auto simp: got_def)
    let ?with = "\<lambda>bs. t\<lparr>bufs := (bufs t)(b := (bufs t b)\<lparr>b_data := bs\<rparr>)\<rparr>"
    have len: "length ?hdr = BSIZE" using mk_hdr(1) n cache_data(2) [OF ct, of b] t(2) by simp
    have wr: "wp env (bwrite b) (\<lambda>_. wp env (brelse b) Q) (?with ?hdr)"
    proof (rule wp_write_through [OF ct _ len])
      fix u
      assume u: "cache d p {b} P u" "view d u = (view d t)(b_blockno (bufs t b) := ?hdr)"
        "disk_img u = (disk_img t)(unat (b_blockno (bufs t b)) := ?hdr)"
        "disk_log u = disk_log t @ [(unat (b_blockno (bufs t b)), ?hdr)]"
        "\<And>i. b_blockno (bufs u i) = b_blockno (bufs t i)" "storage_frame t u"
      show "wp env (brelse b) Q u"
      proof (rule wp_brelse [OF u(1)])
        show "b \<in> P \<or> b_data (bufs u b) = disk_img u (unat (b_blockno (bufs u b)))"
          using cache_data(1) [OF u(1), of b] u by simp
        fix v
        assume v: "cache d p ({b} - {b}) P v" "view d v = view d u" "disk_img v = disk_img u" 
          "disk_log v = disk_log u" "\<And>i. b_blockno (bufs v i) = b_blockno (bufs u i)" "storage_frame u v"
        show "Q () v"
          using v u t Pt storage_frame_trans [OF t(6) storage_frame_trans [OF u(6) v(6)]]
          by (intro Q) (auto simp: wrote_def)
      qed simp
    qed simp
    let ?hb = "put32 (view d s (hdr_bn s)) 0 (of_int (lh_n s))"
    show "wp env (bindM (getM lh_n) (\<lambda>n. doM [
       bindM (data_of b) (\<lambda>hb. set_data b (put32 hb 0 (of_int n))),
       eachM [0..<nat n] (\<lambda>i. bindM (getM (\<lambda>s. lh_block s i)) (\<lambda>bn.
         bindM (data_of b) (\<lambda>hb. set_data b (put32 hb (4 + 4 * i) bn)))),
       bwrite b, brelse b])) Q t"
      unfolding wp_bind wp_get wp_doM_Cons wp_doM_Nil wp_data_of wp_set_data
    proof (rule wp_eachM [where I = "\<lambda>k u. u = ?with (put_blocks (lh_block s) k ?hb)"])
    qed (use wr in \<open>auto simp: t mk_hdr_def wp_simps frame_log [OF t(6)]\<close>)
  qed simp
  then show ?thesis by (simp add: write_head_def wp_simps dev hdr_bn_def split_def)
qed

text \<open>Installing one logged block; during a commit its pinned buffer is unpinned.\<close>

lemma wp_install_one:
  assumes c: "cache d p {} P s" and geom: "log_geom d s" and i: "i < LOGSIZE - 1"
    and home: "outside s (lh_block s i)" and P: "card P < NBUF"
    and logged: "\<And>b. b \<in> P \<Longrightarrow> outside s (b_blockno (bufs s b))"
    and pinned: "if r then P = {} else \<exists>b\<in>P. b_blockno (bufs s b) = lh_block s i"
    and Q: "\<And>t. wrote d p {b \<in> P. b_blockno (bufs s b) \<noteq> lh_block s i}
      [(lh_block s i, view d s (log_bn s i))] s t \<Longrightarrow> Q () t"
  shows "wp env (install_one r i) Q s"
proof -
  have dev: "log_dev s = d" and bn: "log_bn s i < 2 ^ 31" "lh_block s i < 2 ^ 31" "log_bn s i \<noteq> lh_block s i"
    using geom i log_blocks(4) [OF geom, of i] home by (auto simp: outside_def log_geom_def)
  have lclean: "view d s (log_bn s i) = disk_img s (unat (log_bn s i))"
    using logged i by (intro view_disk [OF c]) (auto simp: outside_def)
  let ?P = "{b \<in> P. b_blockno (bufs s b) \<noteq> lh_block s i}"
  let ?bs = "view d s (log_bn s i)"
  have "wp env (bindM (bread d (log_bn s i)) (\<lambda>lbuf. bindM (bread d (lh_block s i)) (\<lambda>dbuf.
      doM [bindM (data_of lbuf) (set_data dbuf), bwrite dbuf, whenM (\<not> r) (bunpin dbuf), brelse lbuf, brelse dbuf]))) Q s"
  proof (rule wp_bread2 [OF c bn P])
    show "card P + 1 < NBUF \<or> (\<exists>j\<in>P. b_blockno (bufs s j) = lh_block s i)"
      using pinned by (auto split: if_splits)
    fix lb db t
    assume t: "cache d p {lb, db} P t" "lb \<noteq> db" "b_blockno (bufs t lb) = log_bn s i"
      "b_blockno (bufs t db) = lh_block s i" "view d t = view d s" "disk_img t = disk_img s"
      "disk_log t = disk_log s" "\<And>i. i \<in> P \<Longrightarrow> b_blockno (bufs t i) = b_blockno (bufs s i)"
      "storage_frame s t"
    have src: "b_data (bufs t lb) = ?bs" using cache_data(1) [OF t(1), of lb] t by simp
    have same: "b = db" if "b \<in> P" "b_blockno (bufs s b) = lh_block s i" for b
      using cache_same_buf [OF t(1), of db b] that t(4,8) by simp
    then have unpin: "?P = (if r then P else P - {db})" and db: "\<not> r \<Longrightarrow> db \<in> P"
      using pinned t(4,8) by (auto split: if_splits)
    show "wp env (doM [bindM (data_of lb) (set_data db), bwrite db, whenM (\<not> r) (bunpin db), brelse lb, brelse db]) Q t"
      unfolding wp_doM_Cons wp_doM_Nil
    proof (rule wp_copy_write [OF t(1)])
      fix u
      assume u: "cache d p {lb, db} P u" "view d u = (view d t)(b_blockno (bufs t db) := b_data (bufs t lb))"
        "disk_img u = (disk_img t)(unat (b_blockno (bufs t db)) := b_data (bufs t lb))"
        "disk_log u = disk_log t @ [(unat (b_blockno (bufs t db)), b_data (bufs t lb))]"
        "\<And>i. b_blockno (bufs u i) = b_blockno (bufs t i)" "storage_frame t u"
      let ?u = "if r then u else u\<lparr>bufs := (bufs u)(db := (bufs u db)\<lparr>b_refcnt := b_refcnt (bufs u db) - 1\<rparr>)\<rparr>"
      have cu: "cache d p {db, lb} ?P ?u" "view d ?u = view d u"
        using u(1) cache_unpin [OF u(1) _ db] unpin by (auto simp: insert_commute)
      have fr: "storage_frame s ?u"
        by (rule storage_frame_trans [OF storage_frame_trans [OF t(9) u(6)]]) (simp add: storage_frame_def)
      have bn': "b_blockno (bufs ?u i) = b_blockno (bufs t i)" for i using u(5) by simp
      have "wp env (brelse lb) (\<lambda>_. wp env (brelse db) (\<lambda>_. Q ())) ?u"
      proof (rule wp_brelse2 [OF cu(1)], goal_cases)
        case 1
        then show ?case using t(2) by simp
      next
        case (2 b)
        then show ?case using t(2-6) u src bn(3) lclean bn' cu(2) by (auto simp: unsigned_word_eqI)
      next
        case (3 v)
        then show ?case
          using u t src fr bn' cu(2) by (intro Q) (auto simp: wrote_def intro: storage_frame_trans)
      qed
      then show "wp env (whenM (\<not> r) (bunpin db)) (\<lambda>_. wp env (brelse lb) (\<lambda>_. wp env (brelse db) (\<lambda>_. Q ()))) u"
        using cu(1) by (auto simp: wp_simps wp_bunpin cache_def quiet_def split: if_splits)
    qed auto
  qed
  then show ?thesis by (simp add: install_one_def wp_simps dev log_bn_def split_def)
qed

lemma wp_install_trans:
  assumes c: "cache d p {} P s" and h: "homes d s" and P: "if r then P = {} else txn d P s"
    and Q: "\<And>t. wrote d p {} (home_writes d (nat (lh_n s)) s) s t \<Longrightarrow> Q () t"
  shows "wp env (install_trans r) Q s"
proof -
  define Pk where "Pk k = {b \<in> P. \<forall>j<k. b_blockno (bufs s b) \<noteq> lh_block s j}" for k :: nat
  have Pk: "Pk 0 = P" "Pk (nat (lh_n s)) = {}" "Pk k \<subseteq> P"
    "Pk (Suc k) = {b \<in> Pk k. b_blockno (bufs s b) \<noteq> lh_block s k}" for k
    using P by (auto simp: Pk_def txn_def less_Suc_eq split: if_splits)
  have fin: "finite P" and cP: "card P < NBUF"
    using c P txn_card(2) [OF _ c] finite_subset [of P "{..<NBUF}"] by (auto simp: cache_def split: if_splits)
  have "wp env (eachM [0..<nat (lh_n s)] (install_one r)) Q s"
  proof (rule wp_eachM [where I = "\<lambda>k. wrote d p (Pk k) (home_writes d k s) s"])
    show "wrote d p (Pk 0) (home_writes d 0 s) s s" using c Pk(1) by (simp add: wrote_Nil home_writes_def)
    fix k t
    assume k: "k < length [0..<nat (lh_n s)]" and w: "wrote d p (Pk k) (home_writes d k s) s t"
    then have fr: "storage_frame s t" and ct: "cache d p {} (Pk k) t"
      and v: "view d t = upds (view d s) (home_writes d k s)"
      and bn: "\<And>b. b \<in> Pk k \<Longrightarrow> b_blockno (bufs t b) = b_blockno (bufs s b)"
      by (auto simp: wrote_def)
    note h' = homes_frame [OF h fr]
    have kL: "k < LOGSIZE - 1" and out: "\<And>j. j \<le> k \<Longrightarrow> outside s (lh_block s j)"
      using h k by (auto simp: homes_def)
    have "log_bn s k \<noteq> lh_block s j" if "j < k" for j
      using out [of j] that kL unfolding outside_def by (metis less_imp_le)
    then have "upds (view d s) (home_writes d k s) (log_bn s k) = view d s (log_bn s k)"
      by (intro upds_other) (simp add: home_writes_def image_iff)
    then have one: "home_writes d k s @ [(lh_block t k, view d t (log_bn t k))] = home_writes d (Suc k) s"
      using v by (simp add: home_writes_def frame_log [OF fr])
    have Pk': "{b \<in> Pk k. b_blockno (bufs t b) \<noteq> lh_block t k} = Pk (Suc k)"
      using Pk(4) bn by (auto simp: frame_log [OF fr])
    have "wp env (install_one r k) (\<lambda>_. wrote d p (Pk (Suc k)) (home_writes d (Suc k) s) s) t"
    proof (rule wp_install_one [OF ct _ kL])
      show "log_geom d t" "outside t (lh_block t k)" using h' k by (auto simp: homes_def frame_log [OF fr])
      show "card (Pk k) < NBUF" using card_mono [OF fin Pk(3)] cP by (rule order.strict_trans1)
      show "outside t (b_blockno (bufs t b))" if "b \<in> Pk k" for b
        using txn_outside [of d P s b] P that Pk(3) bn [OF that]
        by (auto simp: outside_def frame_log [OF fr] split: if_splits)
      show "if r then Pk k = {} else \<exists>b\<in>Pk k. b_blockno (bufs t b) = lh_block t k"
      proof (cases r)
        case False
        then have tx: "txn d P s" using P by simp
        obtain b where b: "b \<in> P" "b_blockno (bufs s b) = lh_block s k" using txn_home [OF tx, of k] k by auto
        have "lh_block s k \<noteq> lh_block s j" if "j < k" for j
          using h k that inj_onD [of "lh_block s" "{..<nat (lh_n s)}" k j] by (auto simp: homes_def)
        then have "b \<in> Pk k" using b by (auto simp: Pk_def)
        then show ?thesis using False b(2) bn by (auto simp: frame_log [OF fr])
      qed (use P Pk(3) in auto)
      show "wrote d p (Pk (Suc k)) (home_writes d (Suc k) s) s u"
        if "wrote d p {b \<in> Pk k. b_blockno (bufs t b) \<noteq> lh_block t k} [(lh_block t k, view d t (log_bn t k))] t u" for u
        using wrote_append [OF w that] one Pk' Pk(4) by simp
    qed
    then show "wp env (install_one r ([0..<nat (lh_n s)] ! k))
        (\<lambda>_. wrote d p (Pk (Suc k)) (home_writes d (Suc k) s) s) t"
      using k by simp
  qed (simp add: Q Pk(2))
  then show ?thesis by (simp add: install_trans_def wp_simps)
qed

lemma wp_commit:
  assumes c: "cache d p {} P s" and tx: "txn d P s" and n: "lh_n s > 0"
    and Q: "\<And>t. wrote d p {} (commit_writes d s) (s\<lparr>lh_n := 0\<rparr>) t \<Longrightarrow> Q () t"
  shows "wp env commit Q s"
proof -
  let ?n = "nat (lh_n s)" and ?h = "mk_hdr (lh_n s) (lh_block s) (view d s (hdr_bn s))"
  let ?w1 = "log_writes d ?n s" and ?w3 = "map (\<lambda>i. (lh_block s i, view d s (lh_block s i))) [0..<?n]"
  have geom: "log_geom d s" and nL: "0 \<le> lh_n s" "lh_n s \<le> int LOGSIZE"
    using tx by (auto simp: txn_def homes_def)
  note lne = txn_blocks(2) [OF tx] and hne = txn_blocks(3) [OF tx]
    and inj = txn_blocks(5) [OF tx] and hdr = txn_blocks(6) [OF tx]
  have hdr3: "hdr_bn s \<notin> fst ` set ?w3" using hne [THEN not_sym] by (simp add: image_iff)
  have "wp env write_log (\<lambda>_. wp env (doM [write_head, install_trans False, modM (\<lambda>s. s\<lparr>lh_n := 0\<rparr>), write_head]) Q) s"
  proof (rule wp_write_log [OF c tx])
    fix t1
    assume w1: "wrote d p P ?w1 s t1"
    then have f1: "storage_frame s t1" and c1: "cache d p {} P t1" and x1: "txn d P t1"
      and v1: "view d t1 = upds (view d s) ?w1" using txn_frame [OF tx] by (auto simp: wrote_def)
    note l1 = frame_log [OF f1]
    have h1: "mk_hdr (lh_n t1) (lh_block t1) (view d t1 (hdr_bn t1)) = ?h"
      using upds_other [OF hdr] by (simp add: l1 v1)
    show "wp env (doM [write_head, install_trans False, modM (\<lambda>s. s\<lparr>lh_n := 0\<rparr>), write_head]) Q t1"
      unfolding wp_doM_Cons
    proof (rule wp_write_head [OF c1 _ _ _ txn_card(2) [OF tx c]], unfold h1)
      fix t2
      assume "wrote d p P [(hdr_bn t1, ?h)] t1 t2"
      then have w2: "wrote d p P (?w1 @ [(hdr_bn s, ?h)]) s t2" using wrote_append [OF w1] l1 by simp
      then have f2: "storage_frame s t2" and c2: "cache d p {} P t2" and x2: "txn d P t2"
        and v2: "view d t2 = (upds (view d s) ?w1)(hdr_bn s := ?h)" using txn_frame [OF tx] by (auto simp: wrote_def)
      note l2 = frame_log [OF f2]
      have "view d t2 (log_bn s i) = view d s (lh_block s i)" if "i < ?n" for i
        using lne [OF that] upds_nth [OF that inj] by (simp add: v2 log_writes_def)
      then have h2: "home_writes d (nat (lh_n t2)) t2 = map (\<lambda>i. (lh_block s i, view d s (lh_block s i))) [0..<?n]"
        by (simp add: home_writes_def l2)
      show "wp env (install_trans False) (\<lambda>_. wp env (modM (\<lambda>s. s\<lparr>lh_n := 0\<rparr>)) (\<lambda>_. wp env write_head (\<lambda>_. wp env (doM []) Q))) t2"
      proof (rule wp_install_trans [OF c2])
        show "homes d t2" "if False then P = {} else txn d P t2" using x2 by (auto simp: txn_def)
        fix t3
        assume "wrote d p {} (home_writes d (nat (lh_n t2)) t2) t2 t3"
        then have w3: "wrote d p {} ((?w1 @ [(hdr_bn s, ?h)]) @ ?w3) s t3"
          using wrote_append [OF w2] unfolding h2 by blast
        then have f3: "storage_frame s t3" and c3: "cache d p {} {} t3"
          and v3: "view d t3 (hdr_bn s) = ?h"
          using upds_other [OF hdr3] by (auto simp: wrote_def)
        let ?t = "t3\<lparr>lh_n := 0\<rparr>"
        note l3 = frame_log [OF f3]
        have "wp env write_head (\<lambda>_. wp env (doM []) Q) ?t"
        proof (rule wp_write_head [of d p "{}"])
          fix t4
          assume "wrote d p {} [(hdr_bn ?t, mk_hdr (lh_n ?t) (lh_block ?t) (view d ?t (hdr_bn ?t)))] ?t t4"
          with wrote_append [OF wrote_lh_n [OF w3, of 0]] have "wrote d p {} (commit_writes d s) (s\<lparr>lh_n := 0\<rparr>) t4"
            by (simp add: l3 v3 commit_writes_def Let_def)
          then show "wp env (doM []) Q t4" by (simp add: wp_doM_Nil Q)
        qed (use c3 geom in \<open>auto simp: l3 log_geom_def\<close>)
        then show "wp env (modM (\<lambda>s. s\<lparr>lh_n := 0\<rparr>)) (\<lambda>_. wp env write_head (\<lambda>_. wp env (doM []) Q)) t3"
          by (simp add: wp_mod)
      qed
    qed (use geom nL in \<open>auto simp: l1 log_geom_def\<close>)
  qed
  then show ?thesis using n by (simp add: commit_def wp_simps)
qed

text \<open>Recovery, by the process that mounts the file system, from a cache with nothing pinned.\<close>

lemma wp_read_head:
  assumes c: "cache d p {} {} s" and geom: "log_geom d s"
  defines "hb \<equiv> view d s (hdr_bn s)"
  assumes Q: "\<And>t. wrote d p {} [] (s\<lparr>lh_n := hdr_n hb, lh_block := head_blocks hb (nat (hdr_n hb)) (lh_block s)\<rparr>) t \<Longrightarrow> Q () t"
  shows "wp env read_head Q s"
proof -
  have dev: "log_dev s = d" and bn: "hdr_bn s < 2 ^ 31" using geom log_blocks(2) [OF geom] by (auto simp: log_geom_def)
  have "wp env (bread d (hdr_bn s)) (\<lambda>b. wp env (bindM (data_of b) (\<lambda>lh.
     seqM (modM (\<lambda>s. s\<lparr>lh_n := hdr_n lh\<rparr>))
     (seqM (eachM [0..<nat (hdr_n lh)] (\<lambda>i.
        modM (\<lambda>s. s\<lparr>lh_block := (lh_block s)(i := hdr_block lh i)\<rparr>)))
     (brelse b)))) Q) s"
  proof (rule wp_bread [OF c bn])
    show "(\<exists>i<NBUF. i \<notin> {} \<union> {}) \<or> (\<exists>i. in_cache d (hdr_bn s) (bufs s) i)"
      using unused_buf [of "{}"] by simp
    fix b t
    assume "got d p {} {} (hdr_bn s) s b t"
    then have ct: "cache d p {b} {} t" and t: "b_blockno (bufs t b) = hdr_bn s"
      "b_data (bufs t b) = hb" "view d t = view d s"
      "disk_img t = disk_img s" "disk_log t = disk_log s" "storage_frame s t"
      by (auto simp: got_def hb_def)
    let ?f = "head_blocks hb (nat (hdr_n hb)) (lh_block s)"
    let ?t = "t\<lparr>lh_n := hdr_n hb, lh_block := ?f\<rparr>"
    have rel: "wp env (brelse b) Q ?t"
    proof (rule wp_brelse [of d p "{b}" "{}"])
      show "b \<in> {} \<or> b_data (bufs ?t b) = disk_img ?t (unat (b_blockno (bufs ?t b)))"
        using view_disk [OF c, of "hdr_bn s"] t by (simp add: hb_def)
      fix v
      assume v: "cache d p ({b} - {b}) {} v" "view d v = view d ?t" "disk_img v = disk_img ?t"
        "disk_log v = disk_log ?t" "storage_frame ?t v"
      have "storage_frame (s\<lparr>lh_n := hdr_n hb, lh_block := ?f\<rparr>) v"
        by (rule storage_frame_trans [OF frame_lh_block [OF frame_lh_n [OF t(6)]] v(5)])
      then show "Q () v" using v t by (intro Q) (simp add: wrote_def)
    qed (use ct in simp_all)
    show "wp env (bindM (data_of b) (\<lambda>lh. seqM (modM (\<lambda>s. s\<lparr>lh_n := hdr_n lh\<rparr>))
       (seqM (eachM [0..<nat (hdr_n lh)] (\<lambda>i. modM (\<lambda>s. s\<lparr>lh_block := (lh_block s)(i := hdr_block lh i)\<rparr>)))
       (brelse b)))) Q t"
      unfolding wp_bind wp_seq wp_data_of wp_mod t(2)
    proof (rule wp_eachM [where I = "\<lambda>k u. u = t\<lparr>lh_n := hdr_n hb, lh_block := head_blocks hb k (lh_block s)\<rparr>"])
      show "t\<lparr>lh_n := hdr_n hb\<rparr> = t\<lparr>lh_n := hdr_n hb, lh_block := head_blocks hb 0 (lh_block s)\<rparr>"
        using frame_log(5) [OF t(6)] by simp
    qed (use rel in \<open>auto simp: wp_simps\<close>)
  qed simp
  then show ?thesis by (simp add: read_head_def wp_simps dev hdr_bn_def split_def)
qed

lemma wp_recover:
  assumes c: "cache d p {} {} s" and geom: "log_geom d s" and ok: "hdr_ok s (view d s (hdr_bn s))"
    and Q: "\<And>t f. wrote d p {} (recover_writes d s) (s\<lparr>lh_block := f, lh_n := 0\<rparr>) t \<Longrightarrow> Q () t"
  shows "wp env recover_from_log Q s"
proof -
  define hb where "hb = view d s (hdr_bn s)"
  define f where "f = head_blocks hb (nat (hdr_n hb)) (lh_block s)"
  define s1 where "s1 = s\<lparr>lh_n := hdr_n hb, lh_block := f\<rparr>"
  have s1_0: "s1\<lparr>lh_n := 0\<rparr> = s\<lparr>lh_block := f, lh_n := 0\<rparr>" by (simp add: s1_def)
  have f: "\<And>i. i < nat (hdr_n hb) \<Longrightarrow> f i = hdr_block hb i" by (simp add: f_def head_blocks)
  have h1: "homes d s1"
    using ok geom f by (auto simp: homes_def hdr_ok_def s1_def hb_def inj_on_def)
  let ?w = "map (\<lambda>i. (hdr_block hb i, view d s (log_bn s i))) [0..<nat (hdr_n hb)]"
  have hdr: "hdr_bn s \<notin> fst ` set ?w"
    using ok by (simp add: hdr_ok_def outside_def hb_def image_iff not_sym)
  have "wp env read_head (\<lambda>_. wp env (install_trans True) (\<lambda>_. wp env (modM (\<lambda>s. s\<lparr>lh_n := 0\<rparr>))
      (\<lambda>_. wp env write_head (\<lambda>_. Q ())))) s"
  proof (rule wp_read_head [OF c geom], fold hb_def, fold f_def, fold s1_def)
    fix t1
    assume w1: "wrote d p {} [] s1 t1"
    then have c1: "cache d p {} {} t1" and fr: "storage_frame s1 t1" and v1: "view d t1 = view d s1"
      by (auto simp: wrote_def)
    note l1 = frame_log [OF fr]
    have w: "home_writes d (nat (lh_n t1)) t1 = ?w" unfolding home_writes_def l1 v1 by (simp add: s1_def f)
    show "wp env (install_trans True) (\<lambda>_. wp env (modM (\<lambda>s. s\<lparr>lh_n := 0\<rparr>)) (\<lambda>_. wp env write_head (\<lambda>_. Q ()))) t1"
    proof (rule wp_install_trans [OF c1 homes_frame [OF h1 fr]], unfold w)
      fix t2
      assume "wrote d p {} ?w t1 t2"
      then have w2: "wrote d p {} ?w s1 t2" using wrote_append [OF w1] by fastforce
      then have c2: "cache d p {} {} t2" and f2: "storage_frame s1 t2" and v2: "view d t2 (hdr_bn s) = hb"
        using upds_other [OF hdr] by (auto simp: wrote_def s1_def hb_def)
      note l2 = frame_log [OF f2]
      have hb2: "hdr_bn t2 = hdr_bn s" and g2: "log_geom d t2"
        using geom by (simp_all add: l2 log_geom_def, simp_all add: s1_def)
      have "wp env write_head (\<lambda>_. Q ()) (t2\<lparr>lh_n := 0\<rparr>)"
      proof (rule wp_write_head [of d p "{}"])
        fix t3
        assume "wrote d p {} [(hdr_bn (t2\<lparr>lh_n := 0\<rparr>), mk_hdr (lh_n (t2\<lparr>lh_n := 0\<rparr>)) (lh_block (t2\<lparr>lh_n := 0\<rparr>))
            (view d (t2\<lparr>lh_n := 0\<rparr>) (hdr_bn (t2\<lparr>lh_n := 0\<rparr>))))] (t2\<lparr>lh_n := 0\<rparr>) t3"
        then have w3: "wrote d p {} [(hdr_bn s, put32 hb 0 0)] (t2\<lparr>lh_n := 0\<rparr>) t3" by (simp add: hb2 v2)
        from wrote_append [OF wrote_lh_n [OF w2, of 0] w3] show "Q () t3"
          by (intro Q [of f]) (simp add: s1_0 recover_writes_def Let_def hb_def)
      qed (use c2 g2 in simp_all)
      then show "wp env (modM (\<lambda>s. s\<lparr>lh_n := 0\<rparr>)) (\<lambda>_. wp env write_head (\<lambda>_. Q ())) t2"
        by (simp add: wp_mod)
    qed simp
  qed
  then show ?thesis by (simp add: recover_from_log_def wp_doM_Cons wp_doM_Nil)
qed

end

section \<open>Adding a block to the transaction\<close>

lemma log_slot_cases [consumes 1, case_names old new]:
  assumes "0 \<le> lh_n s"
  obtains (old) i where "i < nat (lh_n s)" "lh_block s i = bn" "log_slot s bn = i"
    | (new) "bn \<notin> lh_block s ` {..<nat (lh_n s)}" "log_slot s bn = nat (lh_n s)"
proof (cases "find (\<lambda>i. lh_block s i = bn) [0..<nat (lh_n s)]")
  case None
  then have "log_slot s bn = nat (lh_n s)" by (simp add: log_slot_def)
  moreover have "bn \<notin> lh_block s ` {..<nat (lh_n s)}" using None by (auto simp: find_None_iff)
  ultimately show thesis using new by blast
next
  case (Some i)
  then have "log_slot s bn = i" by (simp add: log_slot_def)
  moreover have "i < nat (lh_n s)" "lh_block s i = bn" using Some by (auto simp: find_Some_iff)
  ultimately show thesis using old by blast
qed

text \<open>The first write to a block in a transaction: its number is appended and its buffer pinned.\<close>

definition logged :: "nat \<Rightarrow> 'x log_state_scheme \<Rightarrow> 'x log_state_scheme" where
  "logged b s = s\<lparr>lh_block := (lh_block s)(nat (lh_n s) := b_blockno (bufs s b)),
     bufs := (bufs s)(b := (bufs s b)\<lparr>b_refcnt := b_refcnt (bufs s b) + 1\<rparr>), lh_n := lh_n s + 1\<rparr>"

lemma log_slot_held [simp]: "log_slot (s\<lparr>held := H\<rparr>) bn = log_slot s bn"
  by (simp add: log_slot_def cong: option.case_cong)

lemma log_write_run:
  assumes "held s = {}" "0 \<le> lh_n s" "lh_n s < log_size s - 1" "lh_n s < int LOGSIZE" "1 \<le> log_outstanding s"
  shows "log_write b env s = Done ()
    (if b_blockno (bufs s b) \<in> lh_block s ` {..<nat (lh_n s)} then s else logged b s)"
  using assms(2)
proof (cases rule: log_slot_cases [where bn = "b_blockno (bufs s b)"])
  case (old i)
  have "(lh_block s)(i := b_blockno (bufs s b)) = lh_block s" using old by auto
  moreover have "s\<lparr>lh_block := lh_block s, held := held s\<rparr> = s" by simp
  moreover have "b_blockno (bufs s b) \<in> lh_block s ` {..<nat (lh_n s)}"
    unfolding old(2) [symmetric] using old(1) by blast
  moreover have "int i \<noteq> lh_n s" using old(1) by auto
  ultimately show ?thesis
    using assms old(3) by (simp add: log_write_def run_simps)
next
  case new
  have "s\<lparr>held := held s\<rparr> = s" by simp
  then show ?thesis
    using assms new by (simp add: log_write_def run_simps bpin_def upd_buf_def logged_def)
qed

lemma logged_keeps:
  assumes c: "cache d p L P s" and b: "b \<in> L" and tx: "txn d P s"
    and out: "outside s (b_blockno (bufs s b))" and room: "lh_n s < int LOGSIZE - 1"
    and new: "b_blockno (bufs s b) \<notin> lh_block s ` {..<nat (lh_n s)}"
  shows "cache d p L (insert b P) (logged b s)" "txn d (insert b P) (logged b s)" "view d (logged b s) = view d s"
proof -
  have bP: "b \<notin> P" using new tx by (auto simp: txn_def)
  note pin = cache_pin [OF c b bP]
  let ?t = "s\<lparr>bufs := (bufs s)(b := (bufs s b)\<lparr>b_refcnt := b_refcnt (bufs s b) + 1\<rparr>)\<rparr>"
  have eq: "logged b s = ?t\<lparr>lh_block := (lh_block s)(nat (lh_n s) := b_blockno (bufs s b)), lh_n := lh_n s + 1\<rparr>"
    by (simp add: logged_def)
  show "cache d p L (insert b P) (logged b s)" "view d (logged b s) = view d s"
    unfolding eq using pin by simp_all
  have n: "nat (lh_n s + 1) = Suc (nat (lh_n s))" using tx unfolding txn_def homes_def by linarith
  have geom: "log_geom d (logged b s) = log_geom d s" "outside (logged b s) = outside s"
    by (simp_all add: logged_def log_geom_def outside_def hdr_bn_def log_bn_def fun_eq_iff)
  let ?bn = "b_blockno (bufs s b)" and ?N = "nat (lh_n s)"
  have ne: "{..<?N} \<inter> {x. x \<noteq> ?N} = {..<?N}" by auto
  have img: "lh_block (logged b s) ` {..<Suc ?N} = insert ?bn (lh_block s ` {..<?N})"
    by (simp add: logged_def lessThan_Suc ne)
  have inj: "inj_on (lh_block (logged b s)) {..<Suc ?N}"
    using new tx by (simp add: logged_def lessThan_Suc txn_def homes_def inj_on_fun_updI ne)
  have "b_blockno (bufs (logged b s) i) = b_blockno (bufs s i)" for i by (simp add: logged_def)
  then have pins: "(\<lambda>a. b_blockno (bufs (logged b s) a)) ` insert b P = lh_block (logged b s) ` {..<Suc ?N}"
    using tx by (simp add: img txn_def)
  have len: "lh_n (logged b s) = lh_n s + 1" by (simp add: logged_def)
  have out': "outside s (lh_block (logged b s) i)" if "i < Suc ?N" for i
    using that out tx by (auto simp: logged_def txn_def homes_def less_Suc_eq)
  show "txn d (insert b P) (logged b s)"
    unfolding txn_def homes_def geom len n using inj pins out' tx room
    by (simp add: txn_def homes_def)
qed

end
