(* ===== verification/Fs.thy ===== *)
theory Fs
  imports Log
begin

text \<open>
  The file system proper, \<^verbatim>\<open>kernel/fs.c\<close> (block allocator, inodes, file contents,
  directories, path names) and the two copy helpers of \<^verbatim>\<open>kernel/proc.c\<close> it uses. On-disk
  structures are read and written as bytes of the buffers' data, at the offsets the C structs of
  \<^verbatim>\<open>kernel/fs.h\<close> give them.
\<close>

section \<open>Data of fs.h, file.h and stat.h\<close>

abbreviation (input) ROOTINO :: u32 where "ROOTINO \<equiv> 1"
abbreviation (input) FSMAGIC :: u32 where "FSMAGIC \<equiv> 0x10203040"
abbreviation (input) NDIRECT :: nat where "NDIRECT \<equiv> 12"
abbreviation (input) NINDIRECT :: nat where "NINDIRECT \<equiv> 256"
abbreviation (input) MAXFILE :: nat where "MAXFILE \<equiv> 268"
abbreviation (input) IPB :: u32 where "IPB \<equiv> 16"
abbreviation (input) BPB :: nat where "BPB \<equiv> 8192"
abbreviation (input) DIRSIZ :: nat where "DIRSIZ \<equiv> 14"
abbreviation (input) T_DIR :: u16 where "T_DIR \<equiv> 1"
abbreviation (input) T_FILE :: u16 where "T_FILE \<equiv> 2"
abbreviation (input) T_DEVICE :: u16 where "T_DEVICE \<equiv> 3"

record superblock =
  sb_magic :: u32
  sb_size :: u32
  sb_nblocks :: u32
  sb_ninodes :: u32
  sb_nlog :: u32
  sb_logstart :: u32
  sb_inodestart :: u32
  sb_bmapstart :: u32

record inode =
  i_dev :: u32
  i_inum :: u32
  i_ref :: int
  i_valid :: bool
  i_type :: u16
  i_major :: u16
  i_minor :: u16
  i_nlink :: u16
  i_size :: u32
  i_addrs :: "nat \<Rightarrow> u32"

record fs_state = log_state +
  sb :: superblock
  inodes :: "nat \<Rightarrow> inode"

definition IBLOCK :: "u32 \<Rightarrow> superblock \<Rightarrow> u32" where
  "IBLOCK i b = i div IPB + sb_inodestart b"

definition BBLOCK :: "u32 \<Rightarrow> superblock \<Rightarrow> u32" where
  "BBLOCK b v = b div of_nat BPB + sb_bmapstart v"

definition upd_inode :: "nat \<Rightarrow> (inode \<Rightarrow> inode) \<Rightarrow> ('x fs_state_scheme, unit) km" where
  "upd_inode ip f = modM (\<lambda>s. s\<lparr>inodes := (inodes s)(ip := f (inodes s ip))\<rparr>)"

definition inode_at :: "nat \<Rightarrow> ('x fs_state_scheme, inode) km" where
  "inode_at ip = getM (\<lambda>s. inodes s ip)"

text \<open>The offset of \<open>dip\<close> in its block: a \<open>struct dinode\<close> is 64 bytes.\<close>

definition dinode_off :: "u32 \<Rightarrow> nat" where
  "dinode_off inum = 64 * unat (inum mod IPB)"

section \<open>Copying to and from a user or kernel address\<close>

text \<open>
  A destination or source of \<open>readi\<close> and \<open>writei\<close>: a user virtual address of the current
  process (\<open>user_dst = 1\<close>), a physical page address, or a kernel variable, whose bytes are
  then the value the copy delivers or takes.
\<close>

datatype dest = To_user u64 | To_page u64 | To_var
datatype source = From_user u64 | From_var "u8 list"

definition either_copyout :: "dest \<Rightarrow> u64 \<Rightarrow> u8 list \<Rightarrow> ('x kmem_state_scheme, bool) km" where
  "either_copyout d off src = (case d of
     To_user dst \<Rightarrow> bindM myproc (\<lambda>p. bindM (getM (\<lambda>s. p_pagetable (procs s p))) (\<lambda>pt.
       copyout pt (dst + off) src))
   | To_page dst \<Rightarrow> seqM (modM (\<lambda>s. s\<lparr>mem := store_bytes (mem s) (dst + off) src\<rparr>)) (retM True)
   | To_var \<Rightarrow> retM True)"

definition either_copyin :: "source \<Rightarrow> u64 \<Rightarrow> nat \<Rightarrow> ('x kmem_state_scheme, u8 list \<times> bool) km" where
  "either_copyin sr off len = (case sr of
     From_user src \<Rightarrow> bindM myproc (\<lambda>p. bindM (getM (\<lambda>s. p_pagetable (procs s p))) (\<lambda>pt.
       copyin pt (src + off) len))
   | From_var bs \<Rightarrow> retM (take len (drop (unat off) bs), True))"

section \<open>Blocks\<close>

definition readsb :: "u32 \<Rightarrow> ('x fs_state_scheme, unit) km" where
  "readsb dev =
     bindM (bread dev 1) (\<lambda>bp.
     bindM (data_of bp) (\<lambda>d.
     seqM (modM (\<lambda>s. s\<lparr>sb := \<lparr>sb_magic = get32 d 0, sb_size = get32 d 4, sb_nblocks = get32 d 8,
       sb_ninodes = get32 d 12, sb_nlog = get32 d 16, sb_logstart = get32 d 20,
       sb_inodestart = get32 d 24, sb_bmapstart = get32 d 28\<rparr>\<rparr>))
     (brelse bp)))"

definition fsinit :: "u32 \<Rightarrow> ('x fs_state_scheme, unit) km" where
  "fsinit dev = doM [
     readsb dev,
     panic_ifM (\<lambda>s. sb_magic (sb s) \<noteq> FSMAGIC) ''invalid file system'',
     bindM (getM sb) (\<lambda>v. initlog dev (sb_logstart v) (sb_nlog v))]"

definition bzero :: "u32 \<Rightarrow> u32 \<Rightarrow> ('x fs_state_scheme, unit) km" where
  "bzero dev bno =
     bindM (bread dev bno) (\<lambda>bp. doM [
       set_data bp (replicate BSIZE 0),
       log_write bp,
       brelse bp])"

text \<open>Bit \<open>bi\<close> of a bitmap block, and the byte with that bit set or cleared.\<close>

definition bm_mask :: "nat \<Rightarrow> u8" where
  "bm_mask bi = push_bit (bi mod 8) 1"

definition bm_used :: "u8 list \<Rightarrow> nat \<Rightarrow> bool" where
  "bm_used d bi \<longleftrightarrow> (d ! (bi div 8)) AND bm_mask bi \<noteq> 0"

definition bm_set :: "u8 list \<Rightarrow> nat \<Rightarrow> u8 list" where
  "bm_set d bi = d[bi div 8 := (d ! (bi div 8)) OR bm_mask bi]"

definition bm_clear :: "u8 list \<Rightarrow> nat \<Rightarrow> u8 list" where
  "bm_clear d bi = d[bi div 8 := (d ! (bi div 8)) AND NOT (bm_mask bi)]"

text \<open>The inner loop of \<open>balloc\<close>: the first clear bit among those of blocks below \<open>size\<close>.\<close>

definition bm_first_free :: "u8 list \<Rightarrow> nat \<Rightarrow> nat \<Rightarrow> nat option" where
  "bm_first_free d b sz = find (\<lambda>bi. \<not> bm_used d bi) [0..<min BPB (sz - b)]"

definition balloc_body :: "u32 \<Rightarrow> nat \<Rightarrow> ('x fs_state_scheme, nat + u32 option) km" where
  "balloc_body dev b =
     bindM (getM sb) (\<lambda>v.
     if b < unat (sb_size v) then
       bindM (bread dev (BBLOCK (of_nat b) v)) (\<lambda>bp.
       bindM (data_of bp) (\<lambda>d.
       case bm_first_free d b (unat (sb_size v)) of
         Some bi \<Rightarrow> seqM (doM [
             set_data bp (bm_set d bi),
             log_write bp,
             brelse bp,
             bzero dev (of_nat (b + bi))])
           (retM (Inr (Some (of_nat (b + bi)))))
       | None \<Rightarrow> seqM (brelse bp) (retM (Inl (b + BPB)))))
     else retM (Inr None))"

definition balloc :: "u32 \<Rightarrow> ('x fs_state_scheme, u32) km" where
  "balloc dev = bindM (loopM (balloc_body dev) 0) (\<lambda>r. case r of
     Some b \<Rightarrow> retM b
   | None \<Rightarrow> panicM ''balloc: out of blocks'')"

definition bfree :: "u32 \<Rightarrow> u32 \<Rightarrow> ('x fs_state_scheme, unit) km" where
  "bfree dev b =
     bindM (getM sb) (\<lambda>v.
     bindM (bread dev (BBLOCK b v)) (\<lambda>bp.
     bindM (data_of bp) (\<lambda>d.
     let bi = unat b mod BPB in
     if \<not> bm_used d bi then panicM ''freeing free block''
     else doM [
       set_data bp (bm_clear d bi),
       log_write bp,
       brelse bp])))"

section \<open>Inodes\<close>

definition iinit :: "('x fs_state_scheme, unit) km" where
  "iinit = eachM [0..<NINODE] (\<lambda>i. initsleeplock (SL_inode i))"

definition iget :: "u32 \<Rightarrow> u32 \<Rightarrow> ('x fs_state_scheme, nat) km" where
  "iget dev inum =
     seqM (acquire L_itable)
     (bindM (getM (\<lambda>s. find (\<lambda>i. i_ref (inodes s i) > 0 \<and> i_dev (inodes s i) = dev \<and>
         i_inum (inodes s i) = inum) [0..<NINODE])) (\<lambda>r. case r of
        Some ip \<Rightarrow>
          seqM (upd_inode ip (\<lambda>n. n\<lparr>i_ref := i_ref n + 1\<rparr>))
         (seqM (release L_itable)
         (retM ip))
      | None \<Rightarrow>
          bindM (getM (\<lambda>s. find (\<lambda>i. i_ref (inodes s i) = 0) [0..<NINODE])) (\<lambda>empty. case empty of
            None \<Rightarrow> panicM ''iget: no inodes''
          | Some ip \<Rightarrow>
              seqM (upd_inode ip (\<lambda>n. n\<lparr>i_dev := dev, i_inum := inum, i_ref := 1, i_valid := False\<rparr>))
             (seqM (release L_itable)
             (retM ip)))))"

text \<open>\<open>ialloc\<close>: the loop over \<open>inum\<close>, from 1 to \<open>sb.ninodes - 1\<close>.\<close>

definition ialloc :: "u32 \<Rightarrow> u16 \<Rightarrow> ('x fs_state_scheme, nat) km" where
  "ialloc dev type =
     bindM (getM sb) (\<lambda>v.
     bindM (forM [1..<unat (sb_ninodes v)] (\<lambda>k.
       let inum = of_nat k in
       bindM (bread dev (IBLOCK inum v)) (\<lambda>bp.
       bindM (data_of bp) (\<lambda>d.
       let dip = dinode_off inum in
       if get16 d dip = 0 then
         seqM (doM [
             set_data bp (put16 (splice d dip (replicate 64 0)) dip type),
             log_write bp,
             brelse bp])
           (bindM (iget dev inum) (\<lambda>ip. retM (Some ip)))
       else seqM (brelse bp) (retM None))))) (\<lambda>r. case r of
     Some ip \<Rightarrow> retM ip
   | None \<Rightarrow> panicM ''ialloc: no inodes''))"

text \<open>The bytes of a \<open>struct dinode\<close> for an inode, and the inode with the fields of one.\<close>

definition dinode_bytes :: "inode \<Rightarrow> u8 list" where
  "dinode_bytes n = le_bytes 2 (i_type n) @ le_bytes 2 (i_major n) @ le_bytes 2 (i_minor n) @
     le_bytes 2 (i_nlink n) @ le_bytes 4 (i_size n) @
     concat (map (\<lambda>k. le_bytes 4 (i_addrs n k)) [0..<NDIRECT + 1])"

definition load_dinode :: "u8 list \<Rightarrow> nat \<Rightarrow> inode \<Rightarrow> inode" where
  "load_dinode d off n = n\<lparr>i_type := get16 d off, i_major := get16 d (off + 2),
     i_minor := get16 d (off + 4), i_nlink := get16 d (off + 6), i_size := get32 d (off + 8),
     i_addrs := (\<lambda>k. if k \<le> NDIRECT then get32 d (off + 12 + 4 * k) else i_addrs n k)\<rparr>"

definition iupdate :: "nat \<Rightarrow> ('x fs_state_scheme, unit) km" where
  "iupdate ip =
     bindM (inode_at ip) (\<lambda>n.
     bindM (getM sb) (\<lambda>v.
     bindM (bread (i_dev n) (IBLOCK (i_inum n) v)) (\<lambda>bp.
     bindM (data_of bp) (\<lambda>d.
     bindM (inode_at ip) (\<lambda>n. doM [
       set_data bp (splice d (dinode_off (i_inum n)) (dinode_bytes n)),
       log_write bp,
       brelse bp])))))"

definition idup :: "nat \<Rightarrow> ('x fs_state_scheme, nat) km" where
  "idup ip =
     seqM (acquire L_itable)
     (seqM (upd_inode ip (\<lambda>n. n\<lparr>i_ref := i_ref n + 1\<rparr>))
     (seqM (release L_itable)
     (retM ip)))"

definition ilock :: "nat \<Rightarrow> ('x fs_state_scheme, unit) km" where
  "ilock ip = doM [
     panic_ifM (\<lambda>s. i_ref (inodes s ip) < 1) ''ilock'',
     acquiresleep (SL_inode ip),
     ifM (\<lambda>s. \<not> i_valid (inodes s ip))
       (bindM (inode_at ip) (\<lambda>n.
        bindM (getM sb) (\<lambda>v.
        bindM (bread (i_dev n) (IBLOCK (i_inum n) v)) (\<lambda>bp.
        bindM (data_of bp) (\<lambda>d. doM [
          upd_inode ip (load_dinode d (dinode_off (i_inum n))),
          brelse bp,
          upd_inode ip (i_valid_update (\<lambda>_. True)),
          panic_ifM (\<lambda>s. i_type (inodes s ip) = 0) ''ilock: no type''])))))
       skipM]"

definition iunlock :: "nat \<Rightarrow> ('x fs_state_scheme, unit) km" where
  "iunlock ip =
     bindM (holdingsleep (SL_inode ip)) (\<lambda>h.
     seqM (panic_ifM (\<lambda>s. \<not> h \<or> i_ref (inodes s ip) < 1) ''iunlock'')
     (releasesleep (SL_inode ip)))"

section \<open>Inode content\<close>

definition set_addr :: "nat \<Rightarrow> nat \<Rightarrow> u32 \<Rightarrow> ('x fs_state_scheme, unit) km" where
  "set_addr ip k a = upd_inode ip (\<lambda>n. n\<lparr>i_addrs := (i_addrs n)(k := a)\<rparr>)"

text \<open>\<open>if((addr = ip->addrs[k]) == 0) ip->addrs[k] = addr = balloc(ip->dev);\<close>\<close>

definition addr_or_alloc :: "nat \<Rightarrow> nat \<Rightarrow> ('x fs_state_scheme, u32) km" where
  "addr_or_alloc ip k =
     bindM (inode_at ip) (\<lambda>n.
     if i_addrs n k = 0 then
       bindM (balloc (i_dev n)) (\<lambda>a. seqM (set_addr ip k a) (retM a))
     else retM (i_addrs n k))"

definition bmap :: "nat \<Rightarrow> u32 \<Rightarrow> ('x fs_state_scheme, u32) km" where
  "bmap ip bn0 =
     (if unat bn0 < NDIRECT then addr_or_alloc ip (unat bn0)
      else let bn = unat (bn0 - of_nat NDIRECT) in
        if bn < NINDIRECT then
          bindM (addr_or_alloc ip NDIRECT) (\<lambda>ind.
          bindM (inode_at ip) (\<lambda>n.
          bindM (bread (i_dev n) ind) (\<lambda>bp.
          bindM (data_of bp) (\<lambda>d.
          bindM (if get32 d (4 * bn) = 0 then
              bindM (balloc (i_dev n)) (\<lambda>a.
              bindM (data_of bp) (\<lambda>d.
              seqM (set_data bp (put32 d (4 * bn) a))
             (seqM (log_write bp)
             (retM a))))
            else retM (get32 d (4 * bn))) (\<lambda>addr.
          seqM (brelse bp) (retM addr))))))
        else panicM ''bmap: out of range'')"

definition itrunc :: "nat \<Rightarrow> ('x fs_state_scheme, unit) km" where
  "itrunc ip = doM [
     eachM [0..<NDIRECT] (\<lambda>i.
       ifM (\<lambda>s. i_addrs (inodes s ip) i \<noteq> 0)
         (bindM (inode_at ip) (\<lambda>n. seqM (bfree (i_dev n) (i_addrs n i)) (set_addr ip i 0)))
         skipM),
     ifM (\<lambda>s. i_addrs (inodes s ip) NDIRECT \<noteq> 0)
       (bindM (inode_at ip) (\<lambda>n.
        bindM (bread (i_dev n) (i_addrs n NDIRECT)) (\<lambda>bp. doM [
          eachM [0..<NINDIRECT] (\<lambda>j. bindM (data_of bp) (\<lambda>a.
            whenM (get32 a (4 * j) \<noteq> 0)
              (bindM (inode_at ip) (\<lambda>n. bfree (i_dev n) (get32 a (4 * j)))))),
          brelse bp,
          bindM (inode_at ip) (\<lambda>n. bfree (i_dev n) (i_addrs n NDIRECT)),
          set_addr ip NDIRECT 0])))
       skipM,
     upd_inode ip (i_size_update (\<lambda>_. 0)),
     iupdate ip]"

definition iput :: "nat \<Rightarrow> ('x fs_state_scheme, unit) km" where
  "iput ip = doM [
     acquire L_itable,
     ifM (\<lambda>s. i_ref (inodes s ip) = 1 \<and> i_valid (inodes s ip) \<and> i_nlink (inodes s ip) = 0)
       (doM [
         acquiresleep (SL_inode ip),
         release L_itable,
         itrunc ip,
         upd_inode ip (i_type_update (\<lambda>_. 0)),
         iupdate ip,
         upd_inode ip (i_valid_update (\<lambda>_. False)),
         releasesleep (SL_inode ip),
         acquire L_itable])
       skipM,
     upd_inode ip (\<lambda>n. n\<lparr>i_ref := i_ref n - 1\<rparr>),
     release L_itable]"

definition iunlockput :: "nat \<Rightarrow> ('x fs_state_scheme, unit) km" where
  "iunlockput ip = seqM (iunlock ip) (iput ip)"

text \<open>
  The bytes of the \<open>struct stat\<close> that \<open>stati\<close> fills. Four bytes of padding precede \<open>size\<close>; the C code
  leaves there what was on the stack, here they are 0.
\<close>

definition stati :: "inode \<Rightarrow> u8 list" where
  "stati n = le_bytes 4 (i_dev n) @ le_bytes 4 (i_inum n) @ le_bytes 2 (i_type n) @
     le_bytes 2 (i_nlink n) @ replicate 4 0 @ le_bytes 8 (ucast (i_size n) :: u64)"

text \<open>
  One round of the loop of \<open>readi\<close>. \<open>out\<close> are the bytes a kernel variable has received so
  far, which is its value for the caller when the destination is one.
\<close>

definition readi_body :: "nat \<Rightarrow> dest \<Rightarrow> u32 \<Rightarrow> u32 \<times> u32 \<times> u8 list \<Rightarrow>
    ('x fs_state_scheme, u32 \<times> u32 \<times> u8 list + u32 \<times> u8 list) km" where
  "readi_body ip dst n = (\<lambda>(tot, off, out).
     if tot < n then
       bindM (bmap ip (off div 1024)) (\<lambda>addr.
       bindM (inode_at ip) (\<lambda>v.
       bindM (bread (i_dev v) addr) (\<lambda>bp.
       bindM (data_of bp) (\<lambda>d.
       let m = min (n - tot) (1024 - off mod 1024);
           bytes = take (unat m) (drop (unat (off mod 1024)) d) in
       bindM (either_copyout dst (ucast tot) bytes) (\<lambda>ok.
       seqM (brelse bp)
       (if ok then retM (Inl (tot + m, off + m, out @ bytes))
        else retM (Inr (- 1, out))))))))
     else retM (Inr (tot, out)))"

definition readi :: "nat \<Rightarrow> dest \<Rightarrow> u32 \<Rightarrow> u32 \<Rightarrow> ('x fs_state_scheme, u32 \<times> u8 list) km" where
  "readi ip dst off n =
     bindM (inode_at ip) (\<lambda>v.
     if off > i_size v \<or> off + n < off then retM (0, [])
     else loopM (readi_body ip dst (if off + n > i_size v then i_size v - off else n)) (0, off, []))"

text \<open>A failing \<open>copyin\<close> leaves in the buffer the bytes it copied before the failure.\<close>

definition writei_body :: "nat \<Rightarrow> source \<Rightarrow> u32 \<Rightarrow> u32 \<times> u32 \<Rightarrow>
    ('x fs_state_scheme, u32 \<times> u32 + u32 \<times> u32) km" where
  "writei_body ip src n = (\<lambda>(tot, off).
     if tot < n then
       bindM (bmap ip (off div 1024)) (\<lambda>addr.
       bindM (inode_at ip) (\<lambda>v.
       bindM (bread (i_dev v) addr) (\<lambda>bp.
       let m = min (n - tot) (1024 - off mod 1024) in
       bindM (either_copyin src (ucast tot) (unat m)) (\<lambda>(bytes, ok).
       bindM (data_of bp) (\<lambda>d.
       seqM (set_data bp (splice d (unat (off mod 1024)) bytes))
       (if ok then seqM (log_write bp) (seqM (brelse bp) (retM (Inl (tot + m, off + m))))
        else seqM (brelse bp) (retM (Inr (tot, off)))))))))
     else retM (Inr (tot, off)))"

definition writei :: "nat \<Rightarrow> source \<Rightarrow> u32 \<Rightarrow> u32 \<Rightarrow> ('x fs_state_scheme, u32) km" where
  "writei ip src off n =
     bindM (inode_at ip) (\<lambda>v.
     if off > i_size v \<or> off + n < off then retM (- 1)
     else if off + n > of_nat (MAXFILE * BSIZE) then retM (- 1)
     else bindM (loopM (writei_body ip src n) (0, off)) (\<lambda>(tot, off).
       seqM (ifM (\<lambda>s. off > i_size (inodes s ip)) (upd_inode ip (i_size_update (\<lambda>_. off))) skipM)
      (seqM (iupdate ip)
      (retM tot))))"

section \<open>Directories\<close>

text \<open>
  Names are the bytes from a \<open>char*\<close> on; \<open>namecmp\<close> looks at most at \<open>DIRSIZ\<close> of them. A
  name that ends before its terminator is padded with NULs, as are the callers' literals.
\<close>

definition namecmp :: "u8 list \<Rightarrow> u8 list \<Rightarrow> int" where
  "namecmp s t = (case strncmp (s @ [0]) (t @ [0]) DIRSIZ of Some r \<Rightarrow> r | None \<Rightarrow> 0)"

definition dirlookup_body :: "nat \<Rightarrow> u8 list \<Rightarrow> u32 \<Rightarrow>
    ('x fs_state_scheme, u32 + (nat \<times> u32) option) km" where
  "dirlookup_body dp name off =
     ifM (\<lambda>s. off < i_size (inodes s dp))
       (bindM (readi dp To_var off 16) (\<lambda>(r, de).
        if r \<noteq> 16 then panicM ''dirlookup read''
        else if get16 de 0 = 0 then retM (Inl (off + 16))
        else if namecmp name (drop 2 de) = 0 then
          bindM (inode_at dp) (\<lambda>n.
          bindM (iget (i_dev n) (ucast (get16 de 0))) (\<lambda>ip.
          retM (Inr (Some (ip, off)))))
        else retM (Inl (off + 16))))
       (retM (Inr None))"

text \<open>\<open>dirlookup\<close> returns the entry's inode and the offset it stores through \<open>poff\<close>.\<close>

definition dirlookup :: "nat \<Rightarrow> u8 list \<Rightarrow> ('x fs_state_scheme, (nat \<times> u32) option) km" where
  "dirlookup dp name =
     seqM (panic_ifM (\<lambda>s. i_type (inodes s dp) \<noteq> T_DIR) ''dirlookup not DIR'')
     (loopM (dirlookup_body dp name) 0)"

definition dirlink_body :: "nat \<Rightarrow> u32 \<Rightarrow> ('x fs_state_scheme, u32 + u32) km" where
  "dirlink_body dp off =
     ifM (\<lambda>s. off < i_size (inodes s dp))
       (bindM (readi dp To_var off 16) (\<lambda>(r, de).
        if r \<noteq> 16 then panicM ''dirlink read''
        else if get16 de 0 = 0 then retM (Inr off)
        else retM (Inl (off + 16))))
       (retM (Inr off))"

definition dirent_bytes :: "u8 list \<Rightarrow> u32 \<Rightarrow> u8 list" where
  "dirent_bytes name inum = le_bytes 2 (ucast inum :: u16) @
     (case strncpy (name @ [0]) DIRSIZ of Some bs \<Rightarrow> bs | None \<Rightarrow> [])"

definition dirlink :: "nat \<Rightarrow> u8 list \<Rightarrow> u32 \<Rightarrow> ('x fs_state_scheme, bool) km" where
  "dirlink dp name inum =
     bindM (dirlookup dp name) (\<lambda>found. case found of
       Some (ip, _) \<Rightarrow> seqM (iput ip) (retM False)
     | None \<Rightarrow>
         bindM (loopM (dirlink_body dp) 0) (\<lambda>off.
         bindM (writei dp (From_var (dirent_bytes name inum)) off 16) (\<lambda>r.
         if r \<noteq> 16 then panicM ''dirlink'' else retM True)))"

section \<open>Paths\<close>

text \<open>
  A path is the bytes of the string before its NUL; \<open>name\<close> is the caller's buffer of
  \<open>DIRSIZ\<close> bytes. \<open>None\<close> is the null pointer.
\<close>

abbreviation (input) slash :: u8 where "slash \<equiv> 0x2F"

definition skipelem :: "u8 list \<Rightarrow> u8 list \<Rightarrow> (u8 list \<times> u8 list) option" where
  "skipelem path name =
     (let s = dropWhile (\<lambda>c. c = slash) path in
      if s = [] then None
      else let elem = takeWhile (\<lambda>c. c \<noteq> slash) s;
               rest = dropWhile (\<lambda>c. c \<noteq> slash) s;
               name' = if length elem \<ge> DIRSIZ then splice name 0 (take DIRSIZ elem)
                       else splice name 0 (elem @ [0])
           in Some (dropWhile (\<lambda>c. c = slash) rest, name'))"

definition namex_body :: "bool \<Rightarrow> nat \<times> u8 list \<times> u8 list \<Rightarrow>
    ('x fs_state_scheme, nat \<times> u8 list \<times> u8 list + nat option \<times> u8 list) km" where
  "namex_body parent = (\<lambda>(ip, path, name). case skipelem path name of
     None \<Rightarrow> if parent then seqM (iput ip) (retM (Inr (None, name))) else retM (Inr (Some ip, name))
   | Some (rest, name') \<Rightarrow>
       seqM (ilock ip)
       (ifM (\<lambda>s. i_type (inodes s ip) \<noteq> T_DIR)
         (seqM (iunlockput ip) (retM (Inr (None, name'))))
       (if parent \<and> rest = [] then seqM (iunlock ip) (retM (Inr (Some ip, name')))
        else bindM (dirlookup ip name') (\<lambda>r. case r of
          None \<Rightarrow> seqM (iunlockput ip) (retM (Inr (None, name')))
        | Some (nxt, _) \<Rightarrow> seqM (iunlockput ip) (retM (Inl (nxt, rest, name')))))))"

definition namex :: "u8 list \<Rightarrow> bool \<Rightarrow> u8 list \<Rightarrow> ('x fs_state_scheme, nat option \<times> u8 list) km" where
  "namex path parent name =
     bindM (if take 1 path = [slash] then iget ROOTDEV ROOTINO
            else bindM myproc (\<lambda>p. bindM (getM (\<lambda>s. p_cwd (procs s p))) (\<lambda>c. case c of
              None \<Rightarrow> null_fault
            | Some d \<Rightarrow> idup d))) (\<lambda>ip.
     loopM (namex_body parent) (ip, path, name))"

definition namei :: "u8 list \<Rightarrow> ('x fs_state_scheme, nat option) km" where
  "namei path = bindM (namex path False (replicate DIRSIZ 0)) (\<lambda>(ip, _). retM ip)"

text \<open>\<open>nameiparent\<close> also returns the caller's buffer, with the final path element in it.\<close>

definition nameiparent :: "u8 list \<Rightarrow> u8 list \<Rightarrow> ('x fs_state_scheme, nat option \<times> u8 list) km" where
  "nameiparent path name = namex path True name"

end
