(* ===== verification/Uart.thy ===== *)
theory Uart
  imports Fs
begin

text \<open>
  The serial line and the interrupt controller: \<^verbatim>\<open>kernel/uart.c\<close> (all but the interrupt
  handler, which needs the console) and \<^verbatim>\<open>kernel/plic.c\<close>. The devices are not part of the
  program. What the UART answers is a field of the state: \<open>uart_in k r\<close> is the value the
  \<open>k\<close>-th register read gives when it reads register \<open>r\<close>, and \<open>uart_log\<close> collects the register
  writes. The PLIC is treated alike. The globals of \<^verbatim>\<open>kernel/printf.c\<close> and
  \<^verbatim>\<open>kernel/console.c\<close> are declared here too, since the three files share one state.
\<close>

section \<open>State\<close>

abbreviation (input) UART_TX_BUF_SIZE :: nat where "UART_TX_BUF_SIZE \<equiv> 32"
abbreviation (input) INPUT_BUF :: nat where "INPUT_BUF \<equiv> 128"
abbreviation (input) RHR :: nat where "RHR \<equiv> 0"
abbreviation (input) THR :: nat where "THR \<equiv> 0"
abbreviation (input) IER :: nat where "IER \<equiv> 1"
abbreviation (input) FCR :: nat where "FCR \<equiv> 2"
abbreviation (input) LCR :: nat where "LCR \<equiv> 3"
abbreviation (input) LSR :: nat where "LSR \<equiv> 5"
abbreviation (input) LSR_RX_READY :: u8 where "LSR_RX_READY \<equiv> 1"
abbreviation (input) LSR_TX_IDLE :: u8 where "LSR_TX_IDLE \<equiv> 32"
abbreviation (input) UART0_IRQ :: u32 where "UART0_IRQ \<equiv> 10"
abbreviation (input) VIRTIO0_IRQ :: u32 where "VIRTIO0_IRQ \<equiv> 1"

text \<open>The functions an entry of \<open>devsw\<close> can point to.\<close>

datatype devfn = Dev_console

record dev_state = fs_state +
  uart_tx_buf :: "nat \<Rightarrow> u8"
  uart_tx_w :: u64
  uart_tx_r :: u64
  uart_in :: "nat \<Rightarrow> nat \<Rightarrow> u8"
  uart_nread :: nat
  uart_log :: "(nat \<times> u8) list"
  panicked :: bool
  pr_locking :: bool
  cons_buf :: "nat \<Rightarrow> u8"
  cons_r :: u32
  cons_w :: u32
  cons_e :: u32
  devsw_read :: "nat \<Rightarrow> devfn option"
  devsw_write :: "nat \<Rightarrow> devfn option"
  plic_in :: "nat \<Rightarrow> u32"
  plic_nclaim :: nat
  plic_log :: "(u64 \<times> u32) list"
  tp :: u64

definition ReadReg :: "nat \<Rightarrow> ('x dev_state_scheme, u8) km" where
  "ReadReg r = bindM (getM (\<lambda>s. uart_in s (uart_nread s) r)) (\<lambda>v.
     seqM (modM (\<lambda>s. s\<lparr>uart_nread := Suc (uart_nread s)\<rparr>)) (retM v))"

definition WriteReg :: "nat \<Rightarrow> u8 \<Rightarrow> ('x dev_state_scheme, unit) km" where
  "WriteReg r v = modM (\<lambda>s. s\<lparr>uart_log := uart_log s @ [(r, v)]\<rparr>)"

text \<open>\<open>for(;;);\<close>\<close>

definition hang :: "('s, 'a) km" where
  "hang = (\<lambda>env s. Diverge)"

section \<open>UART\<close>

definition uartinit :: "('x dev_state_scheme, unit) km" where
  "uartinit = doM [
     WriteReg IER 0x00,
     WriteReg LCR 0x80,
     WriteReg 0 0x03,
     WriteReg 1 0x00,
     WriteReg LCR 3,
     WriteReg FCR (1 OR 6),
     WriteReg IER (2 OR 1)]"

definition uartstart_body :: "unit \<Rightarrow> ('x dev_state_scheme, unit + unit) km" where
  "uartstart_body _ =
     ifM (\<lambda>s. uart_tx_w s = uart_tx_r s) (retM (Inr ()))
     (bindM (ReadReg LSR) (\<lambda>lsr.
      if lsr AND LSR_TX_IDLE = 0 then retM (Inr ())
      else
        bindM (getM (\<lambda>s. uart_tx_buf s (unat (uart_tx_r s) mod UART_TX_BUF_SIZE))) (\<lambda>c.
        seqM (doM [
          modM (\<lambda>s. s\<lparr>uart_tx_r := uart_tx_r s + 1\<rparr>),
          wakeup Ch_uart_tx_r,
          WriteReg THR c])
        (retM (Inl ())))))"

definition uartstart :: "('x dev_state_scheme, unit) km" where
  "uartstart = loopM uartstart_body ()"

definition uartputc_body :: "u8 \<Rightarrow> unit \<Rightarrow> ('x dev_state_scheme, unit + unit) km" where
  "uartputc_body c _ =
     ifM (\<lambda>s. uart_tx_w s = uart_tx_r s + of_nat UART_TX_BUF_SIZE)
       (seqM (sleep Ch_uart_tx_r L_uart) (retM (Inl ())))
       (seqM (doM [
         modM (\<lambda>s. s\<lparr>uart_tx_buf :=
           (uart_tx_buf s)(unat (uart_tx_w s) mod UART_TX_BUF_SIZE := c)\<rparr>),
         modM (\<lambda>s. s\<lparr>uart_tx_w := uart_tx_w s + 1\<rparr>),
         uartstart,
         release L_uart])
       (retM (Inr ())))"

definition uartputc :: "u8 \<Rightarrow> ('x dev_state_scheme, unit) km" where
  "uartputc c = doM [
     acquire L_uart,
     ifM panicked hang skipM,
     loopM (uartputc_body c) ()]"

text \<open>
  \<open>push_off\<close> and \<open>pop_off\<close> have no effect on the held-lock view. The argument is truncated to
  a byte by the store to the register.
\<close>

definition uartputc_sync :: "u32 \<Rightarrow> ('x dev_state_scheme, unit) km" where
  "uartputc_sync c = doM [
     ifM panicked hang skipM,
     loopM (\<lambda>_. bindM (ReadReg LSR) (\<lambda>lsr.
       if lsr AND LSR_TX_IDLE = 0 then retM (Inl ()) else retM (Inr ()))) (),
     WriteReg THR (ucast c)]"

text \<open>\<open>None\<close> is the result -1.\<close>

definition uartgetc :: "('x dev_state_scheme, u8 option) km" where
  "uartgetc =
     bindM (ReadReg LSR) (\<lambda>lsr.
     if lsr AND LSR_RX_READY \<noteq> 0 then bindM (ReadReg RHR) (\<lambda>c. retM (Some c))
     else retM None)"

section \<open>Interrupt controller\<close>

definition cpuid :: "('x dev_state_scheme, u32) km" where
  "cpuid = getM (\<lambda>s. ucast (tp s))"

definition plic_write :: "u64 \<Rightarrow> u32 \<Rightarrow> ('x dev_state_scheme, unit) km" where
  "plic_write a v = modM (\<lambda>s. s\<lparr>plic_log := plic_log s @ [(a, v)]\<rparr>)"

definition PLIC_SENABLE :: "u32 \<Rightarrow> u64" where
  "PLIC_SENABLE hart = PLIC + 0x2080 + scast hart * 0x100"

definition PLIC_SPRIORITY :: "u32 \<Rightarrow> u64" where
  "PLIC_SPRIORITY hart = PLIC + 0x201000 + scast hart * 0x2000"

definition PLIC_SCLAIM :: "u32 \<Rightarrow> u64" where
  "PLIC_SCLAIM hart = PLIC + 0x201004 + scast hart * 0x2000"

definition plicinit :: "('x dev_state_scheme, unit) km" where
  "plicinit = doM [
     plic_write (PLIC + ucast UART0_IRQ * 4) 1,
     plic_write (PLIC + ucast VIRTIO0_IRQ * 4) 1]"

definition plicinithart :: "('x dev_state_scheme, unit) km" where
  "plicinithart = bindM cpuid (\<lambda>hart. doM [
     plic_write (PLIC_SENABLE hart) (push_bit (unat UART0_IRQ) 1 OR push_bit (unat VIRTIO0_IRQ) 1),
     plic_write (PLIC_SPRIORITY hart) 0])"

text \<open>\<open>plic_in k\<close> is what the \<open>k\<close>-th read of the claim register returns.\<close>

definition plic_claim :: "('x dev_state_scheme, u32) km" where
  "plic_claim = bindM (getM (\<lambda>s. plic_in s (plic_nclaim s))) (\<lambda>irq.
     seqM (modM (\<lambda>s. s\<lparr>plic_nclaim := Suc (plic_nclaim s)\<rparr>)) (retM irq))"

definition plic_complete :: "u32 \<Rightarrow> ('x dev_state_scheme, unit) km" where
  "plic_complete irq = bindM cpuid (\<lambda>hart. plic_write (PLIC_SCLAIM hart) irq)"

end
