(* ===== verification/Console.thy ===== *)
theory Console
  imports Uart
begin

text \<open>
  Kernel output and console input: \<^verbatim>\<open>kernel/printf.c\<close>, \<open>procdump\<close> of \<^verbatim>\<open>kernel/proc.c\<close>,
  \<^verbatim>\<open>kernel/console.c\<close> and the interrupt handler of \<^verbatim>\<open>kernel/uart.c\<close>.
\<close>

section \<open>printf\<close>

abbreviation (input) BACKSPACE :: u32 where "BACKSPACE \<equiv> 0x100"

definition consputc :: "u32 \<Rightarrow> ('x dev_state_scheme, unit) km" where
  "consputc c =
     (if c = BACKSPACE then doM [uartputc_sync 8, uartputc_sync 32, uartputc_sync 8]
      else uartputc_sync c)"

definition digits :: "u8 list" where
  "digits = ascii ''0123456789abcdef''"

text \<open>
  \<open>digit_buf\<close> is the \<open>do ... while\<close> loop: the digits it puts into \<open>buf\<close>, in the order of
  the array (every caller passes base 10 or 16). \<open>printint_text\<close> is what is then sent, last element first.
\<close>

function digit_buf :: "nat \<Rightarrow> nat \<Rightarrow> u8 list" where
  "digit_buf base x = (digits ! (x mod base)) #
     (if 2 \<le> base \<and> x div base \<noteq> 0 then digit_buf base (x div base) else [])"
  by auto
termination
  by (relation "measure snd") (auto simp: div_greater_zero_iff)

declare digit_buf.simps [simp del]

definition printint_text :: "u32 \<Rightarrow> nat \<Rightarrow> bool \<Rightarrow> u8 list" where
  "printint_text xx base sign =
     (let neg = sign \<and> sint xx < 0;
          x = if neg then - xx else xx
      in rev (digit_buf base (unat x) @ (if neg then [0x2D] else [])))"

definition printint :: "u32 \<Rightarrow> nat \<Rightarrow> bool \<Rightarrow> ('x dev_state_scheme, unit) km" where
  "printint xx base sign = eachM (printint_text xx base sign) (\<lambda>c. consputc (ucast c))"

definition printptr :: "u64 \<Rightarrow> ('x dev_state_scheme, unit) km" where
  "printptr x = doM [
     consputc 0x30,
     consputc 0x78,
     eachM [0..<16] (\<lambda>i. consputc (ucast (digits ! unat (drop_bit 60 (push_bit (4 * i) x)))))]"

text \<open>
  The variable arguments. A format that asks for an argument the caller did not pass, or passed
  with another type, has undefined behaviour in C; the model stops.
\<close>

datatype parg = A_int u32 | A_ptr u64 | A_str "u8 list option"

definition put_chars :: "u8 list \<Rightarrow> ('x dev_state_scheme, unit) km" where
  "put_chars cs = eachM cs (\<lambda>c. consputc (ucast c))"

text \<open>The character codes of \<open>%\<close>, \<open>d\<close>, \<open>x\<close>, \<open>p\<close>, \<open>s\<close> are 37, 100, 120, 112, 115.\<close>

fun printf_loop :: "u8 list \<Rightarrow> parg list \<Rightarrow> ('x dev_state_scheme, unit) km" where
  "printf_loop [] ap = skipM"
| "printf_loop [c] ap =
     (if c \<noteq> 37 then consputc (ucast c) else skipM)"
| "printf_loop (c # d # fmt) ap =
     (if c \<noteq> 37 then seqM (consputc (ucast c)) (printf_loop (d # fmt) ap)
      else if d = 100 then (case ap of
          A_int v # ap' \<Rightarrow> seqM (printint v 10 True) (printf_loop fmt ap')
        | _ \<Rightarrow> panicM ''va_arg'')
      else if d = 120 then (case ap of
          A_int v # ap' \<Rightarrow> seqM (printint v 16 True) (printf_loop fmt ap')
        | _ \<Rightarrow> panicM ''va_arg'')
      else if d = 112 then (case ap of
          A_ptr v # ap' \<Rightarrow> seqM (printptr v) (printf_loop fmt ap')
        | _ \<Rightarrow> panicM ''va_arg'')
      else if d = 115 then (case ap of
          A_str v # ap' \<Rightarrow>
            seqM (put_chars (case v of None \<Rightarrow> ascii ''(null)'' | Some t \<Rightarrow> t)) (printf_loop fmt ap')
        | _ \<Rightarrow> panicM ''va_arg'')
      else if d = 37 then seqM (consputc 37) (printf_loop fmt ap)
      else seqM (consputc 37) (seqM (consputc (ucast d)) (printf_loop fmt ap)))"

definition printf :: "u8 list \<Rightarrow> parg list \<Rightarrow> ('x dev_state_scheme, unit) km" where
  "printf fmt ap =
     bindM (getM pr_locking) (\<lambda>locking. doM [
       whenM locking (acquire L_pr),
       printf_loop fmt ap,
       whenM locking (release L_pr)])"

text \<open>
  What \<open>panic\<close> itself does; in the rest of the development a call of it is the outcome
  \<open>Panic\<close>. The message is used as a format, as in the C code.
\<close>

definition panic_print :: "u8 list \<Rightarrow> ('x dev_state_scheme, unit) km" where
  "panic_print msg = doM [
     modM (\<lambda>s. s\<lparr>pr_locking := False\<rparr>),
     printf (ascii ''panic: '') [],
     printf msg [],
     printf [10] [],
     modM (\<lambda>s. s\<lparr>panicked := True\<rparr>),
     hang]"

definition printfinit :: "('x dev_state_scheme, unit) km" where
  "printfinit = modM (\<lambda>s. s\<lparr>pr_locking := True\<rparr>)"

definition state_name :: "procstate \<Rightarrow> u8 list" where
  "state_name st = (case st of
     UNUSED \<Rightarrow> ascii ''unused'' | USED \<Rightarrow> ascii ''???'' | SLEEPING \<Rightarrow> ascii ''sleep ''
   | RUNNABLE \<Rightarrow> ascii ''runble'' | RUNNING \<Rightarrow> ascii ''run   '' | ZOMBIE \<Rightarrow> ascii ''zombie'')"

definition procdump :: "('x dev_state_scheme, unit) km" where
  "procdump = doM [
     printf [10] [],
     eachM [0..<NPROC] (\<lambda>p.
       ifM (\<lambda>s. p_state (procs s p) = UNUSED) skipM
       (bindM (getM (\<lambda>s. procs s p)) (\<lambda>v. doM [
         printf (ascii ''%d %s %s'')
           [A_int (p_pid v), A_str (Some (state_name (p_state v))), A_str (Some (cstr (p_name v)))],
         printf [10] []])))]"

section \<open>Console\<close>

definition consolewrite_body :: "source \<Rightarrow> u32 \<Rightarrow> nat \<Rightarrow> ('x dev_state_scheme, nat + u32) km" where
  "consolewrite_body src n i =
     (if int i < sint n then
        bindM (either_copyin src (of_nat i) 1) (\<lambda>(c, ok).
        if \<not> ok then retM (Inr (of_nat i))
        else seqM (uartputc (hd c)) (retM (Inl (Suc i))))
      else retM (Inr (of_nat i)))"

definition consolewrite :: "source \<Rightarrow> u32 \<Rightarrow> ('x dev_state_scheme, u32) km" where
  "consolewrite src n = loopM (consolewrite_body src n) 0"

text \<open>The inner loop of \<open>consoleread\<close>; \<open>False\<close> is its \<open>return -1\<close>.\<close>

definition cons_wait_body :: "unit \<Rightarrow> ('x dev_state_scheme, unit + bool) km" where
  "cons_wait_body _ =
     ifM (\<lambda>s. cons_r s = cons_w s)
       (bindM myproc (\<lambda>p. ifM (\<lambda>s. p_killed (procs s p))
         (seqM (release L_cons) (retM (Inr False)))
         (seqM (sleep Ch_cons_r L_cons) (retM (Inl ())))))
       (retM (Inr True))"

definition consoleread_body :: "dest \<Rightarrow> u32 \<Rightarrow> u32 \<Rightarrow> ('x dev_state_scheme, u32 + u32 option) km" where
  "consoleread_body dst target n =
     (if sint n > 0 then
        bindM (loopM cons_wait_body ()) (\<lambda>ok.
        if \<not> ok then retM (Inr None)
        else
          bindM (getM (\<lambda>s. cons_buf s (unat (cons_r s) mod INPUT_BUF))) (\<lambda>c.
          seqM (modM (\<lambda>s. s\<lparr>cons_r := cons_r s + 1\<rparr>))
          (if c = 4 then
             seqM (whenM (n < target) (modM (\<lambda>s. s\<lparr>cons_r := cons_r s - 1\<rparr>))) (retM (Inr (Some n)))
           else
             bindM (either_copyout dst (ucast (target - n)) [c]) (\<lambda>ok.
             if \<not> ok then retM (Inr (Some n))
             else if c = 10 then retM (Inr (Some (n - 1)))
             else retM (Inl (n - 1))))))
      else retM (Inr (Some n)))"

definition consoleread :: "dest \<Rightarrow> u32 \<Rightarrow> ('x dev_state_scheme, u32) km" where
  "consoleread dst n =
     seqM (acquire L_cons)
     (bindM (loopM (consoleread_body dst n) n) (\<lambda>r. case r of
        None \<Rightarrow> retM (- 1)
      | Some left \<Rightarrow> seqM (release L_cons) (retM (n - left))))"

definition kill_line_body :: "unit \<Rightarrow> ('x dev_state_scheme, unit + unit) km" where
  "kill_line_body _ =
     ifM (\<lambda>s. cons_e s \<noteq> cons_w s \<and> cons_buf s (unat (cons_e s - 1) mod INPUT_BUF) \<noteq> 10)
       (seqM (modM (\<lambda>s. s\<lparr>cons_e := cons_e s - 1\<rparr>))
       (seqM (consputc BACKSPACE) (retM (Inl ()))))
       (retM (Inr ()))"

definition store_input :: "u8 \<Rightarrow> ('x dev_state_scheme, unit) km" where
  "store_input c = doM [
     consputc (ucast c),
     modM (\<lambda>s. s\<lparr>cons_buf := (cons_buf s)(unat (cons_e s) mod INPUT_BUF := c)\<rparr>),
     modM (\<lambda>s. s\<lparr>cons_e := cons_e s + 1\<rparr>),
     ifM (\<lambda>s. c = 10 \<or> c = 4 \<or> cons_e s = cons_r s + of_nat INPUT_BUF)
       (doM [
         modM (\<lambda>s. s\<lparr>cons_w := cons_e s\<rparr>),
         wakeup Ch_cons_r])
       skipM]"

text \<open>Control-P, -U, -H, -D are 16, 21, 8, 4; delete is 127, carriage return 13, newline 10.\<close>

definition consoleintr :: "u8 \<Rightarrow> ('x dev_state_scheme, unit) km" where
  "consoleintr c = doM [
     acquire L_cons,
     if c = 16 then procdump
     else if c = 21 then loopM kill_line_body ()
     else if c = 8 \<or> c = 127 then
       ifM (\<lambda>s. cons_e s \<noteq> cons_w s)
         (seqM (modM (\<lambda>s. s\<lparr>cons_e := cons_e s - 1\<rparr>)) (consputc BACKSPACE))
         skipM
     else
       ifM (\<lambda>s. c \<noteq> 0 \<and> cons_e s - cons_r s < of_nat INPUT_BUF)
         (store_input (if c = 13 then 10 else c))
         skipM,
     release L_cons]"

definition consoleinit :: "('x dev_state_scheme, unit) km" where
  "consoleinit = doM [
     uartinit,
     modM (\<lambda>s. s\<lparr>devsw_read := (devsw_read s)(1 := Some Dev_console)\<rparr>),
     modM (\<lambda>s. s\<lparr>devsw_write := (devsw_write s)(1 := Some Dev_console)\<rparr>)]"

definition uartintr :: "('x dev_state_scheme, unit) km" where
  "uartintr = doM [
     loopM (\<lambda>_. bindM uartgetc (\<lambda>c. case c of
       None \<Rightarrow> retM (Inr ())
     | Some b \<Rightarrow> seqM (consoleintr b) (retM (Inl ())))) (),
     acquire L_uart,
     uartstart,
     release L_uart]"

end
