(* ===== verification/File.thy ===== *)
theory File
  imports Console
begin

text \<open>
  Pipes and the open-file table, \<^verbatim>\<open>kernel/pipe.c\<close> and \<^verbatim>\<open>kernel/file.c\<close>. A pipe is a page from
  \<open>kalloc\<close> used as a \<open>struct pipe\<close>; the structure is kept in a typed store at the page's
  address. C \<open>int\<close> results are 32-bit words, with -1 for an error.
\<close>

section \<open>Data\<close>

abbreviation (input) PIPESIZE :: nat where "PIPESIZE \<equiv> 512"

record pipe =
  pi_data :: "nat \<Rightarrow> u8"
  pi_nread :: u32
  pi_nwrite :: u32
  pi_readopen :: bool
  pi_writeopen :: bool

datatype ftype = FD_NONE | FD_PIPE | FD_INODE | FD_DEVICE

record kfile =
  f_type :: ftype
  f_ref :: int
  f_readable :: bool
  f_writable :: bool
  f_pipe :: u64
  f_ip :: nat
  f_off :: u32
  f_major :: u16

record file_state = dev_state +
  files :: "nat \<Rightarrow> kfile"
  pipes :: "u64 \<Rightarrow> pipe"

definition upd_file :: "nat \<Rightarrow> (kfile \<Rightarrow> kfile) \<Rightarrow> ('x file_state_scheme, unit) km" where
  "upd_file f g = modM (\<lambda>s. s\<lparr>files := (files s)(f := g (files s f))\<rparr>)"

definition upd_pipe :: "u64 \<Rightarrow> (pipe \<Rightarrow> pipe) \<Rightarrow> ('x file_state_scheme, unit) km" where
  "upd_pipe a g = modM (\<lambda>s. s\<lparr>pipes := (pipes s)(a := g (pipes s a))\<rparr>)"

definition file_at :: "nat \<Rightarrow> ('x file_state_scheme, kfile) km" where
  "file_at f = getM (\<lambda>s. files s f)"

section \<open>Pipes\<close>

definition pipeclose :: "u64 \<Rightarrow> bool \<Rightarrow> ('x file_state_scheme, unit) km" where
  "pipeclose a writable = doM [
     acquire (L_pipe a),
     if writable
     then seqM (upd_pipe a (pi_writeopen_update (\<lambda>_. False))) (wakeup (Ch_pipe_nread a))
     else seqM (upd_pipe a (pi_readopen_update (\<lambda>_. False))) (wakeup (Ch_pipe_nwrite a)),
     ifM (\<lambda>s. \<not> pi_readopen (pipes s a) \<and> \<not> pi_writeopen (pipes s a))
       (seqM (release (L_pipe a)) (kfree a))
       (release (L_pipe a))]"

text \<open>
  The loops leave with \<open>Some i\<close>, the count, or with \<open>None\<close> when the lock is already
  released and the result is -1.
\<close>

definition pipewrite_body :: "u64 \<Rightarrow> nat \<Rightarrow> u64 \<Rightarrow> u32 \<Rightarrow> nat \<Rightarrow>
    ('x file_state_scheme, nat + nat option) km" where
  "pipewrite_body a pr addr n i =
     (if int i < sint n then
        ifM (\<lambda>s. \<not> pi_readopen (pipes s a) \<or> p_killed (procs s pr))
          (seqM (release (L_pipe a)) (retM (Inr None)))
        (ifM (\<lambda>s. pi_nwrite (pipes s a) = pi_nread (pipes s a) + of_nat PIPESIZE)
          (seqM (wakeup (Ch_pipe_nread a))
          (seqM (sleep (Ch_pipe_nwrite a) (L_pipe a))
          (retM (Inl i))))
        (bindM (getM (\<lambda>s. p_pagetable (procs s pr))) (\<lambda>pt.
         bindM (copyin pt (addr + of_nat i) 1) (\<lambda>(ch, ok).
         if \<not> ok then retM (Inr (Some i))
         else
           seqM (upd_pipe a (\<lambda>v. v\<lparr>
             pi_data := (pi_data v)(unat (pi_nwrite v) mod PIPESIZE := hd ch),
             pi_nwrite := pi_nwrite v + 1\<rparr>))
           (retM (Inl (Suc i)))))))
      else retM (Inr (Some i)))"

definition pipewrite :: "u64 \<Rightarrow> u64 \<Rightarrow> u32 \<Rightarrow> ('x file_state_scheme, u32) km" where
  "pipewrite a addr n =
     bindM myproc (\<lambda>pr.
     seqM (acquire (L_pipe a))
     (bindM (loopM (pipewrite_body a pr addr n) 0) (\<lambda>r. case r of
        None \<Rightarrow> retM (- 1)
      | Some i \<Rightarrow> seqM (wakeup (Ch_pipe_nread a)) (seqM (release (L_pipe a)) (retM (of_nat i))))))"

definition pipe_wait_body :: "u64 \<Rightarrow> nat \<Rightarrow> unit \<Rightarrow> ('x file_state_scheme, unit + bool) km" where
  "pipe_wait_body a pr _ =
     ifM (\<lambda>s. pi_nread (pipes s a) = pi_nwrite (pipes s a) \<and> pi_writeopen (pipes s a))
       (ifM (\<lambda>s. p_killed (procs s pr))
         (seqM (release (L_pipe a)) (retM (Inr False)))
         (seqM (sleep (Ch_pipe_nread a) (L_pipe a)) (retM (Inl ()))))
       (retM (Inr True))"

definition piperead_body :: "u64 \<Rightarrow> nat \<Rightarrow> u64 \<Rightarrow> u32 \<Rightarrow> nat \<Rightarrow>
    ('x file_state_scheme, nat + nat) km" where
  "piperead_body a pr addr n i =
     (if int i < sint n then
        ifM (\<lambda>s. pi_nread (pipes s a) = pi_nwrite (pipes s a)) (retM (Inr i))
        (bindM (getM (\<lambda>s. pi_data (pipes s a) (unat (pi_nread (pipes s a)) mod PIPESIZE))) (\<lambda>ch.
         seqM (upd_pipe a (\<lambda>v. v\<lparr>pi_nread := pi_nread v + 1\<rparr>))
         (bindM (getM (\<lambda>s. p_pagetable (procs s pr))) (\<lambda>pt.
          bindM (copyout pt (addr + of_nat i) [ch]) (\<lambda>ok.
          if \<not> ok then retM (Inr i) else retM (Inl (Suc i)))))))
      else retM (Inr i))"

definition piperead :: "u64 \<Rightarrow> u64 \<Rightarrow> u32 \<Rightarrow> ('x file_state_scheme, u32) km" where
  "piperead a addr n =
     bindM myproc (\<lambda>pr.
     seqM (acquire (L_pipe a))
     (bindM (loopM (pipe_wait_body a pr) ()) (\<lambda>ok.
      if \<not> ok then retM (- 1)
      else
        bindM (loopM (piperead_body a pr addr n) 0) (\<lambda>i.
        seqM (wakeup (Ch_pipe_nwrite a))
       (seqM (release (L_pipe a))
       (retM (of_nat i)))))))"

section \<open>The file table\<close>

definition filealloc :: "('x file_state_scheme, nat option) km" where
  "filealloc =
     seqM (acquire L_ftable)
     (bindM (getM (\<lambda>s. find (\<lambda>f. f_ref (files s f) = 0) [0..<NFILE])) (\<lambda>r. case r of
        Some f \<Rightarrow>
          seqM (upd_file f (f_ref_update (\<lambda>_. 1)))
         (seqM (release L_ftable)
         (retM (Some f)))
      | None \<Rightarrow> seqM (release L_ftable) (retM None)))"

definition filedup :: "nat \<Rightarrow> ('x file_state_scheme, nat) km" where
  "filedup f =
     seqM (acquire L_ftable)
     (seqM (panic_ifM (\<lambda>s. f_ref (files s f) < 1) ''filedup'')
     (seqM (upd_file f (\<lambda>v. v\<lparr>f_ref := f_ref v + 1\<rparr>))
     (seqM (release L_ftable)
     (retM f))))"

definition fileclose :: "nat \<Rightarrow> ('x file_state_scheme, unit) km" where
  "fileclose f = doM [
     acquire L_ftable,
     panic_ifM (\<lambda>s. f_ref (files s f) < 1) ''fileclose'',
     upd_file f (\<lambda>v. v\<lparr>f_ref := f_ref v - 1\<rparr>),
     ifM (\<lambda>s. f_ref (files s f) > 0)
       (release L_ftable)
       (bindM (file_at f) (\<lambda>ff. doM [
         upd_file f (\<lambda>v. v\<lparr>f_ref := 0, f_type := FD_NONE\<rparr>),
         release L_ftable,
         if f_type ff = FD_PIPE then pipeclose (f_pipe ff) (f_writable ff)
         else whenM (f_type ff = FD_INODE \<or> f_type ff = FD_DEVICE) (doM [
           begin_op,
           iput (f_ip ff),
           end_op])]))]"

definition filestat :: "nat \<Rightarrow> u64 \<Rightarrow> ('x file_state_scheme, u32) km" where
  "filestat f addr =
     bindM myproc (\<lambda>p.
     bindM (file_at f) (\<lambda>v.
     if f_type v = FD_INODE \<or> f_type v = FD_DEVICE then
       seqM (ilock (f_ip v))
       (bindM (inode_at (f_ip v)) (\<lambda>n.
        seqM (iunlock (f_ip v))
       (bindM (getM (\<lambda>s. p_pagetable (procs s p))) (\<lambda>pt.
        bindM (copyout pt addr (stati n)) (\<lambda>ok.
        retM (if ok then 0 else - 1))))))
     else retM (- 1)))"

definition fileread :: "nat \<Rightarrow> u64 \<Rightarrow> u32 \<Rightarrow> ('x file_state_scheme, u32) km" where
  "fileread f addr n =
     bindM (file_at f) (\<lambda>v.
     if \<not> f_readable v then retM (- 1)
     else case f_type v of
       FD_PIPE \<Rightarrow> piperead (f_pipe v) addr n
     | FD_DEVICE \<Rightarrow>
         if sint (f_major v) < 0 \<or> sint (f_major v) \<ge> int NDEV then retM (- 1)
         else bindM (getM (\<lambda>s. devsw_read s (unat (f_major v)))) (\<lambda>d. case d of
           None \<Rightarrow> retM (- 1)
         | Some Dev_console \<Rightarrow> consoleread (To_user addr) n)
     | FD_INODE \<Rightarrow>
         seqM (ilock (f_ip v))
         (bindM (readi (f_ip v) (To_user addr) (f_off v) n) (\<lambda>(r, _). seqM (doM [
           whenM (sint r > 0) (upd_file f (\<lambda>w. w\<lparr>f_off := f_off w + r\<rparr>)),
           iunlock (f_ip v)])
          (retM r)))
     | FD_NONE \<Rightarrow> panicM ''fileread'')"

abbreviation (input) filewrite_max :: nat where
  "filewrite_max \<equiv> ((MAXOPBLOCKS - 1 - 1 - 2) div 2) * BSIZE"

definition filewrite_body :: "nat \<Rightarrow> u64 \<Rightarrow> u32 \<Rightarrow> u32 \<Rightarrow> ('x file_state_scheme, u32 + u32) km" where
  "filewrite_body f addr n i =
     (if sint i < sint n then
        let n1 = (if sint (n - i) > int filewrite_max then of_nat filewrite_max else n - i) in
        seqM begin_op
        (bindM (file_at f) (\<lambda>v.
         seqM (ilock (f_ip v))
        (bindM (file_at f) (\<lambda>v.
         bindM (writei (f_ip v) (From_user (addr + scast i)) (f_off v) n1) (\<lambda>r.
         seqM (doM [
           whenM (sint r > 0) (upd_file f (\<lambda>w. w\<lparr>f_off := f_off w + r\<rparr>)),
           iunlock (f_ip v),
           end_op])
         (retM (if r \<noteq> n1 then Inr i else Inl (i + r))))))))
      else retM (Inr i))"

definition filewrite :: "nat \<Rightarrow> u64 \<Rightarrow> u32 \<Rightarrow> ('x file_state_scheme, u32) km" where
  "filewrite f addr n =
     bindM (file_at f) (\<lambda>v.
     if \<not> f_writable v then retM (- 1)
     else case f_type v of
       FD_PIPE \<Rightarrow> pipewrite (f_pipe v) addr n
     | FD_DEVICE \<Rightarrow>
         if sint (f_major v) < 0 \<or> sint (f_major v) \<ge> int NDEV then retM (- 1)
         else bindM (getM (\<lambda>s. devsw_write s (unat (f_major v)))) (\<lambda>d. case d of
           None \<Rightarrow> retM (- 1)
         | Some Dev_console \<Rightarrow> consolewrite (From_user addr) n)
     | FD_INODE \<Rightarrow>
         bindM (loopM (filewrite_body f addr n) 0) (\<lambda>i. retM (if i = n then n else - 1))
     | FD_NONE \<Rightarrow> panicM ''filewrite'')"

section \<open>Creating a pipe\<close>

text \<open>The \<open>bad\<close> label of \<open>pipealloc\<close>, where no page is allocated yet.\<close>

definition pipealloc_bad :: "nat option \<Rightarrow> nat option \<Rightarrow> ('x file_state_scheme, (nat \<times> nat) option) km" where
  "pipealloc_bad f0 f1 =
     seqM (doM [
       case f0 of None \<Rightarrow> skipM | Some f \<Rightarrow> fileclose f,
       case f1 of None \<Rightarrow> skipM | Some f \<Rightarrow> fileclose f])
     (retM None)"

text \<open>The two files stored through \<open>f0\<close> and \<open>f1\<close>, or \<open>None\<close> for the result -1.\<close>

definition pipealloc :: "('x file_state_scheme, (nat \<times> nat) option) km" where
  "pipealloc =
     bindM filealloc (\<lambda>r0. case r0 of None \<Rightarrow> pipealloc_bad None None | Some f0 \<Rightarrow>
     bindM filealloc (\<lambda>r1. case r1 of None \<Rightarrow> pipealloc_bad (Some f0) None | Some f1 \<Rightarrow>
     bindM kalloc (\<lambda>a.
     if a = 0 then pipealloc_bad (Some f0) (Some f1)
     else seqM (doM [
       upd_pipe a (\<lambda>v. v\<lparr>pi_readopen := True, pi_writeopen := True, pi_nwrite := 0, pi_nread := 0\<rparr>),
       upd_file f0 (\<lambda>v. v\<lparr>f_type := FD_PIPE, f_readable := True, f_writable := False, f_pipe := a\<rparr>),
       upd_file f1 (\<lambda>v. v\<lparr>f_type := FD_PIPE, f_readable := False, f_writable := True, f_pipe := a\<rparr>)])
       (retM (Some (f0, f1))))))"

end
