(* ===== verification/Proc.thy ===== *)
theory Proc
  imports File
begin

text \<open>
  Process management: the rest of \<^verbatim>\<open>kernel/proc.c\<close> (allocation and freeing of processes, their
  page tables, \<open>fork\<close>, \<open>exit\<close>, \<open>wait\<close>). Trap frames live in page memory, at the offsets of
  \<^verbatim>\<open>struct trapframe\<close>. The state gains the globals of \<^verbatim>\<open>kernel/trap.c\<close>, the supervisor
  registers of the hart, and the addresses of the kernel's entry points, which the linker fixes.
\<close>

section \<open>State\<close>

abbreviation (input) VMASIZE :: nat where "VMASIZE \<equiv> 16"
abbreviation (input) MAP_SHARED :: u32 where "MAP_SHARED \<equiv> 1"

record proc_state = file_state +
  ticks :: u32
  first :: bool
  sstatus :: u64
  sepc :: u64
  scause :: u64
  stval :: u64
  stvec :: u64
  sip :: u64
  forkret_addr :: u64
  usertrap_addr :: u64
  kernelvec_addr :: u64
  uservec_addr :: u64
  userret_addr :: u64
  user_entry :: "(u64 \<times> u64 \<times> u64) option"
  started :: bool

text \<open>Offsets of the trap frame's fields.\<close>

abbreviation (input) tf_kernel_satp :: u64 where "tf_kernel_satp \<equiv> 0"
abbreviation (input) tf_kernel_sp :: u64 where "tf_kernel_sp \<equiv> 8"
abbreviation (input) tf_kernel_trap :: u64 where "tf_kernel_trap \<equiv> 16"
abbreviation (input) tf_epc :: u64 where "tf_epc \<equiv> 24"
abbreviation (input) tf_kernel_hartid :: u64 where "tf_kernel_hartid \<equiv> 32"
abbreviation (input) tf_sp :: u64 where "tf_sp \<equiv> 48"
abbreviation (input) tf_a0 :: u64 where "tf_a0 \<equiv> 112"
abbreviation (input) tf_a1 :: u64 where "tf_a1 \<equiv> 120"
abbreviation (input) tf_a7 :: u64 where "tf_a7 \<equiv> 168"

definition tf_get :: "nat \<Rightarrow> u64 \<Rightarrow> ('x kmem_state_scheme, u64) km" where
  "tf_get p off = getM (\<lambda>s. load64 (mem s) (p_trapframe (procs s p) + off))"

definition tf_set :: "nat \<Rightarrow> u64 \<Rightarrow> u64 \<Rightarrow> ('x kmem_state_scheme, unit) km" where
  "tf_set p off v = modM (\<lambda>s. s\<lparr>mem := store64 (mem s) (p_trapframe (procs s p) + off) v\<rparr>)"

definition proc_at :: "nat \<Rightarrow> ('x kbase_scheme, proc) km" where
  "proc_at p = getM (\<lambda>s. procs s p)"

section \<open>Page tables of processes\<close>

definition procinit :: "('x kbase_scheme, unit) km" where
  "procinit = eachM [0..<NPROC] (\<lambda>p. upd_proc p (p_kstack_update (\<lambda>_. KSTACK p)))"

definition proc_pagetable :: "nat \<Rightarrow> ('x vm_state_scheme, u64) km" where
  "proc_pagetable p =
     bindM uvmcreate (\<lambda>pagetable.
     if pagetable = 0 then retM 0
     else
       bindM (getM trampoline) (\<lambda>tr.
       bindM (mappages pagetable TRAMPOLINE PGSIZE tr (PTE_R OR PTE_X)) (\<lambda>ok.
       if \<not> ok then seqM (uvmfree pagetable 0) (retM 0)
       else
         bindM (getM (\<lambda>s. p_trapframe (procs s p))) (\<lambda>tf.
         bindM (mappages pagetable TRAPFRAME PGSIZE tf (PTE_R OR PTE_W)) (\<lambda>ok.
         if \<not> ok then seqM (doM [uvmunmap pagetable TRAMPOLINE 1 False, uvmfree pagetable 0]) (retM 0)
         else retM pagetable)))))"

definition proc_freepagetable :: "u64 \<Rightarrow> u64 \<Rightarrow> ('x kmem_state_scheme, unit) km" where
  "proc_freepagetable pagetable sz = doM [
     uvmunmap pagetable TRAMPOLINE 1 False,
     uvmunmap pagetable TRAPFRAME 1 False,
     uvmfree pagetable sz]"

section \<open>Allocating and freeing processes\<close>

definition freeproc :: "nat \<Rightarrow> ('x kmem_state_scheme, unit) km" where
  "freeproc p = doM [
     ifM (\<lambda>s. p_trapframe (procs s p) \<noteq> 0)
       (bindM (proc_at p) (\<lambda>v. kfree (p_trapframe v))) skipM,
     upd_proc p (p_trapframe_update (\<lambda>_. 0)),
     ifM (\<lambda>s. p_pagetable (procs s p) \<noteq> 0)
       (bindM (proc_at p) (\<lambda>v. proc_freepagetable (p_pagetable v) (p_sz v))) skipM,
     upd_proc p (\<lambda>v. v\<lparr>p_pagetable := 0, p_sz := 0, p_pid := 0, p_parent := None,
       p_name := (p_name v)[0 := 0], p_chan := None, p_killed := False, p_xstate := 0,
       p_state := UNUSED\<rparr>)]"

text \<open>The scan of \<open>allocproc\<close>; it leaves the found process locked.\<close>

definition find_unused :: "('x kbase_scheme, nat option) km" where
  "find_unused = forM [0..<NPROC] (\<lambda>p.
     seqM (acquire (L_proc p))
     (ifM (\<lambda>s. p_state (procs s p) = UNUSED)
       (retM (Some p))
       (seqM (release (L_proc p)) (retM None))))"

definition alloc_fail :: "nat \<Rightarrow> ('x kmem_state_scheme, nat option) km" where
  "alloc_fail p = seqM (freeproc p) (seqM (release (L_proc p)) (retM None))"

definition allocproc :: "('x proc_state_scheme, nat option) km" where
  "allocproc =
     bindM find_unused (\<lambda>r. case r of None \<Rightarrow> retM None | Some p \<Rightarrow>
     bindM allocpid (\<lambda>pid.
     seqM (upd_proc p (p_pid_update (\<lambda>_. pid)))
    (seqM (upd_proc p (p_state_update (\<lambda>_. USED)))
    (bindM kalloc (\<lambda>tf.
     seqM (upd_proc p (p_trapframe_update (\<lambda>_. tf)))
    (if tf = 0 then alloc_fail p
     else
       bindM (proc_pagetable p) (\<lambda>pt.
       seqM (upd_proc p (p_pagetable_update (\<lambda>_. pt)))
       (if pt = 0 then alloc_fail p
        else
          bindM (getM forkret_addr) (\<lambda>fr.
          seqM (upd_proc p (\<lambda>v. v\<lparr>p_context :=
            \<lparr>ctx_ra = fr, ctx_sp = p_kstack v + PGSIZE, ctx_s = (\<lambda>_. 0)\<rparr>\<rparr>))
          (retM (Some p)))))))))))"

definition copy_name :: "u8 list \<Rightarrow> u8 list \<Rightarrow> u8 list" where
  "copy_name dst src = splice dst 0 (case safestrcpy src 16 of Some w \<Rightarrow> w | None \<Rightarrow> [])"

definition initcode :: "u8 list" where
  "initcode = [
     0x17, 0x05, 0x00, 0x00, 0x13, 0x05, 0x45, 0x02,
     0x97, 0x05, 0x00, 0x00, 0x93, 0x85, 0x35, 0x02,
     0x93, 0x08, 0x70, 0x00, 0x73, 0x00, 0x00, 0x00,
     0x93, 0x08, 0x20, 0x00, 0x73, 0x00, 0x00, 0x00,
     0xef, 0xf0, 0x9f, 0xff, 0x2f, 0x69, 0x6e, 0x69,
     0x74, 0x00, 0x00, 0x24, 0x00, 0x00, 0x00, 0x00,
     0x00, 0x00, 0x00, 0x00]"

definition userinit :: "('x proc_state_scheme, unit) km" where
  "userinit =
     bindM allocproc (\<lambda>r.
     seqM (modM (\<lambda>s. s\<lparr>initproc := r\<rparr>))
     (case r of None \<Rightarrow> null_fault | Some p \<Rightarrow> doM [
       bindM (proc_at p) (\<lambda>v. uvminit (p_pagetable v) initcode),
       upd_proc p (p_sz_update (\<lambda>_. PGSIZE)),
       tf_set p tf_epc 0,
       tf_set p tf_sp PGSIZE,
       upd_proc p (\<lambda>v. v\<lparr>p_name := copy_name (p_name v) (ascii ''initcode'' @ [0])\<rparr>),
       bindM (namei [slash]) (\<lambda>ip. upd_proc p (p_cwd_update (\<lambda>_. ip))),
       upd_proc p (p_state_update (\<lambda>_. RUNNABLE)),
       release (L_proc p)]))"

text \<open>\<open>sz\<close> is a 32-bit variable: \<open>p->sz\<close>, \<open>sz + n\<close> and the results are truncated to it.\<close>

definition growproc :: "u32 \<Rightarrow> ('x kmem_state_scheme, bool) km" where
  "growproc n =
     bindM myproc (\<lambda>p.
     bindM (proc_at p) (\<lambda>v.
     let sz = ucast (p_sz v) :: u32 in
     if sint n > 0 then
       bindM (uvmalloc (p_pagetable v) (ucast sz) (ucast (sz + n))) (\<lambda>r.
       let sz = ucast r :: u32 in
       if sz = 0 then retM False
       else seqM (upd_proc p (p_sz_update (\<lambda>_. ucast sz))) (retM True))
     else if sint n < 0 then
       bindM (uvmdealloc (p_pagetable v) (ucast sz) (ucast (sz + n))) (\<lambda>r.
       let sz = ucast r :: u32 in
       seqM (upd_proc p (p_sz_update (\<lambda>_. ucast sz))) (retM True))
     else seqM (upd_proc p (p_sz_update (\<lambda>_. ucast sz))) (retM True)))"

section \<open>fork\<close>

definition fork_files :: "nat \<Rightarrow> nat \<Rightarrow> ('x file_state_scheme, unit) km" where
  "fork_files p np = eachM [0..<NOFILE] (\<lambda>i.
     bindM (proc_at p) (\<lambda>v. case p_ofile v i of
       None \<Rightarrow> skipM
     | Some f \<Rightarrow> bindM (filedup f) (\<lambda>f.
         upd_proc np (\<lambda>w. w\<lparr>p_ofile := (p_ofile w)(i := Some f)\<rparr>))))"

definition fork_vmas :: "nat \<Rightarrow> nat \<Rightarrow> ('x file_state_scheme, unit) km" where
  "fork_vmas p np = eachM [0..<VMASIZE] (\<lambda>i.
     bindM (proc_at p) (\<lambda>v.
     whenM (vma_valid (p_vma v i)) (doM [
       upd_proc np (\<lambda>w. w\<lparr>p_vma := (p_vma w)(i := p_vma v i)\<rparr>),
       bindM (filedup (vma_f (p_vma v i))) (\<lambda>_. skipM)])))"

text \<open>The trap frame is 288 bytes. The result is the child's pid, -1 on failure.\<close>

definition fork :: "('x proc_state_scheme, u32) km" where
  "fork =
     bindM myproc (\<lambda>p.
     bindM allocproc (\<lambda>r. case r of None \<Rightarrow> retM (- 1) | Some np \<Rightarrow>
     bindM (proc_at p) (\<lambda>v.
     bindM (proc_at np) (\<lambda>w.
     bindM (uvmcopy (p_pagetable v) (p_pagetable w) (p_sz v)) (\<lambda>ok.
     if \<not> ok then seqM (freeproc np) (seqM (release (L_proc np)) (retM (- 1)))
     else
      seqM (doM [
        upd_proc np (\<lambda>w. w\<lparr>p_sz := p_sz v\<rparr>),
        modM (\<lambda>s. s\<lparr>mem := store_bytes (mem s) (p_trapframe (procs s np))
          (load_bytes (mem s) (p_trapframe (procs s p)) 288)\<rparr>),
        tf_set np tf_a0 0,
        fork_files p np,
        bindM (proc_at p) (\<lambda>v. case p_cwd v of
          None \<Rightarrow> null_fault
        | Some d \<Rightarrow> bindM (idup d) (\<lambda>d. upd_proc np (p_cwd_update (\<lambda>_. Some d)))),
        bindM (proc_at p) (\<lambda>v. upd_proc np (\<lambda>w. w\<lparr>p_name := copy_name (p_name w) (p_name v)\<rparr>))])
     (bindM (getM (\<lambda>s. p_pid (procs s np))) (\<lambda>pid.
      seqM (doM [
        release (L_proc np),
        acquire L_wait,
        upd_proc np (p_parent_update (\<lambda>_. Some p)),
        release L_wait,
        acquire (L_proc np),
        upd_proc np (p_state_update (\<lambda>_. RUNNABLE)),
        fork_vmas p np,
        release (L_proc np)])
      (retM pid))))))))"

section \<open>exit and wait\<close>

text \<open>\<open>wakeup(q)\<close> for a process pointer; nobody sleeps on the null channel.\<close>

definition wakeup_proc :: "nat option \<Rightarrow> ('x kbase_scheme, unit) km" where
  "wakeup_proc q = (case q of None \<Rightarrow> skipM | Some r \<Rightarrow> wakeup (Ch_proc r))"

definition reparent :: "nat \<Rightarrow> ('x kbase_scheme, unit) km" where
  "reparent p = eachM [0..<NPROC] (\<lambda>pp.
     ifM (\<lambda>s. p_parent (procs s pp) = Some p)
       (bindM (getM initproc) (\<lambda>ini. doM [
         upd_proc pp (p_parent_update (\<lambda>_. ini)),
         wakeup_proc ini]))
       skipM)"

definition exit_files :: "nat \<Rightarrow> ('x file_state_scheme, unit) km" where
  "exit_files p = eachM [0..<NOFILE] (\<lambda>fd.
     bindM (proc_at p) (\<lambda>v. case p_ofile v fd of
       None \<Rightarrow> skipM
     | Some f \<Rightarrow> doM [
         fileclose f,
         upd_proc p (\<lambda>v. v\<lparr>p_ofile := (p_ofile v)(fd := None)\<rparr>)]))"

text \<open>\<open>len / PGSIZE\<close> on a C \<open>int\<close> (rounding towards zero), converted to \<open>uint64\<close>.\<close>

definition pages_of :: "u32 \<Rightarrow> u64" where
  "pages_of len = (if sint len \<ge> 0 then of_int (sint len div 4096) else - of_int ((- sint len) div 4096))"

definition exit_vma :: "nat \<Rightarrow> nat \<Rightarrow> ('x file_state_scheme, unit) km" where
  "exit_vma p i =
     bindM (proc_at p) (\<lambda>v.
     let m = p_vma v i in
     whenM (vma_valid m) (doM [
       whenM (vma_flags m AND MAP_SHARED \<noteq> 0)
         (bindM (filewrite (vma_f m) (vma_addr m) (vma_len m)) (\<lambda>_. skipM)),
       fileclose (vma_f m),
       bindM (proc_at p) (\<lambda>v. uvmunmap (p_pagetable v) (vma_addr m) (pages_of (vma_len m)) True),
       upd_proc p (\<lambda>v. v\<lparr>p_vma := (p_vma v)(i := (p_vma v i)\<lparr>vma_valid := False\<rparr>)\<rparr>)]))"

text \<open>\<open>exit\<close> never returns to its caller, so its result type is arbitrary.\<close>

definition exit :: "u32 \<Rightarrow> ('x file_state_scheme, 'a) km" where
  "exit status =
     bindM myproc (\<lambda>p.
     seqM (doM [
       panic_ifM (\<lambda>s. initproc s = Some p) ''init exiting'',
       exit_files p,
       eachM [0..<VMASIZE] (exit_vma p),
       begin_op,
       bindM (proc_at p) (\<lambda>v. case p_cwd v of None \<Rightarrow> null_fault | Some d \<Rightarrow> iput d),
       end_op,
       upd_proc p (p_cwd_update (\<lambda>_. None)),
       acquire L_wait,
       reparent p,
       bindM (proc_at p) (\<lambda>v. wakeup_proc (p_parent v)),
       acquire (L_proc p),
       upd_proc p (p_xstate_update (\<lambda>_. status)),
       upd_proc p (p_state_update (\<lambda>_. ZOMBIE)),
       release L_wait,
       sched])
     (panicM ''zombie exit''))"

text \<open>
  One scan of the table by \<open>wait\<close>: the value to return, or whether there were children. Then
  the endless loop around it.
\<close>

definition reap :: "nat \<Rightarrow> nat \<Rightarrow> u64 \<Rightarrow> ('x kmem_state_scheme, u32) km" where
  "reap p np addr =
     bindM (proc_at np) (\<lambda>w.
     bindM (proc_at p) (\<lambda>v.
     bindM (if addr \<noteq> 0 then copyout (p_pagetable v) addr (le_bytes 4 (p_xstate w)) else retM True)
       (\<lambda>ok.
     if \<not> ok then seqM (doM [release (L_proc np), release L_wait]) (retM (- 1))
     else seqM (doM [freeproc np, release (L_proc np), release L_wait]) (retM (p_pid w)))))"

fun wait_scan :: "nat \<Rightarrow> u64 \<Rightarrow> bool \<Rightarrow> nat list \<Rightarrow> ('x kmem_state_scheme, bool + u32) km" where
  "wait_scan p addr havekids [] = retM (Inl havekids)"
| "wait_scan p addr havekids (np # nps) =
     ifM (\<lambda>s. p_parent (procs s np) = Some p)
       (seqM (acquire (L_proc np))
       (ifM (\<lambda>s. p_state (procs s np) = ZOMBIE)
         (bindM (reap p np addr) (\<lambda>r. retM (Inr r)))
         (seqM (release (L_proc np)) (wait_scan p addr True nps))))
       (wait_scan p addr havekids nps)"

definition wait_body :: "nat \<Rightarrow> u64 \<Rightarrow> unit \<Rightarrow> ('x kmem_state_scheme, unit + u32) km" where
  "wait_body p addr _ =
     bindM (wait_scan p addr False [0..<NPROC]) (\<lambda>r. case r of
       Inr x \<Rightarrow> retM (Inr x)
     | Inl havekids \<Rightarrow>
         ifM (\<lambda>s. \<not> havekids \<or> p_killed (procs s p))
           (seqM (release L_wait) (retM (Inr (- 1))))
           (seqM (sleep (Ch_proc p) L_wait) (retM (Inl ()))))"

definition wait :: "u64 \<Rightarrow> ('x kmem_state_scheme, u32) km" where
  "wait addr =
     bindM myproc (\<lambda>p.
     seqM (acquire L_wait)
     (loopM (wait_body p addr) ()))"

end
