(* ===== verification/Exec.thy ===== *)
theory Exec
  imports Proc
begin

text \<open>
  System-call arguments (the first half of \<^verbatim>\<open>kernel/syscall.c\<close>), the process system calls
  \<^verbatim>\<open>kernel/sysproc.c\<close>, and program loading \<^verbatim>\<open>kernel/exec.c\<close>.
\<close>

section \<open>System-call arguments\<close>

text \<open>The arguments \<open>a0 .. a5\<close> are consecutive in the trap frame.\<close>

definition argraw :: "nat \<Rightarrow> ('x kmem_state_scheme, u64) km" where
  "argraw n = bindM myproc (\<lambda>p.
     if n < 6 then tf_get p (tf_a0 + 8 * of_nat n) else panicM ''argraw'')"

definition argint :: "nat \<Rightarrow> ('x kmem_state_scheme, u32) km" where
  "argint n = bindM (argraw n) (\<lambda>x. retM (ucast x))"

definition argaddr :: "nat \<Rightarrow> ('x kmem_state_scheme, u64) km" where
  "argaddr n = argraw n"

text \<open>\<open>fetchaddr\<close> and \<open>fetchstr\<close> return what they fetched, or \<open>None\<close> for the result -1.\<close>

definition fetchaddr :: "u64 \<Rightarrow> ('x kmem_state_scheme, u64 option) km" where
  "fetchaddr addr =
     bindM myproc (\<lambda>p.
     bindM (proc_at p) (\<lambda>v.
     if addr \<ge> p_sz v \<or> addr + 8 > p_sz v then retM None
     else bindM (copyin (p_pagetable v) addr 8) (\<lambda>(bs, ok).
       retM (if ok then Some (of_le bs) else None))))"

text \<open>The string without its terminator; \<open>fetchstr\<close>'s result is its length.\<close>

definition fetchstr :: "u64 \<Rightarrow> nat \<Rightarrow> ('x kmem_state_scheme, u8 list option) km" where
  "fetchstr addr max_len =
     bindM myproc (\<lambda>p.
     bindM (proc_at p) (\<lambda>v.
     bindM (copyinstr (p_pagetable v) addr max_len) (\<lambda>(bs, ok).
     retM (if ok then Some (cstr bs) else None))))"

text \<open>The same call with a page as buffer, which receives the bytes also when it fails.\<close>

definition fetchstr_page :: "u64 \<Rightarrow> u64 \<Rightarrow> nat \<Rightarrow> ('x kmem_state_scheme, bool) km" where
  "fetchstr_page addr buf max_len =
     bindM myproc (\<lambda>p.
     bindM (proc_at p) (\<lambda>v.
     bindM (copyinstr (p_pagetable v) addr max_len) (\<lambda>(bs, ok).
     seqM (modM (\<lambda>s. s\<lparr>mem := store_bytes (mem s) buf bs\<rparr>))
     (retM ok))))"

definition argstr :: "nat \<Rightarrow> nat \<Rightarrow> ('x kmem_state_scheme, u8 list option) km" where
  "argstr n max_len = bindM (argaddr n) (\<lambda>addr. fetchstr addr max_len)"

section \<open>Process system calls\<close>

text \<open>Results are \<open>uint64\<close>; a C \<open>int\<close> is sign-extended.\<close>

definition sys_exit :: "('x proc_state_scheme, u64) km" where
  "sys_exit = bindM (argint 0) (\<lambda>n. seqM (exit n :: (_, unit) km) (retM 0))"

definition sys_getpid :: "('x kbase_scheme, u64) km" where
  "sys_getpid = bindM myproc (\<lambda>p. getM (\<lambda>s. scast (p_pid (procs s p))))"

definition sys_fork :: "('x proc_state_scheme, u64) km" where
  "sys_fork = bindM fork (\<lambda>pid. retM (scast pid))"

definition sys_wait :: "('x kmem_state_scheme, u64) km" where
  "sys_wait = bindM (argaddr 0) (\<lambda>p. bindM (wait p) (\<lambda>r. retM (scast r)))"

definition sys_sbrk :: "('x kmem_state_scheme, u64) km" where
  "sys_sbrk =
     bindM (argint 0) (\<lambda>n.
     bindM myproc (\<lambda>p.
     bindM (getM (\<lambda>s. ucast (p_sz (procs s p)) :: u32)) (\<lambda>addr.
     bindM (growproc n) (\<lambda>ok.
     retM (if ok then scast addr else - 1)))))"

definition sys_sleep_body :: "u32 \<Rightarrow> u32 \<Rightarrow> unit \<Rightarrow> ('x proc_state_scheme, unit + u64) km" where
  "sys_sleep_body n ticks0 _ =
     ifM (\<lambda>s. ticks s - ticks0 < n)
       (bindM myproc (\<lambda>p. ifM (\<lambda>s. p_killed (procs s p))
         (seqM (release L_ticks) (retM (Inr (- 1))))
         (seqM (sleep Ch_ticks L_ticks) (retM (Inl ())))))
       (seqM (release L_ticks) (retM (Inr 0)))"

definition sys_sleep :: "('x proc_state_scheme, u64) km" where
  "sys_sleep =
     bindM (argint 0) (\<lambda>n.
     seqM (acquire L_ticks)
     (bindM (getM ticks) (\<lambda>ticks0.
      loopM (sys_sleep_body n ticks0) ())))"

definition sys_kill :: "('x kmem_state_scheme, u64) km" where
  "sys_kill = bindM (argint 0) (\<lambda>pid. bindM (kill pid) (\<lambda>ok. retM (if ok then 0 else - 1)))"

definition sys_uptime :: "('x proc_state_scheme, u64) km" where
  "sys_uptime =
     seqM (acquire L_ticks)
     (bindM (getM ticks) (\<lambda>xticks.
      seqM (release L_ticks)
     (retM (ucast xticks))))"

section \<open>exec\<close>

abbreviation (input) ELF_MAGIC :: u32 where "ELF_MAGIC \<equiv> 0x464C457F"
abbreviation (input) ELF_PROG_LOAD :: u32 where "ELF_PROG_LOAD \<equiv> 1"

definition get64 :: "u8 list \<Rightarrow> nat \<Rightarrow> u64" where
  "get64 bs off = of_le (take 8 (drop off bs))"

text \<open>
  The fields used of \<^verbatim>\<open>struct elfhdr\<close> (64 bytes) and \<^verbatim>\<open>struct proghdr\<close> (56 bytes), read from
  the bytes \<open>readi\<close> delivered.
\<close>

record elfhdr =
  e_magic :: u32
  e_entry :: u64
  e_phoff :: u64
  e_phnum :: u16

record proghdr =
  ph_type :: u32
  ph_off :: u64
  ph_vaddr :: u64
  ph_filesz :: u64
  ph_memsz :: u64

definition elfhdr_of :: "u8 list \<Rightarrow> elfhdr" where
  "elfhdr_of bs = \<lparr>e_magic = get32 bs 0, e_entry = get64 bs 24, e_phoff = get64 bs 32,
     e_phnum = get16 bs 56\<rparr>"

definition proghdr_of :: "u8 list \<Rightarrow> proghdr" where
  "proghdr_of bs = \<lparr>ph_type = get32 bs 0, ph_off = get64 bs 8, ph_vaddr = get64 bs 16,
     ph_filesz = get64 bs 32, ph_memsz = get64 bs 40\<rparr>"

definition loadseg_body :: "u64 \<Rightarrow> u64 \<Rightarrow> nat \<Rightarrow> u32 \<Rightarrow> u32 \<Rightarrow> u32 \<Rightarrow>
    ('x fs_state_scheme, u32 + bool) km" where
  "loadseg_body pagetable va ip offset sz i =
     (if i < sz then
        bindM (walkaddr pagetable (va + ucast i)) (\<lambda>pa.
        if pa = 0 then panicM ''loadseg: address should exist''
        else
          let n = if sz - i < 4096 then sz - i else 4096 in
          bindM (readi ip (To_page pa) (offset + i) n) (\<lambda>(r, _).
          retM (if r \<noteq> n then Inr False else Inl (i + 4096))))
      else retM (Inr True))"

definition loadseg :: "u64 \<Rightarrow> u64 \<Rightarrow> nat \<Rightarrow> u32 \<Rightarrow> u32 \<Rightarrow> ('x fs_state_scheme, bool) km" where
  "loadseg pagetable va ip offset sz = loopM (loadseg_body pagetable va ip offset sz) 0"

text \<open>
  One program header. The loop variables are \<open>i\<close>, \<open>off\<close> and the size so far; leaving with
  \<open>False\<close> is \<open>goto bad\<close>.
\<close>

definition exec_load_body :: "nat \<Rightarrow> u64 \<Rightarrow> elfhdr \<Rightarrow> nat \<times> u32 \<times> u64 \<Rightarrow>
    ('x fs_state_scheme, nat \<times> u32 \<times> u64 + bool \<times> u64) km" where
  "exec_load_body ip pagetable elf = (\<lambda>(i, off, sz).
     if i < unat (e_phnum elf) then
       bindM (readi ip To_var off 56) (\<lambda>(r, bs).
       let ph = proghdr_of bs in
       if r \<noteq> 56 then retM (Inr (False, sz))
       else if ph_type ph \<noteq> ELF_PROG_LOAD then retM (Inl (Suc i, off + 56, sz))
       else if ph_memsz ph < ph_filesz ph then retM (Inr (False, sz))
       else if ph_vaddr ph + ph_memsz ph < ph_vaddr ph then retM (Inr (False, sz))
       else
         bindM (uvmalloc pagetable sz (ph_vaddr ph + ph_memsz ph)) (\<lambda>sz1.
         if sz1 = 0 then retM (Inr (False, sz))
         else if ph_vaddr ph mod PGSIZE \<noteq> 0 then retM (Inr (False, sz1))
         else
           bindM (loadseg pagetable (ph_vaddr ph) ip (ucast (ph_off ph)) (ucast (ph_filesz ph))) (\<lambda>ok.
           retM (if \<not> ok then Inr (False, sz1) else Inl (Suc i, off + 56, sz1)))))
     else retM (Inr (True, sz)))"

definition exec_bad :: "u64 \<Rightarrow> u64 \<Rightarrow> nat option \<Rightarrow> ('x fs_state_scheme, u32) km" where
  "exec_bad pagetable sz ipo =
     seqM (doM [
       whenM (pagetable \<noteq> 0) (proc_freepagetable pagetable sz),
       case ipo of None \<Rightarrow> skipM | Some ip \<Rightarrow> doM [iunlockput ip, end_op]])
     (retM (- 1))"

text \<open>The argument strings are in pages; \<open>page_str\<close> reads one.\<close>

definition page_str :: "u64 \<Rightarrow> ('x kmem_state_scheme, u8 list) km" where
  "page_str a = getM (\<lambda>s. cstr (load_bytes (mem s) a 4096))"

fun push_args :: "u64 \<Rightarrow> u64 \<Rightarrow> u64 \<Rightarrow> u64 list \<Rightarrow> u64 list \<Rightarrow>
    ('x kmem_state_scheme, (u64 \<times> u64 list) option) km" where
  "push_args pagetable stackbase sp ustack [] = retM (Some (sp, ustack))"
| "push_args pagetable stackbase sp ustack (a # argv) =
     (if length ustack \<ge> MAXARG then retM None
      else
        bindM (page_str a) (\<lambda>t.
        let sp1 = sp - of_nat (length t + 1); sp2 = sp1 - sp1 mod 16 in
        if sp2 < stackbase then retM None
        else bindM (copyout pagetable sp2 (t @ [0])) (\<lambda>ok.
          if \<not> ok then retM None
          else push_args pagetable stackbase sp2 (ustack @ [sp2]) argv)))"

definition exec_last :: "u8 list \<Rightarrow> u8 list" where
  "exec_last path = rev (takeWhile (\<lambda>c. c \<noteq> slash) (rev path))"

definition exec_commit :: "nat \<Rightarrow> u8 list \<Rightarrow> elfhdr \<Rightarrow> u64 \<Rightarrow> u64 \<Rightarrow> u64 \<Rightarrow> u64 \<Rightarrow>
    ('x kmem_state_scheme, unit) km" where
  "exec_commit p path elf pagetable sz sp oldsz = doM [
     tf_set p tf_a1 sp,
     upd_proc p (\<lambda>v. v\<lparr>p_name := copy_name (p_name v) (exec_last path @ [0])\<rparr>),
     bindM (getM (\<lambda>s. p_pagetable (procs s p))) (\<lambda>oldpagetable. doM [
       upd_proc p (p_pagetable_update (\<lambda>_. pagetable)),
       upd_proc p (p_sz_update (\<lambda>_. sz)),
       tf_set p tf_epc (e_entry elf),
       tf_set p tf_sp sp,
       proc_freepagetable oldpagetable oldsz])]"

text \<open>The second half of \<open>exec\<close>: the stack, the arguments and the switch to the new image.\<close>

definition exec_stack :: "u8 list \<Rightarrow> u64 list \<Rightarrow> elfhdr \<Rightarrow> u64 \<Rightarrow> u64 \<Rightarrow> ('x fs_state_scheme, u32) km" where
  "exec_stack path argv elf pagetable sz0 =
     bindM myproc (\<lambda>p.
     bindM (getM (\<lambda>s. p_sz (procs s p))) (\<lambda>oldsz.
     let sz = PGROUNDUP sz0 in
     bindM (uvmalloc pagetable sz (sz + 2 * PGSIZE)) (\<lambda>sz1.
     if sz1 = 0 then exec_bad pagetable sz None
     else
       seqM (uvmclear pagetable (sz1 - 2 * PGSIZE))
       (bindM (push_args pagetable (sz1 - PGSIZE) sz1 [] argv) (\<lambda>r. case r of
          None \<Rightarrow> exec_bad pagetable sz1 None
        | Some (sp, ustack) \<Rightarrow>
            let argc = length ustack;
                sp1 = sp - of_nat ((argc + 1) * 8); sp2 = sp1 - sp1 mod 16 in
            if sp2 < sz1 - PGSIZE then exec_bad pagetable sz1 None
            else
              bindM (copyout pagetable sp2 (concat (map (le_bytes 8) (ustack @ [0])))) (\<lambda>ok.
              if \<not> ok then exec_bad pagetable sz1 None
              else seqM (exec_commit p path elf pagetable sz1 sp2 oldsz) (retM (of_nat argc))))))))"

definition exec :: "u8 list \<Rightarrow> u64 list \<Rightarrow> ('x fs_state_scheme, u32) km" where
  "exec path argv =
     bindM myproc (\<lambda>p.
     seqM begin_op
     (bindM (namei path) (\<lambda>r. case r of
        None \<Rightarrow> seqM end_op (retM (- 1))
      | Some ip \<Rightarrow>
          seqM (ilock ip)
          (bindM (readi ip To_var 0 64) (\<lambda>(n, bs).
           let elf = elfhdr_of bs in
           if n \<noteq> 64 \<or> e_magic elf \<noteq> ELF_MAGIC then exec_bad 0 0 (Some ip)
           else
             bindM (proc_pagetable p) (\<lambda>pagetable.
             if pagetable = 0 then exec_bad 0 0 (Some ip)
             else
               bindM (loopM (exec_load_body ip pagetable elf) (0, ucast (e_phoff elf), 0)) (\<lambda>(ok, sz).
               if \<not> ok then exec_bad pagetable sz (Some ip)
               else seqM (doM [iunlockput ip, end_op]) (exec_stack path argv elf pagetable sz))))))))"

end
