(* ===== verification/Sysfile.thy ===== *)
theory Sysfile
  imports Exec
begin

text \<open>
  The file system calls, \<^verbatim>\<open>kernel/sysfile.c\<close>, with \<open>mmap\<close> and \<open>munmap\<close>. Each definition is
  the whole handler. \<open>goto bad\<close> blocks that two paths share have a definition of their own.
\<close>

section \<open>Descriptors\<close>

text \<open>The descriptor and its file; \<open>None\<close> is the result -1.\<close>

definition argfd :: "nat \<Rightarrow> ('x kmem_state_scheme, (nat \<times> nat) option) km" where
  "argfd n =
     bindM (argint n) (\<lambda>fd.
     bindM myproc (\<lambda>p.
     bindM (proc_at p) (\<lambda>v.
     retM (if sint fd < 0 \<or> sint fd \<ge> int NOFILE then None
           else map_option (\<lambda>f. (unat fd, f)) (p_ofile v (unat fd))))))"

definition set_ofile :: "nat \<Rightarrow> nat \<Rightarrow> nat option \<Rightarrow> ('x kbase_scheme, unit) km" where
  "set_ofile p fd f = upd_proc p (\<lambda>v. v\<lparr>p_ofile := (p_ofile v)(fd := f)\<rparr>)"

definition fdalloc :: "nat \<Rightarrow> ('x kbase_scheme, nat option) km" where
  "fdalloc f =
     bindM myproc (\<lambda>p.
     bindM (proc_at p) (\<lambda>v. case find (\<lambda>fd. p_ofile v fd = None) [0..<NOFILE] of
       Some fd \<Rightarrow> seqM (set_ofile p fd (Some f)) (retM (Some fd))
     | None \<Rightarrow> retM None))"

definition sys_dup :: "('x file_state_scheme, u64) km" where
  "sys_dup =
     bindM (argfd 0) (\<lambda>r. case r of None \<Rightarrow> retM (- 1) | Some (_, f) \<Rightarrow>
     bindM (fdalloc f) (\<lambda>r. case r of None \<Rightarrow> retM (- 1) | Some fd \<Rightarrow>
     bindM (filedup f) (\<lambda>_. retM (of_nat fd))))"

definition sys_read :: "('x file_state_scheme, u64) km" where
  "sys_read =
     bindM (argfd 0) (\<lambda>r. case r of None \<Rightarrow> retM (- 1) | Some (_, f) \<Rightarrow>
     bindM (argint 2) (\<lambda>n.
     bindM (argaddr 1) (\<lambda>p.
     bindM (fileread f p n) (\<lambda>r. retM (scast r)))))"

definition sys_write :: "('x file_state_scheme, u64) km" where
  "sys_write =
     bindM (argfd 0) (\<lambda>r. case r of None \<Rightarrow> retM (- 1) | Some (_, f) \<Rightarrow>
     bindM (argint 2) (\<lambda>n.
     bindM (argaddr 1) (\<lambda>p.
     bindM (filewrite f p n) (\<lambda>r. retM (scast r)))))"

definition sys_close :: "('x file_state_scheme, u64) km" where
  "sys_close =
     bindM (argfd 0) (\<lambda>r. case r of None \<Rightarrow> retM (- 1) | Some (fd, f) \<Rightarrow>
     bindM myproc (\<lambda>p.
     seqM (set_ofile p fd None)
     (seqM (fileclose f)
     (retM 0))))"

definition sys_fstat :: "('x file_state_scheme, u64) km" where
  "sys_fstat =
     bindM (argfd 0) (\<lambda>r. case r of None \<Rightarrow> retM (- 1) | Some (_, f) \<Rightarrow>
     bindM (argaddr 1) (\<lambda>st.
     bindM (filestat f st) (\<lambda>r. retM (scast r))))"

section \<open>Links and directories\<close>

definition add_nlink :: "nat \<Rightarrow> u16 \<Rightarrow> ('x fs_state_scheme, unit) km" where
  "add_nlink ip d = upd_inode ip (\<lambda>n. n\<lparr>i_nlink := i_nlink n + d\<rparr>)"

definition sys_link_bad :: "nat \<Rightarrow> ('x fs_state_scheme, u64) km" where
  "sys_link_bad ip =
     seqM (doM [
       ilock ip,
       add_nlink ip (- 1),
       iupdate ip,
       iunlockput ip,
       end_op])
     (retM (- 1))"

text \<open>The second half of \<open>sys_link\<close>, from the lookup of the new name's directory on.\<close>

definition sys_link_enter :: "nat \<Rightarrow> u8 list \<Rightarrow> ('x fs_state_scheme, u64) km" where
  "sys_link_enter ip new =
     bindM (nameiparent new (replicate DIRSIZ 0)) (\<lambda>(r, name). case r of
       None \<Rightarrow> sys_link_bad ip
     | Some dp \<Rightarrow>
         seqM (ilock dp)
         (bindM (getM (\<lambda>s. (i_dev (inodes s dp) \<noteq> i_dev (inodes s ip), i_inum (inodes s ip)))) (\<lambda>(other, inum).
          bindM (if other then retM False else dirlink dp name inum) (\<lambda>ok.
          if \<not> ok then seqM (iunlockput dp) (sys_link_bad ip)
          else seqM (doM [iunlockput dp, iput ip, end_op]) (retM 0)))))"

definition sys_link :: "('x fs_state_scheme, u64) km" where
  "sys_link =
     bindM (argstr 0 MAXPATH) (\<lambda>r. case r of None \<Rightarrow> retM (- 1) | Some old \<Rightarrow>
     bindM (argstr 1 MAXPATH) (\<lambda>r. case r of None \<Rightarrow> retM (- 1) | Some new \<Rightarrow>
     seqM begin_op
     (bindM (namei old) (\<lambda>r. case r of
        None \<Rightarrow> seqM end_op (retM (- 1))
      | Some ip \<Rightarrow>
          seqM (ilock ip)
          (ifM (\<lambda>s. i_type (inodes s ip) = T_DIR)
            (seqM (doM [iunlockput ip, end_op]) (retM (- 1)))
            (seqM (doM [add_nlink ip 1, iupdate ip, iunlock ip])
              (sys_link_enter ip new)))))))"

definition isdirempty_body :: "nat \<Rightarrow> u32 \<Rightarrow> ('x fs_state_scheme, u32 + bool) km" where
  "isdirempty_body dp off =
     ifM (\<lambda>s. off < i_size (inodes s dp))
       (bindM (readi dp To_var off 16) (\<lambda>(r, de).
        if r \<noteq> 16 then panicM ''isdirempty: readi''
        else if get16 de 0 \<noteq> 0 then retM (Inr False)
        else retM (Inl (off + 16))))
       (retM (Inr True))"

definition isdirempty :: "nat \<Rightarrow> ('x fs_state_scheme, bool) km" where
  "isdirempty dp = loopM (isdirempty_body dp) 32"

definition sys_unlink_bad :: "nat \<Rightarrow> ('x fs_state_scheme, u64) km" where
  "sys_unlink_bad dp = seqM (doM [iunlockput dp, end_op]) (retM (- 1))"

text \<open>\<open>sys_unlink\<close> after the entry \<open>(ip, off)\<close> was found and \<open>ip\<close> may go.\<close>

definition sys_unlink_remove :: "nat \<Rightarrow> nat \<Rightarrow> u32 \<Rightarrow> ('x fs_state_scheme, u64) km" where
  "sys_unlink_remove dp ip off =
     bindM (writei dp (From_var (replicate 16 0)) off 16) (\<lambda>r.
     if r \<noteq> 16 then panicM ''unlink: writei''
     else seqM (doM [
       ifM (\<lambda>s. i_type (inodes s ip) = T_DIR) (doM [add_nlink dp (- 1), iupdate dp]) skipM,
       iunlockput dp,
       add_nlink ip (- 1),
       iupdate ip,
       iunlockput ip,
       end_op])
       (retM 0))"

definition sys_unlink :: "('x fs_state_scheme, u64) km" where
  "sys_unlink =
     bindM (argstr 0 MAXPATH) (\<lambda>r. case r of None \<Rightarrow> retM (- 1) | Some path \<Rightarrow>
     seqM begin_op
     (bindM (nameiparent path (replicate DIRSIZ 0)) (\<lambda>(r, name). case r of
        None \<Rightarrow> seqM end_op (retM (- 1))
      | Some dp \<Rightarrow>
          seqM (ilock dp)
          (if namecmp name (ascii ''.'') = 0 \<or> namecmp name (ascii ''..'') = 0 then sys_unlink_bad dp
           else
             bindM (dirlookup dp name) (\<lambda>r. case r of
               None \<Rightarrow> sys_unlink_bad dp
             | Some (ip, off) \<Rightarrow>
                 seqM (ilock ip)
                (seqM (panic_ifM (\<lambda>s. sint (i_nlink (inodes s ip)) < 1) ''unlink: nlink < 1'')
                (bindM (ifM (\<lambda>s. i_type (inodes s ip) = T_DIR) (isdirempty ip) (retM True)) (\<lambda>may.
                 if \<not> may then seqM (iunlockput ip) (sys_unlink_bad dp)
                 else sys_unlink_remove dp ip off))))))))"

definition create_new :: "nat \<Rightarrow> u8 list \<Rightarrow> u16 \<Rightarrow> u16 \<Rightarrow> u16 \<Rightarrow> ('x fs_state_scheme, nat option) km" where
  "create_new dp name type major minor =
     bindM (inode_at dp) (\<lambda>d.
     bindM (ialloc (i_dev d) type) (\<lambda>ip.
     seqM (doM [
       ilock ip,
       upd_inode ip (\<lambda>n. n\<lparr>i_major := major, i_minor := minor, i_nlink := 1\<rparr>),
       iupdate ip,
       whenM (type = T_DIR) (doM [
         add_nlink dp 1,
         iupdate dp,
         bindM (inode_at ip) (\<lambda>n.
         bindM (dirlink ip (ascii ''.'') (i_inum n)) (\<lambda>ok1.
         if \<not> ok1 then panicM ''create dots''
         else
           bindM (inode_at dp) (\<lambda>d.
           bindM (dirlink ip (ascii ''..'') (i_inum d)) (\<lambda>ok2.
           whenM (\<not> ok2) (panicM ''create dots'')))))]),
       bindM (inode_at ip) (\<lambda>n.
       bindM (dirlink dp name (i_inum n)) (\<lambda>ok.
       whenM (\<not> ok) (panicM ''create: dirlink''))),
       iunlockput dp])
     (retM (Some ip))))"

definition create :: "u8 list \<Rightarrow> u16 \<Rightarrow> u16 \<Rightarrow> u16 \<Rightarrow> ('x fs_state_scheme, nat option) km" where
  "create path type major minor =
     bindM (nameiparent path (replicate DIRSIZ 0)) (\<lambda>(r, name). case r of
       None \<Rightarrow> retM None
     | Some dp \<Rightarrow>
         seqM (ilock dp)
         (bindM (dirlookup dp name) (\<lambda>r. case r of
            Some (ip, _) \<Rightarrow>
              seqM (iunlockput dp)
             (seqM (ilock ip)
             (ifM (\<lambda>s. type = T_FILE \<and> (i_type (inodes s ip) = T_FILE \<or> i_type (inodes s ip) = T_DEVICE))
               (retM (Some ip))
               (seqM (iunlockput ip) (retM None))))
          | None \<Rightarrow> create_new dp name type major minor)))"

section \<open>open\<close>

abbreviation (input) O_RDONLY :: u32 where "O_RDONLY \<equiv> 0"
abbreviation (input) O_WRONLY :: u32 where "O_WRONLY \<equiv> 1"
abbreviation (input) O_RDWR :: u32 where "O_RDWR \<equiv> 2"
abbreviation (input) O_CREATE :: u32 where "O_CREATE \<equiv> 0x200"
abbreviation (input) O_TRUNC :: u32 where "O_TRUNC \<equiv> 0x400"

text \<open>The inode of \<open>sys_open\<close>, locked; \<open>None\<close> where the call returns -1 (after \<open>end_op\<close>).\<close>

definition sys_open_inode :: "u8 list \<Rightarrow> u32 \<Rightarrow> ('x fs_state_scheme, nat option) km" where
  "sys_open_inode path omode =
     (if omode AND O_CREATE \<noteq> 0 then
        bindM (create path T_FILE 0 0) (\<lambda>r. case r of
          None \<Rightarrow> seqM end_op (retM None)
        | Some ip \<Rightarrow> retM (Some ip))
      else
        bindM (namei path) (\<lambda>r. case r of
          None \<Rightarrow> seqM end_op (retM None)
        | Some ip \<Rightarrow>
            seqM (ilock ip)
            (ifM (\<lambda>s. i_type (inodes s ip) = T_DIR \<and> omode \<noteq> O_RDONLY)
              (seqM (doM [iunlockput ip, end_op]) (retM None))
              (retM (Some ip)))))"

definition sys_open_file :: "nat \<Rightarrow> nat \<Rightarrow> u32 \<Rightarrow> ('x file_state_scheme, unit) km" where
  "sys_open_file f ip omode = doM [
     bindM (inode_at ip) (\<lambda>n.
       if i_type n = T_DEVICE then upd_file f (\<lambda>v. v\<lparr>f_type := FD_DEVICE, f_major := i_major n\<rparr>)
       else upd_file f (\<lambda>v. v\<lparr>f_type := FD_INODE, f_off := 0\<rparr>)),
     upd_file f (\<lambda>v. v\<lparr>f_ip := ip, f_readable := (omode AND O_WRONLY = 0),
       f_writable := (omode AND O_WRONLY \<noteq> 0 \<or> omode AND O_RDWR \<noteq> 0)\<rparr>),
     ifM (\<lambda>s. omode AND O_TRUNC \<noteq> 0 \<and> i_type (inodes s ip) = T_FILE) (itrunc ip) skipM,
     iunlock ip,
     end_op]"

definition sys_open_bad :: "nat \<Rightarrow> ('x fs_state_scheme, u64) km" where
  "sys_open_bad ip = seqM (doM [iunlockput ip, end_op]) (retM (- 1))"

definition sys_open :: "('x file_state_scheme, u64) km" where
  "sys_open =
     bindM (argstr 0 MAXPATH) (\<lambda>r. case r of None \<Rightarrow> retM (- 1) | Some path \<Rightarrow>
     bindM (argint 1) (\<lambda>omode.
     seqM begin_op
     (bindM (sys_open_inode path omode) (\<lambda>r. case r of None \<Rightarrow> retM (- 1) | Some ip \<Rightarrow>
      ifM (\<lambda>s. i_type (inodes s ip) = T_DEVICE \<and>
             (sint (i_major (inodes s ip)) < 0 \<or> sint (i_major (inodes s ip)) \<ge> int NDEV))
        (sys_open_bad ip)
        (bindM filealloc (\<lambda>r. case r of
           None \<Rightarrow> sys_open_bad ip
         | Some f \<Rightarrow>
             bindM (fdalloc f) (\<lambda>r. case r of
               None \<Rightarrow> seqM (fileclose f) (sys_open_bad ip)
             | Some fd \<Rightarrow> seqM (sys_open_file f ip omode) (retM (of_nat fd)))))))))"

definition sys_mkdir :: "('x fs_state_scheme, u64) km" where
  "sys_mkdir =
     seqM begin_op
     (bindM (argstr 0 MAXPATH) (\<lambda>r. case r of None \<Rightarrow> seqM end_op (retM (- 1)) | Some path \<Rightarrow>
      bindM (create path T_DIR 0 0) (\<lambda>r. case r of None \<Rightarrow> seqM end_op (retM (- 1)) | Some ip \<Rightarrow>
      seqM (doM [iunlockput ip, end_op]) (retM 0))))"

definition sys_mknod :: "('x fs_state_scheme, u64) km" where
  "sys_mknod =
     seqM begin_op
     (bindM (argstr 0 MAXPATH) (\<lambda>r. case r of None \<Rightarrow> seqM end_op (retM (- 1)) | Some path \<Rightarrow>
      bindM (argint 1) (\<lambda>major.
      bindM (argint 2) (\<lambda>minor.
      bindM (create path T_DEVICE (ucast major) (ucast minor)) (\<lambda>r. case r of
        None \<Rightarrow> seqM end_op (retM (- 1))
      | Some ip \<Rightarrow> seqM (doM [iunlockput ip, end_op]) (retM 0))))))"

definition sys_chdir :: "('x fs_state_scheme, u64) km" where
  "sys_chdir =
     bindM myproc (\<lambda>p.
     seqM begin_op
     (bindM (argstr 0 MAXPATH) (\<lambda>r. case r of None \<Rightarrow> seqM end_op (retM (- 1)) | Some path \<Rightarrow>
      bindM (namei path) (\<lambda>r. case r of None \<Rightarrow> seqM end_op (retM (- 1)) | Some ip \<Rightarrow>
      seqM (ilock ip)
      (ifM (\<lambda>s. i_type (inodes s ip) \<noteq> T_DIR)
        (seqM (doM [iunlockput ip, end_op]) (retM (- 1)))
        (seqM (doM [
           iunlock ip,
           bindM (proc_at p) (\<lambda>v. case p_cwd v of None \<Rightarrow> null_fault | Some d \<Rightarrow> iput d),
           end_op,
           upd_proc p (p_cwd_update (\<lambda>_. Some ip))])
         (retM 0)))))))"

section \<open>exec and pipe\<close>

definition free_argv :: "u64 list \<Rightarrow> ('x kmem_state_scheme, unit) km" where
  "free_argv argv = eachM argv kfree"

text \<open>
  The loop of \<open>sys_exec\<close>: the loop variable is the filled part of \<open>argv\<close>; it leaves with
  \<open>True\<close> when it found the terminating null pointer.
\<close>

definition fetch_argv_body :: "u64 \<Rightarrow> u64 list \<Rightarrow>
    ('x kmem_state_scheme, u64 list + bool \<times> u64 list) km" where
  "fetch_argv_body uargv argv =
     (if length argv \<ge> MAXARG then retM (Inr (False, argv))
      else
        bindM (fetchaddr (uargv + 8 * of_nat (length argv))) (\<lambda>r. case r of
          None \<Rightarrow> retM (Inr (False, argv))
        | Some uarg \<Rightarrow>
            if uarg = 0 then retM (Inr (True, argv))
            else
              bindM kalloc (\<lambda>a.
              if a = 0 then retM (Inr (False, argv))
              else
                bindM (fetchstr_page uarg a 4096) (\<lambda>ok.
                retM (if ok then Inl (argv @ [a]) else Inr (False, argv @ [a]))))))"

definition sys_exec :: "('x fs_state_scheme, u64) km" where
  "sys_exec =
     bindM (argstr 0 MAXPATH) (\<lambda>r. case r of None \<Rightarrow> retM (- 1) | Some path \<Rightarrow>
     bindM (argaddr 1) (\<lambda>uargv.
     bindM (loopM (fetch_argv_body uargv) []) (\<lambda>(ok, argv).
     if \<not> ok then seqM (free_argv argv) (retM (- 1))
     else
       bindM (exec path argv) (\<lambda>ret.
       seqM (free_argv argv) (retM (scast ret))))))"

definition close_both :: "nat \<Rightarrow> nat \<Rightarrow> ('x file_state_scheme, u64) km" where
  "close_both rfile wfile = seqM (doM [fileclose rfile, fileclose wfile]) (retM (- 1))"

definition sys_pipe :: "('x file_state_scheme, u64) km" where
  "sys_pipe =
     bindM myproc (\<lambda>p.
     bindM (argaddr 0) (\<lambda>fdarray.
     bindM pipealloc (\<lambda>r. case r of None \<Rightarrow> retM (- 1) | Some (rfile, wfile) \<Rightarrow>
     bindM (fdalloc rfile) (\<lambda>r. case r of None \<Rightarrow> close_both rfile wfile | Some fd0 \<Rightarrow>
     bindM (fdalloc wfile) (\<lambda>r. case r of
       None \<Rightarrow> seqM (set_ofile p fd0 None) (close_both rfile wfile)
     | Some fd1 \<Rightarrow>
         bindM (proc_at p) (\<lambda>v.
         bindM (copyout (p_pagetable v) fdarray (le_bytes 4 (of_nat fd0 :: u32))) (\<lambda>ok0.
         bindM (if ok0 then copyout (p_pagetable v) (fdarray + 4) (le_bytes 4 (of_nat fd1 :: u32))
                else retM False) (\<lambda>ok.
         if ok then retM 0
         else seqM (doM [set_ofile p fd0 None, set_ofile p fd1 None]) (close_both rfile wfile)))))))))"

section \<open>mmap and munmap\<close>

abbreviation (input) PROT_READ :: u32 where "PROT_READ \<equiv> 1"
abbreviation (input) PROT_WRITE :: u32 where "PROT_WRITE \<equiv> 2"
abbreviation (input) PROT_EXEC :: u32 where "PROT_EXEC \<equiv> 4"

text \<open>\<open>PGROUNDUP\<close> on a C \<open>int\<close>.\<close>

definition pgroundup_int :: "u32 \<Rightarrow> u32" where
  "pgroundup_int len = (len + 4096 - 1) AND NOT (4096 - 1)"

definition upd_vma :: "nat \<Rightarrow> nat \<Rightarrow> (vma \<Rightarrow> vma) \<Rightarrow> ('x kbase_scheme, unit) km" where
  "upd_vma p i g = upd_proc p (\<lambda>v. v\<lparr>p_vma := (p_vma v)(i := g (p_vma v i))\<rparr>)"

definition mmap_vma :: "nat \<Rightarrow> nat \<Rightarrow> nat \<Rightarrow> u32 \<Rightarrow> u32 \<Rightarrow> u32 \<Rightarrow> u32 \<Rightarrow> ('x file_state_scheme, u64) km" where
  "mmap_vma p i f len prot flags offset =
     bindM (getM (\<lambda>s. p_sz (procs s p))) (\<lambda>addr.
     seqM (doM [
       upd_vma p i (\<lambda>m. m\<lparr>vma_valid := True, vma_addr := addr, vma_len := len, vma_f := f,
         vma_prot := prot, vma_flags := flags, vma_offset := offset\<rparr>),
       bindM (filedup f) (\<lambda>_. skipM),
       upd_proc p (\<lambda>v. v\<lparr>p_sz := p_sz v + scast len\<rparr>)])
     (retM addr))"

definition sys_mmap :: "('x file_state_scheme, u64) km" where
  "sys_mmap =
     bindM (argint 1) (\<lambda>len0.
     bindM (argint 2) (\<lambda>prot.
     bindM (argint 3) (\<lambda>flags.
     bindM (argfd 4) (\<lambda>r. case r of None \<Rightarrow> retM (- 1) | Some (_, f) \<Rightarrow>
     bindM (argint 5) (\<lambda>offset.
     bindM (file_at f) (\<lambda>fv.
     if \<not> f_writable fv \<and> prot AND PROT_WRITE \<noteq> 0 \<and> flags = MAP_SHARED then retM (- 1)
     else
       bindM myproc (\<lambda>p.
       bindM (proc_at p) (\<lambda>v.
       let len = pgroundup_int len0 in
       if p_sz v > MAXVA - scast len then retM (- 1)
       else case find (\<lambda>i. \<not> vma_valid (p_vma v i)) [0..<VMASIZE] of
         None \<Rightarrow> retM (- 1)
       | Some i \<Rightarrow> mmap_vma p i f len prot flags offset))))))))"

text \<open>The part of \<open>sys_munmap\<close> for a range that starts where mapping \<open>i\<close> starts.\<close>

definition munmap_front :: "nat \<Rightarrow> nat \<Rightarrow> u64 \<Rightarrow> u32 \<Rightarrow> ('x file_state_scheme, unit) km" where
  "munmap_front p i addr len = doM [
     upd_vma p i (\<lambda>m. m\<lparr>vma_addr := vma_addr m + scast len, vma_len := vma_len m - len\<rparr>),
     bindM (proc_at p) (\<lambda>v. whenM (vma_flags (p_vma v i) AND MAP_SHARED \<noteq> 0)
       (bindM (filewrite (vma_f (p_vma v i)) addr len) (\<lambda>_. skipM))),
     bindM (proc_at p) (\<lambda>v. uvmunmap (p_pagetable v) addr (pages_of len) True),
     ifM (\<lambda>s. vma_len (p_vma (procs s p) i) = 0)
       (doM [
         bindM (proc_at p) (\<lambda>v. fileclose (vma_f (p_vma v i))),
         upd_vma p i (vma_valid_update (\<lambda>_. False))])
       skipM]"

definition vma_covers :: "vma \<Rightarrow> u64 \<Rightarrow> bool" where
  "vma_covers m va \<longleftrightarrow> va \<ge> vma_addr m \<and> va < vma_addr m + scast (vma_len m)"

definition sys_munmap :: "('x file_state_scheme, u64) km" where
  "sys_munmap =
     bindM (argaddr 0) (\<lambda>addr0.
     bindM (argint 1) (\<lambda>len0.
     let addr = PGROUNDDOWN addr0; len = pgroundup_int len0 in
     bindM myproc (\<lambda>p.
     bindM (proc_at p) (\<lambda>v. case find (\<lambda>i. vma_covers (p_vma v i) addr) [0..<VMASIZE] of
       None \<Rightarrow> retM 0
     | Some i \<Rightarrow>
         seqM (whenM (vma_addr (p_vma v i) = addr) (munmap_front p i addr len)) (retM 0)))))"

end
