(* ===== verification/Trap.thy ===== *)
theory Trap
  imports Sysfile
begin

text \<open>
  System-call dispatch (the second half of \<^verbatim>\<open>kernel/syscall.c\<close>), traps and interrupts
  (\<^verbatim>\<open>kernel/trap.c\<close>, with the page-fault handler of \<open>mmap\<close>), the first run of a process
  (\<open>forkret\<close>) and the boot sequence \<^verbatim>\<open>kernel/main.c\<close>.
\<close>

section \<open>System calls\<close>

definition syscalls :: "nat \<Rightarrow> ('x proc_state_scheme, u64) km option" where
  "syscalls num = map_of [
     (1, sys_fork), (2, sys_exit), (3, sys_wait), (4, sys_pipe), (5, sys_read), (6, sys_kill),
     (7, sys_exec), (8, sys_fstat), (9, sys_chdir), (10, sys_dup), (11, sys_getpid),
     (12, sys_sbrk), (13, sys_sleep), (14, sys_uptime), (15, sys_open), (16, sys_write),
     (17, sys_mknod), (18, sys_unlink), (19, sys_link), (20, sys_mkdir), (21, sys_close),
     (22, sys_mmap), (23, sys_munmap)] num"

definition syscall :: "('x proc_state_scheme, unit) km" where
  "syscall =
     bindM myproc (\<lambda>p.
     bindM (tf_get p tf_a7) (\<lambda>a7.
     let num = ucast a7 :: u32 in
     case (if sint num > 0 then syscalls (unat num) else None) of
       Some handler \<Rightarrow> bindM handler (\<lambda>r. tf_set p tf_a0 r)
     | None \<Rightarrow>
         bindM (proc_at p) (\<lambda>v. doM [
           printf (ascii ''%d %s: unknown sys call %d'' @ [10])
             [A_int (p_pid v), A_str (Some (cstr (p_name v))), A_int num],
           tf_set p tf_a0 (- 1)])))"

section \<open>Device interrupts\<close>

abbreviation (input) SSTATUS_SPP :: u64 where "SSTATUS_SPP \<equiv> 0x100"
abbreviation (input) SSTATUS_SPIE :: u64 where "SSTATUS_SPIE \<equiv> 0x20"
abbreviation (input) SSTATUS_SIE :: u64 where "SSTATUS_SIE \<equiv> 2"

definition clockintr :: "('x proc_state_scheme, unit) km" where
  "clockintr = doM [
     acquire L_ticks,
     modM (\<lambda>s. s\<lparr>ticks := ticks s + 1\<rparr>),
     wakeup Ch_ticks,
     release L_ticks]"

text \<open>2 for a timer interrupt, 1 for another device, 0 for something else.\<close>

definition devintr :: "('x proc_state_scheme, nat) km" where
  "devintr =
     bindM (getM scause) (\<lambda>cause.
     if cause AND 0x8000000000000000 \<noteq> 0 \<and> cause AND 0xff = 9 then
       bindM plic_claim (\<lambda>irq.
       seqM (doM [
         if irq = UART0_IRQ then uartintr
         else if irq = VIRTIO0_IRQ then virtio_disk_intr
         else whenM (irq \<noteq> 0) (printf (ascii ''unexpected interrupt irq=%d'' @ [10]) [A_int irq]),
         whenM (irq \<noteq> 0) (plic_complete irq)])
       (retM 1))
     else if cause = 0x8000000000000001 then
       bindM cpuid (\<lambda>id.
       seqM (doM [
         whenM (id = 0) clockintr,
         modM (\<lambda>s. s\<lparr>sip := sip s AND NOT 2\<rparr>)])
       (retM 2))
     else retM 0)"

definition trapinithart :: "('x proc_state_scheme, unit) km" where
  "trapinithart = modM (\<lambda>s. s\<lparr>stvec := kernelvec_addr s\<rparr>)"

section \<open>Traps from user space\<close>

text \<open>
  The return to user space ends with a jump to \<open>userret\<close> in the trampoline page; the target and
  its two arguments are recorded in \<open>user_entry\<close>.
\<close>

definition usertrapret :: "('x proc_state_scheme, unit) km" where
  "usertrapret =
     bindM myproc (\<lambda>p. doM [
       modM (\<lambda>s. s\<lparr>sstatus := sstatus s AND NOT SSTATUS_SIE\<rparr>),
       modM (\<lambda>s. s\<lparr>stvec := TRAMPOLINE + (uservec_addr s - trampoline s)\<rparr>),
       bindM (getM satp) (tf_set p tf_kernel_satp),
       bindM (getM (\<lambda>s. p_kstack (procs s p) + PGSIZE)) (tf_set p tf_kernel_sp),
       bindM (getM usertrap_addr) (tf_set p tf_kernel_trap),
       bindM (getM tp) (tf_set p tf_kernel_hartid),
       modM (\<lambda>s. s\<lparr>sstatus := (sstatus s AND NOT SSTATUS_SPP) OR SSTATUS_SPIE\<rparr>),
       bindM (tf_get p tf_epc) (\<lambda>epc. modM (\<lambda>s. s\<lparr>sepc := epc\<rparr>)),
       modM (\<lambda>s. s\<lparr>user_entry := Some (TRAMPOLINE + (userret_addr s - trampoline s), TRAPFRAME,
         MAKE_SATP (p_pagetable (procs s p)))\<rparr>)])"

definition forkret :: "('x proc_state_scheme, unit) km" where
  "forkret = doM [
     bindM myproc (\<lambda>p. release (L_proc p)),
     ifM first
       (doM [
         modM (\<lambda>s. s\<lparr>first := False\<rparr>),
         fsinit ROOTDEV])
       skipM,
     usertrapret]"

definition set_killed :: "nat \<Rightarrow> ('x kbase_scheme, unit) km" where
  "set_killed p = upd_proc p (p_killed_update (\<lambda>_. True))"

definition prot_flags :: "u32 \<Rightarrow> u64" where
  "prot_flags prot = PTE_U OR (if prot AND PROT_READ \<noteq> 0 then PTE_R else 0)
     OR (if prot AND PROT_WRITE \<noteq> 0 then PTE_W else 0)
     OR (if prot AND PROT_EXEC \<noteq> 0 then PTE_X else 0)"

text \<open>Bringing in the page of mapping \<open>m\<close> that holds \<open>va\<close>.\<close>

definition load_vma_page :: "nat \<Rightarrow> vma \<Rightarrow> u64 \<Rightarrow> ('x file_state_scheme, unit) km" where
  "load_vma_page p m va0 =
     (let va = PGROUNDDOWN va0; offset = va - vma_addr m in
      bindM kalloc (\<lambda>pg.
      if pg = 0 then set_killed p
      else
        seqM (modM (\<lambda>s. s\<lparr>mem := memset (mem s) pg 0 4096\<rparr>))
        (bindM (getM (\<lambda>s. f_ip (files s (vma_f m)))) (\<lambda>ip. doM [
           ilock ip,
           bindM (readi ip (To_page pg) (ucast offset) 4096) (\<lambda>_. skipM),
           iunlock ip,
           bindM (getM (\<lambda>s. p_pagetable (procs s p))) (\<lambda>pt.
           bindM (mappages pt va PGSIZE pg (prot_flags (vma_prot m))) (\<lambda>ok.
           whenM (\<not> ok) (doM [kfree pg, set_killed p])))]))))"

definition user_page_fault :: "nat \<Rightarrow> u64 \<Rightarrow> ('x file_state_scheme, unit) km" where
  "user_page_fault p va =
     bindM (tf_get p tf_sp) (\<lambda>sp.
     bindM (proc_at p) (\<lambda>v.
     seqM (whenM (va \<ge> p_sz v \<or> va > MAXVA \<or> PGROUNDUP va = PGROUNDDOWN sp) (set_killed p))
     (case find (\<lambda>i. vma_valid (p_vma v i) \<and> vma_covers (p_vma v i) va) [0..<VMASIZE] of
        None \<Rightarrow> skipM
      | Some i \<Rightarrow> load_vma_page p (p_vma v i) va)))"

definition unexpected_scause :: "nat \<Rightarrow> ('x proc_state_scheme, unit) km" where
  "unexpected_scause p = doM [
     bindM (getM (\<lambda>s. (scause s, p_pid (procs s p)))) (\<lambda>(c, pid).
       printf (ascii ''usertrap(): unexpected scause %p pid=%d'' @ [10]) [A_ptr c, A_int pid]),
     bindM (getM (\<lambda>s. (sepc s, stval s))) (\<lambda>(e, v).
       printf (ascii ''            sepc=%p stval=%p'' @ [10]) [A_ptr e, A_ptr v]),
     set_killed p]"

text \<open>The three-way dispatch of \<open>usertrap\<close>; the result is \<open>which_dev\<close>.\<close>

definition usertrap_dispatch :: "nat \<Rightarrow> ('x proc_state_scheme, nat) km" where
  "usertrap_dispatch p =
     ifM (\<lambda>s. scause s = 8)
       (seqM (doM [
          ifM (\<lambda>s. p_killed (procs s p)) (exit (- 1)) skipM,
          bindM (tf_get p tf_epc) (\<lambda>epc. tf_set p tf_epc (epc + 4)),
          modM (\<lambda>s. s\<lparr>sstatus := sstatus s OR SSTATUS_SIE\<rparr>),
          syscall])
        (retM 0))
       (bindM devintr (\<lambda>which_dev.
        if which_dev \<noteq> 0 then retM which_dev
        else seqM
          (ifM (\<lambda>s. scause s = 13 \<or> scause s = 15)
            (bindM (getM stval) (user_page_fault p))
            (unexpected_scause p))
          (retM 0)))"

definition usertrap :: "('x proc_state_scheme, unit) km" where
  "usertrap =
     seqM (panic_ifM (\<lambda>s. sstatus s AND SSTATUS_SPP \<noteq> 0) ''usertrap: not from user mode'')
     (seqM (modM (\<lambda>s. s\<lparr>stvec := kernelvec_addr s\<rparr>))
     (bindM myproc (\<lambda>p.
      seqM (bindM (getM sepc) (tf_set p tf_epc))
     (bindM (usertrap_dispatch p) (\<lambda>which_dev. doM [
        ifM (\<lambda>s. p_killed (procs s p)) (exit (- 1)) skipM,
        whenM (which_dev = 2) yield,
        usertrapret])))))"

section \<open>Traps from the kernel\<close>

definition kerneltrap :: "('x proc_state_scheme, unit) km" where
  "kerneltrap =
     bindM (getM (\<lambda>s. (sepc s, sstatus s, scause s))) (\<lambda>(pc, status, cause).
     if status AND SSTATUS_SPP = 0 then panicM ''kerneltrap: not from supervisor mode''
     else if status AND SSTATUS_SIE \<noteq> 0 then panicM ''kerneltrap: interrupts enabled''
     else
       bindM devintr (\<lambda>which_dev.
       if which_dev = 0 then
         seqM (doM [
           printf (ascii ''scause %p'' @ [10]) [A_ptr cause],
           bindM (getM (\<lambda>s. (sepc s, stval s))) (\<lambda>(e, v).
             printf (ascii ''sepc=%p stval=%p'' @ [10]) [A_ptr e, A_ptr v])])
         (panicM ''kerneltrap'')
       else doM [
         ifM (\<lambda>s. which_dev = 2 \<and> (case cur s of None \<Rightarrow> False | Some q \<Rightarrow> p_state (procs s q) = RUNNING))
           yield skipM,
         modM (\<lambda>s. s\<lparr>sepc := pc\<rparr>),
         modM (\<lambda>s. s\<lparr>sstatus := status\<rparr>)]))"

section \<open>Boot\<close>

text \<open>
  \<open>main\<close> on the booting hart and on the others, which spin until \<open>started\<close> is set. The
  spin loop never gives up the processor, so for the model of one hart it ends only if the
  variable is already set.
\<close>

definition main_boot :: "('x proc_state_scheme, unit) km" where
  "main_boot = doM [
     consoleinit,
     printfinit,
     printf [10] [],
     printf (ascii ''xv6 kernel is booting'' @ [10]) [],
     printf [10] [],
     kinit,
     kvminit,
     kvminithart,
     procinit,
     trapinithart,
     plicinit,
     plicinithart,
     binit,
     iinit,
     virtio_disk_init,
     userinit,
     modM (\<lambda>s. s\<lparr>started := True\<rparr>),
     scheduler]"

definition main_other :: "('x proc_state_scheme, unit) km" where
  "main_other = doM [
     whileM (\<lambda>s. \<not> started s) skipM,
     bindM cpuid (\<lambda>id. printf (ascii ''hart %d starting'' @ [10]) [A_int id]),
     kvminithart,
     trapinithart,
     plicinithart,
     scheduler]"

definition main :: "('x proc_state_scheme, unit) km" where
  "main = bindM cpuid (\<lambda>id. if id = 0 then main_boot else main_other)"

end
