(* ===== verification/Asm.thy ===== *)
theory Asm
  imports Cstring
begin

text \<open>
  The assembly code: \<^verbatim>\<open>kernel/trampoline.S\<close>, \<^verbatim>\<open>kernel/swtch.S\<close>, \<^verbatim>\<open>kernel/kernelvec.S\<close>,
  \<^verbatim>\<open>kernel/entry.S\<close>, and the machine-mode start-up \<^verbatim>\<open>kernel/start.c\<close>. The programs are lists of
  instructions, transcribed line by line and run by an interpreter for the few instructions
  they use. The theorems say that the save and restore sequences lose no register.
\<close>

section \<open>A small RISC-V machine\<close>

text \<open>Registers by number, in the order of the calling convention's names.\<close>

abbreviation (input) x_ra :: nat where "x_ra \<equiv> 1"
abbreviation (input) x_sp :: nat where "x_sp \<equiv> 2"
abbreviation (input) x_gp :: nat where "x_gp \<equiv> 3"
abbreviation (input) x_tp :: nat where "x_tp \<equiv> 4"
abbreviation (input) x_t0 :: nat where "x_t0 \<equiv> 5"
abbreviation (input) x_t1 :: nat where "x_t1 \<equiv> 6"
abbreviation (input) x_t2 :: nat where "x_t2 \<equiv> 7"
abbreviation (input) x_s0 :: nat where "x_s0 \<equiv> 8"
abbreviation (input) x_s1 :: nat where "x_s1 \<equiv> 9"
abbreviation (input) x_a0 :: nat where "x_a0 \<equiv> 10"
abbreviation (input) x_a1 :: nat where "x_a1 \<equiv> 11"
abbreviation (input) x_a2 :: nat where "x_a2 \<equiv> 12"
abbreviation (input) x_a3 :: nat where "x_a3 \<equiv> 13"
abbreviation (input) x_a4 :: nat where "x_a4 \<equiv> 14"
abbreviation (input) x_a5 :: nat where "x_a5 \<equiv> 15"
abbreviation (input) x_a6 :: nat where "x_a6 \<equiv> 16"
abbreviation (input) x_a7 :: nat where "x_a7 \<equiv> 17"
abbreviation (input) x_s2 :: nat where "x_s2 \<equiv> 18"
abbreviation (input) x_s3 :: nat where "x_s3 \<equiv> 19"
abbreviation (input) x_s4 :: nat where "x_s4 \<equiv> 20"
abbreviation (input) x_s5 :: nat where "x_s5 \<equiv> 21"
abbreviation (input) x_s6 :: nat where "x_s6 \<equiv> 22"
abbreviation (input) x_s7 :: nat where "x_s7 \<equiv> 23"
abbreviation (input) x_s8 :: nat where "x_s8 \<equiv> 24"
abbreviation (input) x_s9 :: nat where "x_s9 \<equiv> 25"
abbreviation (input) x_s10 :: nat where "x_s10 \<equiv> 26"
abbreviation (input) x_s11 :: nat where "x_s11 \<equiv> 27"
abbreviation (input) x_t3 :: nat where "x_t3 \<equiv> 28"
abbreviation (input) x_t4 :: nat where "x_t4 \<equiv> 29"
abbreviation (input) x_t5 :: nat where "x_t5 \<equiv> 30"
abbreviation (input) x_t6 :: nat where "x_t6 \<equiv> 31"

datatype csr = C_sscratch | C_satp | C_mscratch | C_sip | C_mhartid

datatype instr =
    Sd nat nat nat
  | Ld nat nat nat
  | Csrrw nat csr nat
  | Csrr nat csr
  | Csrw csr nat
  | Addi nat nat u64
  | Add nat nat nat
  | Mul nat nat nat
  | Li nat u64
  | Sfence
  | Jr nat
  | Ret
  | Sret
  | Mret

text \<open>
  \<open>reg\<close> are the registers, \<open>cs\<close> the control registers, \<open>ram\<close> the memory the code addresses
  (through the trap-frame mapping for the trampoline), \<open>went\<close> where control left to.
\<close>

datatype exit_to = Falls | Jumps u64 | To_user_mode | To_supervisor

record machine =
  reg :: "nat \<Rightarrow> u64"
  cs :: "csr \<Rightarrow> u64"
  ram :: memory
  went :: exit_to

fun istep :: "instr \<Rightarrow> machine \<Rightarrow> machine" where
  "istep (Sd r off b) m = m\<lparr>ram := store64 (ram m) (reg m b + of_nat off) (reg m r)\<rparr>"
| "istep (Ld r off b) m = m\<lparr>reg := (reg m)(r := load64 (ram m) (reg m b + of_nat off))\<rparr>"
| "istep (Csrrw d c r) m = m\<lparr>reg := (reg m)(d := cs m c), cs := (cs m)(c := reg m r)\<rparr>"
| "istep (Csrr d c) m = m\<lparr>reg := (reg m)(d := cs m c)\<rparr>"
| "istep (Csrw c r) m = m\<lparr>cs := (cs m)(c := reg m r)\<rparr>"
| "istep (Addi d r i) m = m\<lparr>reg := (reg m)(d := reg m r + i)\<rparr>"
| "istep (Add d a b) m = m\<lparr>reg := (reg m)(d := reg m a + reg m b)\<rparr>"
| "istep (Mul d a b) m = m\<lparr>reg := (reg m)(d := reg m a * reg m b)\<rparr>"
| "istep (Li d i) m = m\<lparr>reg := (reg m)(d := i)\<rparr>"
| "istep Sfence m = m"
| "istep (Jr r) m = m\<lparr>went := Jumps (reg m r)\<rparr>"
| "istep Ret m = m\<lparr>went := Jumps (reg m x_ra)\<rparr>"
| "istep Sret m = m\<lparr>went := To_user_mode\<rparr>"
| "istep Mret m = m\<lparr>went := To_supervisor\<rparr>"

definition irun :: "instr list \<Rightarrow> machine \<Rightarrow> machine" where
  "irun is m = fold istep is m"

section \<open>The programs\<close>

definition uservec_save :: "instr list" where
  "uservec_save = [
     Csrrw x_a0 C_sscratch x_a0,
     Sd x_ra 40 x_a0,
     Sd x_sp 48 x_a0,
     Sd x_gp 56 x_a0,
     Sd x_tp 64 x_a0,
     Sd x_t0 72 x_a0,
     Sd x_t1 80 x_a0,
     Sd x_t2 88 x_a0,
     Sd x_s0 96 x_a0,
     Sd x_s1 104 x_a0,
     Sd x_a1 120 x_a0,
     Sd x_a2 128 x_a0,
     Sd x_a3 136 x_a0,
     Sd x_a4 144 x_a0,
     Sd x_a5 152 x_a0,
     Sd x_a6 160 x_a0,
     Sd x_a7 168 x_a0,
     Sd x_s2 176 x_a0,
     Sd x_s3 184 x_a0,
     Sd x_s4 192 x_a0,
     Sd x_s5 200 x_a0,
     Sd x_s6 208 x_a0,
     Sd x_s7 216 x_a0,
     Sd x_s8 224 x_a0,
     Sd x_s9 232 x_a0,
     Sd x_s10 240 x_a0,
     Sd x_s11 248 x_a0,
     Sd x_t3 256 x_a0,
     Sd x_t4 264 x_a0,
     Sd x_t5 272 x_a0,
     Sd x_t6 280 x_a0,
     Csrr x_t0 C_sscratch,
     Sd x_t0 112 x_a0]"

definition uservec_enter :: "instr list" where
  "uservec_enter = [
     Ld x_sp 8 x_a0,
     Ld x_tp 32 x_a0,
     Ld x_t0 16 x_a0,
     Ld x_t1 0 x_a0,
     Csrw C_satp x_t1,
     Sfence,
     Jr x_t0]"

definition uservec :: "instr list" where
  "uservec = uservec_save @ uservec_enter"

definition userret :: "instr list" where
  "userret = [
     Csrw C_satp x_a1,
     Sfence,
     Ld x_t0 112 x_a0,
     Csrw C_sscratch x_t0,
     Ld x_ra 40 x_a0,
     Ld x_sp 48 x_a0,
     Ld x_gp 56 x_a0,
     Ld x_tp 64 x_a0,
     Ld x_t0 72 x_a0,
     Ld x_t1 80 x_a0,
     Ld x_t2 88 x_a0,
     Ld x_s0 96 x_a0,
     Ld x_s1 104 x_a0,
     Ld x_a1 120 x_a0,
     Ld x_a2 128 x_a0,
     Ld x_a3 136 x_a0,
     Ld x_a4 144 x_a0,
     Ld x_a5 152 x_a0,
     Ld x_a6 160 x_a0,
     Ld x_a7 168 x_a0,
     Ld x_s2 176 x_a0,
     Ld x_s3 184 x_a0,
     Ld x_s4 192 x_a0,
     Ld x_s5 200 x_a0,
     Ld x_s6 208 x_a0,
     Ld x_s7 216 x_a0,
     Ld x_s8 224 x_a0,
     Ld x_s9 232 x_a0,
     Ld x_s10 240 x_a0,
     Ld x_s11 248 x_a0,
     Ld x_t3 256 x_a0,
     Ld x_t4 264 x_a0,
     Ld x_t5 272 x_a0,
     Ld x_t6 280 x_a0,
     Csrrw x_a0 C_sscratch x_a0,
     Sret]"

definition swtch :: "instr list" where
  "swtch = [
     Sd x_ra 0 x_a0,
     Sd x_sp 8 x_a0,
     Sd x_s0 16 x_a0,
     Sd x_s1 24 x_a0,
     Sd x_s2 32 x_a0,
     Sd x_s3 40 x_a0,
     Sd x_s4 48 x_a0,
     Sd x_s5 56 x_a0,
     Sd x_s6 64 x_a0,
     Sd x_s7 72 x_a0,
     Sd x_s8 80 x_a0,
     Sd x_s9 88 x_a0,
     Sd x_s10 96 x_a0,
     Sd x_s11 104 x_a0,
     Ld x_ra 0 x_a1,
     Ld x_sp 8 x_a1,
     Ld x_s0 16 x_a1,
     Ld x_s1 24 x_a1,
     Ld x_s2 32 x_a1,
     Ld x_s3 40 x_a1,
     Ld x_s4 48 x_a1,
     Ld x_s5 56 x_a1,
     Ld x_s6 64 x_a1,
     Ld x_s7 72 x_a1,
     Ld x_s8 80 x_a1,
     Ld x_s9 88 x_a1,
     Ld x_s10 96 x_a1,
     Ld x_s11 104 x_a1,
     Ret]"

text \<open>\<open>kernelvec\<close> before and after its \<open>call kerneltrap\<close>.\<close>

definition kernelvec_save :: "instr list" where
  "kernelvec_save = [
     Addi x_sp x_sp (- 256),
     Sd x_ra 0 x_sp,
     Sd x_sp 8 x_sp,
     Sd x_gp 16 x_sp,
     Sd x_tp 24 x_sp,
     Sd x_t0 32 x_sp,
     Sd x_t1 40 x_sp,
     Sd x_t2 48 x_sp,
     Sd x_s0 56 x_sp,
     Sd x_s1 64 x_sp,
     Sd x_a0 72 x_sp,
     Sd x_a1 80 x_sp,
     Sd x_a2 88 x_sp,
     Sd x_a3 96 x_sp,
     Sd x_a4 104 x_sp,
     Sd x_a5 112 x_sp,
     Sd x_a6 120 x_sp,
     Sd x_a7 128 x_sp,
     Sd x_s2 136 x_sp,
     Sd x_s3 144 x_sp,
     Sd x_s4 152 x_sp,
     Sd x_s5 160 x_sp,
     Sd x_s6 168 x_sp,
     Sd x_s7 176 x_sp,
     Sd x_s8 184 x_sp,
     Sd x_s9 192 x_sp,
     Sd x_s10 200 x_sp,
     Sd x_s11 208 x_sp,
     Sd x_t3 216 x_sp,
     Sd x_t4 224 x_sp,
     Sd x_t5 232 x_sp,
     Sd x_t6 240 x_sp]"

definition kernelvec_restore :: "instr list" where
  "kernelvec_restore = [
     Ld x_ra 0 x_sp,
     Ld x_sp 8 x_sp,
     Ld x_gp 16 x_sp,
     Ld x_t0 32 x_sp,
     Ld x_t1 40 x_sp,
     Ld x_t2 48 x_sp,
     Ld x_s0 56 x_sp,
     Ld x_s1 64 x_sp,
     Ld x_a0 72 x_sp,
     Ld x_a1 80 x_sp,
     Ld x_a2 88 x_sp,
     Ld x_a3 96 x_sp,
     Ld x_a4 104 x_sp,
     Ld x_a5 112 x_sp,
     Ld x_a6 120 x_sp,
     Ld x_a7 128 x_sp,
     Ld x_s2 136 x_sp,
     Ld x_s3 144 x_sp,
     Ld x_s4 152 x_sp,
     Ld x_s5 160 x_sp,
     Ld x_s6 168 x_sp,
     Ld x_s7 176 x_sp,
     Ld x_s8 184 x_sp,
     Ld x_s9 192 x_sp,
     Ld x_s10 200 x_sp,
     Ld x_s11 208 x_sp,
     Ld x_t3 216 x_sp,
     Ld x_t4 224 x_sp,
     Ld x_t5 232 x_sp,
     Ld x_t6 240 x_sp,
     Addi x_sp x_sp 256,
     Sret]"

text \<open>The whole of \<open>kernelvec\<close>, with what the called handler does to the machine.\<close>

definition kernelvec :: "(machine \<Rightarrow> machine) \<Rightarrow> machine \<Rightarrow> machine" where
  "kernelvec handler m = irun kernelvec_restore (handler (irun kernelvec_save m))"

definition timervec :: "instr list" where
  "timervec = [
     Csrrw x_a0 C_mscratch x_a0,
     Sd x_a1 0 x_a0,
     Sd x_a2 8 x_a0,
     Sd x_a3 16 x_a0,
     Ld x_a1 24 x_a0,
     Ld x_a2 32 x_a0,
     Ld x_a3 0 x_a1,
     Add x_a3 x_a3 x_a2,
     Sd x_a3 0 x_a1,
     Li x_a1 2,
     Csrw C_sip x_a1,
     Ld x_a3 16 x_a0,
     Ld x_a2 8 x_a0,
     Ld x_a1 0 x_a0,
     Csrrw x_a0 C_mscratch x_a0,
     Mret]"

text \<open>\<open>entry\<close>, for the address the linker gives \<open>stack0\<close>.\<close>

definition entry :: "u64 \<Rightarrow> instr list" where
  "entry stack0 = [
     Li x_sp stack0,
     Li x_a0 (1024 * 4),
     Csrr x_a1 C_mhartid,
     Addi x_a1 x_a1 1,
     Mul x_a0 x_a0 x_a1,
     Add x_sp x_sp x_a0]"

section \<open>Machine-mode start-up\<close>

record mregs =
  mstatus :: u64
  mepc :: u64
  m_satp :: u64
  medeleg :: u64
  mideleg :: u64
  sie :: u64
  pmpaddr0 :: u64
  pmpcfg0 :: u64
  mscratch :: u64
  mtvec :: u64
  mie :: u64
  mhartid :: u64
  m_tp :: u64
  mtime :: u64
  mtimecmp :: "u64 \<Rightarrow> u64"
  timer_scratch :: "u64 \<Rightarrow> nat \<Rightarrow> u64"

definition CLINT_MTIMECMP :: "u64 \<Rightarrow> u64" where
  "CLINT_MTIMECMP hartid = 0x2000000 + 0x4000 + 8 * hartid"

text \<open>\<open>scratch_addr id\<close> is the address of \<open>timer_scratch[id]\<close>, \<open>timervec_addr\<close> that of the handler.\<close>

definition timerinit :: "(u64 \<Rightarrow> u64) \<Rightarrow> u64 \<Rightarrow> mregs \<Rightarrow> mregs" where
  "timerinit scratch_addr timervec_addr m =
     (let id = mhartid m; interval = 1000000 in
      m\<lparr>mtimecmp := (mtimecmp m)(CLINT_MTIMECMP id := mtime m + interval),
        timer_scratch := (timer_scratch m)(id :=
          (timer_scratch m id)(3 := CLINT_MTIMECMP id, 4 := interval)),
        mscratch := scratch_addr id,
        mtvec := timervec_addr,
        mstatus := mstatus m OR push_bit 3 1,
        mie := mie m OR push_bit 7 1\<rparr>)"

definition start :: "(u64 \<Rightarrow> u64) \<Rightarrow> u64 \<Rightarrow> u64 \<Rightarrow> mregs \<Rightarrow> mregs" where
  "start scratch_addr timervec_addr main_addr m =
     (let m1 = m\<lparr>mstatus := (mstatus m AND NOT (push_bit 11 3)) OR push_bit 11 1,
        mepc := main_addr,
        m_satp := 0,
        medeleg := 0xffff,
        mideleg := 0xffff,
        sie := sie m OR push_bit 9 1 OR push_bit 5 1 OR push_bit 1 1,
        pmpaddr0 := 0x3fffffffffffff,
        pmpcfg0 := 0xf\<rparr>;
          m2 = timerinit scratch_addr timervec_addr m1
      in m2\<lparr>m_tp := mhartid m2\<rparr>)"

section \<open>Save and restore sequences\<close>

definition save_seq :: "nat \<Rightarrow> (nat \<times> nat) list \<Rightarrow> instr list" where
  "save_seq b rs = map (\<lambda>(r, off). Sd r off b) rs"

definition restore_seq :: "nat \<Rightarrow> (nat \<times> nat) list \<Rightarrow> instr list" where
  "restore_seq b rs = map (\<lambda>(r, off). Ld r off b) rs"

text \<open>Slots of eight bytes at distinct multiples of eight, within a page.\<close>

definition slots :: "(nat \<times> nat) list \<Rightarrow> bool" where
  "slots rs \<longleftrightarrow> distinct (map snd rs) \<and> (\<forall>off \<in> set (map snd rs). off < 4096 \<and> off mod 8 = 0)"

lemma irun_simps [simp]:
  "irun [] m = m" "irun (i # is) m = irun is (istep i m)" "irun (is @ js) m = irun js (irun is m)"
  by (simp_all add: irun_def)

lemma slot_disjoint:
  assumes "off1 < 4096" "off2 < 4096" "off1 mod 8 = 0" "off2 mod 8 = 0" "off1 \<noteq> off2"
  shows "disjoint_range (b + of_nat off1) 8 (b + of_nat off2) 8"
  unfolding disjoint_range_def
proof (intro allI impI notI)
  fix i j :: nat
  assume ij: "i < 8" "j < 8" and "b + of_nat off1 + of_nat i = b + of_nat off2 + (of_nat j :: u64)"
  then have "(of_nat (off1 + i) :: u64) = of_nat (off2 + j)" by (simp add: algebra_simps)
  then have "unat (of_nat (off1 + i) :: u64) = unat (of_nat (off2 + j) :: u64)" by (rule arg_cong)
  then have "off1 + i = off2 + j"
    using assms(1,2) ij by (simp only: unat_of_nat) (simp add: take_bit_nat_eq_self)
  moreover obtain a c where "off1 = 8 * a" "off2 = 8 * c"
    using assms(3,4) by (metis dvdE mod_eq_0_iff_dvd)
  ultimately show False using assms(5) ij by simp
qed

lemma load_slot_other:
  assumes "off < 4096" "off mod 8 = 0" "off \<notin> set (map snd rs)" "slots rs"
  shows "load64 (ram (irun (save_seq b rs) m)) (reg m b + of_nat off) = load64 (ram m) (reg m b + of_nat off)"
  using assms
proof (induction rs arbitrary: m)
  case Nil
  then show ?case by (simp add: save_seq_def)
next
  case (Cons p rs)
  obtain r o1 where p: "p = (r, o1)" by (cases p)
  let ?m = "istep (Sd r o1 b) m"
  have "load64 (ram (irun (save_seq b rs) ?m)) (reg ?m b + of_nat off) = load64 (ram ?m) (reg ?m b + of_nat off)"
    using Cons.prems by (intro Cons.IH) (auto simp: slots_def)
  moreover have "disjoint_range (reg m b + of_nat off) 8 (reg m b + of_nat o1) 8"
    using Cons.prems p by (intro slot_disjoint) (auto simp: slots_def)
  ultimately show ?case
    by (simp add: p save_seq_def load64_store64_other)
qed

lemma save_frame [simp]:
  "reg (irun (save_seq b rs) m) = reg m" "cs (irun (save_seq b rs) m) = cs m"
  "went (irun (save_seq b rs) m) = went m"
  by (induction rs arbitrary: m) (auto simp: save_seq_def)

lemma save_seq_slot:
  assumes "(r, off) \<in> set rs" "slots rs"
  shows "load64 (ram (irun (save_seq b rs) m)) (reg m b + of_nat off) = reg m r"
  using assms
proof (induction rs arbitrary: m)
  case (Cons p rs)
  show ?case
  proof (cases "p = (r, off)")
    case True
    let ?m = "istep (Sd r off b) m"
    have "load64 (ram (irun (save_seq b rs) ?m)) (reg ?m b + of_nat off) = load64 (ram ?m) (reg ?m b + of_nat off)"
      using Cons.prems True by (intro load_slot_other) (auto simp: slots_def)
    with True show ?thesis by (simp add: save_seq_def load64_store64_same)
  next
    case False
    then have "load64 (ram (irun (save_seq b rs) (istep (Sd (fst p) (snd p) b) m)))
        (reg (istep (Sd (fst p) (snd p) b) m) b + of_nat off) = reg (istep (Sd (fst p) (snd p) b) m) r"
      using Cons.prems by (intro Cons.IH) (auto simp: slots_def)
    then show ?thesis by (cases p) (simp add: save_seq_def)
  qed
qed simp

text \<open>A restore sequence whose base register is not among those it loads.\<close>

lemma restore_seq_reg:
  assumes "distinct (map fst rs)" "b \<notin> set (map fst rs)"
  shows "reg (irun (restore_seq b rs) m) x =
    (case map_of rs x of None \<Rightarrow> reg m x | Some off \<Rightarrow> load64 (ram m) (reg m b + of_nat off))"
  using assms
proof (induction rs arbitrary: m)
  case (Cons p rs)
  obtain r off where p: "p = (r, off)" by (cases p)
  have "map_of rs r = None" using Cons.prems p by (auto simp: map_of_eq_None_iff)
  then show ?case
    using Cons.prems by (auto simp: p restore_seq_def Cons.IH [unfolded restore_seq_def] split: option.split)
qed (simp add: restore_seq_def)

lemma restore_frame [simp]:
  "ram (irun (restore_seq b rs) m) = ram m" "cs (irun (restore_seq b rs) m) = cs m"
  "went (irun (restore_seq b rs) m) = went m"
  by (induction rs arbitrary: m) (auto simp: restore_seq_def)

section \<open>Round trips\<close>

text \<open>The trap frame slots of all registers but \<open>a0\<close>, in the order of the code.\<close>

definition tf_slots :: "(nat \<times> nat) list" where
  "tf_slots = [(1, 40), (2, 48), (3, 56), (4, 64), (5, 72), (6, 80), (7, 88), (8, 96), (9, 104),
     (11, 120), (12, 128), (13, 136), (14, 144), (15, 152), (16, 160), (17, 168), (18, 176),
     (19, 184), (20, 192), (21, 200), (22, 208), (23, 216), (24, 224), (25, 232), (26, 240),
     (27, 248), (28, 256), (29, 264), (30, 272), (31, 280)]"

lemma slots_simps:
  "slots [] = True"
  "slots ((r, off) # rs) = (off < 4096 \<and> off mod 8 = 0 \<and> off \<notin> set (map snd rs) \<and> slots rs)"
  by (auto simp: slots_def)

lemma tf_slots_ok: "slots tf_slots" "slots (tf_slots @ [(10, 112)])" "distinct (map fst tf_slots)"
  by (simp_all add: tf_slots_def slots_simps)

lemma uservec_save_eq:
  "uservec_save = Csrrw 10 C_sscratch 10 # save_seq 10 tf_slots @ [Csrr 5 C_sscratch, Sd 5 112 10]"
  by (simp add: uservec_save_def save_seq_def tf_slots_def)

lemma userret_eq:
  "userret = [Csrw C_satp 11, Sfence, Ld 5 112 10, Csrw C_sscratch 5] @ restore_seq 10 tf_slots @
     [Csrrw 10 C_sscratch 10, Sret]"
  by (simp add: userret_def restore_seq_def tf_slots_def)

text \<open>Entering the kernel stores every user register in its slot.\<close>

lemma uservec_saves:
  assumes T: "T = cs m C_sscratch" and x: "(x, off) \<in> set tf_slots \<or> (x, off) = (10, 112)"
  shows "load64 (ram (irun uservec m)) (T + of_nat off) = reg m x"
proof -
  let ?m1 = "istep (Csrrw 10 C_sscratch 10) m"
  let ?m2 = "irun (save_seq 10 tf_slots) ?m1"
  have ram: "ram (irun uservec m) = store64 (ram ?m2) (T + 112) (reg m 10)"
    by (simp add: uservec_def uservec_save_eq uservec_enter_def T)
  show ?thesis
  proof (cases "(x, off) = (10, 112)")
    case True
    then show ?thesis unfolding ram by (simp add: load64_store64_same)
  next
    case False
    with x have xs: "(x, off) \<in> set tf_slots" by blast
    then have off: "off < 4096" "off mod 8 = 0" "off \<noteq> 112" "x \<noteq> 10"
      by (auto simp: tf_slots_def)
    have "disjoint_range (T + of_nat off) 8 (T + of_nat 112) 8"
      using off by (intro slot_disjoint) simp_all
    then have "load64 (ram (irun uservec m)) (T + of_nat off) = load64 (ram ?m2) (T + of_nat off)"
      unfolding ram by (simp add: load64_store64_other)
    also have "\<dots> = load64 (ram ?m2) (reg ?m1 10 + of_nat off)" by (simp add: T)
    also have "\<dots> = reg ?m1 x" by (rule save_seq_slot [OF xs tf_slots_ok(1)])
    finally show ?thesis using off by simp
  qed
qed

text \<open>Leaving it loads every register from its slot.\<close>

lemma userret_loads:
  assumes T: "T = reg m 10"
  shows "(x, off) \<in> set tf_slots \<or> (x, off) = (10, 112) \<Longrightarrow>
      reg (irun userret m) x = load64 (ram m) (T + of_nat off)"
    and "cs (irun userret m) C_sscratch = T" "cs (irun userret m) C_satp = reg m 11"
    and "went (irun userret m) = To_user_mode"
proof -
  let ?m1 = "irun [Csrw C_satp 11, Sfence, Ld 5 112 10, Csrw C_sscratch 5] m"
  let ?m2 = "irun (restore_seq 10 tf_slots) ?m1"
  have run: "irun userret m = istep Sret (istep (Csrrw 10 C_sscratch 10) ?m2)"
    by (simp add: userret_eq)
  have b: "10 \<notin> set (map fst tf_slots)" by (simp add: tf_slots_def)
  note reg2 = restore_seq_reg [OF tf_slots_ok(3) b, of ?m1]
  have base: "reg ?m2 10 = T" using reg2 [of 10] T by (simp add: tf_slots_def)
  then show "cs (irun userret m) C_sscratch = T" unfolding run by simp
  show "cs (irun userret m) C_satp = reg m 11" unfolding run by simp
  show "went (irun userret m) = To_user_mode" unfolding run by simp
  assume x: "(x, off) \<in> set tf_slots \<or> (x, off) = (10, 112)"
  show "reg (irun userret m) x = load64 (ram m) (T + of_nat off)"
  proof (cases "(x, off) = (10, 112)")
    case True
    then show ?thesis unfolding run by (simp add: T)
  next
    case False
    with x have xs: "(x, off) \<in> set tf_slots" by blast
    then have "map_of tf_slots x = Some off" by (rule map_of_is_SomeI [OF tf_slots_ok(3)])
    moreover have "x \<noteq> 10" using xs b by force
    ultimately show ?thesis unfolding run using reg2 [of x] T by simp
  qed
qed

text \<open>
  C28. A trap from user space followed by a return to it gives back all 31 user registers, if the
  kernel leaves the trap frame's register slots alone in between and calls \<open>userret\<close> with the
  address of the trap frame; \<open>sscratch\<close> points to the trap frame again, ready for the next trap.
\<close>

theorem user_registers_survive_trap:
  assumes "T = cs m C_sscratch" "reg m' 10 = T"
    and "\<forall>k \<in> {5..<36}. load64 (ram m') (T + of_nat (8 * k)) = load64 (ram (irun uservec m)) (T + of_nat (8 * k))"
    and "1 \<le> x" "x \<le> 31"
  shows "reg (irun userret m') x = reg m x \<and> cs (irun userret m') C_sscratch = T \<and>
    went (irun userret m') = To_user_mode"
proof -
  have "\<exists>off. (x, off) \<in> set tf_slots \<or> (x, off) = (10, 112)"
  proof -
    have "x \<in> set (10 # map fst tf_slots)"
      using assms(4,5) by (simp add: tf_slots_def) arith
    then show ?thesis by force
  qed
  then obtain off where off: "(x, off) \<in> set tf_slots \<or> (x, off) = (10, 112)" by blast
  then have "off div 8 \<in> {5..<36} \<and> off = 8 * (off div 8)" by (auto simp: tf_slots_def)
  then have "load64 (ram m') (T + of_nat off) = load64 (ram (irun uservec m)) (T + of_nat off)"
    using assms(3) by metis
  then show ?thesis
    using userret_loads(1) [OF assms(2) [symmetric] off] userret_loads(2,4) [OF assms(2) [symmetric]]
      uservec_saves [OF assms(1) off] by simp
qed

definition demo_machine :: machine where
  "demo_machine = \<lparr>reg = of_nat, cs = (\<lambda>_. 4096), ram = (\<lambda>_. 0), went = Falls\<rparr>"

theorem user_registers_survive_trap_witness:
  "let m' = (irun uservec demo_machine)\<lparr>reg := (\<lambda>_. 4096)\<rparr> in reg (irun userret m') 31 = 31"
proof -
  let ?m' = "(irun uservec demo_machine)\<lparr>reg := (\<lambda>_. 4096)\<rparr>"
  have "reg (irun userret ?m') 31 = reg demo_machine 31 \<and> cs (irun userret ?m') C_sscratch = 4096 \<and>
    went (irun userret ?m') = To_user_mode"
    by (rule user_registers_survive_trap [where T = 4096]) (simp_all add: demo_machine_def)
  then show ?thesis by (simp add: Let_def demo_machine_def)
qed

text \<open>The registers of \<open>struct context\<close>.\<close>

definition ctx_slots :: "(nat \<times> nat) list" where
  "ctx_slots = [(1, 0), (2, 8), (8, 16), (9, 24), (18, 32), (19, 40), (20, 48), (21, 56), (22, 64),
     (23, 72), (24, 80), (25, 88), (26, 96), (27, 104)]"

lemma ctx_slots_ok: "slots ctx_slots" "distinct (map fst ctx_slots)" "11 \<notin> set (map fst ctx_slots)"
  by (simp_all add: ctx_slots_def slots_simps)

lemma swtch_eq: "swtch = save_seq 10 ctx_slots @ restore_seq 11 ctx_slots @ [Ret]"
  by (simp add: swtch_def save_seq_def restore_seq_def ctx_slots_def)

lemma swtch_saves:
  assumes "(x, off) \<in> set ctx_slots"
  shows "load64 (ram (irun swtch m)) (reg m 10 + of_nat off) = reg m x"
  using save_seq_slot [OF assms ctx_slots_ok(1), of 10 m] by (simp add: swtch_eq)

lemma swtch_loads:
  assumes "(x, off) \<in> set ctx_slots"
    and "\<And>off'. off' < 112 \<Longrightarrow> off' mod 8 = 0 \<Longrightarrow>
      load64 (ram (irun (save_seq 10 ctx_slots) m)) (reg m 11 + of_nat off') = load64 (ram m) (reg m 11 + of_nat off')"
  shows "reg (irun swtch m) x = load64 (ram m) (reg m 11 + of_nat off)"
proof -
  have "map_of ctx_slots x = Some off" by (rule map_of_is_SomeI [OF ctx_slots_ok(2) assms(1)])
  moreover have "off < 112" "off mod 8 = 0" using assms(1) by (auto simp: ctx_slots_def)
  ultimately show ?thesis
    using restore_seq_reg [OF ctx_slots_ok(2,3), of "irun (save_seq 10 ctx_slots) m" x] assms(2)
    by (simp add: swtch_eq)
qed

lemma save_seq_elsewhere:
  assumes "\<And>r o1. (r, o1) \<in> set rs \<Longrightarrow> disjoint_range a 8 (reg m b + of_nat o1) 8"
  shows "load64 (ram (irun (save_seq b rs) m)) a = load64 (ram m) a"
  using assms
proof (induction rs arbitrary: m)
  case (Cons p rs)
  obtain r o1 where p: "p = (r, o1)" by (cases p)
  have "load64 (ram (irun (save_seq b rs) (istep (Sd r o1 b) m))) a = load64 (ram (istep (Sd r o1 b) m)) a"
    by (rule Cons.IH) (use Cons.prems in auto)
  then show ?case using Cons.prems [of r o1] by (simp add: p save_seq_def load64_store64_other)
qed (simp add: save_seq_def)

text \<open>
  C29. \<open>swtch(old, new)\<close> stores the caller's return address, stack pointer and callee-saved
  registers in \<open>*old\<close>, loads them from \<open>*new\<close>, and returns to the loaded return address, when
  the two contexts do not overlap.
\<close>

theorem swtch_switches_contexts:
  assumes disj: "\<forall>i < 14. \<forall>j < 14. disjoint_range (reg m 11 + of_nat (8 * i)) 8 (reg m 10 + of_nat (8 * j)) 8"
    and x: "(x, off) \<in> set ctx_slots"
  shows "load64 (ram (irun swtch m)) (reg m 10 + of_nat off) = reg m x \<and>
    reg (irun swtch m) x = load64 (ram m) (reg m 11 + of_nat off) \<and>
    went (irun swtch m) = Jumps (load64 (ram m) (reg m 11))"
proof -
  have new: "load64 (ram (irun (save_seq 10 ctx_slots) m)) (reg m 11 + of_nat o1) =
      load64 (ram m) (reg m 11 + of_nat o1)" if "o1 < 112" "o1 mod 8 = 0" for o1
  proof (rule save_seq_elsewhere)
    fix r o2
    assume "(r, o2) \<in> set ctx_slots"
    then have "o2 div 8 < 14" "o2 = 8 * (o2 div 8)" by (auto simp: ctx_slots_def)
    moreover have "o1 div 8 < 14" "o1 = 8 * (o1 div 8)" using that by auto
    ultimately show "disjoint_range (reg m 11 + of_nat o1) 8 (reg m 10 + of_nat o2) 8"
      using disj by metis
  qed
  have ra: "(1, 0) \<in> set ctx_slots" by (simp add: ctx_slots_def)
  have "went (irun swtch m) = Jumps (reg (irun swtch m) 1)" by (simp add: swtch_eq)
  then show ?thesis
    using swtch_saves [OF x, of m] swtch_loads [OF x new] swtch_loads [OF ra new] by simp
qed

definition swtch_demo :: machine where
  "swtch_demo = demo_machine\<lparr>reg := of_nat(10 := 0x1000, 11 := 0x1800)\<rparr>"

theorem swtch_switches_contexts_witness:
  "load64 (ram (irun swtch swtch_demo)) (0x1000 + 8) = 2"
proof -
  have "disjoint_range (reg swtch_demo 11 + of_nat (8 * i)) 8 (reg swtch_demo 10 + of_nat (8 * j)) 8"
    if "i < 14" "j < 14" for i j :: nat
  proof -
    have "disjoint_range (0x1000 + of_nat (2048 + 8 * i)) 8 (0x1000 + of_nat (8 * j)) 8"
      by (rule slot_disjoint) (use that in auto)
    then show ?thesis by (simp add: swtch_demo_def add.assoc [symmetric])
  qed
  moreover have "(2, 8) \<in> set ctx_slots" by (simp add: ctx_slots_def)
  ultimately have "load64 (ram (irun swtch swtch_demo)) (reg swtch_demo 10 + of_nat 8) = reg swtch_demo 2"
    using swtch_switches_contexts [of swtch_demo 2 8] by blast
  then show ?thesis by (simp add: swtch_demo_def demo_machine_def)
qed

text \<open>The stack slots of \<open>kernelvec\<close>; those from the third on are restored relative to \<open>sp\<close>.\<close>

definition kv_slots :: "(nat \<times> nat) list" where
  "kv_slots = [(5, 32), (6, 40), (7, 48), (8, 56), (9, 64), (10, 72), (11, 80), (12, 88), (13, 96),
     (14, 104), (15, 112), (16, 120), (17, 128), (18, 136), (19, 144), (20, 152), (21, 160),
     (22, 168), (23, 176), (24, 184), (25, 192), (26, 200), (27, 208), (28, 216), (29, 224),
     (30, 232), (31, 240)]"

lemma kernelvec_save_eq:
  "kernelvec_save = Addi 2 2 (- 256) # save_seq 2 ([(1, 0), (2, 8), (3, 16), (4, 24)] @ kv_slots)"
  by (simp add: kernelvec_save_def save_seq_def kv_slots_def)

lemma kernelvec_restore_eq:
  "kernelvec_restore = [Ld 1 0 2, Ld 2 8 2] @ restore_seq 2 ((3, 16) # kv_slots) @ [Addi 2 2 256, Sret]"
  by (simp add: kernelvec_restore_def restore_seq_def kv_slots_def)

lemma kv_slots_ok:
  "slots ([(1, 0), (2, 8), (3, 16), (4, 24)] @ kv_slots)"
  "distinct (map fst ((3, 16) # kv_slots))" "2 \<notin> set (map fst ((3, 16) # kv_slots))"
  by (simp_all add: kv_slots_def slots_simps)

lemma kernelvec_saves:
  assumes "(x, off) \<in> set ([(1, 0), (3, 16)] @ kv_slots)"
  shows "load64 (ram (irun kernelvec_save m)) (reg m 2 - 256 + of_nat off) = reg m x"
    and "load64 (ram (irun kernelvec_save m)) (reg m 2 - 256 + of_nat 8) = reg m 2 - 256"
    and "reg (irun kernelvec_save m) 2 = reg m 2 - 256"
proof -
  let ?m = "istep (Addi 2 2 (- 256)) m"
  note slot = save_seq_slot [OF _ kv_slots_ok(1), of _ _ 2 ?m]
  have x: "(x, off) \<in> set ([(1, 0), (2, 8), (3, 16), (4, 24)] @ kv_slots)" "x \<noteq> 2"
    using assms kv_slots_ok(3) by (auto simp: image_iff)
  show "load64 (ram (irun kernelvec_save m)) (reg m 2 - 256 + of_nat off) = reg m x"
    using slot [OF x(1)] x(2) by (simp add: kernelvec_save_eq)
  show "load64 (ram (irun kernelvec_save m)) (reg m 2 - 256 + of_nat 8) = reg m 2 - 256"
    using slot [of 2 8] by (simp add: kernelvec_save_eq)
  show "reg (irun kernelvec_save m) 2 = reg m 2 - 256"
    by (simp add: kernelvec_save_eq)
qed

text \<open>
  C30. A kernel trap is transparent: if the handler keeps the stack pointer and the 256 bytes
  \<open>kernelvec\<close> pushed, every register but \<open>tp\<close> has its old value afterwards, and \<open>tp\<close> the
  value the handler left, since the thread may have moved to another hart.
\<close>

theorem kernelvec_restores_registers:
  assumes "reg (handler (irun kernelvec_save m)) 2 = reg (irun kernelvec_save m) 2"
    and keep: "\<forall>k < 32. load64 (ram (handler (irun kernelvec_save m))) (reg m 2 - 256 + of_nat (8 * k)) =
      load64 (ram (irun kernelvec_save m)) (reg m 2 - 256 + of_nat (8 * k))"
    and "1 \<le> x" "x \<le> 31"
  shows "reg (kernelvec handler m) x = (if x = 4 then reg (handler (irun kernelvec_save m)) 4 else reg m x)"
proof -
  let ?h = "handler (irun kernelvec_save m)"
  let ?b = "reg m 2 - 256"
  let ?m1 = "irun [Ld 1 0 2, Ld 2 8 2] ?h"
  let ?m2 = "irun (restore_seq 2 ((3, 16) # kv_slots)) ?m1"
  have load: "load64 (ram ?h) (?b + of_nat off) = load64 (ram (irun kernelvec_save m)) (?b + of_nat off)"
    if "off mod 8 = 0" "off < 256" for off
    using keep [rule_format, of "off div 8"] that by auto
  have sp: "reg ?h 2 = ?b" using assms(1) kernelvec_saves(3) [of 1 0] by simp
  have m1: "reg ?m1 2 = ?b" "reg ?m1 1 = reg m 1" "ram ?m1 = ram ?h" "reg ?m1 4 = reg ?h 4"
    using load [of 0] load [of 8] kernelvec_saves(1) [of 1 0 m] kernelvec_saves(2) [of 1 0 m]
    by (simp_all add: sp)
  have reg2: "reg ?m2 y = (case map_of ((3, 16) # kv_slots) y of
      None \<Rightarrow> reg ?m1 y | Some off \<Rightarrow> load64 (ram ?h) (?b + of_nat off))" for y
    using restore_seq_reg [OF kv_slots_ok(2,3), of ?m1 y] by (simp only: m1)
  have run: "kernelvec handler m = istep Sret (istep (Addi 2 2 256) ?m2)"
    by (simp add: kernelvec_def kernelvec_restore_eq)
  have "x \<in> set ([1, 2, 4] @ map fst ((3, 16) # kv_slots))"
    using assms(3,4) by (simp add: kv_slots_def) arith
  then have "x \<in> {1, 2, 4} \<or> x \<in> fst ` set ((3, 16) # kv_slots)"
    by (simp only: set_append set_map Un_iff list.set insert_iff empty_iff)
  then consider "x \<in> {1, 2, 4}" | off where "(x, off) \<in> set ((3, 16) # kv_slots)"
    by (auto simp del: set_simps list.set)
  then show ?thesis
  proof cases
    case 1
    have none: "map_of ((3, 16) # kv_slots) y = None" if "y \<in> {1, 2, 4}" for y
      using that by (auto simp: kv_slots_def)
    have same: "reg ?m2 y = reg ?m1 y" if "y \<in> {1, 2, 4}" for y
      using reg2 [of y] unfolding none [OF that] option.case .
    have "reg ?m2 1 = reg m 1" "reg ?m2 2 = ?b" "reg ?m2 4 = reg ?h 4"
      using same [of 1] same [of 2] same [of 4] unfolding m1 by blast+
    with 1 show ?thesis unfolding run by auto
  next
    case 2
    have off: "off mod 8 = 0" "off < 256" "x \<noteq> 2" "x \<noteq> 4" using 2 by (auto simp: kv_slots_def)
    have "map_of ((3, 16) # kv_slots) x = Some off" by (rule map_of_is_SomeI [OF kv_slots_ok(2) 2])
    then have "reg ?m2 x = load64 (ram ?h) (?b + of_nat off)" using reg2 [of x] by simp
    also have "\<dots> = reg m x" using load [OF off(1,2)] kernelvec_saves(1) [of x off m] 2 by auto
    finally show ?thesis unfolding run using off by simp
  qed
qed

theorem kernelvec_restores_registers_witness:
  "reg (kernelvec (\<lambda>m. m\<lparr>reg := (\<lambda>r. if r = 2 then reg m 2 else 7)\<rparr>) demo_machine) 31 = 31"
proof -
  let ?h = "\<lambda>m. m\<lparr>reg := (\<lambda>r. if r = 2 then reg m 2 else 7)\<rparr> :: machine"
  have "reg (kernelvec ?h demo_machine) 31 =
      (if (31::nat) = 4 then reg (?h (irun kernelvec_save demo_machine)) 4 else reg demo_machine 31)"
    by (rule kernelvec_restores_registers) simp_all
  then show ?thesis by (simp add: demo_machine_def)
qed

text \<open>
  The machine-mode timer handler schedules the next interrupt one interval later, raises the
  supervisor software interrupt and gives back every register, when its scratch area and the
  device register do not overlap.
\<close>

lemma timervec_transparent:
  assumes S: "S = cs m C_mscratch" and C: "C = load64 (ram m) (S + 24)"
    and disj: "\<forall>k < 5. disjoint_range (S + of_nat (8 * k)) 8 C 8"
    and dsym: "\<forall>k < 5. disjoint_range C 8 (S + of_nat (8 * k)) 8"
  shows "reg (irun timervec m) = reg m \<and> cs (irun timervec m) = (cs m)(C_sip := 2) \<and>
    load64 (ram (irun timervec m)) C = load64 (ram m) C + load64 (ram m) (S + 32) \<and>
    went (irun timervec m) = To_supervisor"
proof -
  have d: "disjoint_range (S + of_nat (8 * i)) 8 (S + of_nat (8 * j)) 8" if "i < 5" "j < 5" "i \<noteq> j" for i j
    using that by (intro slot_disjoint) auto
  note ds = d [of 3 0, simplified] d [of 3 1, simplified] d [of 3 2, simplified]
    d [of 4 0, simplified] d [of 4 1, simplified] d [of 4 2, simplified]
    d [of 0 1, simplified] d [of 0 2, simplified] d [of 1 2, simplified]
    disj [rule_format, of 0, simplified] disj [rule_format, of 1, simplified]
    disj [rule_format, of 2, simplified]
    dsym [rule_format, of 0, simplified] dsym [rule_format, of 1, simplified]
    dsym [rule_format, of 2, simplified]
  note other = ds [THEN load64_store64_other]
  have C': "load64 (ram m) (cs m C_mscratch + 24) = C" using S C by simp
  show ?thesis
    by (auto simp: timervec_def S [symmetric] C' C [symmetric] other load64_store64_same fun_eq_iff)
qed

end
