(* ===== verification/Sleeping.thy ===== *)
theory Sleeping
  imports Sched
begin

text \<open>
  Properties of sleeping and waking, \<^verbatim>\<open>kernel/proc.c\<close> and \<^verbatim>\<open>kernel/sleeplock.c\<close>: who a
  \<open>wakeup\<close> makes runnable, and that a process waiting for a sleep lock gets it once the holder
  releases it, with the scheduler's own scan choosing who runs.
\<close>

section \<open>Processes that take turns\<close>

text \<open>
  The rest of the system while a process is off the processor: the scheduler goes on with its scan.
  A process \<open>r\<close> it picks continues in the \<open>sched\<close> of a \<open>yield\<close>, does \<open>m\<close> where \<open>work r = Some m\<close>, and
  yields again. The process with \<open>work r = None\<close> is the one whose code is followed: when the
  scheduler picks it, the scheduler's thread is parked and that code runs on.
\<close>

definition turns :: "(nat \<Rightarrow> ('x kbase_scheme, unit) km option) \<Rightarrow> 'x kbase_scheme \<Rightarrow> 'x kbase_scheme" where
  "turns work s = (case cur s of None \<Rightarrow> s | Some r \<Rightarrow>
     (case work r of None \<Rightarrow> s | Some m \<Rightarrow> left_in s (doM [release (L_proc r), m, yield] id s)))"

definition scheduled :: "(nat \<Rightarrow> ('x kbase_scheme, unit) km option) \<Rightarrow> 'x kbase_scheme \<Rightarrow> 'x kbase_scheme" where
  "scheduled work s = (case cur s of None \<Rightarrow> s | Some p \<Rightarrow> left_in s (scheduler_rest p (turns work) s))"

lemma wp_whileM_True:
  "b s \<Longrightarrow> wp env (whileM b body) Q s = wp env body (\<lambda>_. wp env (whileM b body) Q) s"
  by (subst whileM_unfold) (simp add: wp_simps)

lemma yield_parks:
  assumes "cur s = Some r" "held s = {}"
  shows "yield id s = Parked (s\<lparr>held := {L_proc r}, procs := (procs s)(r := (procs s r)\<lparr>p_state := RUNNABLE\<rparr>)\<rparr>)"
  using assms by (simp add: yield_def sched_def run_simps)

text \<open>One slot of the scan in which a process takes its turn.\<close>

lemma scheduler_slot_turn:
  assumes s: "held s = {}" "p_state (procs s r) = RUNNABLE" and w: "work r = Some m"
    and m: "m id (s\<lparr>procs := (procs s)(r := (procs s r)\<lparr>p_state := RUNNING\<rparr>), cur := Some r, held := {}\<rparr>) = Done () v"
    and v: "held v = {}" "cur v = Some r"
  shows "scheduler_slot r (turns work) s =
    Done () (v\<lparr>cur := None, procs := (procs v)(r := (procs v r)\<lparr>p_state := RUNNABLE\<rparr>)\<rparr>)"
proof -
  let ?u = "s\<lparr>held := {L_proc r}, procs := (procs s)(r := (procs s r)\<lparr>p_state := RUNNING\<rparr>), cur := Some r\<rparr>"
  let ?v = "v\<lparr>held := {L_proc r}, procs := (procs v)(r := (procs v r)\<lparr>p_state := RUNNABLE\<rparr>)\<rparr>"
  have "doM [release (L_proc r), m, yield] id ?u = Parked ?v"
    by (simp add: run_simps seqM_Done [where m = m, OF m] seqM_def [of yield] bindM_def [of yield] yield_parks [OF v(2,1)])
  then have "turns work ?u = ?v" by (simp add: turns_def w left_in_def)
  then show ?thesis using s v by (simp add: scheduler_slot_def run_simps)
qed

lemma scheduler_slot_yields:
  assumes "held s = {}" "cur s = None" "p_state (procs s r) = RUNNABLE \<longrightarrow> work r = Some skipM"
  shows "scheduler_slot r (turns work) s = Done () s"
proof (cases "p_state (procs s r) = RUNNABLE")
  case True
  then have "(procs s)(r := (procs s r)\<lparr>p_state := RUNNABLE\<rparr>) = procs s" by (cases "procs s r") auto
  then show ?thesis
    using scheduler_slot_turn [of s r work skipM] True assms by (simp add: run_simps)
next
  case False
  then show ?thesis by (rule scheduler_slot_passes [OF assms(1)])
qed

lemma doM_one: "doM [m] = m"
  by (auto simp: run_defs fun_eq_iff split: outcome.splits)

lemma eachM_Done:
  "(\<And>r. r \<in> set rs \<Longrightarrow> f r env s = Done () s) \<Longrightarrow> eachM rs f env s = Done () s"
  by (induction rs) (simp_all add: run_simps seqM_Done)

lemma eachM_Done_then:
  assumes "\<And>r. r \<in> set rs \<Longrightarrow> f r env s = Done () s"
  shows "eachM (rs @ ss) f env s = eachM ss f env s"
  using assms by (simp add: eachM_append seqM_Done [where m = "eachM rs f", OF eachM_Done])

text \<open>
  C35. \<open>wakeup(ch)\<close> never panics when no other process's lock is held, and makes runnable
  exactly the processes of the table, other than the caller, that sleep on \<open>ch\<close>; every other
  process and everything else stays as it was.
\<close>

theorem wakeup_exact:
  assumes "no_proc_lock s"
  shows "\<exists>t. wakeup ch env s = Done () t \<and> t = s\<lparr>procs := procs t\<rparr> \<and>
    (\<forall>p. procs t p = (if p < NPROC \<and> cur s \<noteq> Some p \<and> p_state (procs s p) = SLEEPING \<and> p_chan (procs s p) = Some ch
       then (procs s p)\<lparr>p_state := RUNNABLE\<rparr> else procs s p))"
  using wakeup_run [OF assms] by (simp add: wake_def)

theorem wakeup_exact_witness:
  "\<exists>t. wakeup Ch_log id (zero_kbase\<lparr>cur := Some 0, procs := (\<lambda>_. zero_proc\<lparr>p_state := SLEEPING, p_chan := Some Ch_log\<rparr>)\<rparr>) = Done () t \<and>
    p_state (procs t 0) = SLEEPING \<and> p_state (procs t 1) = RUNNABLE"
  using wakeup_exact [of "zero_kbase\<lparr>cur := Some 0, procs := (\<lambda>_. zero_proc\<lparr>p_state := SLEEPING, p_chan := Some Ch_log\<rparr>)\<rparr>" Ch_log id]
  by (auto simp: no_proc_lock_def zero_kbase_def)

section \<open>Waiting for a sleep lock\<close>

text \<open>The state when \<open>q\<close> has released the lock in its turn, while \<open>p\<close> sleeps.\<close>

definition lock_released :: "slid \<Rightarrow> nat \<Rightarrow> 'x kbase_scheme \<Rightarrow> 'x kbase_scheme" where
  "lock_released l p s = s\<lparr>slocks := (slocks s)(l := \<lparr>sl_locked = False, sl_pid = 0\<rparr>),
     procs := (procs s)(p := (procs s p)\<lparr>p_state := RUNNABLE\<rparr>)\<rparr>"

definition only_waiter :: "slid \<Rightarrow> nat \<Rightarrow> (nat \<Rightarrow> proc) \<Rightarrow> bool" where
  "only_waiter l p ps \<longleftrightarrow>
     (\<forall>r<NPROC. r \<noteq> p \<longrightarrow> \<not> (p_state (ps r) = SLEEPING \<and> p_chan (ps r) = Some (Ch_sleeplock l)))"

lemma releasesleep_turn:
  assumes s: "held s = {}" "cur s = None" "p_state (procs s q) = RUNNABLE" "work q = Some (releasesleep l)"
    and p: "p < NPROC" "q \<noteq> p" "p_state (procs s p) = SLEEPING" "p_chan (procs s p) = Some (Ch_sleeplock l)"
    and others: "only_waiter l p (procs s)"
  shows "scheduler_slot q (turns work) s = Done () (lock_released l p s)"
proof -
  let ?ps = "(procs s)(q := (procs s q)\<lparr>p_state := RUNNING\<rparr>)"
  let ?u = "s\<lparr>procs := ?ps, cur := Some q, held := {}\<rparr>"
  let ?v = "?u\<lparr>slocks := (slocks s)(l := \<lparr>sl_locked = False, sl_pid = 0\<rparr>), procs := ?ps(p := (procs s p)\<lparr>p_state := RUNNABLE\<rparr>)\<rparr>"
  have "wake (Ch_sleeplock l) (Some q) ?ps = ?ps(p := (procs s p)\<lparr>p_state := RUNNABLE\<rparr>)"
    using p others by (auto simp: wake_def only_waiter_def fun_eq_iff)
  then have "wp id (releasesleep l) (\<lambda>x v. x = () \<and> v = ?v) ?u"
    by (subst wp_releasesleep) (simp_all add: no_proc_lock_def)
  then have "releasesleep l id ?u = Done () ?v" by (simp only: wp_returns)
  moreover have "?ps(p := (procs s p)\<lparr>p_state := RUNNABLE\<rparr>, q := (procs s q)\<lparr>p_state := RUNNABLE\<rparr>) =
      (procs s)(p := (procs s p)\<lparr>p_state := RUNNABLE\<rparr>)"
    using s(3) by (cases "procs s q") (auto simp: fun_eq_iff)
  ultimately show ?thesis
    using scheduler_slot_turn [of s q work "releasesleep l" ?v] s p(2) by (simp add: lock_released_def)
qed

text \<open>A whole scan before slot \<open>p\<close>, from the state \<open>s\<close> in which the lock is not released yet.\<close>

lemma scan_releases:
  assumes s: "held s = {}" "cur s = None" "p_state (procs s q) = RUNNABLE" "work q = Some (releasesleep l)"
    and p: "p < NPROC" "q \<noteq> p" "p_state (procs s p) = SLEEPING" "p_chan (procs s p) = Some (Ch_sleeplock l)"
    and others: "only_waiter l p (procs s)" "\<And>r. r \<noteq> p \<Longrightarrow> r \<noteq> q \<Longrightarrow> work r = Some skipM"
    and rs: "distinct rs" "p \<notin> set rs"
  shows "eachM (rs @ ss) scheduler_slot (turns work) s =
    eachM ss scheduler_slot (turns work) (if q \<in> set rs then lock_released l p s else s)"
proof -
  let ?t = "lock_released l p s"
  have idle: "scheduler_slot r (turns work) s = Done () s" "scheduler_slot r (turns work) ?t = Done () ?t"
    if "r \<noteq> p" "r \<noteq> q" for r
    using that s(1,2) others(2) by (auto intro!: scheduler_slot_yields simp: lock_released_def)
  show ?thesis
  proof (cases "q \<in> set rs")
    case True
    then obtain xs ys where rs': "rs = xs @ q # ys" by (meson split_list)
    then have xy: "p \<notin> set xs" "q \<notin> set xs" "p \<notin> set ys" "q \<notin> set ys" using rs by auto
    have "eachM (rs @ ss) scheduler_slot (turns work) s = eachM (q # ys @ ss) scheduler_slot (turns work) s"
      unfolding rs' append.assoc append_Cons using xy idle(1) by (intro eachM_Done_then) metis
    also have "\<dots> = eachM (ys @ ss) scheduler_slot (turns work) ?t"
      using releasesleep_turn [where work = work, OF s p others(1)] by (simp add: seqM_Done)
    also have "\<dots> = eachM ss scheduler_slot (turns work) ?t"
      using xy idle(2) by (intro eachM_Done_then) metis
    finally show ?thesis using True by simp
  next
    case False
    then have "eachM (rs @ ss) scheduler_slot (turns work) s = eachM ss scheduler_slot (turns work) s"
      using rs(2) idle(1) by (intro eachM_Done_then) metis
    with False show ?thesis by simp
  qed
qed

lemma scheduled_releasesleep:
  assumes s: "cur s = Some p" "p < NPROC" "q < NPROC" "q \<noteq> p" "p_state (procs s q) = RUNNABLE"
    and w: "work p = None" "work q = Some (releasesleep l)" "\<And>r. r \<noteq> p \<Longrightarrow> r \<noteq> q \<Longrightarrow> work r = Some skipM"
    and others: "only_waiter l p (procs s)"
  shows "scheduled work (asleep (Ch_sleeplock l) p s) =
    s\<lparr>held := {L_proc p}, slocks := (slocks s)(l := \<lparr>sl_locked = False, sl_pid = 0\<rparr>),
      procs := (procs s)(p := (procs s p)\<lparr>p_chan := Some (Ch_sleeplock l), p_state := RUNNING\<rparr>)\<rparr>" (is "_ = ?r")
proof -
  let ?u = "(asleep (Ch_sleeplock l) p s)\<lparr>held := {}, cur := None\<rparr>"
  let ?env = "turns work" and ?scan = "eachM [0..<NPROC] scheduler_slot"
  have u: "held ?u = {}" "cur ?u = None" "p_state (procs ?u q) = RUNNABLE"
    "p_state (procs ?u p) = SLEEPING" "p_chan (procs ?u p) = Some (Ch_sleeplock l)" "only_waiter l p (procs ?u)"
    using s others by (simp_all add: asleep_def only_waiter_def)
  note scan = scan_releases [where work = work, OF u(1-3) w(2) s(2,4) u(4-6) w(3)]
  have resume: "scheduler_slot p ?env (lock_released l p ?u) = Parked ?r"
    by (rule scheduler_slot_resumes) (use s(1) w(1) in \<open>simp_all add: lock_released_def asleep_def turns_def\<close>)
  have rng: "[0..<NPROC] = [0..<p] @ p # [Suc p..<NPROC]"
    using s(2) upt_add_eq_append [of 0 p "NPROC - p"] by (simp add: upt_conv_Cons)
  have idle: "scheduler_slot r ?env (lock_released l p ?u) = Done () (lock_released l p ?u)" if "r < p" "r \<noteq> q" for r
    using that u w(3) by (auto intro!: scheduler_slot_yields simp: lock_released_def)
  have "seqM (eachM [Suc p..<NPROC] scheduler_slot) (whileM (\<lambda>_. True) ?scan) ?env ?u = Parked ?r"
  proof (cases "p < q")
    case True
    then have "eachM [Suc p..<NPROC] scheduler_slot ?env ?u = Done () (lock_released l p ?u)"
      using scan [of "[Suc p..<NPROC]" "[]"] s(3) by (simp add: run_simps)
    moreover have "?scan ?env (lock_released l p ?u) = Parked ?r"
      unfolding rng using True idle by (subst eachM_Done_then) (auto simp: seqM_def bindM_def resume)
    ultimately show ?thesis
      by (simp add: seqM_Done) (subst whileM_unfold, simp add: run_simps seqM_def bindM_def)
  next
    case False
    then have "eachM [Suc p..<NPROC] scheduler_slot ?env ?u = Done () ?u"
      using scan [of "[Suc p..<NPROC]" "[]"] by (simp add: run_simps)
    moreover have "?scan ?env ?u = Parked ?r"
      unfolding rng using False s(4) by (subst scan) (auto simp: seqM_def bindM_def resume)
    ultimately show ?thesis
      by (simp add: seqM_Done) (subst whileM_unfold, simp add: run_simps seqM_def bindM_def)
  qed
  then show ?thesis
    using s(1) by (simp add: scheduled_def scheduler_rest_def doM_one run_simps seqM_Done [where m = "slot_rest p", OF slot_rest_run]
        left_in_def asleep_def)
qed

text \<open>
  C18. A process that waits for a sleep lock gets it. Process \<open>p\<close> calls \<open>acquiresleep\<close> on a lock that is
  held, and goes to sleep; the scheduler goes on with its scan of the table, in which every runnable
  process takes its turn, and process \<open>q\<close> releases the lock in its own. If no other process waits
  for the lock, the scheduler comes back to \<open>p\<close>, and the call returns with the lock recorded as
  held by \<open>p\<close>, the sleep channel cleared, no spin lock held and nothing else changed.
\<close>

theorem acquiresleep_contended:
  assumes "sl_locked (slocks s l)" "held s = {}" "cur s = Some p" "p < NPROC" "q < NPROC" "q \<noteq> p"
    and "p_state (procs s q) = RUNNABLE" "only_waiter l p (procs s)"
    and "work p = None" "work q = Some (releasesleep l)" "\<And>r. r \<noteq> p \<Longrightarrow> r \<noteq> q \<Longrightarrow> work r = Some skipM"
  shows "acquiresleep l (scheduled work) s = Done ()
    (s\<lparr>slocks := (slocks s)(l := \<lparr>sl_locked = True, sl_pid = p_pid (procs s p)\<rparr>),
       procs := (procs s)(p := (procs s p)\<lparr>p_state := RUNNING, p_chan := None\<rparr>)\<rparr>)"
proof -
  let ?env = "scheduled work" and ?s = "s\<lparr>held := {L_sleep l}\<rparr>"
  let ?u = "s\<lparr>held := {L_proc p}, slocks := (slocks s)(l := \<lparr>sl_locked = False, sl_pid = 0\<rparr>),
      procs := (procs s)(p := (procs s p)\<lparr>p_chan := Some (Ch_sleeplock l), p_state := RUNNING\<rparr>)\<rparr>"
  have u: "?env (asleep (Ch_sleeplock l) p ?s) = ?u"
    using scheduled_releasesleep [of ?s p q work l] assms by simp
  have w: "wp ?env (sleep (Ch_sleeplock l) (L_sleep l)) Q ?s = Q () (awake (L_sleep l) p ?u)" for Q
    using assms by (subst wp_sleep [where p = p]) (simp_all add: u Let_def)
  have "wp ?env (acquiresleep l) (\<lambda>x t. x = () \<and> t = s\<lparr>slocks := (slocks s)(l := \<lparr>sl_locked = True, sl_pid = p_pid (procs s p)\<rparr>),
       procs := (procs s)(p := (procs s p)\<lparr>p_state := RUNNING, p_chan := None\<rparr>)\<rparr>) s"
    using assms(1-3)
    by (simp add: acquiresleep_def wp_simps wp_whileM_True wp_whileM_False w awake_def sleeplock_collapse)
  then show ?thesis by (simp only: wp_returns)
qed

definition two_procs :: kbase where
  "two_procs = zero_kbase\<lparr>cur := Some 0,
     procs := (\<lambda>_. zero_proc)(0 := zero_proc\<lparr>p_state := RUNNING, p_pid := 5\<rparr>, 1 := zero_proc\<lparr>p_state := RUNNABLE, p_pid := 6\<rparr>),
     slocks := (\<lambda>_. \<lparr>sl_locked = True, sl_pid = 6\<rparr>)\<rparr>"

theorem acquiresleep_contended_witness:
  "\<exists>t. acquiresleep (SL_inode 0) (scheduled (\<lambda>r. if r = 0 then None else if r = 1 then Some (releasesleep (SL_inode 0)) else Some skipM))
      two_procs = Done () t \<and> slocks t (SL_inode 0) = \<lparr>sl_locked = True, sl_pid = 5\<rparr> \<and> p_state (procs t 1) = RUNNABLE"
proof -
  have "sl_locked (slocks two_procs (SL_inode 0))" "held two_procs = {}" "cur two_procs = Some 0"
    "p_state (procs two_procs 1) = RUNNABLE" "only_waiter (SL_inode 0) 0 (procs two_procs)" "p_pid (procs two_procs 0) = 5"
    by (simp_all add: two_procs_def zero_kbase_def only_waiter_def zero_proc_def)
  then show ?thesis
    using acquiresleep_contended [of two_procs "SL_inode 0" 0 1
        "\<lambda>r. if r = 0 then None else if r = 1 then Some (releasesleep (SL_inode 0)) else Some skipM"] by simp
qed

text \<open>
  C36. \<open>kill(pid)\<close> marks the first process with that id as killed, makes it runnable if it sleeps
  (so that it will notice), returns success and changes nothing else; with no such process it
  fails and changes nothing.
\<close>

theorem kill_correct:
  assumes "\<forall>p<NPROC. L_proc p \<notin> held s"
  shows "kill pid env s =
    (case find (\<lambda>p. p_pid (procs s p) = pid) [0..<NPROC] of
       None \<Rightarrow> Done False s
     | Some p \<Rightarrow> Done True (s\<lparr>procs := (procs s)(p := (procs s p)\<lparr>p_killed := True,
         p_state := if p_state (procs s p) = SLEEPING then RUNNABLE else p_state (procs s p)\<rparr>)\<rparr>))"
  by (rule kill_run [OF assms])

theorem kill_correct_witness:
  "kill 7 id (zero_kbase\<lparr>procs := (\<lambda>_. zero_proc)(0 := zero_proc\<lparr>p_state := SLEEPING, p_pid := 7\<rparr>)\<rparr>) =
    Done True (zero_kbase\<lparr>procs := (\<lambda>_. zero_proc)(0 := zero_proc\<lparr>p_state := RUNNABLE, p_pid := 7, p_killed := True\<rparr>)\<rparr>)"
  using kill_correct [of "zero_kbase\<lparr>procs := (\<lambda>_. zero_proc)(0 := zero_proc\<lparr>p_state := SLEEPING, p_pid := 7\<rparr>)\<rparr>" 7 id]
  by (simp add: zero_kbase_def zero_proc_def upt_rec [of 0])

end
