(* ===== verification/Crash.thy ===== *)
theory Crash
  imports Log
begin

text \<open>
  Crash safety of the file system's log: a crash at any point of \<^verbatim>\<open>commit\<close> followed by
  \<^verbatim>\<open>recover_from_log\<close> leaves every home block as it was before the transaction, or every one
  as the transaction wrote it. A crash keeps a prefix of the sequence of block writes the device
  performed (\<open>disk_log\<close>), and loses the memory.
\<close>

section \<open>The disk after a crash\<close>

lemma upds_from: "(\<And>k v. (k, v) \<in> set ws \<Longrightarrow> v = g k) \<Longrightarrow> upds f ws k = (if k \<in> fst ` set ws then g k else f k)"
proof (induction ws arbitrary: f)
  case (Cons w ws)
  obtain k' v' where w: "w = (k', v')" by force
  with Cons.prems [of k' v'] have w: "w = (k', g k')" by simp
  have "upds (f(k' := g k')) ws k = (if k \<in> fst ` set ws then g k else (f(k' := g k')) k)"
    by (rule Cons.IH) (use Cons.prems in auto)
  then show ?case by (auto simp: w)
qed simp

lemma upds_unat:
  fixes bn :: "'w::len word"
  shows "upds D (map (apfst unat) ws) (unat bn) = upds (\<lambda>b. D (unat b)) ws bn"
proof (induction ws arbitrary: D)
  case (Cons w ws)
  obtain k v where w: "w = (k, v)" by force
  have "(\<lambda>b. (D(unat k := v)) (unat b)) = (\<lambda>b. D (unat b))(k := v)" by (simp add: fun_eq_iff word_unat_eq_iff)
  then show ?case by (simp only: w list.map apfst_conv upds_simps Cons.IH)
qed simp

lemma prefix_stages:
  "prefix ws (a @ [x] @ b @ [y]) \<longleftrightarrow>
     prefix ws a \<or> (\<exists>vs. ws = a @ x # vs \<and> prefix vs b) \<or> ws = a @ x # b @ [y]"
  by (auto simp: prefix_append prefix_Cons)

lemma view_length:
  assumes c: "cache d p L P s"
  shows "length (view d s bn) = BSIZE"
proof (cases "\<exists>i. in_cache d bn (bufs s) i")
  case True
  then obtain i where i: "in_cache d bn (bufs s) i" by blast
  have ok: "bufs_ok d L P (bufs s) (disk_img s)" using c by (simp add: cache_def)
  then show ?thesis
    using look_cached [OF ok i] bufs_okD(6) [OF ok, of i] i by (simp add: view_def in_cache_def)
qed (use c in \<open>simp add: view_def look_uncached cache_def\<close>)

lemma commit_writes_length:
  assumes c: "cache d p L P s" and tx: "txn d P s" and w: "(bn, bs) \<in> set (commit_writes d s)"
  shows "length bs = BSIZE"
proof -
  have "length (mk_hdr (lh_n s) (lh_block s) (view d s (hdr_bn s))) = BSIZE"
    using tx by (intro mk_hdr(1)) (auto simp: view_length [OF c] txn_def homes_def)
  then show ?thesis
    using w by (auto simp: commit_writes_def Let_def log_writes_def view_length [OF c])
qed

lemma log_writes_inside:
  assumes "txn d P s" "bn \<in> fst ` set (log_writes d (nat (lh_n s)) s)" "outside s bn"
  shows False
proof -
  obtain i where "i < nat (lh_n s)" "bn = log_bn s i" using assms(2) by (auto simp: log_writes_def)
  moreover then have "i < LOGSIZE - 1" using assms(1) by (auto simp: txn_def homes_def)
  ultimately show False using assms(3) unfolding outside_def by blast
qed

text \<open>
  What a crash during a commit leaves on the disk, block by block: before the first header write
  the home blocks are the old ones and the log is empty; between the two header writes the log
  holds every new home block; after the second one the home blocks are the new ones.
\<close>

definition crash_disk :: "u32 \<Rightarrow> 'x log_state_scheme \<Rightarrow> (u32 \<Rightarrow> u8 list) \<Rightarrow> bool" where
  "crash_disk d s V \<longleftrightarrow> (let hb = V (hdr_bn s) in
     (hdr_n hb = 0 \<and> (\<forall>bn. outside s bn \<longrightarrow> V bn = disk_img s (unat bn))) \<or>
     (hdr_n hb = 0 \<and> (\<forall>bn. outside s bn \<longrightarrow> V bn = view d s bn)) \<or>
     (hdr_n hb = lh_n s \<and> (\<forall>i < nat (lh_n s). hdr_block hb i = lh_block s i \<and> V (log_bn s i) = view d s (lh_block s i)) \<and>
      (\<forall>bn. outside s bn \<and> bn \<notin> lh_block s ` {..<nat (lh_n s)} \<longrightarrow> V bn = view d s bn)))"

lemma commit_prefix:
  assumes c: "cache d p {} P s" and tx: "txn d P s" and h0: "hdr_n (disk_img s (unat (hdr_bn s))) = 0"
    and ws: "prefix ws (commit_writes d s)"
  shows "crash_disk d s (upds (\<lambda>b. disk_img s (unat b)) ws)"
proof -
  let ?n = "nat (lh_n s)" and ?V = "\<lambda>b. disk_img s (unat b)"
  let ?h = "mk_hdr (lh_n s) (lh_block s) (view d s (hdr_bn s))"
  let ?lw = "log_writes d ?n s" and ?hw = "map (\<lambda>i. (lh_block s i, view d s (lh_block s i))) [0..<?n]"
  note hdr = txn_blocks(6) [OF tx] and inj = txn_blocks(5) [OF tx]
  have kept: "view d s bn = ?V bn" if "bn \<notin> lh_block s ` {..<?n}" for bn
    using that tx by (intro view_disk [OF c]) (auto simp: txn_def)
  have hdr_hw: "hdr_bn s \<notin> fst ` set ?hw" using txn_blocks(3) [OF tx, THEN not_sym] by (simp add: image_iff)
  have len: "length (view d s (hdr_bn s)) = BSIZE"
    using kept [of "hdr_bn s"] hdr_hw c by (simp add: cache_def image_iff)
  have h: "length ?h = BSIZE" "hdr_n ?h = lh_n s" "\<And>i. i < ?n \<Longrightarrow> hdr_block ?h i = lh_block s i"
    using mk_hdr [OF len] tx by (auto simp: txn_def homes_def)
  have old: "upds ?V ?lw bn = ?V bn" if "outside s bn" for bn
    using log_writes_inside [OF tx _ that] by (intro upds_other) blast
  have keys: "fst ` set ?hw = lh_block s ` {..<?n}" by (simp add: image_image atLeast0LessThan)
  have home: "upds f ?hw bn = (if bn \<in> lh_block s ` {..<?n} then view d s bn else f bn)" for f bn
    unfolding keys [symmetric] by (rule upds_from) auto
  have "prefix ws ?lw \<or> (\<exists>vs. ws = ?lw @ (hdr_bn s, ?h) # vs \<and> prefix vs ?hw) \<or>
      ws = ?lw @ (hdr_bn s, ?h) # ?hw @ [(hdr_bn s, put32 ?h 0 0)]"
    using ws unfolding commit_writes_def Let_def prefix_stages mk_hdr_0 .
  then consider (log) "prefix ws ?lw" | (home) vs where "ws = ?lw @ (hdr_bn s, ?h) # vs" "prefix vs ?hw"
    | (all) "ws = ?lw @ (hdr_bn s, ?h) # ?hw @ [(hdr_bn s, put32 ?h 0 0)]"
    by (elim disjE exE conjE)
  then show ?thesis
  proof cases
    case log
    then have sub: "fst ` set ws \<subseteq> fst ` set ?lw" by (intro image_mono set_mono_prefix)
    then have "upds ?V ws (hdr_bn s) = ?V (hdr_bn s)" using hdr by (intro upds_other) blast
    moreover have "upds ?V ws bn = ?V bn" if "outside s bn" for bn
      using log_writes_inside [OF tx _ that] sub by (intro upds_other) blast
    ultimately show ?thesis using h0 by (simp add: crash_disk_def)
  next
    case (home vs)
    have sub: "fst ` set vs \<subseteq> lh_block s ` {..<?n}"
      unfolding keys [symmetric] by (rule image_mono [OF set_mono_prefix [OF home(2)]])
    let ?W = "(upds ?V ?lw)(hdr_bn s := ?h)"
    have V: "upds ?V ws bn = ?W bn" if "bn \<notin> lh_block s ` {..<?n}" for bn
      unfolding home(1) upds_simps by (rule upds_other) (use that sub in blast)
    have "log_bn s i \<notin> lh_block s ` {..<?n}" if "i < ?n" for i
      using txn_blocks(1) [OF tx that] txn_blocks(4) [OF tx] unfolding outside_def by (metis imageE lessThan_iff)
    then have "upds ?V ws (log_bn s i) = view d s (lh_block s i)" if "i < ?n" for i
      using V [of "log_bn s i"] upds_nth [OF that inj] txn_blocks(2) [OF tx that] that
      by (simp add: log_writes_def)
    moreover have "upds ?V ws (hdr_bn s) = ?h" using V [of "hdr_bn s"] hdr_hw unfolding keys by simp
    moreover have "upds ?V ws bn = view d s bn" if "outside s bn" "bn \<notin> lh_block s ` {..<?n}" for bn
      using V [OF that(2)] old [OF that(1)] kept [OF that(2)] that(1) by (simp add: outside_def)
    ultimately show ?thesis using h by (simp add: crash_disk_def)
  next
    case all
    have "upds ?V ws bn = view d s bn" if "outside s bn" for bn
      using that home old [OF that] kept by (simp add: all outside_def)
    moreover have "hdr_n (upds ?V ws (hdr_bn s)) = 0" using h(1) by (simp add: all hdr_n_def mem_simps)
    ultimately show ?thesis by (simp add: crash_disk_def)
  qed
qed

text \<open>A recovered disk: an empty log, and the home blocks either all old or all new.\<close>

definition atomic :: "u32 \<Rightarrow> 'x log_state_scheme \<Rightarrow> 'x log_state_scheme \<Rightarrow> bool" where
  "atomic d s u \<longleftrightarrow> lh_n u = 0 \<and> hdr_n (disk_img u (unat (hdr_bn s))) = 0 \<and>
     ((\<forall>bn. outside s bn \<longrightarrow> disk_img u (unat bn) = disk_img s (unat bn)) \<or>
      (\<forall>bn. outside s bn \<longrightarrow> disk_img u (unat bn) = view d s bn))"

lemma same_log:
  assumes "log_start r = log_start s"
  shows "hdr_bn r = hdr_bn s" "log_bn r = log_bn s" "outside r = outside s"
  using assms by (simp_all add: hdr_bn_def log_bn_def outside_def fun_eq_iff)

lemma hdr_ok_crash:
  assumes V: "crash_disk d s V" and tx: "txn d P s" and r: "log_start r = log_start s"
  shows "hdr_ok r (V (hdr_bn s))"
proof (cases "hdr_n (V (hdr_bn s)) = 0")
  case False
  then have n: "hdr_n (V (hdr_bn s)) = lh_n s" "\<And>i. i < nat (lh_n s) \<Longrightarrow> hdr_block (V (hdr_bn s)) i = lh_block s i"
    using V by (auto simp: crash_disk_def Let_def)
  then show ?thesis
    using tx by (auto simp: hdr_ok_def txn_def homes_def same_log [OF r] inj_on_def)
qed (simp add: hdr_ok_def)

lemma recover_writes_crash:
  assumes V: "crash_disk d s V" and tx: "txn d P s" and r: "log_start r = log_start s" and v: "view d r = V"
  shows "(\<forall>bn. outside s bn \<longrightarrow> upds V (recover_writes d r) bn = disk_img s (unat bn)) \<or>
    (\<forall>bn. outside s bn \<longrightarrow> upds V (recover_writes d r) bn = view d s bn)"
proof -
  let ?hb = "V (hdr_bn s)"
  let ?w = "map (\<lambda>i. (hdr_block ?hb i, V (log_bn s i))) [0..<nat (hdr_n ?hb)]"
  have upd: "upds V (recover_writes d r) bn = upds V ?w bn" if "outside s bn" for bn
    using that by (simp add: recover_writes_def Let_def v same_log [OF r] outside_def)
  consider "hdr_n ?hb = 0" "\<forall>bn. outside s bn \<longrightarrow> V bn = disk_img s (unat bn)"
    | "hdr_n ?hb = 0" "\<forall>bn. outside s bn \<longrightarrow> V bn = view d s bn"
    | (full) "hdr_n ?hb = lh_n s"
      "\<forall>i < nat (lh_n s). hdr_block ?hb i = lh_block s i \<and> V (log_bn s i) = view d s (lh_block s i)"
      "\<forall>bn. outside s bn \<and> bn \<notin> lh_block s ` {..<nat (lh_n s)} \<longrightarrow> V bn = view d s bn"
    using V unfolding crash_disk_def Let_def by blast
  then show ?thesis
  proof cases
    case full
    have w: "?w = map (\<lambda>i. (lh_block s i, view d s (lh_block s i))) [0..<nat (lh_n s)]"
      using full by simp
    have "upds V ?w bn = (if bn \<in> fst ` set ?w then view d s bn else V bn)" for bn
      unfolding w by (rule upds_from) auto
    moreover have "fst ` set ?w = lh_block s ` {..<nat (lh_n s)}"
      unfolding w by (simp add: image_image atLeast0LessThan)
    ultimately show ?thesis using upd full(3) by simp
  qed (use upd in simp_all)
qed

context log_disk
begin

lemma recover_crash:
  assumes V: "crash_disk d s V" and tx: "txn d P s" and c: "cache d q {} {} r" and geom: "log_geom d r"
    and r: "log_start r = log_start s" and img: "\<And>bn. disk_img r (unat bn) = V bn"
  shows "wp env recover_from_log (\<lambda>_. atomic d s) r"
proof -
  have v: "view d r = V" using view_disk [OF c] img by (auto simp: fun_eq_iff)
  note sl = same_log [OF r]
  have ok: "hdr_ok r (view d r (hdr_bn r))" using hdr_ok_crash [OF V tx r] by (simp add: v sl)
  show ?thesis
  proof (rule wp_recover [OF c geom ok])
    fix u f
    assume w: "wrote d q {} (recover_writes d r) (r\<lparr>lh_block := f, lh_n := 0\<rparr>) u"
    then have fr: "storage_frame (r\<lparr>lh_block := f, lh_n := 0\<rparr>) u" and
      u: "disk_img u (unat bn) = upds V (recover_writes d r) bn" for bn :: u32
      by (auto simp: wrote_def upds_unat img)
    have len: "length (V bn) = BSIZE" for bn using c img [of bn, symmetric] by (simp add: cache_def)
    have "disk_img u (unat (hdr_bn s)) = put32 (V (hdr_bn s)) 0 0"
      by (simp add: u recover_writes_def Let_def v sl)
    then have "hdr_n (disk_img u (unat (hdr_bn s))) = 0" using len by (simp add: hdr_n_def mem_simps)
    moreover have "lh_n u = 0" using frame_log(4) [OF fr] by simp
    ultimately show "atomic d s u"
      using recover_writes_crash [OF V tx r v] by (simp add: atomic_def u)
  qed
qed

lemma commit_runs:
  assumes "cache d p {} P s" "txn d P s" "lh_n s > 0"
  shows "\<exists>t. commit env s = Done () t \<and> wrote d p {} (commit_writes d s) (s\<lparr>lh_n := 0\<rparr>) t"
  using wp_commit [OF assms, of "\<lambda>_. wrote d p {} (commit_writes d s) (s\<lparr>lh_n := 0\<rparr>)"] by (simp add: wp_iff)

lemma commit_atomic:
  assumes c: "cache d p {} P s" and tx: "txn d P s" and n: "lh_n s > 0"
    and h0: "hdr_n (disk_img s (unat (hdr_bn s))) = 0"
  shows "\<exists>t ws. commit env s = Done () t \<and> lh_n t = 0 \<and> disk_log t = disk_log s @ ws \<and>
    (\<forall>w\<in>set ws. length (snd w) = BSIZE) \<and>
    (\<forall>vs q r. prefix vs ws \<and> cache d q {} {} r \<and> log_geom d r \<and> log_start r = log_start s \<and>
       disk_img r = upds (disk_img s) vs \<longrightarrow> (\<exists>u. recover_from_log env r = Done () u \<and> atomic d s u))"
proof -
  obtain t where t: "commit env s = Done () t" and w: "wrote d p {} (commit_writes d s) (s\<lparr>lh_n := 0\<rparr>) t"
    using commit_runs [OF c tx n] by blast
  have "\<exists>u. recover_from_log env r = Done () u \<and> atomic d s u"
    if vs: "prefix vs (map (apfst unat) (commit_writes d s))" and r: "cache d q {} {} r" "log_geom d r"
      "log_start r = log_start s" "disk_img r = upds (disk_img s) vs" for vs q r
  proof -
    obtain us where us: "prefix us (commit_writes d s)" "vs = map (apfst unat) us"
      using prefix_map_rightE [OF vs] by blast
    have "wp env recover_from_log (\<lambda>_. atomic d s) r"
      by (rule recover_crash [OF commit_prefix [OF c tx h0 us(1)] tx r(1-3)]) (simp add: r(4) us(2) upds_unat)
    then show ?thesis by (simp add: wp_iff)
  qed
  moreover have "\<forall>w\<in>set (map (apfst unat) (commit_writes d s)). length (snd w) = BSIZE"
    using commit_writes_length [OF c tx] by (auto simp: apfst_def)
  moreover have "lh_n t = 0" using w frame_log(4) [of "s\<lparr>lh_n := 0\<rparr>" t] by (simp add: wrote_def)
  moreover have "disk_log t = disk_log s @ map (apfst unat) (commit_writes d s)" using w by (simp add: wrote_def)
  ultimately show ?thesis using t by blast
qed

end


lemma upds_commit:
  assumes c: "cache d p {} P s" and tx: "txn d P s" and bn: "outside s bn"
  shows "upds (\<lambda>b. disk_img s (unat b)) (commit_writes d s) bn = view d s bn"
    "upds (view d s) (commit_writes d s) bn = view d s bn"
proof -
  let ?n = "nat (lh_n s)"
  let ?lw = "log_writes d ?n s" and ?hw = "map (\<lambda>i. (lh_block s i, view d s (lh_block s i))) [0..<?n]"
  have old: "upds V ?lw bn = V bn" for V
    using log_writes_inside [OF tx _ bn] by (intro upds_other) blast
  have keys: "fst ` set ?hw = lh_block s ` {..<?n}" by (simp add: image_image atLeast0LessThan)
  have home: "upds f ?hw bn = (if bn \<in> lh_block s ` {..<?n} then view d s bn else f bn)" for f
    unfolding keys [symmetric] by (rule upds_from) auto
  have kept: "view d s bn = disk_img s (unat bn)" if "bn \<notin> lh_block s ` {..<?n}"
    using that tx by (intro view_disk [OF c]) (auto simp: txn_def)
  have "bn \<noteq> hdr_bn s" using bn by (simp add: outside_def)
  then show "upds (\<lambda>b. disk_img s (unat b)) (commit_writes d s) bn = view d s bn"
    "upds (view d s) (commit_writes d s) bn = view d s bn"
    using kept by (simp_all add: commit_writes_def Let_def home old)
qed

context log_disk
begin

lemma commit_final:
  assumes c: "cache d p {} P s" and tx: "txn d P s" and n: "lh_n s > 0"
  shows "\<exists>t. commit env s = Done () t \<and> cache d p {} {} t \<and> lh_n t = 0 \<and>
    hdr_n (disk_img t (unat (hdr_bn s))) = 0 \<and>
    (\<forall>bn. outside s bn \<longrightarrow> disk_img t (unat bn) = view d s bn \<and> view d t bn = view d s bn)"
proof -
  obtain t where t: "commit env s = Done () t" and w: "wrote d p {} (commit_writes d s) (s\<lparr>lh_n := 0\<rparr>) t"
    using commit_runs [OF c tx n] by blast
  then have img: "disk_img t (unat bn) = upds (\<lambda>b. disk_img s (unat b)) (commit_writes d s) bn"
    and v: "view d t bn = upds (view d s) (commit_writes d s) bn" for bn :: u32
    by (auto simp: wrote_def upds_unat)
  have "length (mk_hdr (lh_n s) (lh_block s) (view d s (hdr_bn s))) = BSIZE"
    using tx by (intro mk_hdr(1)) (auto simp: view_length [OF c] txn_def homes_def)
  then have "hdr_n (disk_img t (unat (hdr_bn s))) = 0"
    by (simp add: img commit_writes_def Let_def hdr_n_def mem_simps)
  moreover have "lh_n t = 0" "cache d p {} {} t"
    using w frame_log(4) [of "s\<lparr>lh_n := 0\<rparr>" t] by (auto simp: wrote_def)
  ultimately show ?thesis using t upds_commit [OF c tx] img v by simp
qed

end

lemma log_write_txn:
  assumes "cache d p L P s" "b \<in> L" "txn d P s" "outside s (b_blockno (bufs s b))"
    and "log_size s \<le> int LOGSIZE" "lh_n s < log_size s - 1" "1 \<le> log_outstanding s"
  shows "\<exists>t. log_write b env s = Done () t \<and> cache d p L (insert b P) t \<and> txn d (insert b P) t \<and>
    view d t = view d s \<and> (t = s \<or> t = logged b s) \<and>
    lh_n t = lh_n s + (if b_blockno (bufs s b) \<in> lh_block s ` {..<nat (lh_n s)} then 0 else 1)"
proof -
  let ?old = "b_blockno (bufs s b) \<in> lh_block s ` {..<nat (lh_n s)}"
  have "held s = {}" "0 \<le> lh_n s" "lh_n s < int LOGSIZE - 1"
    using assms by (auto simp: cache_def quiet_def txn_def homes_def)
  then have run: "log_write b env s = Done () (if ?old then s else logged b s)" and room: "lh_n s < int LOGSIZE - 1"
    using assms log_write_run [of s b env] by auto
  show ?thesis
  proof (cases ?old)
    case True
    then obtain a where a: "a \<in> P" "b_blockno (bufs s a) = b_blockno (bufs s b)"
      using assms(3) unfolding txn_def by (metis (no_types, lifting) imageE)
    then have "b \<in> P" using cache_same_buf [OF assms(1), of a b] assms(2) by simp
    then show ?thesis using assms True run by (simp add: insert_absorb)
  next
    case False
    have "lh_n (logged b s) = lh_n s + 1" by (simp add: logged_def)
    then show ?thesis using False run logged_keeps [OF assms(1-4) room False] by simp
  qed
qed

section \<open>Properties\<close>

text \<open>The kernel's environment, with any device that serves requests, satisfies the interface.\<close>

lemma log_disk_irq: "virtio_device dev \<Longrightarrow> log_disk (irq_env dev)"
  by (rule log_disk.intro [OF disk_env_irq])

interpretation qemu_log: log_disk "irq_env complete_request"
  by (rule log_disk_irq [OF virtio_device_complete_request])

text \<open>
  A system with one cached block: block 46 of device 1, in buffer 0, changed by a transaction and
  pinned by it if \<open>dirty\<close>; the log starts at block 2.
\<close>

definition ring_bufs :: "bool \<Rightarrow> nat \<Rightarrow> buf" where
  "ring_bufs dirty i =
     \<lparr>b_valid = (dirty \<and> i = 0), b_disk = False, b_dev = of_bool (dirty \<and> i = 0), b_blockno = 46,
      b_refcnt = of_bool (dirty \<and> i = 0),
      b_prev = (if i = NBUF - 1 then bhead else if i = bhead then 0 else i + 1),
      b_next = (if i = 0 then bhead else i - 1),
      b_data = (if dirty \<and> i = 0 then replicate BSIZE 7 else [])\<rparr>"

definition idle_vq :: vdisk where
  "idle_vq = \<lparr>desc = (\<lambda>_. zero_desc), avail_idx = 0, avail_ring = (\<lambda>_. 0), used_ring_idx = 0,
     used_ring = (\<lambda>_. 0), free = (\<lambda>_. True), used_idx = 0, info_b = (\<lambda>_. None), info_status = (\<lambda>_. 0),
     ops = (\<lambda>_. \<lparr>r_type = 0, r_reserved = 0, r_sector = 0\<rparr>), pages_addr = 0, vregs = (\<lambda>_. 0), dev_seen = 0\<rparr>"

definition one_block :: "bool \<Rightarrow> (nat \<Rightarrow> u8 list) \<Rightarrow> log_state" where
  "one_block dirty D =
     \<lparr>held = {}, cur = Some 0, procs = (\<lambda>_. zero_proc)(0 := zero_proc\<lparr>p_state := RUNNING, p_pid := 1\<rparr>),
      slocks = (\<lambda>_. \<lparr>sl_locked = False, sl_pid = 0\<rparr>), nextpid = 2, initproc = Some 0,
      mem = (\<lambda>_. 0), freelist = 0, kernel_end = 0, kernel_pagetable = 0, etext = 0, trampoline = 0, satp = 0,
      bufs = ring_bufs dirty, vq = idle_vq, disk_img = D, disk_log = [],
      log_start = 2, log_size = 30, log_outstanding = 1, log_committing = False, log_dev = 1,
      lh_n = of_bool dirty, lh_block = (\<lambda>_. 46)\<rparr>"

lemma ring_lru: "lru (ring_bufs dirty) (rev [0..<NBUF])"
proof -
  have "links (ring_bufs dirty) (bhead # rev [0..<NBUF] @ [bhead])"
    by (simp add: ring_bufs_def upt_rec)
  then show ?thesis by (auto simp: lru_def)
qed

lemma one_block_cache:
  assumes "\<And>k. length (D k) = BSIZE"
  shows "cache 1 0 {} (if dirty then {0} else {}) (one_block dirty D)"
  using assms ring_lru [of dirty]
  by (auto simp: cache_def one_block_def quiet_def idle_def idle_vq_def bufs_ok_def buf_ok_def ring_bufs_def
      zero_proc_def split: if_splits)

lemma one_block_facts:
  "lh_n (one_block True D) = 1" "disk_img (one_block dirty D) = D" "log_start (one_block dirty D) = 2"
  "lh_block (one_block dirty D) = (\<lambda>_. 46)" "bufs (one_block dirty D) = ring_bufs dirty"
  "log_size (one_block dirty D) = 30" "log_outstanding (one_block dirty D) = 1" "held (one_block dirty D) = {}"
  by (simp_all add: one_block_def)

lemma one_block_txn: "log_geom 1 (one_block dirty D)" "txn 1 {0} (one_block True D)"
proof -
  show geom: "log_geom 1 (one_block dirty D)" for dirty by (simp add: one_block_def log_geom_def)
  have "46 \<noteq> log_bn (one_block True D) i" if "i < LOGSIZE - 1" for i
  proof
    assume "46 = log_bn (one_block True D) i"
    then have "unat (log_bn (one_block True D) i) = unat (46 :: u32)" by simp
    then show False using log_blocks(3) [OF geom, of i True] that by (simp add: one_block_def)
  qed
  moreover have "46 \<noteq> hdr_bn (one_block True D)" by (simp add: hdr_bn_def one_block_def)
  ultimately show "txn 1 {0} (one_block True D)"
    using geom by (simp add: txn_def homes_def outside_def one_block_facts ring_bufs_def lessThan_Suc)
qed

text \<open>
  C1. Crash atomicity of a commit. In a state whose transaction is well formed (distinct home
  blocks outside the log, their buffers pinned, the log on disk empty), \<open>commit\<close> returns and
  performs a sequence \<open>ws\<close> of block writes; whatever prefix of it reached the disk when the
  machine stopped, \<open>recover_from_log\<close> after the reboot returns, leaves the log empty, and leaves
  on disk either every block outside the log as before the transaction or every one as the
  transaction last wrote it. The device may be any that serves an outstanding request.
\<close>

theorem commit_crash_atomic:
  assumes "virtio_device dev" "cache d p {} P s" "txn d P s" "lh_n s > 0"
    "hdr_n (disk_img s (unat (hdr_bn s))) = 0"
  shows "\<exists>t ws. commit (irq_env dev) s = Done () t \<and> lh_n t = 0 \<and> disk_log t = disk_log s @ ws \<and>
    (\<forall>w\<in>set ws. length (snd w) = BSIZE) \<and>
    (\<forall>vs q r. prefix vs ws \<and> cache d q {} {} r \<and> log_geom d r \<and> log_start r = log_start s \<and>
       disk_img r = upds (disk_img s) vs \<longrightarrow>
       (\<exists>u. recover_from_log (irq_env dev) r = Done () u \<and> atomic d s u))"
  by (rule log_disk.commit_atomic [OF log_disk_irq [OF assms(1)] assms(2-)])

lemma upds_length:
  "(\<And>k. length (D k) = n) \<Longrightarrow> \<forall>w\<in>set ws. length (snd w) = n \<Longrightarrow> length (upds D ws k) = n"
  by (induction ws arbitrary: D) auto

theorem commit_crash_atomic_witness:
  "\<exists>t ws. commit (irq_env complete_request) (one_block True (\<lambda>_. replicate BSIZE 0)) = Done () t \<and>
    (\<forall>k. \<exists>u. recover_from_log (irq_env complete_request)
        (one_block False (upds (\<lambda>_. replicate BSIZE 0) (take k ws))) = Done () u \<and>
      atomic 1 (one_block True (\<lambda>_. replicate BSIZE 0)) u)"
proof -
  let ?s = "one_block True (\<lambda>_. replicate BSIZE 0)"
  have "hdr_n (disk_img ?s (unat (hdr_bn ?s))) = 0" by (simp add: one_block_facts hdr_n_def get32_def of_le_def numeral_eq_Suc)
  from commit_crash_atomic [OF virtio_device_complete_request _ one_block_txn(2) _ this, of 0]
  obtain t ws where t: "commit (irq_env complete_request) ?s = Done () t" "\<forall>w\<in>set ws. length (snd w) = BSIZE"
    and r: "\<And>vs q r. prefix vs ws \<Longrightarrow> cache 1 q {} {} r \<Longrightarrow> log_geom 1 r \<Longrightarrow> log_start r = log_start ?s \<Longrightarrow>
      disk_img r = upds (disk_img ?s) vs \<Longrightarrow> \<exists>u. recover_from_log (irq_env complete_request) r = Done () u \<and> atomic 1 ?s u"
    using one_block_cache [of "\<lambda>_. replicate BSIZE 0" True] by (auto simp: one_block_facts)
  have "\<exists>u. recover_from_log (irq_env complete_request) (one_block False (upds (\<lambda>_. replicate BSIZE 0) (take k ws))) = Done () u \<and>
      atomic 1 ?s u" for k
  proof (rule r)
    let ?D = "upds (\<lambda>_. replicate BSIZE 0) (take k ws)"
    have "length (?D j) = BSIZE" for j
      using t(2) by (intro upds_length) (auto dest: in_set_takeD)
    from one_block_cache [of ?D False, OF this] show "cache 1 0 {} {} (one_block False ?D)" by simp
  qed (simp_all add: take_is_prefix one_block_txn one_block_facts)
  with t(1) show ?thesis by blast
qed

text \<open>
  C10. A commit installs the transaction: it returns with an empty log in memory and on disk, no
  buffer pinned, and every block outside the log on disk equal to its cached content, which it
  leaves unchanged.
\<close>

theorem commit_installs:
  assumes "virtio_device dev" "cache d p {} P s" "txn d P s" "lh_n s > 0"
  shows "\<exists>t. commit (irq_env dev) s = Done () t \<and> cache d p {} {} t \<and> lh_n t = 0 \<and>
    hdr_n (disk_img t (unat (hdr_bn s))) = 0 \<and>
    (\<forall>bn. outside s bn \<longrightarrow> disk_img t (unat bn) = view d s bn \<and> view d t bn = view d s bn)"
  by (rule log_disk.commit_final [OF log_disk_irq [OF assms(1)] assms(2-)])

lemma one_block_view:
  assumes "\<And>k. length (D k) = BSIZE"
  shows "view 1 (one_block True D) 46 = replicate BSIZE 7"
proof -
  have ok: "bufs_ok 1 {} {0} (ring_bufs True) D"
    using one_block_cache [OF assms, of True] by (simp add: cache_def one_block_facts)
  have "in_cache 1 46 (ring_bufs True) 0" by (simp add: in_cache_def ring_bufs_def)
  from look_cached [OF ok this] show ?thesis by (simp add: view_def one_block_facts ring_bufs_def)
qed

theorem commit_installs_witness:
  "\<exists>t. commit (irq_env complete_request) (one_block True (\<lambda>_. replicate BSIZE 0)) = Done () t \<and>
    disk_img t 46 = replicate BSIZE 7"
proof -
  let ?s = "one_block True (\<lambda>_. replicate BSIZE 0)"
  have "outside ?s 46" using txn_blocks(4) [OF one_block_txn(2), of 0] by (simp add: one_block_facts)
  moreover have "view 1 ?s 46 = replicate BSIZE 7" by (rule one_block_view) simp
  moreover have "cache 1 0 {} {0} ?s" using one_block_cache [of "\<lambda>_. replicate BSIZE 0" True] by simp
  ultimately show ?thesis
    using commit_installs [OF virtio_device_complete_request _ one_block_txn(2), of 0 "\<lambda>_. replicate BSIZE 0"]
    by (fastforce simp: one_block_facts)
qed

text \<open>
  C11. \<open>log_write\<close> keeps the transaction well formed: with room in the log, on a locked buffer of a
  block outside the log, it returns with that block among the logged ones exactly once, its
  buffer pinned, the count larger by one exactly if the block was new, and no content changed.
\<close>

theorem log_write_keeps_transaction:
  assumes "cache d p L P s" "b \<in> L" "txn d P s" "outside s (b_blockno (bufs s b))"
    and "log_size s \<le> int LOGSIZE" "lh_n s < log_size s - 1" "1 \<le> log_outstanding s"
  shows "\<exists>t. log_write b env s = Done () t \<and> cache d p L (insert b P) t \<and> txn d (insert b P) t \<and>
    view d t = view d s \<and>
    lh_n t = lh_n s + (if b_blockno (bufs s b) \<in> lh_block s ` {..<nat (lh_n s)} then 0 else 1)"
  using log_write_txn [OF assms] by blast

theorem log_write_keeps_transaction_witness:
  "\<exists>t. log_write 0 id (one_block True (\<lambda>_. replicate BSIZE 0)
      \<lparr>lh_n := 0, slocks := (\<lambda>_. \<lparr>sl_locked = False, sl_pid = 0\<rparr>)(SL_buf 0 := \<lparr>sl_locked = True, sl_pid = 1\<rparr>)\<rparr>)
    = Done () t \<and> lh_n t = 1 \<and> txn 1 {0} t"
proof -
  let ?D = "\<lambda>_. replicate BSIZE 0 :: u8 list"
  let ?s = "one_block True ?D\<lparr>lh_n := 0, slocks := (\<lambda>_. \<lparr>sl_locked = False, sl_pid = 0\<rparr>)(SL_buf 0 := \<lparr>sl_locked = True, sl_pid = 1\<rparr>)\<rparr>"
  have c: "cache 1 0 {0} {} ?s"
    using ring_lru [of True]
    by (auto simp: cache_def one_block_def quiet_def idle_def idle_vq_def bufs_ok_def buf_ok_def ring_bufs_def
      zero_proc_def split: if_splits)
  have "log_geom 1 ?s" by (simp add: one_block_def log_geom_def)
  then have x: "txn 1 {} ?s" by (simp add: txn_def homes_def)
  have "outside (one_block True ?D) 46" using txn_blocks(4) [OF one_block_txn(2), of 0] by (simp add: one_block_facts)
  then have o: "outside ?s (b_blockno (bufs ?s 0))"
    by (simp add: outside_def hdr_bn_def log_bn_def one_block_def ring_bufs_def)
  show ?thesis
    using log_write_keeps_transaction [OF c _ x o, of id] by (auto simp: one_block_facts)
qed

text \<open>
  C34. The log can be overbooked. With an empty log of the size \<^verbatim>\<open>mkfs\<close> makes (\<open>LOGSIZE\<close> blocks,
  one of them the header) \<open>begin_op\<close> admits a third operation, since three times
  \<open>MAXOPBLOCKS\<close> is \<open>LOGSIZE\<close>; but the last of the blocks so reserved makes \<open>log_write\<close> panic.
\<close>

theorem log_reservation_overbooks:
  assumes "held s = {}" "log_size s = int LOGSIZE" "lh_n s = 0" "log_outstanding s = 2" "\<not> log_committing s"
  shows "(\<exists>t. begin_op env s = Done () t \<and> log_outstanding t = 3) \<and>
    (\<forall>u b. held u = {} \<and> log_size u = int LOGSIZE \<and> log_outstanding u = 3 \<and> lh_n u = 3 * int MAXOPBLOCKS - 1 \<longrightarrow>
       log_write b env u = Panic ''too big a transaction'')"
proof -
  have "wp env begin_op (\<lambda>_ t. log_outstanding t = 3) s"
    unfolding begin_op_def wp_seq
    using assms by (simp add: wp_simps) (subst wp_loop_unfold, simp add: begin_op_body_def wp_simps)
  moreover have "log_write b env u = Panic ''too big a transaction''"
    if "held u = {}" "log_size u = int LOGSIZE" "lh_n u = 3 * int MAXOPBLOCKS - 1" for u b
    using that by (simp add: log_write_def run_simps)
  ultimately show ?thesis by (auto simp: wp_iff)
qed

theorem log_reservation_overbooks_witness:
  "\<exists>t. begin_op id (one_block False (\<lambda>_. [])\<lparr>log_outstanding := 2\<rparr>) = Done () t \<and> log_outstanding t = 3 \<and>
    log_write 0 id (one_block False (\<lambda>_. [])\<lparr>log_outstanding := 3, lh_n := 29\<rparr>) = Panic ''too big a transaction''"
  using log_reservation_overbooks [of "one_block False (\<lambda>_. [])\<lparr>log_outstanding := 2\<rparr>" id]
  by (auto simp: one_block_def)

end
