(* ===== verification/Cache.thy ===== *)
theory Cache
  imports Crash
begin

text \<open>
  Properties of the disk driver and the buffer cache, \<^verbatim>\<open>kernel/virtio_disk.c\<close> and
  \<^verbatim>\<open>kernel/bio.c\<close>, for any device that serves an outstanding well-formed request. The specification of
  the cache is \<open>view d s\<close>, a map from block numbers to contents; \<open>cache d p L P s\<close> is its
  invariant, with \<open>L\<close> the buffers locked by the running process \<open>p\<close> and \<open>P\<close> those pinned.
\<close>

text \<open>
  C16. A disk request returns: on an idle driver, \<open>virtio_disk_rw\<close> hands the device a chain of
  descriptors that is well formed for the request, sleeps until the device's interrupt and the
  scheduler resumes it, and returns with the buffer's data written to its block or read from it,
  the driver idle again, all its descriptors free, and nothing else changed. Of the device only
  its service of well-formed chains is assumed (\<open>virtio_device\<close>).
\<close>

theorem virtio_disk_rw_returns:
  assumes "virtio_device dev" "quiet p s" "idle (vq s)" "\<not> b_disk (bufs s b)" "b_blockno (bufs s b) < 2 ^ 31"
  shows "\<exists>v. idle v \<and> virtio_disk_rw b w (irq_env dev) s = Done ()
    (if w then s\<lparr>disk_img := (disk_img s)(unat (b_blockno (bufs s b)) := b_data (bufs s b)),
              disk_log := disk_log s @ [(unat (b_blockno (bufs s b)), b_data (bufs s b))], vq := v\<rparr>
     else s\<lparr>bufs := (bufs s)(b := (bufs s b)\<lparr>b_data := disk_img s (unat (b_blockno (bufs s b)))\<rparr>), vq := v\<rparr>)"
  using virtio_disk_rw_run [OF assms(1-4), of w] blk_of_small [OF assms(5)]
  by (auto simp: transfer_def transfer_bufs_def)

abbreviation zeros :: "nat \<Rightarrow> u8 list" where "zeros \<equiv> \<lambda>_. replicate BSIZE 0"

lemma one_block_quiet: "quiet 0 (one_block dirty zeros)" "idle (vq (one_block dirty zeros))"
  using one_block_cache [of zeros dirty] by (auto simp: cache_def)

theorem virtio_disk_rw_returns_witness:
  "\<exists>t. virtio_disk_rw 0 True (irq_env complete_request) (one_block True zeros) = Done () t \<and>
    disk_img t 46 = replicate BSIZE 7"
  using virtio_disk_rw_returns [OF virtio_device_complete_request one_block_quiet [of True], of 0 True]
  by (auto simp: one_block_facts ring_bufs_def)

text \<open>
  C17. \<open>bread\<close> returns: if the block is cached or some buffer is neither locked nor pinned, it
  returns a buffer, now locked by the caller, that holds the current content of the block; the
  cache stays well formed and no block's content changes, on the disk or as the cache shows it.
\<close>

theorem bread_returns_block:
  assumes "virtio_device dev" "cache d p L P s" "bn < 2 ^ 31"
    and "\<forall>i\<in>L. b_blockno (bufs s i) \<noteq> bn"
    and "(\<exists>i<NBUF. i \<notin> L \<union> P) \<or> (\<exists>i. in_cache d bn (bufs s) i)"
  shows "\<exists>b t. bread d bn (irq_env dev) s = Done b t \<and> b \<notin> L \<and> cache d p (insert b L) P t \<and>
    b_blockno (bufs t b) = bn \<and> b_data (bufs t b) = view d s bn \<and> view d t = view d s \<and> disk_img t = disk_img s"
proof -
  have "wp (irq_env dev) (bread d bn) (\<lambda>b t. got d p L P bn s b t) s"
    by (rule disk_env.wp_bread [OF disk_env_irq [OF assms(1)] assms(2,3)]) (use assms(4,5) in auto)
  then show ?thesis by (auto simp: wp_iff got_def)
qed

theorem bread_returns_block_witness:
  "(\<exists>b t. bread 1 46 (irq_env complete_request) (one_block True zeros) = Done b t \<and> b_data (bufs t b) = replicate BSIZE 7) \<and>
   (\<exists>b t. bread 1 47 (irq_env complete_request) (one_block True zeros) = Done b t \<and> b_data (bufs t b) = replicate BSIZE 0)"
proof -
  have c: "cache 1 0 {} {0} (one_block True zeros)" using one_block_cache [of zeros True] by simp
  have "\<exists>i<NBUF. i \<notin> {} \<union> {0}" by (rule exI [of _ 1]) simp
  note r = bread_returns_block [OF virtio_device_complete_request c _ _ disjI1 [OF this]]
  have "view 1 (one_block True zeros) 47 = zeros 47"
    using view_disk [OF c, of 47] by (simp add: one_block_facts ring_bufs_def)
  then show ?thesis using r [of 46] r [of 47] one_block_view [of zeros] by fastforce
qed

text \<open>One block written through the cache, as \<^verbatim>\<open>log.c\<close> and \<^verbatim>\<open>fs.c\<close> do.\<close>

definition write_block :: "u32 \<Rightarrow> u32 \<Rightarrow> u8 list \<Rightarrow> ('x disk_state_scheme, unit) km" where
  "write_block d bn bs = bindM (bread d bn) (\<lambda>b. doM [set_data b bs, bwrite b, brelse b])"

lemma write_block_run:
  assumes env: "disk_env env" and c: "cache d p {} P s" and bn: "bn < 2 ^ 31" and len: "length bs = BSIZE"
    and room: "card P < NBUF"
    and Q: "\<And>t. wrote d p P [(bn, bs)] s t \<Longrightarrow> Q () t"
  shows "wp env (write_block d bn bs) Q s"
  unfolding write_block_def wp_bind
proof (rule disk_env.wp_bread [OF env c bn])
  show "(\<exists>i<NBUF. i \<notin> {} \<union> P) \<or> (\<exists>i. in_cache d bn (bufs s) i)"
    using unused_buf [OF room] c by (auto simp: cache_def)
  fix b t
  assume g: "got d p {} P bn s b t"
  then have ct: "cache d p {b} P t" and t: "b_blockno (bufs t b) = bn" "view d t = view d s"
    "disk_img t = disk_img s" "disk_log t = disk_log s" "storage_frame s t"
    "\<And>i. i \<in> P \<Longrightarrow> b_blockno (bufs t i) = b_blockno (bufs s i)"
    by (auto simp: got_def)
  show "wp env (doM [set_data b bs, bwrite b, brelse b]) Q t"
    unfolding wp_doM_Cons wp_doM_Nil wp_set_data
  proof (rule disk_env.wp_write_through [OF env ct _ len])
    fix u
    assume u: "cache d p {b} P u" "view d u = (view d t)(b_blockno (bufs t b) := bs)"
      "disk_img u = (disk_img t)(unat (b_blockno (bufs t b)) := bs)"
      "disk_log u = disk_log t @ [(unat (b_blockno (bufs t b)), bs)]"
      "\<And>i. b_blockno (bufs u i) = b_blockno (bufs t i)" "storage_frame t u"
    show "wp env (brelse b) (\<lambda>_. Q ()) u"
    proof (rule wp_brelse [OF u(1)])
      show "b \<in> P \<or> b_data (bufs u b) = disk_img u (unat (b_blockno (bufs u b)))"
        using cache_data(1) [OF u(1), of b] u by simp
      fix v
      assume v: "cache d p ({b} - {b}) P v" "view d v = view d u" "disk_img v = disk_img u"
        "disk_log v = disk_log u" "\<And>i. b_blockno (bufs v i) = b_blockno (bufs u i)" "storage_frame u v"
      show "Q () v"
        using v u t storage_frame_trans [OF t(5) storage_frame_trans [OF u(6) v(6)]]
        by (intro Q) (auto simp: wrote_def)
    qed simp
  qed simp
qed simp

text \<open>
  C4. The cache is a store of blocks: after a block has been written through it, a read of any
  block returns what was last written to it, from memory or from the disk, and the disk holds it.
\<close>

theorem block_write_read:
  assumes "virtio_device dev" "cache d p {} P s" "card P < NBUF" "bn < 2 ^ 31" "bm < 2 ^ 31" "length bs = BSIZE"
  shows "\<exists>b t. seqM (write_block d bn bs) (bread d bm) (irq_env dev) s = Done b t \<and>
    b_data (bufs t b) = (if bm = bn then bs else view d s bm) \<and> disk_img t (unat bn) = bs \<and> cache d p {b} P t"
proof -
  note env = disk_env_irq [OF assms(1)]
  have "wp (irq_env dev) (seqM (write_block d bn bs) (bread d bm)) (\<lambda>b t.
    b_data (bufs t b) = (if bm = bn then bs else view d s bm) \<and> disk_img t (unat bn) = bs \<and> cache d p {b} P t) s"
    unfolding wp_seq
  proof (rule write_block_run [OF env assms(2,4,6,3)])
    fix t
    assume "wrote d p P [(bn, bs)] s t"
    then have c: "cache d p {} P t" and v: "view d t = (view d s)(bn := bs)" and i: "disk_img t (unat bn) = bs"
      by (auto simp: wrote_def)
    show "wp (irq_env dev) (bread d bm) (\<lambda>b t. b_data (bufs t b) = (if bm = bn then bs else view d s bm) \<and>
        disk_img t (unat bn) = bs \<and> cache d p {b} P t) t"
      by (rule disk_env.wp_bread [OF env c assms(5)])
        (use unused_buf [OF assms(3)] c v i in \<open>auto simp: got_def cache_def\<close>)
  qed
  then show ?thesis by (simp add: wp_iff)
qed

theorem block_write_read_witness:
  "\<exists>b t. seqM (write_block 1 50 (replicate BSIZE 9)) (bread 1 50) (irq_env complete_request) (one_block True zeros) = Done b t \<and>
    b_data (bufs t b) = replicate BSIZE 9"
  using block_write_read [OF virtio_device_complete_request, of 1 0 "{0}" "one_block True zeros" 50 50 "replicate BSIZE 9"]
    one_block_cache [of zeros True] by auto

text \<open>
  \<open>binit\<close> returns with every buffer exactly once on the circular list from the head, most
  recently used first, the forward and the backward links agreeing.
\<close>

lemma binit_ring:
  "\<exists>t. binit env s = Done () t \<and> lru (bufs t) (rev [0..<NBUF])"
  by (rule binit_lru)

end
