(* ===== verification/Fs_Blocks.thy ===== *)
theory Fs_Blocks
  imports Fs Crash
begin

text \<open>
  The block allocator and the inode records of \<^verbatim>\<open>kernel/fs.c\<close> inside a transaction: what
  \<open>balloc\<close>, \<open>bfree\<close>, \<open>bzero\<close>, \<open>iupdate\<close> and \<open>ilock\<close> make of the blocks, as the buffer
  cache shows them.
\<close>

section \<open>Changing a block in a transaction\<close>

text \<open>
  \<open>op_inv d p k s\<close>: process \<open>p\<close> runs a file-system operation, no buffer is locked, and the log
  has room for \<open>k\<close> more blocks; an operation that writes is inside a transaction.
\<close>

definition op_inv :: "u32 \<Rightarrow> nat \<Rightarrow> nat \<Rightarrow> 'x log_state_scheme \<Rightarrow> bool" where
  "op_inv d p k s \<longleftrightarrow> (\<exists>P. cache d p {} P s \<and> txn d P s) \<and> log_size s \<le> int LOGSIZE \<and>
     lh_n s + int k \<le> log_size s - 1 \<and> (0 < k \<longrightarrow> 1 \<le> log_outstanding s)"

definition log_frame :: "'x log_state_scheme \<Rightarrow> 'x log_state_scheme \<Rightarrow> bool" where
  "log_frame s t \<longleftrightarrow> t = s\<lparr>slocks := slocks t, bufs := bufs t, vq := vq t, disk_img := disk_img t,
     disk_log := disk_log t, lh_n := lh_n t, lh_block := lh_block t\<rparr> \<and>
     (\<forall>i. slocks t (SL_inode i) = slocks s (SL_inode i))"

lemma log_frame_refl [simp]: "log_frame s s"
  by (simp add: log_frame_def)

lemma log_frame_trans:
  assumes "log_frame s t" "log_frame t u"
  shows "log_frame s u"
proof -
  have "u = t\<lparr>slocks := slocks u, bufs := bufs u, vq := vq u, disk_img := disk_img u,
      disk_log := disk_log u, lh_n := lh_n u, lh_block := lh_block u\<rparr>"
    using assms(2) unfolding log_frame_def by blast
  also have "\<dots> = s\<lparr>slocks := slocks u, bufs := bufs u, vq := vq u, disk_img := disk_img u,
      disk_log := disk_log u, lh_n := lh_n u, lh_block := lh_block u\<rparr>"
    by (subst assms(1) [unfolded log_frame_def, THEN conjunct1]) simp
  finally show ?thesis using assms unfolding log_frame_def by simp
qed

lemma log_frame_storage: "storage_frame s t \<Longrightarrow> log_frame s t"
  using frame_log(4,5) [of s t] by (simp add: log_frame_def storage_frame_def)

lemma log_frame_sel:
  assumes "log_frame s t"
  shows "log_start t = log_start s" "log_size t = log_size s" "log_outstanding t = log_outstanding s"
    "log_dev t = log_dev s" "outside t = outside s" "log_geom d t = log_geom d s" "cur t = cur s" "procs t = procs s" "held t = held s"
proof -
  have eq: "t = s\<lparr>slocks := slocks t, bufs := bufs t, vq := vq t, disk_img := disk_img t,
     disk_log := disk_log t, lh_n := lh_n t, lh_block := lh_block t\<rparr>"
    using assms unfolding log_frame_def by blast
  show st: "log_start t = log_start s" and "log_size t = log_size s" "log_outstanding t = log_outstanding s"
    and dv: "log_dev t = log_dev s" and "cur t = cur s" "procs t = procs s" "held t = held s"
    by (subst eq, simp)+
  show "outside t = outside s" by (rule same_log(3) [OF st])
  show "log_geom d t = log_geom d s" by (simp add: log_geom_def st dv)
qed

lemma log_frame_logged:
  "log_frame s (logged b s)"
  by (simp add: log_frame_def logged_def)

lemma log_frame_set_data: "log_frame s (s\<lparr>bufs := B\<rparr>)"
  by (simp add: log_frame_def)

text \<open>The state after \<open>b = bread(d, bn)\<close> from \<open>s\<close>.\<close>

definition opened :: "u32 \<Rightarrow> nat \<Rightarrow> nat \<Rightarrow> u32 \<Rightarrow> 'x log_state_scheme \<Rightarrow> nat \<Rightarrow> 'x log_state_scheme \<Rightarrow> bool" where
  "opened d p k bn s b t \<longleftrightarrow>
     (\<exists>P. cache d p {b} P t \<and> txn d P t \<and> (b \<in> P \<or> view d s bn = disk_img t (unat bn))) \<and>
     log_size t \<le> int LOGSIZE \<and> lh_n t + int k \<le> log_size t - 1 \<and> (0 < k \<longrightarrow> 1 \<le> log_outstanding t) \<and>
     b_blockno (bufs t b) = bn \<and> b_data (bufs t b) = view d s bn \<and> view d t = view d s \<and> log_frame s t"

lemma openedD:
  assumes "opened d p k bn s b t"
  shows "b_data (bufs t b) = view d s bn" "view d t = view d s" "log_frame s t" "length (view d s bn) = BSIZE"
proof -
  from assms show "b_data (bufs t b) = view d s bn" "log_frame s t" and v: "view d t = view d s"
    by (simp_all add: opened_def)
  obtain P where "cache d p {b} P t" using assms by (auto simp: opened_def)
  from view_length [OF this, of bn] v show "length (view d s bn) = BSIZE" by simp
qed

text \<open>Giving the buffer back unchanged.\<close>

lemma wp_close:
  assumes o: "opened d p k bn s b t"
    and Q: "\<And>u. op_inv d p k u \<Longrightarrow> view d u = view d s \<Longrightarrow> log_frame s u \<Longrightarrow> Q () u"
  shows "wp env (brelse b) Q t"
proof -
  from o obtain P where c: "cache d p {b} P t" and tx: "txn d P t"
    and cl: "b \<in> P \<or> b_data (bufs t b) = disk_img t (unat (b_blockno (bufs t b)))"
    and t: "view d t = view d s" "log_frame s t" by (auto simp: opened_def)
  show ?thesis
  proof (rule wp_brelse [OF c _ cl])
    fix u
    assume u: "cache d p ({b} - {b}) P u" "view d u = view d t" "\<And>i. b_blockno (bufs u i) = b_blockno (bufs t i)"
      "storage_frame t u"
    have "txn d P u" by (rule txn_frame [OF tx u(4)]) (simp add: u(3))
    then have "op_inv d p k u" using u(1) o frame_log [OF u(4)] by (auto simp: op_inv_def opened_def)
    then show "Q () u"
      using u(2) t log_frame_trans [OF t(2) log_frame_storage [OF u(4)]] by (intro Q) simp_all
  qed simp
qed

text \<open>Changing its data, logging the change and giving it back.\<close>

lemma wp_change:
  assumes o: "opened d p (Suc k) bn s b t" and out: "outside s bn" and len: "length bs = BSIZE"
    and Q: "\<And>u. op_inv d p k u \<Longrightarrow> view d u = (view d s)(bn := bs) \<Longrightarrow> log_frame s u \<Longrightarrow> Q () u"
  shows "wp env (set_data b bs) (\<lambda>_. wp env (log_write b) (\<lambda>_. wp env (brelse b) Q)) t"
proof -
  from o obtain P where c: "cache d p {b} P t" and tx: "txn d P t" and bn: "b_blockno (bufs t b) = bn"
    and t: "view d t = view d s" "log_frame s t" by (auto simp: opened_def)
  define t1 where "t1 = t\<lparr>bufs := (bufs t)(b := (bufs t b)\<lparr>b_data := bs\<rparr>)\<rparr>"
  note c1 = cache_set_data [OF c _ len, of b, folded t1_def]
  have x1: "txn d P t1" by (rule txn_frame [OF tx]) (simp_all add: t1_def storage_frame_def)
  have f1: "log_frame s t1" and b1: "b_blockno (bufs t1 b) = bn"
    using log_frame_trans [OF t(2) log_frame_set_data] bn by (simp_all add: t1_def)
  note s1 = log_frame_sel [OF f1] and st = log_frame_sel [OF t(2)]
  have n1: "lh_n t1 = lh_n t" by (simp add: t1_def)
  obtain t2 where t2: "log_write b env t1 = Done () t2" "cache d p {b} (insert b P) t2" "txn d (insert b P) t2"
    "view d t2 = view d t1" "t2 = t1 \<or> t2 = logged b t1" "lh_n t2 \<le> lh_n t1 + 1"
    using log_write_txn [OF c1(1) _ x1, of b env] out o by (auto simp: s1 st b1 n1 opened_def)
  have f2: "log_frame s t2" using t2(5) log_frame_trans [OF f1 log_frame_logged] f1 by auto
  have "wp env (brelse b) Q t2"
  proof (rule wp_brelse [OF t2(2)])
    fix u
    assume u: "cache d p ({b} - {b}) (insert b P) u" "view d u = view d t2"
      "\<And>i. b_blockno (bufs u i) = b_blockno (bufs t2 i)" "storage_frame t2 u"
    have fu: "log_frame s u" by (rule log_frame_trans [OF f2 log_frame_storage [OF u(4)]])
    have "txn d (insert b P) u" by (rule txn_frame [OF t2(3) u(4)]) (simp add: u(3))
    then have "op_inv d p k u"
      using u(1) o t2(6) n1 frame_log(4) [OF u(4)] log_frame_sel [OF fu] st by (auto simp: op_inv_def opened_def)
    then show "Q () u" using fu u(2) t2(4) c1(2) t bn by (intro Q) simp_all
  qed simp_all
  then show ?thesis using t2(1) by (simp add: wp_simps t1_def wp_DoneI)
qed

context log_disk
begin

lemma wp_open:
  assumes op: "op_inv d p k s" and bn: "bn < 2 ^ 31" and Q: "\<And>b t. opened d p k bn s b t \<Longrightarrow> Q b t"
  shows "wp env (bread d bn) Q s"
proof -
  obtain P where c: "cache d p {} P s" and tx: "txn d P s" using op by (auto simp: op_inv_def)
  show ?thesis
  proof (rule wp_bread [OF c bn])
    show "(\<exists>i<NBUF. i \<notin> {} \<union> P) \<or> (\<exists>i. in_cache d bn (bufs s) i)"
      using unused_buf [OF txn_card(2) [OF tx c]] c by (auto simp: cache_def)
    fix b t
    assume "got d p {} P bn s b t"
    then have ct: "cache d p {b} P t" and t: "b_blockno (bufs t b) = bn" "b_data (bufs t b) = view d s bn"
      "view d t = view d s" "disk_img t = disk_img s" "storage_frame s t"
      "\<And>i. i \<in> P \<Longrightarrow> b_blockno (bufs t i) = b_blockno (bufs s i)"
      by (auto simp: got_def)
    have "b \<in> P \<or> view d s bn = disk_img t (unat bn)"
    proof (cases "\<exists>i\<in>P. b_blockno (bufs s i) = bn")
      case True
      then obtain i where "i \<in> P" "b_blockno (bufs t i) = b_blockno (bufs t b)" using t(1,6) by auto
      then show ?thesis using cache_same_buf [OF ct, of i b] by simp
    next
      case False
      then show ?thesis using view_disk [OF c, of bn] t(4) by auto
    qed
    moreover have "txn d P t" by (rule txn_frame [OF tx t(5,6)])
    ultimately show "Q b t"
      using ct t op frame_log [OF t(5)] log_frame_storage [OF t(5)]
      by (intro Q) (auto simp: opened_def op_inv_def)
  qed simp
qed

end

lemma log_frame_fs:
  fixes s t :: "'x fs_state_scheme"
  assumes "log_frame s t"
  shows "sb t = sb s" "inodes t = inodes s"
proof -
  have eq: "t = s\<lparr>slocks := slocks t, bufs := bufs t, vq := vq t, disk_img := disk_img t,
     disk_log := disk_log t, lh_n := lh_n t, lh_block := lh_block t\<rparr>"
    using assms unfolding log_frame_def by blast
  show "sb t = sb s" "inodes t = inodes s" by (subst eq, simp)+
qed

section \<open>The bitmap\<close>

lemma bit_and_mask: "((w :: u8) AND 2 ^ k \<noteq> 0) = (k < 8 \<and> bit w k)"
  by (auto simp: bit_eq_iff [where ?'a = "8 word"] bit_simps)

lemma bm_used_bit: "bm_used x bi = bit (x ! (bi div 8)) (bi mod 8)"
  by (simp add: bm_used_def bm_mask_def bit_and_mask)

lemma bm_set_used:
  assumes "bi div 8 < length x"
  shows "bm_used (bm_set x bi) bj = (bj = bi \<or> bm_used x bj)"
proof (cases "bj div 8 = bi div 8")
  case True
  then have "(bj = bi) = (bj mod 8 = bi mod 8)" by (metis div_mod_decomp)
  with True assms show ?thesis by (auto simp: bm_used_bit bm_set_def bm_mask_def bit_simps)
qed (auto simp: bm_used_bit bm_set_def)

lemma bm_clear_used:
  assumes "bi div 8 < length x"
  shows "bm_used (bm_clear x bi) bj = (bj \<noteq> bi \<and> bm_used x bj)"
proof (cases "bj div 8 = bi div 8")
  case True
  then have "(bj = bi) = (bj mod 8 = bi mod 8)" by (metis div_mod_decomp)
  with True assms show ?thesis by (auto simp: bm_used_bit bm_clear_def bm_mask_def bit_simps)
qed (auto simp: bm_used_bit bm_clear_def)

lemma length_bm [simp]: "length (bm_set x bi) = length x" "length (bm_clear x bi) = length x"
  by (simp_all add: bm_set_def bm_clear_def)

lemma bm_clear_set:
  assumes "bi div 8 < length x" "\<not> bm_used x bi"
  shows "bm_clear (bm_set x bi) bi = x"
proof -
  have "(w OR bm_mask bi) AND NOT (bm_mask bi) = w" if "\<not> bit w (bi mod 8)" for w :: u8
    using that by (auto simp: bm_mask_def bit_eq_iff [where ?'a = "8 word"] bit_simps)
  then show ?thesis using assms by (simp add: bm_clear_def bm_set_def bm_used_bit)
qed

text \<open>Whether block \<open>b\<close> is in use, by the bitmap as the cache shows it.\<close>

definition in_use :: "u32 \<Rightarrow> 'x fs_state_scheme \<Rightarrow> nat \<Rightarrow> bool" where
  "in_use d s b = bm_used (view d s (BBLOCK (of_nat b) (sb s))) (b mod BPB)"

text \<open>
  The geometry the allocator relies on: the bitmap blocks are outside the log, and so is every
  block the bitmap calls free, which is not a bitmap block; a disk has fewer than \<open>2\<^sup>3\<^sup>1\<close> blocks.
\<close>

definition bitmap_ok :: "u32 \<Rightarrow> 'x fs_state_scheme \<Rightarrow> bool" where
  "bitmap_ok d s \<longleftrightarrow> unat (sb_size (sb s)) < 2 ^ 31 \<and>
     (\<forall>b < unat (sb_size (sb s)). outside s (BBLOCK (of_nat b) (sb s)) \<and>
        (\<not> in_use d s b \<longrightarrow> outside s (of_nat b) \<and>
           (\<forall>a < unat (sb_size (sb s)). of_nat b \<noteq> BBLOCK (of_nat a) (sb s))))"

lemma BBLOCK_same:
  assumes "c = BPB * q" "j < BPB" "c + j < 2 ^ 32"
  shows "BBLOCK (of_nat (c + j)) v = BBLOCK (of_nat c) v"
proof -
  have d: "unat (of_nat n div 8192 :: u32) = n div 8192" if "n < 2 ^ 32" for n
    using that by (simp add: unat_div unat_of_nat take_bit_nat_eq_self)
  have "c < 2 ^ 32" "(c + j) div 8192 = c div 8192" using assms by simp_all
  then have "(of_nat (c + j) div 8192 :: u32) = of_nat c div 8192"
    unfolding word_unat_eq_iff by (simp only: d assms(3))
  then show ?thesis by (simp add: BBLOCK_def)
qed

section \<open>Allocating and freeing blocks\<close>

lemma bm_first_free_Some:
  assumes "bm_first_free x c sz = Some bi"
  shows "bi < BPB" "c + bi < sz" "\<not> bm_used x bi" "\<And>j. j < bi \<Longrightarrow> bm_used x j"
  using assms by (auto simp: bm_first_free_def find_Some_iff)

lemma bm_first_free_None:
  assumes "bm_first_free x c sz = None" "j < BPB" "c + j < sz"
  shows "bm_used x j"
  using assms by (auto simp: bm_first_free_def find_None_iff)

lemma in_use_at:
  assumes "bitmap_ok d s" "c = BPB * q" "j < BPB" "c + j < unat (sb_size (sb s))"
  shows "in_use d s (c + j) = bm_used (view d s (BBLOCK (of_nat c) (sb s))) j"
proof -
  have "(c + j) mod BPB = j" using assms(2,3) by simp
  moreover have "c + j < 2 ^ 32" using assms(1,4) by (simp add: bitmap_ok_def)
  ultimately show ?thesis by (simp only: in_use_def BBLOCK_same [OF assms(2,3)])
qed

text \<open>What \<open>balloc\<close> makes of the blocks when it takes \<open>b\<close>.\<close>

definition alloc_view :: "u32 \<Rightarrow> nat \<Rightarrow> 'x fs_state_scheme \<Rightarrow> u32 \<Rightarrow> u8 list" where
  "alloc_view d b s = (let bb = BBLOCK (of_nat b) (sb s) in
     (view d s)(bb := bm_set (view d s bb) (b mod BPB), of_nat b := replicate BSIZE 0))"

definition first_free :: "u32 \<Rightarrow> 'x fs_state_scheme \<Rightarrow> nat \<Rightarrow> bool" where
  "first_free d s b \<longleftrightarrow> b < unat (sb_size (sb s)) \<and> \<not> in_use d s b \<and> (\<forall>a<b. in_use d s a)"

lemma BBLOCK_eq:
  assumes "a < 2 ^ 31" "b < 2 ^ 31" "BBLOCK (of_nat a) v = BBLOCK (of_nat b) v"
  shows "a div BPB = b div BPB"
proof -
  have d: "unat (of_nat n div 8192 :: u32) = n div 8192" if "n < 2 ^ 31" for n
    using that by (simp add: unat_div unat_of_nat take_bit_nat_eq_self)
  have "(of_nat a div 8192 :: u32) = of_nat b div 8192" using assms(3) by (simp add: BBLOCK_def)
  then show ?thesis using d [OF assms(1)] d [OF assms(2)] by simp
qed

lemma in_use_alloc:
  assumes ok: "bitmap_ok d s" and b: "first_free d s b" and c: "cache d p L P s"
    and t: "view d t = alloc_view d b s" "sb t = sb s" and a: "a < unat (sb_size (sb s))"
  shows "in_use d t a = (a = b \<or> in_use d s a)"
proof -
  let ?A = "BBLOCK (of_nat a) (sb s)" and ?B = "BBLOCK (of_nat b) (sb s)"
  have b': "b < unat (sb_size (sb s))" "\<not> in_use d s b" using b by (auto simp: first_free_def)
  have "of_nat b \<noteq> ?A" using ok a b' unfolding bitmap_ok_def by blast
  then have v: "view d t ?A = (if ?A = ?B then bm_set (view d s ?B) (b mod BPB) else view d s ?A)"
    by (simp add: t alloc_view_def Let_def)
  have len: "length (view d s ?B) = BSIZE" by (rule view_length [OF c])
  show ?thesis
  proof (cases "?A = ?B")
    case True
    have "a div BPB = b div BPB" using BBLOCK_eq [OF _ _ True] a b'(1) ok by (simp add: bitmap_ok_def)
    then have "(a mod BPB = b mod BPB) = (a = b)" by (metis div_mod_decomp)
    moreover have "bm_used (bm_set (view d s ?B) (b mod BPB)) (a mod BPB) =
        (a mod BPB = b mod BPB \<or> bm_used (view d s ?B) (a mod BPB))"
      by (rule bm_set_used) (simp add: len)
    ultimately show ?thesis using v True t(2) by (simp add: in_use_def)
  next
    case False
    then have "a \<noteq> b" by blast
    with v False t(2) show ?thesis by (simp add: in_use_def)
  qed
qed

lemma bitmap_ok_alloc:
  assumes "bitmap_ok d s" "first_free d s b" "cache d p L P s" "view d t = alloc_view d b s" "log_frame s t"
  shows "bitmap_ok d t"
  using assms(1) in_use_alloc [OF assms(1-4) log_frame_fs(1) [OF assms(5)]]
  unfolding bitmap_ok_def log_frame_fs(1) [OF assms(5)] log_frame_sel(5) [OF assms(5)] by blast

locale fs_disk = log_disk env
  for env :: "'z fs_state_scheme \<Rightarrow> 'z fs_state_scheme"
begin

lemma wp_bzero:
  assumes op: "op_inv d p (Suc k) s" and out: "outside s bno"
    and Q: "\<And>t. op_inv d p k t \<Longrightarrow> view d t = (view d s)(bno := replicate BSIZE 0) \<Longrightarrow> log_frame s t \<Longrightarrow> Q () t"
  shows "wp env (bzero d bno) Q s"
  unfolding bzero_def wp_bind wp_doM_Cons wp_doM_Nil
  by (rule wp_open [OF op]) (use out in \<open>auto simp: outside_def intro!: wp_change [OF _ out] Q\<close>)

lemma wp_bfree:
  assumes op: "op_inv d p (Suc k) s" and ok: "bitmap_ok d s" and b: "unat b < unat (sb_size (sb s))"
    and used: "in_use d s (unat b)"
    and Q: "\<And>t. op_inv d p k t \<Longrightarrow> view d t = (view d s)(BBLOCK b (sb s) :=
      bm_clear (view d s (BBLOCK b (sb s))) (unat b mod BPB)) \<Longrightarrow> log_frame s t \<Longrightarrow> Q () t"
  shows "wp env (bfree d b) Q s"
proof -
  let ?bb = "BBLOCK b (sb s)"
  have out: "outside s ?bb" using ok b by (auto simp: bitmap_ok_def)
  then have bn: "?bb < 2 ^ 31" by (simp add: outside_def)
  have "wp env (bread d ?bb) (\<lambda>bp. wp env (data_of bp) (\<lambda>x. wp env (if \<not> bm_used x (unat b mod BPB)
      then panicM ''freeing free block''
      else doM [set_data bp (bm_clear x (unat b mod BPB)), log_write bp, brelse bp]) Q)) s"
  proof (rule wp_open [OF op bn])
    fix bp t
    assume o: "opened d p (Suc k) ?bb s bp t"
    note od = openedD [OF o]
    have u: "bm_used (view d s ?bb) (unat b mod BPB)" using used by (simp add: in_use_def)
    show "wp env (data_of bp) (\<lambda>x. wp env (if \<not> bm_used x (unat b mod BPB)
      then panicM ''freeing free block''
      else doM [set_data bp (bm_clear x (unat b mod BPB)), log_write bp, brelse bp]) Q) t"
      unfolding wp_data_of od(1)
      using wp_change [OF o out, of "bm_clear (view d s ?bb) (unat b mod BPB)" "\<lambda>_. Q ()" env] u od(4) Q
      by (simp add: wp_doM_Cons wp_doM_Nil)
  qed
  then show ?thesis by (simp add: bfree_def wp_bind wp_get Let_def)
qed

lemma balloc_step:
  assumes ok: "bitmap_ok d s" and below: "\<forall>a<c. a < unat (sb_size (sb s)) \<longrightarrow> in_use d s a" and c: "c = BPB * q"
    and csz: "c < unat (sb_size (sb s))"
    and op: "op_inv d p (Suc (Suc k)) u" and v: "view d u = view d s" and fr: "log_frame s u"
    and found: "\<And>b t. first_free d s b \<Longrightarrow> op_inv d p k t \<Longrightarrow> view d t = alloc_view d b s \<Longrightarrow> log_frame s t \<Longrightarrow>
      Q (Inr (Some (of_nat b))) t"
    and more: "\<And>t. \<forall>a<c + BPB. a < unat (sb_size (sb s)) \<longrightarrow> in_use d s a \<Longrightarrow> op_inv d p (Suc (Suc k)) t \<Longrightarrow>
      view d t = view d s \<Longrightarrow> log_frame s t \<Longrightarrow> Q (Inl (c + BPB)) t"
  shows "wp env (balloc_body d c) Q u"
proof -
  let ?bb = "BBLOCK (of_nat c) (sb s)" and ?sz = "unat (sb_size (sb s))"
  let ?x = "view d s ?bb"
  have sb: "sb u = sb s" by (rule log_frame_fs(1) [OF fr])
  have out: "outside s ?bb" "outside u ?bb" using ok csz log_frame_sel(5) [OF fr] by (auto simp: bitmap_ok_def)
  then have bn: "?bb < 2 ^ 31" by (simp add: outside_def)
  have "wp env (bread d ?bb) (\<lambda>bp. wp env (data_of bp) (\<lambda>x. wp env (case bm_first_free x c ?sz of
         Some bi \<Rightarrow> seqM (doM [set_data bp (bm_set x bi), log_write bp, brelse bp, bzero d (of_nat (c + bi))])
           (retM (Inr (Some (of_nat (c + bi)))))
       | None \<Rightarrow> seqM (brelse bp) (retM (Inl (c + BPB)))) Q)) u"
  proof (rule wp_open [OF op bn])
    fix bp t
    assume o: "opened d p (Suc (Suc k)) ?bb u bp t"
    note od = openedD [OF o]
    show "wp env (data_of bp) (\<lambda>x. wp env (case bm_first_free x c ?sz of
         Some bi \<Rightarrow> seqM (doM [set_data bp (bm_set x bi), log_write bp, brelse bp, bzero d (of_nat (c + bi))])
           (retM (Inr (Some (of_nat (c + bi)))))
       | None \<Rightarrow> seqM (brelse bp) (retM (Inl (c + BPB)))) Q) t"
    proof (cases "bm_first_free ?x c ?sz")
      case None
      have "in_use d s a" if "a < c + BPB" "a < ?sz" for a
      proof (cases "a < c")
        case False
        define j where "j = a - c"
        then have j: "a = c + j" "j < BPB" using that(1) False by simp_all
        show ?thesis
          unfolding j(1) in_use_at [OF ok c j(2) that(2) [unfolded j(1)]]
          by (rule bm_first_free_None [OF None j(2) that(2) [unfolded j(1)]])
      qed (use below that(2) in blast)
      then have "wp env (brelse bp) (\<lambda>_ u. Q (Inl (c + BPB)) u) t"
        using v log_frame_trans [OF fr] by (intro wp_close [OF o] more) auto
      then show ?thesis using None by (simp add: wp_data_of od(1) v wp_simps)
    next
      case (Some bi)
      note bi = bm_first_free_Some [OF Some]
      have used: "in_use d s (c + j) = bm_used ?x j" if "j \<le> bi" for j
        using in_use_at [OF ok c, of j] bi(1,2) that by simp
      have "in_use d s a" if "a < c + bi" for a
      proof (cases "a < c")
        case False
        define j where "j = a - c"
        then have j: "a = c + j" "j < bi" using that False by simp_all
        then show ?thesis using used [of j] bi(4) by simp
      qed (use below that bi(2) in simp)
      then have free: "first_free d s (c + bi)" using used [of bi] bi(2,3) by (simp add: first_free_def)
      have "c + bi < 2 ^ 32" using ok bi(2) by (simp add: bitmap_ok_def)
      then have al: "alloc_view d (c + bi) s = (view d s)(?bb := bm_set ?x bi, of_nat (c + bi) := replicate BSIZE 0)"
        using BBLOCK_same [OF c bi(1)] bi(1) c by (simp only: alloc_view_def Let_def) simp
      have ob: "outside s (of_nat (c + bi))" using ok free by (simp only: bitmap_ok_def first_free_def) blast
      have "wp env (set_data bp (bm_set ?x bi)) (\<lambda>_. wp env (log_write bp) (\<lambda>_. wp env (brelse bp)
          (\<lambda>_. wp env (bzero d (of_nat (c + bi))) (\<lambda>_. Q (Inr (Some (of_nat (c + bi)))))))) t"
      proof (rule wp_change [OF o out(2)])
        show "length (bm_set ?x bi) = BSIZE" using od(4) v by simp
        fix w
        assume w: "op_inv d p (Suc k) w" "view d w = (view d u)(?bb := bm_set ?x bi)" "log_frame u w"
        have fw: "log_frame s w" by (rule log_frame_trans [OF fr w(3)])
        have ow: "outside w (of_nat (c + bi))" using ob log_frame_sel(5) [OF fw] by (simp only:)
        show "wp env (bzero d (of_nat (c + bi))) (\<lambda>_. Q (Inr (Some (of_nat (c + bi))))) w"
          by (rule wp_bzero [OF w(1) ow], rule found [OF free])
            (use w(2) v al log_frame_trans [OF fw] in simp_all)
      qed
      then show ?thesis using Some by (simp add: wp_data_of od(1) v wp_simps)
    qed
  qed
  then show ?thesis using csz by (simp add: balloc_body_def wp_simps sb)
qed

lemma balloc_loop:
  assumes ok: "bitmap_ok d s" and op: "op_inv d p (Suc (Suc k)) s"
  shows "wp env (loopM (balloc_body d) 0) (\<lambda>r t. case r of
      Some a \<Rightarrow> \<exists>b. a = of_nat b \<and> first_free d s b \<and> op_inv d p k t \<and> view d t = alloc_view d b s \<and> log_frame s t
    | None \<Rightarrow> \<forall>b < unat (sb_size (sb s)). in_use d s b) s"
proof (rule wp_loop [where I = "\<lambda>c u. (\<exists>q. c = BPB * q) \<and> (\<forall>a<c. a < unat (sb_size (sb s)) \<longrightarrow> in_use d s a) \<and>
      op_inv d p (Suc (Suc k)) u \<and> view d u = view d s \<and> log_frame s u"
    and \<mu> = "\<lambda>c _. unat (sb_size (sb s)) - c"])
  fix c u
  assume I: "(\<exists>q. c = BPB * q) \<and> (\<forall>a<c. a < unat (sb_size (sb s)) \<longrightarrow> in_use d s a) \<and>
      op_inv d p (Suc (Suc k)) u \<and> view d u = view d s \<and> log_frame s u"
  then obtain q where c: "c = BPB * q" by blast
  show "wp env (balloc_body d c) (\<lambda>r w. case r of
      Inl c' \<Rightarrow> ((\<exists>q. c' = BPB * q) \<and> (\<forall>a<c'. a < unat (sb_size (sb s)) \<longrightarrow> in_use d s a) \<and>
        op_inv d p (Suc (Suc k)) w \<and> view d w = view d s \<and> log_frame s w) \<and>
        unat (sb_size (sb s)) - c' < unat (sb_size (sb s)) - c
    | Inr x \<Rightarrow> (case x of
        Some a \<Rightarrow> \<exists>b. a = of_nat b \<and> first_free d s b \<and> op_inv d p k w \<and> view d w = alloc_view d b s \<and> log_frame s w
      | None \<Rightarrow> \<forall>b < unat (sb_size (sb s)). in_use d s b)) u"
  proof (cases "c < unat (sb_size (sb s))")
    case True
    have nxt: "\<exists>q'. c + BPB = BPB * q'" by (rule exI [of _ "Suc q"]) (simp add: c)
    show ?thesis
      by (rule balloc_step [OF ok _ c True]) (use I True nxt in auto)
  next
    case False
    then show ?thesis using I log_frame_fs(1) [of s u] by (simp add: balloc_body_def wp_simps)
  qed
qed (use op in auto)

lemma balloc_cases:
  assumes ok: "bitmap_ok d s" and op: "op_inv d p (Suc (Suc k)) s"
  shows "if \<forall>b < unat (sb_size (sb s)). in_use d s b
    then balloc d env s = Panic ''balloc: out of blocks''
    else \<exists>b t. balloc d env s = Done (of_nat b) t \<and> first_free d s b \<and> op_inv d p k t \<and>
      view d t = alloc_view d b s \<and> log_frame s t"
proof -
  obtain r t where run: "loopM (balloc_body d) 0 env s = Done r t" and
    r: "case r of Some a \<Rightarrow> \<exists>b. a = of_nat b \<and> first_free d s b \<and> op_inv d p k t \<and>
        view d t = alloc_view d b s \<and> log_frame s t
      | None \<Rightarrow> \<forall>b < unat (sb_size (sb s)). in_use d s b"
    using balloc_loop [OF assms] by (auto simp: wp_iff)
  show ?thesis
  proof (cases r)
    case None
    then show ?thesis using r run by (simp add: balloc_def bindM_def panicM_def)
  next
    case (Some a)
    then obtain b where b: "a = of_nat b" "first_free d s b" "op_inv d p k t"
        "view d t = alloc_view d b s" "log_frame s t" using r by auto
    moreover have "\<not> (\<forall>b < unat (sb_size (sb s)). in_use d s b)" using b(2) by (auto simp: first_free_def)
    moreover have "balloc d env s = Done (of_nat b) t" using run Some b(1) by (simp add: balloc_def bindM_def retM_def)
    ultimately show ?thesis by (simp only: if_False) blast
  qed
qed

end

section \<open>Properties of the allocator\<close>

lemma fs_disk_irq: "virtio_device dev \<Longrightarrow> fs_disk (irq_env dev)"
  by (rule fs_disk.intro [OF log_disk_irq])

interpretation qemu_fs: fs_disk "irq_env complete_request"
  by (rule fs_disk_irq [OF virtio_device_complete_request])

text \<open>
  C12. \<open>balloc\<close>, in a transaction with room for two more blocks: if every block of the disk is in
  use it panics; otherwise it returns the number of the first free block, which the bitmap then
  shows in use and whose content is zero. No other bit of the bitmap and no other block changes,
  and the log keeps room for what it did not use.
\<close>

theorem balloc_correct:
  assumes "virtio_device dev" "bitmap_ok d s" "op_inv d p (Suc (Suc k)) s"
  shows "if \<forall>b < unat (sb_size (sb s)). in_use d s b
    then balloc d (irq_env dev) s = Panic ''balloc: out of blocks''
    else \<exists>b t. balloc d (irq_env dev) s = Done (of_nat b) t \<and> first_free d s b \<and> op_inv d p k t \<and> bitmap_ok d t \<and>
      (\<forall>a < unat (sb_size (sb s)). in_use d t a = (a = b \<or> in_use d s a)) \<and>
      view d t (of_nat b) = replicate BSIZE 0 \<and>
      (\<forall>bn. bn \<noteq> of_nat b \<and> bn \<noteq> BBLOCK (of_nat b) (sb s) \<longrightarrow> view d t bn = view d s bn)"
proof -
  obtain P where c: "cache d p {} P s" using assms(3) by (auto simp: op_inv_def)
  note run = fs_disk.balloc_cases [OF fs_disk_irq [OF assms(1)] assms(2,3)]
  show ?thesis
  proof (cases "\<forall>b < unat (sb_size (sb s)). in_use d s b")
    case True
    show ?thesis using run unfolding if_P [OF True] .
  next
    case False
    obtain b t where b: "balloc d (irq_env dev) s = Done (of_nat b) t" "first_free d s b" "op_inv d p k t"
      "view d t = alloc_view d b s" "log_frame s t"
      using run unfolding if_not_P [OF False] by blast
    note use = in_use_alloc [OF assms(2) b(2) c b(4) log_frame_fs(1) [OF b(5)]]
    have "bitmap_ok d t" by (rule bitmap_ok_alloc [OF assms(2) b(2) c b(4,5)])
    moreover have "view d t (of_nat b) = replicate BSIZE 0"
      "\<forall>bn. bn \<noteq> of_nat b \<and> bn \<noteq> BBLOCK (of_nat b) (sb s) \<longrightarrow> view d t bn = view d s bn"
      by (simp_all add: b(4) alloc_view_def Let_def)
    ultimately show ?thesis using b(1-3) use unfolding if_not_P [OF False] by blast
  qed
qed

text \<open>
  C13. \<open>bfree\<close> of a block that is in use clears its bit and changes nothing else; a block that
  \<open>balloc\<close> took and \<open>bfree\<close> gave back leaves the bitmap as it was, only the block's own content
  is then zero.
\<close>

theorem balloc_bfree:
  assumes "virtio_device dev" "bitmap_ok d s" "op_inv d p (Suc (Suc (Suc k))) s" "\<exists>b < unat (sb_size (sb s)). \<not> in_use d s b"
  shows "\<exists>b t. bindM (balloc d) (bfree d) (irq_env dev) s = Done () t \<and> first_free d s b \<and> op_inv d p k t \<and>
    view d t = (view d s)(of_nat b := replicate BSIZE 0)"
proof -
  note fs = fs_disk_irq [OF assms(1)]
  obtain P where c: "cache d p {} P s" using assms(3) by (auto simp: op_inv_def)
  have full: "\<not> (\<forall>b < unat (sb_size (sb s)). in_use d s b)" using assms(4) by blast
  obtain b t where b: "balloc d (irq_env dev) s = Done (of_nat b) t" "first_free d s b" "op_inv d p (Suc k) t"
    "view d t = alloc_view d b s" "log_frame s t"
    using fs_disk.balloc_cases [OF fs assms(2,3)] unfolding if_not_P [OF full] by blast
  have bsz: "b < unat (sb_size (sb s))" "b < 2 ^ 32" "\<not> in_use d s b"
    using b(2) assms(2) by (auto simp: first_free_def bitmap_ok_def)
  then have ub: "unat (of_nat b :: u32) = b" by (simp add: unat_of_nat take_bit_nat_eq_self)
  let ?B = "BBLOCK (of_nat b) (sb s)"
  have ne: "?B \<noteq> of_nat b" using assms(2) bsz unfolding bitmap_ok_def by metis
  have "bm_clear (bm_set (view d s ?B) (b mod BPB)) (b mod BPB) = view d s ?B"
    using bsz(3) by (intro bm_clear_set) (simp_all add: view_length [OF c] in_use_def)
  then have undo: "(view d t)(?B := bm_clear (view d t ?B) (b mod BPB)) = (view d s)(of_nat b := replicate BSIZE 0)"
    using ne by (auto simp: b(4) alloc_view_def Let_def fun_eq_iff)
  have "wp (irq_env dev) (bfree d (of_nat b)) (\<lambda>_ u. op_inv d p k u \<and> view d u = (view d s)(of_nat b := replicate BSIZE 0)) t"
  proof (rule fs_disk.wp_bfree [OF fs b(3) bitmap_ok_alloc [OF assms(2) b(2) c b(4,5)]], unfold ub log_frame_fs(1) [OF b(5)])
    show "b < unat (sb_size (sb s))" by (rule bsz(1))
    show "in_use d t b" using in_use_alloc [OF assms(2) b(2) c b(4) log_frame_fs(1) [OF b(5)] bsz(1)] by simp
  qed (simp add: undo)
  then obtain u where "bfree d (of_nat b) (irq_env dev) t = Done () u" "op_inv d p k u"
    "view d u = (view d s)(of_nat b := replicate BSIZE 0)" by (auto simp: wp_iff)
  then show ?thesis using b(1,2) by (auto simp: bindM_def)
qed

text \<open>
  The file system \<^verbatim>\<open>mkfs\<close> lays out on a disk of 1000 blocks: the log from block 2, inodes from
  block 32, the bitmap in block 45, and the 46 blocks of this meta-data in use.
\<close>

definition demo_sb :: superblock where
  "demo_sb = \<lparr>sb_magic = FSMAGIC, sb_size = 1000, sb_nblocks = 954, sb_ninodes = 200, sb_nlog = 30,
     sb_logstart = 2, sb_inodestart = 32, sb_bmapstart = 45\<rparr>"

definition demo_inode :: inode where
  "demo_inode = \<lparr>i_dev = 1, i_inum = 7, i_ref = 1, i_valid = True, i_type = T_FILE, i_major = 0, i_minor = 0,
     i_nlink = 1, i_size = 5, i_addrs = (\<lambda>k. if k = 0 then 100 else 0)\<rparr>"

definition demo_disk :: "nat \<Rightarrow> u8 list" where
  "demo_disk k = (if k = 45 then replicate 5 (mask 8) @ [mask 6] @ replicate 1018 0 else replicate BSIZE 0)"

definition demo_fs :: fs_state where
  "demo_fs =
     \<lparr>held = {}, cur = Some 0, procs = (\<lambda>_. zero_proc)(0 := zero_proc\<lparr>p_state := RUNNING, p_pid := 1\<rparr>),
      slocks = (\<lambda>_. \<lparr>sl_locked = False, sl_pid = 0\<rparr>), nextpid = 2, initproc = Some 0,
      mem = (\<lambda>_. 0), freelist = 0, kernel_end = 0, kernel_pagetable = 0, etext = 0, trampoline = 0, satp = 0,
      bufs = ring_bufs False, vq = idle_vq, disk_img = demo_disk, disk_log = [],
      log_start = 2, log_size = 30, log_outstanding = 1, log_committing = False, log_dev = 1,
      lh_n = 0, lh_block = (\<lambda>_. 0), sb = demo_sb, inodes = (\<lambda>_. demo_inode)\<rparr>"

lemma demo_fs_sel:
  "sb demo_fs = demo_sb" "inodes demo_fs = (\<lambda>_. demo_inode)" "disk_img demo_fs = demo_disk" "lh_n demo_fs = 0"
  "log_start demo_fs = 2" "log_size demo_fs = 30" "log_outstanding demo_fs = 1" "cur demo_fs = Some 0" "held demo_fs = {}"
  by (simp_all add: demo_fs_def)

lemma demo_fs_cache: "cache 1 0 {} {} demo_fs"
  using ring_lru [of False]
  by (auto simp: cache_def demo_fs_def quiet_def idle_def idle_vq_def bufs_ok_def buf_ok_def ring_bufs_def
      zero_proc_def demo_disk_def split: if_splits)

lemma demo_fs_geom: "log_geom d demo_fs \<longleftrightarrow> d = 1"
  by (auto simp: demo_fs_def log_geom_def)

lemma demo_fs_op: "k \<le> 29 \<Longrightarrow> op_inv 1 0 k demo_fs"
  using demo_fs_cache
  by (auto simp: op_inv_def txn_def homes_def demo_fs_geom demo_fs_sel intro!: exI [of _ "{}"])

lemma outside_above:
  assumes geom: "log_geom d s" and b: "nat (log_start s) + LOGSIZE \<le> b" "b < 2 ^ 31"
  shows "outside s (of_nat b)"
proof -
  have ub: "unat (of_nat b :: u32) = b" using b(2) by (simp add: unat_of_nat take_bit_nat_eq_self)
  have "of_nat b < (2 ^ 31 :: u32)" unfolding word_less_nat_alt ub using b(2) by simp
  moreover have "of_nat b \<noteq> hdr_bn s"
    unfolding word_unat_eq_iff ub log_blocks(1) [OF geom] using b(1) by simp
  moreover have "of_nat b \<noteq> log_bn s i" if "i < LOGSIZE - 1" for i
    unfolding word_unat_eq_iff ub using log_blocks(3) [OF geom, of i] that b(1) by simp
  ultimately show ?thesis by (simp add: outside_def)
qed

lemma demo_fs_view: "view 1 demo_fs bn = demo_disk (unat bn)"
  using view_disk [OF demo_fs_cache] by (simp add: demo_fs_sel)

lemma demo_fs_BBLOCK: "b < 1000 \<Longrightarrow> BBLOCK (of_nat b) (sb demo_fs) = 45"
  using BBLOCK_same [of 0 0 b "sb demo_fs"] by (simp add: demo_fs_sel demo_sb_def BBLOCK_def)

lemma demo_fs_in_use: "b < 1000 \<Longrightarrow> in_use 1 demo_fs b \<longleftrightarrow> b < 46"
proof -
  assume b: "b < 1000"
  have nth: "demo_disk 45 ! i = (if i < 5 then mask 8 else if i = 5 then mask 6 else 0)" if "i < 1024" for i
    using that by (simp add: demo_disk_def nth_append nth_Cons')
  have "in_use 1 demo_fs b = bm_used (demo_disk 45) b"
    using b by (simp only: in_use_def demo_fs_BBLOCK demo_fs_view) simp
  also have "\<dots> = bit (demo_disk 45 ! (b div 8)) (b mod 8)" by (rule bm_used_bit)
  also have "\<dots> = (b div 8 < 5 \<or> b div 8 = 5 \<and> b mod 8 < 6)"
    using b by (auto simp: nth bit_simps)
  also have "\<dots> = (b < 46)" by presburger
  finally show ?thesis .
qed

lemma demo_fs_bitmap: "bitmap_ok 1 demo_fs"
proof -
  have sz: "unat (sb_size (sb demo_fs)) = 1000" by (simp add: demo_fs_sel demo_sb_def)
  have geom: "log_geom 1 demo_fs" by (simp add: demo_fs_geom)
  have o45: "outside demo_fs 45" using outside_above [OF geom, of 45] by (simp add: demo_fs_sel)
  have "outside demo_fs (of_nat b) \<and> (of_nat b :: u32) \<noteq> 45" if "b < 1000" "\<not> in_use 1 demo_fs b" for b
  proof
    have "46 \<le> b" using that demo_fs_in_use by simp
    then show "outside demo_fs (of_nat b)" using outside_above [OF geom, of b] that by (simp add: demo_fs_sel)
    have "unat (of_nat b :: u32) = b" using that(1) by (simp add: unat_of_nat take_bit_nat_eq_self)
    then show "(of_nat b :: u32) \<noteq> 45" using \<open>46 \<le> b\<close> by (auto simp: word_unat_eq_iff)
  qed
  then show ?thesis
    unfolding bitmap_ok_def sz using demo_fs_BBLOCK o45 by simp
qed

lemma demo_fs_first_free: "first_free 1 demo_fs b \<longleftrightarrow> b = 46"
proof -
  have sz: "unat (sb_size (sb demo_fs)) = 1000" by (simp add: demo_fs_sel demo_sb_def)
  have "b = 46" if "b < 1000" "\<not> in_use 1 demo_fs b" "\<forall>a<b. in_use 1 demo_fs a"
    using that demo_fs_in_use [of 46] demo_fs_in_use [of b] by (cases "46 < b") auto
  then show ?thesis unfolding first_free_def sz using demo_fs_in_use by auto
qed

lemma demo_fs_room: "\<exists>b < unat (sb_size (sb demo_fs)). \<not> in_use 1 demo_fs b"
  using demo_fs_in_use [of 46] by (intro exI [of _ 46]) (simp add: demo_fs_sel demo_sb_def)

theorem balloc_correct_witness:
  "\<exists>t. balloc 1 (irq_env complete_request) demo_fs = Done 46 t \<and> in_use 1 t 46 \<and> view 1 t 46 = replicate BSIZE 0"
proof -
  have sz: "unat (sb_size (sb demo_fs)) = 1000" by (simp add: demo_fs_sel demo_sb_def)
  have "\<not> (\<forall>b < unat (sb_size (sb demo_fs)). in_use 1 demo_fs b)" using demo_fs_room by blast
  note r = balloc_correct [OF virtio_device_complete_request demo_fs_bitmap demo_fs_op [of "Suc (Suc 0)"],
      unfolded if_not_P [OF this], unfolded sz demo_fs_first_free]
  then obtain t where "balloc 1 (irq_env complete_request) demo_fs = Done (of_nat 46) t"
    "view 1 t (of_nat 46) = replicate BSIZE 0" "\<forall>a<1000. in_use 1 t a = (a = 46 \<or> in_use 1 demo_fs a)" by auto
  then show ?thesis by simp
qed

theorem balloc_bfree_witness:
  "\<exists>t. bindM (balloc 1) (bfree 1) (irq_env complete_request) demo_fs = Done () t \<and>
    view 1 t 45 = demo_disk 45"
  using balloc_bfree [OF virtio_device_complete_request demo_fs_bitmap demo_fs_op [of "Suc (Suc (Suc 0))"] demo_fs_room]
  by (auto simp: demo_fs_first_free demo_fs_view)

end
