(* ===== verification/Fs_Files.thy ===== *)
theory Fs_Files
  imports Fs_Blocks
begin

text \<open>
  Inodes, file contents and path names of \<^verbatim>\<open>kernel/fs.c\<close>: the on-disk inode read back by
  \<open>ilock\<close>, the bytes \<open>readi\<close> delivers, the references \<open>iget\<close> and \<open>idup\<close> count, and the
  elements \<open>skipelem\<close> splits a path into.
\<close>

section \<open>The on-disk inode\<close>

lemma field_of_splice:
  assumes "off + length bs \<le> length x" "j + n \<le> length bs"
  shows "take n (drop (off + j) (splice x off bs)) = take n (drop j bs)"
proof -
  have "drop (off + j) (splice x off bs) = drop j bs @ drop (off + length bs) x"
    using assms by (simp add: splice_def drop_append)
  then show ?thesis using assms by simp
qed

lemma length_concat_const:
  "(\<And>k. k < m \<Longrightarrow> length (f k) = n) \<Longrightarrow> length (concat (map f [0..<m])) = n * m"
  by (induction m) simp_all

lemma take_drop_concat:
  assumes "\<And>k. k < m \<Longrightarrow> length (f k) = n" "k < m"
  shows "take n (drop (n * k) (concat (map f [0..<m]))) = f k"
  using assms
proof (induction m)
  case (Suc m)
  have len: "length (concat (map f [0..<m])) = n * m"
    using Suc.prems(1) by (intro length_concat_const) simp
  show ?case
  proof (cases "k = m")
    case False
    then have k: "k < m" using Suc.prems(2) by simp
    then have "n * Suc k \<le> n * m" by (intro mult_le_mono2) simp
    then have "n * k + n \<le> n * m" by simp
    with k Suc.IH Suc.prems(1) len show ?thesis by simp
  qed (use Suc.prems len in simp)
qed simp

lemma length_concat_words [simp]: "length (concat (map (\<lambda>k. le_bytes 4 (a k)) [0..<m])) = 4 * m"
  by (induction m) simp_all

lemma length_dinode_bytes [simp]: "length (dinode_bytes n) = 64"
  by (simp add: dinode_bytes_def del: upt_Suc)

lemma dinode_fields:
  "take 2 (dinode_bytes n) = le_bytes 2 (i_type n)" "take 2 (drop 2 (dinode_bytes n)) = le_bytes 2 (i_major n)"
  "take 2 (drop 4 (dinode_bytes n)) = le_bytes 2 (i_minor n)" "take 2 (drop 6 (dinode_bytes n)) = le_bytes 2 (i_nlink n)"
  "take 4 (drop 8 (dinode_bytes n)) = le_bytes 4 (i_size n)"
  "k \<le> NDIRECT \<Longrightarrow> take 4 (drop (12 + 4 * k) (dinode_bytes n)) = le_bytes 4 (i_addrs n k)"
  using take_drop_concat [of "NDIRECT + 1" "\<lambda>k. le_bytes 4 (i_addrs n k)" 4 k]
  by (simp_all add: dinode_bytes_def add.commute del: upt_Suc)

text \<open>The fields of \<open>n\<close> that are on disk, in place of those of \<open>m\<close>.\<close>

definition with_dinode :: "inode \<Rightarrow> inode \<Rightarrow> inode" where
  "with_dinode n m = m\<lparr>i_type := i_type n, i_major := i_major n, i_minor := i_minor n, i_nlink := i_nlink n,
     i_size := i_size n, i_addrs := (\<lambda>k. if k \<le> NDIRECT then i_addrs n k else i_addrs m k)\<rparr>"

lemma load_dinode_splice:
  assumes "off + 64 \<le> length x"
  shows "load_dinode (splice x off (dinode_bytes n)) off m = with_dinode n m"
proof -
  let ?y = "splice x off (dinode_bytes n)"
  note f = field_of_splice [of off "dinode_bytes n" x]
  have g: "get16 ?y off = i_type n" "get16 ?y (off + 2) = i_major n" "get16 ?y (off + 4) = i_minor n"
    "get16 ?y (off + 6) = i_nlink n" "get32 ?y (off + 8) = i_size n"
    using f [of 0 2] f [of 2 2] f [of 4 2] f [of 6 2] f [of 8 4] assms
    by (simp_all add: get16_def get32_def dinode_fields of_le_le_bytes)
  have "get32 ?y (off + 12 + 4 * k) = i_addrs n k" if "k \<le> NDIRECT" for k
    using f [of "12 + 4 * k" 4] dinode_fields(6) [OF that, of n] that assms
    by (simp add: get32_def of_le_le_bytes add.assoc)
  then have "(\<lambda>k. if k \<le> NDIRECT then get32 ?y (off + 12 + 4 * k) else i_addrs m k) =
      (\<lambda>k. if k \<le> NDIRECT then i_addrs n k else i_addrs m k)" by auto
  then show ?thesis by (simp only: load_dinode_def with_dinode_def g)
qed

section \<open>iupdate and ilock\<close>

abbreviation (input) lock_inode :: "nat \<Rightarrow> nat \<Rightarrow> 'x fs_state_scheme \<Rightarrow> 'x fs_state_scheme" where
  "lock_inode ip p s \<equiv> s\<lparr>slocks := (slocks s)(SL_inode ip := \<lparr>sl_locked = True, sl_pid = p_pid (procs s p)\<rparr>)\<rparr>"

lemma op_inv_inodes [simp]:
  fixes s :: "'x fs_state_scheme"
  shows "op_inv d p k (s\<lparr>inodes := I\<rparr>) = op_inv d p k s" "view d (s\<lparr>inodes := I\<rparr>) = view d s"
    "outside (s\<lparr>inodes := I\<rparr>) = outside s"
    "op_inv d p k (s\<lparr>slocks := (slocks s)(SL_inode i := x)\<rparr>) = op_inv d p k s"
    "view d (s\<lparr>slocks := S\<rparr>) = view d s"
    "op_inv d p k (s\<lparr>mem := m\<rparr>) = op_inv d p k s" "view d (s\<lparr>mem := m\<rparr>) = view d s"
    "op_inv d p k (s\<lparr>freelist := f\<rparr>) = op_inv d p k s" "view d (s\<lparr>freelist := f\<rparr>) = view d s"
  by (simp_all add: op_inv_def cache_def quiet_def txn_def homes_def log_geom_def outside_def hdr_bn_def log_bn_def
      view_def fun_eq_iff)

lemma dinode_off_le: "dinode_off inum + 64 \<le> BSIZE"
proof -
  have "unat (inum mod 16) < 16" using word_mod_less_divisor [of 16 inum] by (simp add: word_less_nat_alt)
  then show ?thesis by (simp add: dinode_off_def)
qed

lemma op_inv_quiet: "op_inv d p k s \<Longrightarrow> held s = {} \<and> cur s = Some p"
  by (auto simp: op_inv_def cache_def quiet_def)

lemma opened_inodes:
  fixes s t :: "'x fs_state_scheme"
  assumes "opened d p k bn s b t"
  shows "opened d p k bn (s\<lparr>inodes := I\<rparr>) b (t\<lparr>inodes := I\<rparr>)"
proof -
  have fr: "log_frame s t" by (rule openedD(3) [OF assms])
  then have "t\<lparr>inodes := I\<rparr> = s\<lparr>slocks := slocks t, bufs := bufs t, vq := vq t, disk_img := disk_img t,
      disk_log := disk_log t, lh_n := lh_n t, lh_block := lh_block t\<rparr>\<lparr>inodes := I\<rparr>"
    unfolding log_frame_def by (elim conjE) (rule arg_cong)
  moreover have "\<forall>i. slocks t (SL_inode i) = slocks s (SL_inode i)" using fr unfolding log_frame_def by blast
  ultimately have "log_frame (s\<lparr>inodes := I\<rparr>) (t\<lparr>inodes := I\<rparr>)" by (simp add: log_frame_def)
  moreover have "cache d p L P (t\<lparr>inodes := I\<rparr>) = cache d p L P t" "txn d P (t\<lparr>inodes := I\<rparr>) = txn d P t" for L P
    by (simp_all add: cache_def quiet_def txn_def homes_def log_geom_def outside_def hdr_bn_def log_bn_def)
  ultimately show ?thesis using assms by (simp add: opened_def)
qed

lemma wp_iunlock:
  assumes op: "op_inv d p k s" and ref: "1 \<le> i_ref (inodes s ip)"
    and lk: "sl_locked (slocks s (SL_inode ip))" "sl_pid (slocks s (SL_inode ip)) = p_pid (procs s p)"
  shows "wp env (iunlock ip) Q s = Q () (s\<lparr>slocks := (slocks s)(SL_inode ip := \<lparr>sl_locked = False, sl_pid = 0\<rparr>)\<rparr>)"
proof -
  have q: "held s = {}" "cur s = Some p" and "quiet p s" using op by (auto simp: op_inv_def cache_def quiet_def)
  then have "wake (Ch_sleeplock (SL_inode ip)) (Some p) (procs s) = procs s"
    by (intro wake_quiet) (auto simp: quiet_def storage_chan_def)
  moreover have "s\<lparr>slocks := S, procs := procs s\<rparr> = s\<lparr>slocks := S\<rparr>" for S by simp
  ultimately show ?thesis
    using q ref lk by (simp add: iunlock_def wp_bind wp_holdingsleep wp_seq wp_panic_if wp_releasesleep no_proc_lock_def)
qed

context fs_disk
begin

lemma wp_iupdate:
  assumes op: "op_inv d p (Suc k) s" and dev: "i_dev (inodes s ip) = d"
    and out: "outside s (IBLOCK (i_inum (inodes s ip)) (sb s))"
  defines "ib \<equiv> IBLOCK (i_inum (inodes s ip)) (sb s)"
  assumes Q: "\<And>t. op_inv d p k t \<Longrightarrow> view d t = (view d s)(ib :=
      splice (view d s ib) (dinode_off (i_inum (inodes s ip))) (dinode_bytes (inodes s ip))) \<Longrightarrow> log_frame s t \<Longrightarrow> Q () t"
  shows "wp env (iupdate ip) Q s"
proof -
  have bn: "ib < 2 ^ 31" using out by (simp add: outside_def ib_def)
  let ?n = "inodes s ip"
  have "wp env (bread d ib) (\<lambda>bp. wp env (data_of bp) (\<lambda>x. wp env (bindM (inode_at ip) (\<lambda>n. doM [
       set_data bp (splice x (dinode_off (i_inum n)) (dinode_bytes n)), log_write bp, brelse bp])) Q)) s"
  proof (rule wp_open [OF op bn])
    fix bp t
    assume o: "opened d p (Suc k) ib s bp t"
    note od = openedD [OF o]
    have "inodes t = inodes s" by (rule log_frame_fs(2) [OF od(3)])
    moreover have "length (splice (view d s ib) (dinode_off (i_inum ?n)) (dinode_bytes ?n)) = BSIZE"
      using od(4) dinode_off_le [of "i_inum ?n"] by (subst length_splice) simp_all
    ultimately show "wp env (data_of bp) (\<lambda>x. wp env (bindM (inode_at ip) (\<lambda>n. doM [
       set_data bp (splice x (dinode_off (i_inum n)) (dinode_bytes n)), log_write bp, brelse bp])) Q) t"
      using wp_change [OF o, of "splice (view d s ib) (dinode_off (i_inum ?n)) (dinode_bytes ?n)" "\<lambda>_. Q ()" env]
        out Q unfolding ib_def by (simp add: wp_data_of od(1) [unfolded ib_def] wp_bind inode_at_def wp_get wp_doM_Cons wp_doM_Nil)
  qed
  then show ?thesis by (simp add: iupdate_def wp_bind inode_at_def wp_get ib_def dev)
qed

lemma wp_ilock_load:
  assumes op: "op_inv d p k s" and ref: "1 \<le> i_ref (inodes s ip)" and free: "\<not> sl_locked (slocks s (SL_inode ip))"
    and inv: "\<not> i_valid (inodes s ip)" and dev: "i_dev (inodes s ip) = d"
  defines "ib \<equiv> IBLOCK (i_inum (inodes s ip)) (sb s)" and "off \<equiv> dinode_off (i_inum (inodes s ip))"
  assumes bn: "ib < 2 ^ 31" and ty: "get16 (view d s ib) off \<noteq> 0"
    and Q: "\<And>t. op_inv d p k t \<Longrightarrow> view d t = view d s \<Longrightarrow> sl_locked (slocks t (SL_inode ip)) \<Longrightarrow> sb t = sb s \<Longrightarrow>
      inodes t = (inodes s)(ip := (load_dinode (view d s ib) off (inodes s ip))\<lparr>i_valid := True\<rparr>) \<Longrightarrow> Q () t"
  shows "wp env (ilock ip) Q s"
proof -
  let ?s = "lock_inode ip p s"
  have q: "held s = {}" "cur s = Some p" using op_inv_quiet [OF op] by auto
  have op1: "op_inv d p k ?s" using op by simp
  have "wp env (bread d ib) (\<lambda>bp. wp env (data_of bp) (\<lambda>x. wp env (doM [
          upd_inode ip (load_dinode x off),
          brelse bp,
          upd_inode ip (i_valid_update (\<lambda>_. True)),
          panic_ifM (\<lambda>s. i_type (inodes s ip) = 0) ''ilock: no type'']) Q)) ?s"
  proof (rule wp_open [OF op1 bn])
    fix bp t
    assume o: "opened d p k ib ?s bp t"
    note od = openedD [OF o]
    let ?n = "load_dinode (view d s ib) off (inodes s ip)"
    let ?I = "(inodes s)(ip := ?n)"
    have ino: "inodes t = inodes s" and vs: "view d ?s = view d s" using log_frame_fs(2) [OF od(3)] by simp_all
    have "wp env (brelse bp) (\<lambda>_ u. i_type (inodes u ip) \<noteq> 0 \<and>
        Q () (u\<lparr>inodes := (inodes u)(ip := (inodes u ip)\<lparr>i_valid := True\<rparr>)\<rparr>)) (t\<lparr>inodes := ?I\<rparr>)"
    proof (rule wp_close [OF opened_inodes [OF o]])
      fix u
      assume u: "op_inv d p k u" "view d u = view d (?s\<lparr>inodes := ?I\<rparr>)" "log_frame (?s\<lparr>inodes := ?I\<rparr>) u"
      note fu = log_frame_fs [OF u(3)]
      have lk: "sl_locked (slocks u (SL_inode ip))"
        using u(3) by (simp add: log_frame_def)
      show "i_type (inodes u ip) \<noteq> 0 \<and> Q () (u\<lparr>inodes := (inodes u)(ip := (inodes u ip)\<lparr>i_valid := True\<rparr>)\<rparr>)"
        using ty u fu lk by (auto simp: load_dinode_def intro!: Q)
    qed
    then show "wp env (data_of bp) (\<lambda>x. wp env (doM [
          upd_inode ip (load_dinode x off),
          brelse bp,
          upd_inode ip (i_valid_update (\<lambda>_. True)),
          panic_ifM (\<lambda>s. i_type (inodes s ip) = 0) ''ilock: no type'']) Q) t"
      by (simp add: wp_data_of od(1) vs wp_doM_Cons wp_doM_Nil upd_inode_def wp_mod ino)
        (erule wp_conseq, auto simp: wp_simps)
  qed
  then show ?thesis
    using ref inv free q by (simp add: ilock_def wp_simps wp_acquiresleep_free dev inode_at_def ib_def off_def)
qed

end

text \<open>
  C14. An inode survives its eviction: the fields \<open>iupdate\<close> writes (type, device numbers, link
  count, size and block addresses) are those a later \<open>ilock\<close> reads back from the disk block,
  once the cached copy is no longer valid; all of it returns without a panic.
\<close>

theorem inode_persists:
  assumes "virtio_device dev" "op_inv d p (Suc k) s" "i_dev (inodes s ip) = d"
    and "outside s (IBLOCK (i_inum (inodes s ip)) (sb s))" "1 \<le> i_ref (inodes s ip)" "i_type (inodes s ip) \<noteq> 0"
    and "sl_locked (slocks s (SL_inode ip))" "sl_pid (slocks s (SL_inode ip)) = p_pid (procs s p)"
  shows "\<exists>t. doM [iupdate ip, iunlock ip, upd_inode ip (\<lambda>_. (inodes s ip)\<lparr>i_valid := False, i_type := 0,
        i_major := 0, i_minor := 0, i_nlink := 0, i_size := 0, i_addrs := a\<rparr>), ilock ip] (irq_env dev) s = Done () t \<and>
    inodes t ip = with_dinode (inodes s ip) ((inodes s ip)\<lparr>i_valid := True, i_addrs := a\<rparr>) \<and> op_inv d p k t"
proof -
  note fs = fs_disk_irq [OF assms(1)]
  let ?n = "inodes s ip" and ?ib = "IBLOCK (i_inum (inodes s ip)) (sb s)" and ?off = "dinode_off (i_inum (inodes s ip))"
  let ?m = "?n\<lparr>i_valid := False, i_type := 0, i_major := 0, i_minor := 0, i_nlink := 0, i_size := 0, i_addrs := a\<rparr>"
  obtain P where c: "cache d p {} P s" using assms(2) by (auto simp: op_inv_def)
  have "load_dinode (splice (view d s ?ib) ?off (dinode_bytes ?n)) ?off ?m = with_dinode ?n ?m"
    using view_length [OF c] dinode_off_le by (intro load_dinode_splice) simp
  moreover have "(with_dinode ?n ?m)\<lparr>i_valid := True\<rparr> = with_dinode ?n (?n\<lparr>i_valid := True, i_addrs := a\<rparr>)"
    by (simp add: with_dinode_def cong: if_cong)
  ultimately have read: "(load_dinode (splice (view d s ?ib) ?off (dinode_bytes ?n)) ?off ?m)\<lparr>i_valid := True\<rparr> =
      with_dinode ?n (?n\<lparr>i_valid := True, i_addrs := a\<rparr>)" by simp
  have "wp (irq_env dev) (iupdate ip) (\<lambda>_. wp (irq_env dev) (iunlock ip) (\<lambda>_. wp (irq_env dev) (upd_inode ip (\<lambda>_. ?m)) (\<lambda>_.
      wp (irq_env dev) (ilock ip) (\<lambda>_ t. inodes t ip = with_dinode ?n (?n\<lparr>i_valid := True, i_addrs := a\<rparr>) \<and> op_inv d p k t)))) s"
  proof (rule fs_disk.wp_iupdate [OF fs assms(2-4)])
    fix t
    assume t: "op_inv d p k t" "view d t = (view d s)(?ib := splice (view d s ?ib) ?off (dinode_bytes ?n))" "log_frame s t"
    note ft = log_frame_fs [OF t(3)] log_frame_sel [OF t(3)]
    have lk: "slocks t (SL_inode ip) = slocks s (SL_inode ip)" using t(3) unfolding log_frame_def by blast
    let ?t = "t\<lparr>slocks := (slocks t)(SL_inode ip := \<lparr>sl_locked = False, sl_pid = 0\<rparr>), inodes := (inodes s)(ip := ?m)\<rparr>"
    have "wp (irq_env dev) (ilock ip) (\<lambda>_ t. inodes t ip = with_dinode ?n (?n\<lparr>i_valid := True, i_addrs := a\<rparr>) \<and> op_inv d p k t) ?t"
    proof (rule fs_disk.wp_ilock_load [OF fs])
      show "op_inv d p k ?t" using t(1) by simp
      show "IBLOCK (i_inum (inodes ?t ip)) (sb ?t) < 2 ^ 31" using assms(4) by (simp add: ft outside_def)
      show "get16 (view d ?t (IBLOCK (i_inum (inodes ?t ip)) (sb ?t))) (dinode_off (i_inum (inodes ?t ip))) \<noteq> 0"
        using arg_cong [OF read, of i_type] assms(6) by (simp add: ft t(2) load_dinode_def with_dinode_def)
    qed (use assms(3,5) read in \<open>simp_all add: ft t(2)\<close>)
    then show "wp (irq_env dev) (iunlock ip) (\<lambda>_. wp (irq_env dev) (upd_inode ip (\<lambda>_. ?m)) (\<lambda>_.
      wp (irq_env dev) (ilock ip) (\<lambda>_ t. inodes t ip = with_dinode ?n (?n\<lparr>i_valid := True, i_addrs := a\<rparr>) \<and> op_inv d p k t))) t"
      using assms(5,7,8) by (simp add: wp_iunlock [OF t(1)] ft lk upd_inode_def wp_mod)
  qed
  then have "wp (irq_env dev) (doM [iupdate ip, iunlock ip, upd_inode ip (\<lambda>_. ?m), ilock ip])
      (\<lambda>_ t. inodes t ip = with_dinode ?n (?n\<lparr>i_valid := True, i_addrs := a\<rparr>) \<and> op_inv d p k t) s"
    by (simp only: wp_doM_Cons wp_doM_Nil)
  then show ?thesis by (simp add: wp_iff)
qed

theorem inode_persists_witness:
  "\<exists>t. doM [iupdate 3, iunlock 3, upd_inode 3 (\<lambda>_. demo_inode\<lparr>i_valid := False, i_type := 0, i_major := 0,
        i_minor := 0, i_nlink := 0, i_size := 0, i_addrs := (\<lambda>_. 0)\<rparr>), ilock 3] (irq_env complete_request)
      (lock_inode 3 0 demo_fs) = Done () t \<and> inodes t 3 = demo_inode"
proof -
  let ?s = "lock_inode 3 0 demo_fs"
  have "outside demo_fs 32" using outside_above [of 1 demo_fs 32] by (simp add: demo_fs_geom demo_fs_sel)
  then have out: "outside ?s (IBLOCK (i_inum (inodes ?s 3)) (sb ?s))"
    by (simp add: demo_fs_sel demo_inode_def demo_sb_def IBLOCK_def outside_def hdr_bn_def log_bn_def)
  have "with_dinode demo_inode (demo_inode\<lparr>i_valid := True, i_addrs := (\<lambda>_. 0)\<rparr>) = demo_inode"
    by (auto simp: with_dinode_def demo_inode_def)
  then show ?thesis
    using inode_persists [OF virtio_device_complete_request _ _ out, of 1 0 0 "\<lambda>_. 0"] demo_fs_op [of "Suc 0"]
    by (force simp: demo_fs_sel demo_inode_def)
qed

section \<open>Reading a file\<close>

text \<open>
  The disk block of a file's block \<open>k\<close>: direct, or through the indirect block; and the bytes of a
  file, by the blocks as the cache shows them.
\<close>

definition file_addr :: "u32 \<Rightarrow> 'x fs_state_scheme \<Rightarrow> inode \<Rightarrow> nat \<Rightarrow> u32" where
  "file_addr d s n k = (if k < NDIRECT then i_addrs n k else get32 (view d s (i_addrs n NDIRECT)) (4 * (k - NDIRECT)))"

definition file_blocks :: "inode \<Rightarrow> nat" where
  "file_blocks n = (unat (i_size n) + (BSIZE - 1)) div BSIZE"

definition file_bytes :: "u32 \<Rightarrow> 'x fs_state_scheme \<Rightarrow> inode \<Rightarrow> u8 list" where
  "file_bytes d s n = take (unat (i_size n)) (concat (map (\<lambda>k. view d s (file_addr d s n k)) [0..<file_blocks n]))"

text \<open>A file all of whose blocks are allocated.\<close>

definition allocated :: "u32 \<Rightarrow> 'x fs_state_scheme \<Rightarrow> inode \<Rightarrow> bool" where
  "allocated d s n \<longleftrightarrow> i_dev n = d \<and> unat (i_size n) \<le> MAXFILE * BSIZE \<and>
     (\<forall>k < file_blocks n. file_addr d s n k \<noteq> 0 \<and> file_addr d s n k < 2 ^ 31) \<and>
     (file_blocks n > NDIRECT \<longrightarrow> i_addrs n NDIRECT \<noteq> 0 \<and> i_addrs n NDIRECT < 2 ^ 31)"

lemma drop_concat:
  assumes "\<And>k. k < m \<Longrightarrow> length (f k) = n" "k < m"
  shows "drop (n * k) (concat (map f [0..<m])) = concat (map f [k..<m])"
proof -
  have "[0..<m] = [0..<k] @ [k..<m]" using assms(2) upt_add_eq_append [of 0 k "m - k"] by simp
  moreover have "length (concat (map f [0..<k])) = n * k" using assms by (intro length_concat_const) simp
  ultimately show ?thesis by simp
qed

lemma take_drop_blocks:
  assumes len: "\<And>k. k < m \<Longrightarrow> length (f k) = BSIZE" and k: "x div BSIZE < m" and j: "x mod BSIZE + j \<le> BSIZE"
  shows "take j (drop x (concat (map f [0..<m]))) = take j (drop (x mod BSIZE) (f (x div BSIZE)))"
proof -
  let ?k = "x div BSIZE"
  have "drop x (concat (map f [0..<m])) = drop (x mod BSIZE) (drop (BSIZE * ?k) (concat (map f [0..<m])))"
    by (simp add: add.commute)
  also have "\<dots> = drop (x mod BSIZE) (f ?k @ concat (map f [Suc ?k..<m]))"
    using drop_concat [of m f BSIZE ?k, OF len k] k by (simp add: upt_conv_Cons)
  finally show ?thesis using len [OF k] j by simp
qed

lemma allocated_cong: "view d t = view d s \<Longrightarrow> allocated d t n = allocated d s n"
  by (simp add: allocated_def file_addr_def cong: if_cong)

lemma file_bytes_cong: "view d t = view d s \<Longrightarrow> file_bytes d t n = file_bytes d s n"
  by (simp add: file_bytes_def file_addr_def cong: if_cong)

lemma file_piece:
  assumes c: "cache d p L P s" and x: "x mod BSIZE + j \<le> BSIZE" "x + j \<le> unat (i_size n)" "x < unat (i_size n)"
  shows "take j (drop x (file_bytes d s n)) =
    take j (drop (x mod BSIZE) (view d s (file_addr d s n (x div BSIZE))))"
proof -
  have "x div BSIZE < file_blocks n"
    using x(3) unfolding file_blocks_def by (simp add: less_eq_div_iff_mult_less_eq div_less_iff_less_mult)
  then have "take j (drop x (concat (map (\<lambda>k. view d s (file_addr d s n k)) [0..<file_blocks n]))) =
      take j (drop (x mod BSIZE) (view d s (file_addr d s n (x div BSIZE))))"
    using view_length [OF c] x(1) by (intro take_drop_blocks)
  moreover have "min j (unat (i_size n) - x) = j" using x(2) by simp
  ultimately show ?thesis by (simp only: file_bytes_def drop_take take_take)
qed

text \<open>The length of the piece one round of \<open>readi\<close> copies.\<close>

lemma unat_piece:
  fixes n tot off :: u32
  assumes "tot < n"
  shows "unat (min (n - tot) (1024 - off mod 1024)) = min (unat n - unat tot) (1024 - unat off mod 1024)"
proof -
  have m: "unat (off mod 1024) = unat off mod 1024" by (simp add: unat_mod)
  have "off mod 1024 \<le> 1024" unfolding word_le_nat_alt m by simp
  then have "unat (1024 - off mod 1024) = 1024 - unat off mod 1024" by (simp add: unat_sub m)
  moreover have "unat (n - tot) = unat n - unat tot" using assms by (simp add: unat_sub)
  ultimately show ?thesis by (simp add: min_def word_le_nat_alt)
qed

lemma file_addr_cong: "view d t = view d s \<Longrightarrow> file_addr d t n k = file_addr d s n k"
  by (simp add: file_addr_def)

lemma file_blocks_bound: "x < unat (i_size n) \<Longrightarrow> x div BSIZE < file_blocks n"
  unfolding file_blocks_def by (simp add: less_eq_div_iff_mult_less_eq div_less_iff_less_mult)

lemma length_file_bytes:
  assumes "cache d p L P s"
  shows "length (file_bytes d s n) = unat (i_size n)"
proof -
  have "length (concat (map (\<lambda>k. view d s (file_addr d s n k)) [0..<file_blocks n])) = BSIZE * file_blocks n"
    by (rule length_concat_const) (rule view_length [OF assms])
  moreover have "unat (i_size n) \<le> BSIZE * file_blocks n" by (simp add: file_blocks_def)
  ultimately show ?thesis by (simp add: file_bytes_def)
qed

text \<open>What a copy to a kernel destination leaves in memory.\<close>

definition kernel_dst :: "dest \<Rightarrow> bool" where
  "kernel_dst dst \<longleftrightarrow> (\<forall>a. dst \<noteq> To_user a)"

definition dst_mem :: "dest \<Rightarrow> u64 \<Rightarrow> u8 list \<Rightarrow> memory \<Rightarrow> memory" where
  "dst_mem dst off bs m = (case dst of To_page a \<Rightarrow> store_bytes m (a + off) bs | _ \<Rightarrow> m)"

lemma wp_either_copyout_kernel:
  "kernel_dst dst \<Longrightarrow> wp env (either_copyout dst off bs) Q s = Q True (s\<lparr>mem := dst_mem dst off bs (mem s)\<rparr>)"
  by (cases dst) (simp_all add: kernel_dst_def dst_mem_def either_copyout_def wp_simps)

lemma store_bytes_append:
  assumes "length xs + length ys \<le> 2 ^ 64"
  shows "store_bytes (store_bytes m a xs) (a + of_nat (length xs)) ys = store_bytes m a (xs @ ys)"
proof
  fix x
  let ?j = "unat (x - a)"
  show "store_bytes (store_bytes m a xs) (a + of_nat (length xs)) ys x = store_bytes m a (xs @ ys) x"
  proof (cases "?j < length xs")
    case True
    have "\<not> unat (x - (a + of_nat (length xs))) < length ys"
    proof
      assume "unat (x - (a + of_nat (length xs))) < length ys"
      then obtain i where i: "i < length ys" "x = a + of_nat (length xs) + of_nat i"
        using unat_diff_lt_iff [of "length ys"] assms by auto
      then have "x - a = of_nat (length xs + i)" by simp
      then have "?j = length xs + i" using i(1) assms
        by (simp only: unat_of_nat) (simp add: take_bit_nat_eq_self_iff)
      then show False using True by simp
    qed
    then show ?thesis using True by (simp add: store_bytes_def nth_append)
  next
    case False
    have l: "unat (of_nat (length xs) :: u64) = length xs"
      using False unat_u64 [of "x - a"] by (simp add: unat_of_nat take_bit_nat_eq_self_iff)
    then have "unat (x - a - of_nat (length xs)) = ?j - length xs"
      using False by (subst unat_sub) (simp_all add: word_le_nat_alt)
    then have "unat (x - (a + of_nat (length xs))) = ?j - length xs" by (simp add: algebra_simps)
    then show ?thesis using False by (auto simp: store_bytes_def nth_append)
  qed
qed

lemma dst_mem_Nil [simp]: "dst_mem dst 0 [] m = m"
  by (cases dst) (simp_all add: dst_mem_def store_bytes_def)

lemma dst_mem_append:
  assumes "length xs + length ys \<le> 2 ^ 64"
  shows "dst_mem dst (of_nat (length xs)) ys (dst_mem dst 0 xs m) = dst_mem dst 0 (xs @ ys) m"
  using store_bytes_append [OF assms] by (cases dst) (simp_all add: dst_mem_def)

lemma cache_mem [simp]:
  "cache d p L P (s\<lparr>mem := m\<rparr>) = cache d p L P s" "txn d P (s'\<lparr>mem := m\<rparr>) = txn d P s'"
  "view d (s\<lparr>mem := m\<rparr>) = view d s"
  by (simp_all add: cache_def quiet_def txn_def homes_def log_geom_def outside_def hdr_bn_def log_bn_def view_def)

lemma log_frame_kmem:
  assumes "log_frame s t"
  shows "mem t = mem s" "freelist t = freelist s" "kernel_end t = kernel_end s"
proof -
  have eq: "t = s\<lparr>slocks := slocks t, bufs := bufs t, vq := vq t, disk_img := disk_img t,
     disk_log := disk_log t, lh_n := lh_n t, lh_block := lh_block t\<rparr>"
    using assms unfolding log_frame_def by blast
  show "mem t = mem s" "freelist t = freelist s" "kernel_end t = kernel_end s" by (subst eq, simp)+
qed

lemma log_frame_mem: "log_frame s t \<Longrightarrow> log_frame (s\<lparr>mem := m\<rparr>) (t\<lparr>mem := m\<rparr>)"
  unfolding log_frame_def by (cases s, cases t) simp

lemma opened_mem:
  assumes "opened d p k bn s b t"
  shows "opened d p k bn (s\<lparr>mem := m\<rparr>) b (t\<lparr>mem := m\<rparr>)"
  using assms log_frame_mem [of s t m] by (simp add: opened_def)

text \<open>The state after the bytes \<open>x\<close> have been read from \<open>s\<close>.\<close>

definition has_read :: "dest \<Rightarrow> u32 \<Rightarrow> nat \<Rightarrow> nat \<Rightarrow> 'x fs_state_scheme \<Rightarrow> u8 list \<Rightarrow> 'x fs_state_scheme \<Rightarrow> bool" where
  "has_read dst d p k s x u \<longleftrightarrow> op_inv d p k u \<and> view d u = view d s \<and>
     log_frame (s\<lparr>mem := dst_mem dst 0 x (mem s)\<rparr>) u"

lemma has_read_more:
  assumes "has_read dst d p k s x u" "op_inv d p k w" "view d w = view d u"
    "log_frame (u\<lparr>mem := dst_mem dst (of_nat (length x)) y (mem u)\<rparr>) w" "length x + length y \<le> 2 ^ 64"
  shows "has_read dst d p k s (x @ y) w"
proof -
  have u: "view d u = view d s" "log_frame (s\<lparr>mem := dst_mem dst 0 x (mem s)\<rparr>) u"
    using assms(1) by (simp_all add: has_read_def)
  let ?M = "dst_mem dst 0 (x @ y) (mem s)"
  have "mem u = dst_mem dst 0 x (mem s)" using log_frame_kmem(1) [OF u(2)] by simp
  then have "log_frame (u\<lparr>mem := ?M\<rparr>) w" using assms(4) by (simp add: dst_mem_append [OF assms(5)])
  moreover have "log_frame (s\<lparr>mem := ?M\<rparr>) (u\<lparr>mem := ?M\<rparr>)"
    using log_frame_mem [OF u(2), of ?M] by simp
  ultimately have "log_frame (s\<lparr>mem := ?M\<rparr>) w" by (rule log_frame_trans [rotated])
  then show ?thesis using assms(2,3) u(1) by (simp add: has_read_def)
qed

context fs_disk
begin

text \<open>On an allocated block \<open>bmap\<close> only looks the address up.\<close>

lemma wp_bmap:
  assumes op: "op_inv d p k s" and dev: "i_dev (inodes s ip) = d" and bn: "unat bn < MAXFILE"
    and addr: "file_addr d s (inodes s ip) (unat bn) \<noteq> 0"
    and ind: "NDIRECT \<le> unat bn \<Longrightarrow> i_addrs (inodes s ip) NDIRECT \<noteq> 0 \<and> i_addrs (inodes s ip) NDIRECT < 2 ^ 31"
    and Q: "\<And>t. op_inv d p k t \<Longrightarrow> view d t = view d s \<Longrightarrow> log_frame s t \<Longrightarrow>
      Q (file_addr d s (inodes s ip) (unat bn)) t"
  shows "wp env (bmap ip bn) Q s"
proof (cases "unat bn < NDIRECT")
  case True
  then show ?thesis
    using addr Q [OF op refl log_frame_refl]
    by (simp add: bmap_def addr_or_alloc_def inode_at_def wp_simps file_addr_def)
next
  case False
  let ?ind = "i_addrs (inodes s ip) NDIRECT" and ?j = "unat bn - NDIRECT"
  have j: "unat (bn - of_nat NDIRECT) = ?j" using False by (subst unat_sub) (simp_all add: word_le_nat_alt)
  have jl: "?j < NINDIRECT" using bn False by linarith
  have fa: "file_addr d s (inodes s ip) (unat bn) = get32 (view d s ?ind) (4 * ?j)"
    using False by (simp add: file_addr_def)
  have i: "?ind \<noteq> 0" "?ind < 2 ^ 31" using ind False by auto
  have "wp env (bread d ?ind) (\<lambda>bp. wp env (data_of bp) (\<lambda>x. wp env (bindM (if get32 x (4 * ?j) = 0 then
              bindM (balloc d) (\<lambda>a.
              bindM (data_of bp) (\<lambda>y.
              seqM (set_data bp (put32 y (4 * ?j) a))
             (seqM (log_write bp)
             (retM a))))
            else retM (get32 x (4 * ?j))) (\<lambda>addr. seqM (brelse bp) (retM addr))) Q)) s"
  proof (rule wp_open [OF op i(2)])
    fix bp t
    assume o: "opened d p k ?ind s bp t"
    note od = openedD [OF o]
    have "wp env (brelse bp) (\<lambda>_. Q (get32 (view d s ?ind) (4 * ?j))) t"
      by (rule wp_close [OF o]) (use Q fa in simp)
    then show "wp env (data_of bp) (\<lambda>x. wp env (bindM (if get32 x (4 * ?j) = 0 then
              bindM (balloc d) (\<lambda>a.
              bindM (data_of bp) (\<lambda>y.
              seqM (set_data bp (put32 y (4 * ?j) a))
             (seqM (log_write bp)
             (retM a))))
            else retM (get32 x (4 * ?j))) (\<lambda>addr. seqM (brelse bp) (retM addr))) Q) t"
      using addr fa by (simp add: wp_data_of od(1) wp_bind wp_ret wp_seq)
  qed
  then show ?thesis
    using False j i(1) jl by (simp add: bmap_def addr_or_alloc_def inode_at_def wp_simps Let_def dev cong: if_cong)
qed

lemma wp_readi_body:
  assumes op: "op_inv d p k u" and al: "allocated d u (inodes u ip)" and tot: "tot < n"
    and off: "unat off < unat (i_size (inodes u ip))" and kd: "kernel_dst dst"
  defines "m \<equiv> min (n - tot) (1024 - off mod 1024)"
  defines "bytes \<equiv> take (unat m) (drop (unat off mod BSIZE) (view d u (file_addr d u (inodes u ip) (unat off div BSIZE))))"
  assumes Q: "\<And>w. op_inv d p k w \<Longrightarrow> view d w = view d u \<Longrightarrow>
    log_frame (u\<lparr>mem := dst_mem dst (ucast tot) bytes (mem u)\<rparr>) w \<Longrightarrow> Q (Inl (tot + m, off + m, out @ bytes)) w"
  shows "wp env (readi_body ip dst n (tot, off, out)) Q u"
proof -
  let ?n = "inodes u ip" and ?copy = "\<lambda>x. either_copyout dst (ucast tot) (take (unat m) (drop (unat off mod BSIZE) x))"
  have bn: "unat (off div 1024) = unat off div BSIZE" by (simp add: unat_div)
  have kb: "unat off div BSIZE < file_blocks ?n" by (rule file_blocks_bound [OF off])
  then have a: "file_addr d u ?n (unat off div BSIZE) \<noteq> 0" "file_addr d u ?n (unat off div BSIZE) < 2 ^ 31"
    and ind: "NDIRECT \<le> unat off div BSIZE \<Longrightarrow> i_addrs ?n NDIRECT \<noteq> 0 \<and> i_addrs ?n NDIRECT < 2 ^ 31"
    and dev: "i_dev ?n = d"
    using al by (auto simp: allocated_def)
  have max: "unat off div BSIZE < MAXFILE" using off al by (simp add: allocated_def less_mult_imp_div_less)
  let ?fin = "\<lambda>bp x ok. bindM (brelse bp) (\<lambda>_. if ok then
       retM (Inl (tot + m, off + m, out @ take (unat m) (drop (unat off mod BSIZE) x))) else retM (Inr (- 1, out)))"
  have "wp env (bmap ip (off div 1024)) (\<lambda>addr. wp env (inode_at ip) (\<lambda>v. wp env (bread (i_dev v) addr) (\<lambda>bp.
      wp env (data_of bp) (\<lambda>x. wp env (?copy x) (\<lambda>ok. wp env (?fin bp x ok) Q))))) u"
  proof (rule wp_bmap [OF op dev], unfold bn)
    fix t
    assume t: "op_inv d p k t" "view d t = view d u" "log_frame u t"
    have ino: "inodes t = inodes u" by (rule log_frame_fs(2) [OF t(3)])
    have "wp env (bread d (file_addr d u ?n (unat off div BSIZE))) (\<lambda>bp. wp env (data_of bp) (\<lambda>x.
       wp env (?copy x) (\<lambda>ok. wp env (?fin bp x ok) Q))) t"
    proof (rule wp_open [OF t(1) a(2)])
      fix bp w
      assume o: "opened d p k (file_addr d u ?n (unat off div BSIZE)) t bp w"
      note od = openedD [OF o]
      let ?M = "dst_mem dst (ucast tot) bytes (mem u)"
      have "mem w = mem u" using log_frame_kmem(1) [OF od(3)] log_frame_kmem(1) [OF t(3)] by simp
      moreover have "wp env (brelse bp) (\<lambda>_. Q (Inl (tot + m, off + m, out @ bytes))) (w\<lparr>mem := ?M\<rparr>)"
        by (rule wp_close [OF opened_mem [OF o]])
          (use Q t(2) log_frame_trans [OF log_frame_mem [OF t(3)]] in simp)
      ultimately show "wp env (data_of bp) (\<lambda>x. wp env (?copy x) (\<lambda>ok. wp env (?fin bp x ok) Q)) w"
        by (simp add: wp_data_of od(1) t(2) wp_either_copyout_kernel [OF kd] wp_simps bytes_def)
    qed
    then show "wp env (inode_at ip) (\<lambda>v. wp env (bread (i_dev v) (file_addr d u ?n (unat off div BSIZE))) (\<lambda>bp.
      wp env (data_of bp) (\<lambda>x. wp env (?copy x) (\<lambda>ok. wp env (?fin bp x ok) Q)))) t"
      by (simp add: wp_simps inode_at_def ino dev)
  qed (use a ind max in auto)
  then show ?thesis using tot by (simp add: readi_body_def wp_bind wp_seq Let_def m_def unat_mod cong: if_cong)
qed

lemma wp_readi_loop:
  assumes op: "op_inv d p k s" and al: "allocated d s (inodes s ip)" and kd: "kernel_dst dst"
    and fits: "unat off + unat n \<le> unat (i_size (inodes s ip))"
  defines "F \<equiv> file_bytes d s (inodes s ip)"
  shows "wp env (loopM (readi_body ip dst n) (0, off, [])) (\<lambda>x t. case x of (r, out) \<Rightarrow> r = n \<and>
    out = take (unat n) (drop (unat off) F) \<and> has_read dst d p k s out t) s"
proof (rule wp_loop [where I = "\<lambda>j u. case j of (tot, off', out) \<Rightarrow> unat tot \<le> unat n \<and> unat off' = unat off + unat tot \<and>
      out = take (unat tot) (drop (unat off) F) \<and> has_read dst d p k s out u"
    and \<mu> = "\<lambda>j _. case j of (tot, _) \<Rightarrow> unat n - unat tot"])
  fix j :: "u32 \<times> u32 \<times> u8 list" and u
  assume "case j of (tot, off', out) \<Rightarrow> unat tot \<le> unat n \<and> unat off' = unat off + unat tot \<and>
      out = take (unat tot) (drop (unat off) F) \<and> has_read dst d p k s out u"
  then obtain tot off' out where j: "j = (tot, off', out)" and T: "unat tot \<le> unat n" "unat off' = unat off + unat tot"
      "out = take (unat tot) (drop (unat off) F)" and hr: "has_read dst d p k s out u" by (cases j) auto
  have u: "op_inv d p k u" "view d u = view d s" and lf: "log_frame (s\<lparr>mem := dst_mem dst 0 out (mem s)\<rparr>) u"
    using hr by (simp_all add: has_read_def)
  have ino: "inodes u = inodes s" using log_frame_fs(2) [OF lf] by simp
  obtain P where c: "cache d p {} P s" using op by (auto simp: op_inv_def)
  have lF: "length F = unat (i_size (inodes s ip))" unfolding F_def by (rule length_file_bytes [OF c])
  then have lo: "length out = unat tot" using T fits by simp
  show "wp env (readi_body ip dst n j) (\<lambda>r w. case r of
      Inl j' \<Rightarrow> (case j' of (tot, off', out) \<Rightarrow> unat tot \<le> unat n \<and> unat off' = unat off + unat tot \<and>
        out = take (unat tot) (drop (unat off) F) \<and> has_read dst d p k s out w) \<and>
        (case j' of (tot, _) \<Rightarrow> unat n - unat tot) < (case j of (tot, _) \<Rightarrow> unat n - unat tot)
    | Inr x \<Rightarrow> (case x of (r, out) \<Rightarrow> r = n \<and> out = take (unat n) (drop (unat off) F) \<and>
        has_read dst d p k s out w)) u"
  proof (cases "tot < n")
    case False
    then have "tot = n" using T(1) by (simp add: word_le_nat_alt word_less_nat_alt word_unat_eq_iff)
    then show ?thesis using T(3) hr by (simp add: j readi_body_def wp_ret)
  next
    case True
    then have Tn: "unat tot < unat n" by (simp add: word_less_nat_alt)
    define m where "m = min (n - tot) (1024 - off' mod 1024)"
    have um: "unat m = min (unat n - unat tot) (1024 - unat off' mod 1024)" unfolding m_def by (rule unat_piece [OF True])
    have mod: "unat off' mod 1024 < 1024" by simp
    have m1: "0 < unat m" "unat tot + unat m \<le> unat n" "unat off' mod BSIZE + unat m \<le> BSIZE"
      using um Tn mod by linarith+
    have "unat n < 2 ^ 32" using unsigned_less [of n] by simp
    then have "unat tot + unat m < 2 ^ 32" "unat off' + unat m < 2 ^ 32"
      using m1(2) T(2) fits al by (simp_all add: allocated_def)
    then have adds: "unat (tot + m) = unat tot + unat m" "unat (off' + m) = unat off + (unat tot + unat m)"
      using T(2) by (simp_all add: unat_word_ariths)
    have pos: "unat off' < unat (i_size (inodes s ip))" "unat off' + unat m \<le> unat (i_size (inodes s ip))"
      using T(2) Tn fits m1(2) by simp_all
    define y where "y = take (unat m) (drop (unat off' mod BSIZE) (view d u (file_addr d u (inodes u ip) (unat off' div BSIZE))))"
    have y: "y = take (unat m) (drop (unat off') F)"
      unfolding y_def F_def by (simp add: file_piece [OF c m1(3) pos(2,1)] u(2) ino file_addr_cong [OF u(2)])
    then have piece: "out @ y = take (unat tot + unat m) (drop (unat off) F)"
      using T(2,3) by (simp add: take_add add.commute [of "unat tot" "unat off"])
    have ly: "length out + length y \<le> 2 ^ 64" using lo y \<open>unat tot + unat m < 2 ^ 32\<close> by simp
    have ct: "ucast tot = (of_nat (length out) :: u64)" by (simp add: lo)
    show ?thesis
      unfolding j
    proof (rule wp_readi_body [OF u(1) _ True _ kd, where off = off' and ip = ip, folded m_def, folded y_def])
      fix w
      assume w: "op_inv d p k w" "view d w = view d u"
        "log_frame (u\<lparr>mem := dst_mem dst (ucast tot) y (mem u)\<rparr>) w"
      have "has_read dst d p k s (out @ y) w"
        by (rule has_read_more [OF hr w(1,2) w(3) [unfolded ct] ly])
      then show "case Inl (tot + m, off' + m, out @ y) of
          Inl j' \<Rightarrow> (case j' of (tot, off', out) \<Rightarrow> unat tot \<le> unat n \<and> unat off' = unat off + unat tot \<and>
            out = take (unat tot) (drop (unat off) F) \<and> has_read dst d p k s out w) \<and>
            (case j' of (tot, _) \<Rightarrow> unat n - unat tot) < (case (tot, off', out) of (tot, _) \<Rightarrow> unat n - unat tot)
        | Inr x \<Rightarrow> (case x of (r, out) \<Rightarrow> r = n \<and> out = take (unat n) (drop (unat off) F) \<and>
            has_read dst d p k s out w)"
        unfolding sum.case prod.case adds using piece m1 Tn by simp
    qed (use al pos(1) in \<open>simp_all add: ino allocated_cong [OF u(2)]\<close>)
  qed
qed (use op in \<open>auto simp: has_read_def\<close>)

end

text \<open>The bytes a read of \<open>n\<close> bytes at \<open>off\<close> is to deliver.\<close>

definition file_range :: "u32 \<Rightarrow> 'x fs_state_scheme \<Rightarrow> inode \<Rightarrow> u32 \<Rightarrow> u32 \<Rightarrow> u8 list" where
  "file_range d s v off n = (if off > i_size v \<or> off + n < off then []
     else take (unat n) (drop (unat off) (file_bytes d s v)))"

lemma readi_run:
  fixes off n :: u32
  assumes dev: "virtio_device dev" and op: "op_inv d p k s" and al: "allocated d s (inodes s ip)" and kd: "kernel_dst dst"
  defines "bs \<equiv> file_range d s (inodes s ip) off n"
  shows "\<exists>t. readi ip dst off n (irq_env dev) s = Done (of_nat (length bs), bs) t \<and> has_read dst d p k s bs t"
proof (cases "off > i_size (inodes s ip) \<or> off + n < off")
  case True
  then show ?thesis using op
    by (simp add: bs_def has_read_def file_range_def readi_def inode_at_def bindM_def getM_def retM_def)
next
  case False
  let ?sz = "i_size (inodes s ip)"
  let ?n = "if off + n > ?sz then ?sz - off else n"
  obtain P where c: "cache d p {} P s" using op by (auto simp: op_inv_def)
  have "unat (off + n) = unat off + unat n" using False by (simp add: unat_plus_simple [symmetric] not_less)
  then have un: "unat ?n = min (unat n) (unat ?sz - unat off)" and fits: "unat off + unat ?n \<le> unat ?sz"
    using False by (auto simp: word_less_nat_alt unat_sub word_le_nat_alt)
  have bs: "bs = take (unat ?n) (drop (unat off) (file_bytes d s (inodes s ip)))"
    using False un by (simp add: bs_def file_range_def length_file_bytes [OF c] min_def)
  then have len: "length bs = unat ?n" using fits by (simp add: length_file_bytes [OF c])
  obtain t where "loopM (readi_body ip dst ?n) (0, off, []) (irq_env dev) s = Done (?n, bs) t"
    "has_read dst d p k s bs t"
    using fs_disk.wp_readi_loop [OF fs_disk_irq [OF dev] op al kd fits] unfolding bs by (auto simp: wp_iff)
  then show ?thesis
    using False len by (simp add: readi_def inode_at_def bindM_def getM_def)
qed

text \<open>
  C5. \<open>readi\<close> returns and delivers the file: for a file all of whose blocks are allocated, direct
  or through the indirect block, a read of \<open>n\<close> bytes at \<open>off\<close> into a kernel buffer yields exactly
  the bytes of the file from \<open>off\<close> on, up to \<open>n\<close> and the end of the file, and their number; an
  offset past the end, or one whose sum with \<open>n\<close> wraps around, yields none. No block changes.
\<close>

theorem readi_correct:
  assumes "virtio_device dev" "op_inv d p k s" "allocated d s (inodes s ip)"
  shows "\<exists>t bs. readi ip To_var off n (irq_env dev) s = Done (of_nat (length bs), bs) t \<and>
    bs = file_range d s (inodes s ip) off n \<and> op_inv d p k t \<and> view d t = view d s"
  using readi_run [OF assms, of To_var off n] by (auto simp: kernel_dst_def has_read_def)

theorem readi_correct_witness:
  "\<exists>t. readi 3 To_var 2 10 (irq_env complete_request) demo_fs = Done (3, replicate 3 0) t"
proof -
  have "allocated 1 demo_fs demo_inode"
    by (simp add: allocated_def demo_inode_def file_blocks_def file_addr_def)
  moreover have "file_bytes 1 demo_fs demo_inode = replicate 5 0"
    by (simp add: file_bytes_def file_blocks_def demo_inode_def file_addr_def demo_fs_view demo_disk_def)
  then have "file_range 1 demo_fs demo_inode 2 10 = replicate 3 0"
    by (simp add: file_range_def demo_inode_def)
  ultimately show ?thesis
    using readi_correct [OF virtio_device_complete_request demo_fs_op [of 0], of 3 2 10]
    by (auto simp: demo_fs_sel)
qed

section \<open>References to inodes\<close>

text \<open>No two entries of the inode table that are in use stand for the same inode.\<close>

definition itable_ok :: "'x fs_state_scheme \<Rightarrow> bool" where
  "itable_ok s \<longleftrightarrow> (\<forall>i<NINODE. 0 \<le> i_ref (inodes s i)) \<and>
     (\<forall>i<NINODE. \<forall>j<NINODE. i_ref (inodes s i) > 0 \<and> i_ref (inodes s j) > 0 \<and>
        i_dev (inodes s i) = i_dev (inodes s j) \<and> i_inum (inodes s i) = i_inum (inodes s j) \<longrightarrow> i = j)"

lemma itable_ok_upd:
  assumes "itable_ok s" "0 \<le> i_ref n"
    and "\<And>j. j < NINODE \<Longrightarrow> j \<noteq> ip \<Longrightarrow> i_ref (inodes s j) > 0 \<Longrightarrow>
      \<not> (i_dev (inodes s j) = i_dev n \<and> i_inum (inodes s j) = i_inum n)"
  shows "itable_ok (s\<lparr>inodes := (inodes s)(ip := n)\<rparr>)"
  using assms unfolding itable_ok_def by simp metis

text \<open>
  C21. \<open>iget\<close> keeps the inode table free of duplicates: it returns an entry for the wanted inode
  with one more reference than before, the entry already in use if there is one, else a free one
  marked as not yet read; only that entry changes. It panics exactly if the inode is not in the
  table and no entry is free.
\<close>

theorem iget_correct:
  assumes "itable_ok s" "L_itable \<notin> held s"
  shows "if (\<exists>i<NINODE. i_ref (inodes s i) = 0 \<or> i_dev (inodes s i) = dev \<and> i_inum (inodes s i) = inum)
    then \<exists>ip n. iget dev inum env s = Done ip (s\<lparr>inodes := (inodes s)(ip := n)\<rparr>) \<and> ip < NINODE \<and>
      itable_ok (s\<lparr>inodes := (inodes s)(ip := n)\<rparr>) \<and> i_dev n = dev \<and> i_inum n = inum \<and>
      i_ref n = i_ref (inodes s ip) + 1 \<and>
      (if i_ref (inodes s ip) > 0 then n = (inodes s ip)\<lparr>i_ref := i_ref n\<rparr> else \<not> i_valid n)
    else iget dev inum env s = Panic ''iget: no inodes''"
proof -
  let ?hit = "\<lambda>i. i_ref (inodes s i) > 0 \<and> i_dev (inodes s i) = dev \<and> i_inum (inodes s i) = inum"
  have h: "s\<lparr>inodes := I, held := held s\<rparr> = s\<lparr>inodes := I\<rparr>" for I by simp
  have ins: "insert L_itable (held s) - {L_itable} = held s" using assms(2) by auto
  show ?thesis
  proof (cases "find ?hit [0..<NINODE]")
    case (Some ip)
    then have ip: "ip < NINODE" "?hit ip" by (auto simp: find_Some_iff simp del: upt_rec_numeral)
    let ?n = "(inodes s ip)\<lparr>i_ref := i_ref (inodes s ip) + 1\<rparr>"
    have "iget dev inum env s = Done ip (s\<lparr>inodes := (inodes s)(ip := ?n)\<rparr>)"
      using Some assms(2) by (simp add: iget_def run_simps upd_inode_def h ins)
    moreover have "itable_ok (s\<lparr>inodes := (inodes s)(ip := ?n)\<rparr>)" 
      by (rule itable_ok_upd [OF assms(1)]) (use assms(1) ip in \<open>auto simp: itable_ok_def\<close>)
    moreover have ex: "\<exists>i<NINODE. i_ref (inodes s i) = 0 \<or> i_dev (inodes s i) = dev \<and> i_inum (inodes s i) = inum"
      using ip by blast
    ultimately show ?thesis using ip unfolding if_P [OF ex] by (intro exI [of _ ip] exI [of _ ?n]) simp
  next
    case None
    then have miss: "\<And>i. i < NINODE \<Longrightarrow> \<not> ?hit i" by (auto simp: find_None_iff simp del: upt_rec_numeral)
    show ?thesis
    proof (cases "find (\<lambda>i. i_ref (inodes s i) = 0) [0..<NINODE]")
      case (Some ip)
      then have ip: "ip < NINODE" "i_ref (inodes s ip) = 0" by (auto simp: find_Some_iff simp del: upt_rec_numeral)
      let ?n = "(inodes s ip)\<lparr>i_dev := dev, i_inum := inum, i_ref := 1, i_valid := False\<rparr>"
      have "iget dev inum env s = Done ip (s\<lparr>inodes := (inodes s)(ip := ?n)\<rparr>)"
        using Some None assms(2) by (simp add: iget_def run_simps upd_inode_def h ins)
      moreover have "itable_ok (s\<lparr>inodes := (inodes s)(ip := ?n)\<rparr>)"
        by (rule itable_ok_upd [OF assms(1)]) (use ip miss in auto)
      ultimately show ?thesis using ip by auto
    next
      case none: None
      then have "\<And>i. i < NINODE \<Longrightarrow> i_ref (inodes s i) \<noteq> 0" by (auto simp: find_None_iff simp del: upt_rec_numeral)
      moreover have "0 \<le> i_ref (inodes s i)" if "i < NINODE" for i using assms(1) that by (simp add: itable_ok_def)
      ultimately have "\<not> (\<exists>i<NINODE. i_ref (inodes s i) = 0 \<or> i_dev (inodes s i) = dev \<and> i_inum (inodes s i) = inum)"
        using miss by (metis order_le_less)
      then show ?thesis
        using none None assms(2) by (simp add: iget_def run_simps)
    qed
  qed
qed

theorem iget_correct_witness:
  "\<exists>n. iget 1 7 id (demo_fs\<lparr>inodes := (\<lambda>_. demo_inode\<lparr>i_ref := 0\<rparr>)(4 := demo_inode)\<rparr>) =
    Done 4 (demo_fs\<lparr>inodes := (\<lambda>_. demo_inode\<lparr>i_ref := 0\<rparr>)(4 := n)\<rparr>) \<and> i_ref n = 2"
proof -
  let ?s = "demo_fs\<lparr>inodes := (\<lambda>_. demo_inode\<lparr>i_ref := 0\<rparr>)(4 := demo_inode)\<rparr>"
  have ok: "itable_ok ?s" by (auto simp: itable_ok_def demo_inode_def)
  have hd: "L_itable \<notin> held ?s" by (simp add: demo_fs_sel)
  have ex: "\<exists>i<NINODE. i_ref (inodes ?s i) = 0 \<or> i_dev (inodes ?s i) = 1 \<and> i_inum (inodes ?s i) = 7"
    by (rule exI [of _ 0]) (simp add: demo_inode_def)
  obtain ip n where r: "iget 1 7 id ?s = Done ip (?s\<lparr>inodes := (inodes ?s)(ip := n)\<rparr>)" "ip < NINODE"
    "itable_ok (?s\<lparr>inodes := (inodes ?s)(ip := n)\<rparr>)" "i_dev n = 1" "i_inum n = 7" "i_ref n = i_ref (inodes ?s ip) + 1"
    using iget_correct [OF ok hd, of 1 7 id] unfolding if_P [OF ex] by (elim exE conjE) (rule that)
  have ref: "0 \<le> i_ref (inodes ?s ip)" by (simp add: demo_inode_def)
  have "ip = 4"
  proof (rule ccontr)
    assume ne: "ip \<noteq> 4"
    let ?t = "?s\<lparr>inodes := (inodes ?s)(ip := n)\<rparr>"
    have "i_ref (inodes ?t 4) > 0 \<and> i_ref (inodes ?t ip) > 0 \<and> i_dev (inodes ?t 4) = i_dev (inodes ?t ip) \<and>
        i_inum (inodes ?t 4) = i_inum (inodes ?t ip)"
      using ne r(4-6) ref by (simp add: demo_inode_def)
    moreover have "(4 :: nat) < NINODE" by simp
    ultimately have "4 = ip" using r(2,3) unfolding itable_ok_def by blast
    then show False using ne by simp
  qed
  then show ?thesis using r(1,6) by (intro exI [of _ n]) (simp add: demo_inode_def)
qed

section \<open>Path names\<close>

text \<open>The elements \<open>namex\<close> walks through: the successive \<open>name\<close> buffers of \<open>skipelem\<close>, as strings.\<close>

lemma skipelem_shorter: "skipelem path name = Some (rest, name') \<Longrightarrow> length rest < length path"
proof -
  assume s: "skipelem path name = Some (rest, name')"
  let ?s = "dropWhile (\<lambda>c. c = slash) path"
  have ne: "?s \<noteq> []" and rest: "rest = dropWhile (\<lambda>c. c = slash) (dropWhile (\<lambda>c. c \<noteq> slash) ?s)"
    using s by (auto simp: skipelem_def Let_def split: if_splits)
  have "hd ?s \<noteq> slash" using ne by (rule hd_dropWhile)
  then obtain c cs where cs: "?s = c # cs" "c \<noteq> slash" using ne by (cases ?s) auto
  have "length rest \<le> length (dropWhile (\<lambda>c. c \<noteq> slash) ?s)" unfolding rest by (rule length_dropWhile_le)
  also have "\<dots> \<le> length cs" using cs by (simp add: length_dropWhile_le)
  also have "\<dots> < length ?s" by (simp add: cs(1))
  also have "\<dots> \<le> length path" by (rule length_dropWhile_le)
  finally show ?thesis .
qed

definition cname :: "u8 list \<Rightarrow> u8 list" where
  "cname nm = takeWhile (\<lambda>c. c \<noteq> 0) (take DIRSIZ nm)"

function path_names :: "u8 list \<Rightarrow> u8 list \<Rightarrow> u8 list list" where
  "path_names path name = (case skipelem path name of
     None \<Rightarrow> [] | Some (rest, name') \<Rightarrow> cname name' # path_names rest name')"
  by pat_completeness auto
termination
  by (relation "measure (\<lambda>(path, _). length path)") (auto dest: skipelem_shorter)

declare path_names.simps [simp del]

lemma skipelem_elem:
  assumes "e \<noteq> []" "slash \<notin> set e" "0 \<notin> set e" "rest = [] \<or> hd rest = slash" "length name = DIRSIZ"
  obtains nm where "skipelem (replicate i slash @ e @ rest) name = Some (dropWhile (\<lambda>c. c = slash) rest, nm)"
    "cname nm = take DIRSIZ e" "length nm = DIRSIZ"
proof -
  have s: "dropWhile (\<lambda>c. c = slash) (replicate i slash @ e @ rest) = e @ rest"
    using assms(1,2) by (cases e) (auto simp: dropWhile_append)
  have "takeWhile (\<lambda>c. c \<noteq> slash) (e @ rest) = e" "dropWhile (\<lambda>c. c \<noteq> slash) (e @ rest) = rest"
    using assms(2,4) by (auto simp: takeWhile_append dropWhile_append) (cases rest; auto)+
  with s assms(1) have sk: "skipelem (replicate i slash @ e @ rest) name = Some (dropWhile (\<lambda>c. c = slash) rest,
      if length e \<ge> DIRSIZ then splice name 0 (take DIRSIZ e) else splice name 0 (e @ [0]))"
    by (simp add: skipelem_def Let_def)
  have tw: "takeWhile (\<lambda>c. c \<noteq> 0) xs = xs" if "0 \<notin> set xs" for xs :: "u8 list"
    using that by (induction xs) auto
  have e14: "0 \<notin> set (take DIRSIZ e)" using assms(3) by (meson in_set_takeD)
  show thesis
  proof (cases "length e \<ge> DIRSIZ")
    case True
    then have "splice name 0 (take DIRSIZ e) = take DIRSIZ e" using assms(5) by (simp add: splice_def)
    then show thesis using that [OF sk] True tw [OF e14] by (simp add: cname_def)
  next
    case False
    then have "takeWhile (\<lambda>c. c \<noteq> 0) (e @ 0 # drop (Suc (length e)) name) = e"
      using assms(3) by (subst takeWhile_append2) (auto simp: takeWhile_tail)
    then show thesis using that [OF sk] False assms(5) by (simp add: cname_def splice_def)
  qed
qed

lemma path_names_slashes: "path_names (dropWhile (\<lambda>c. c = slash) path) name = path_names path name"
proof -
  have "skipelem (dropWhile (\<lambda>c. c = slash) path) name = skipelem path name" by (simp add: skipelem_def)
  then show ?thesis by (simp add: path_names.simps [of path] path_names.simps [of "dropWhile (\<lambda>c. c = slash) path"])
qed

lemma in_set_tlD: "x \<in> set (tl xs) \<Longrightarrow> x \<in> set xs"
  by (cases xs) auto

text \<open>A path from its elements, each after a number of slashes.\<close>

definition join_path :: "(nat \<times> u8 list) list \<Rightarrow> u8 list" where
  "join_path kes = concat (map (\<lambda>(k, e). replicate k slash @ e) kes)"

text \<open>
  C37. Path names: repeated \<open>skipelem\<close>, the way \<open>namex\<close> uses it, takes a path apart into its
  elements in order, whatever the number of slashes before, between and after them, each cut to
  \<open>DIRSIZ\<close> characters; every call that finds an element shortens the path, so the walk ends.
\<close>

theorem skipelem_walk:
  assumes "\<forall>(k, e)\<in>set kes. e \<noteq> [] \<and> slash \<notin> set e \<and> 0 \<notin> set e" "\<forall>(k, e)\<in>set (tl kes). 0 < k"
    and "length name = DIRSIZ"
  shows "path_names (join_path kes @ replicate j slash) name = map (\<lambda>(k, e). take DIRSIZ e) kes"
  using assms
proof (induction kes arbitrary: name)
  case Nil
  have "dropWhile (\<lambda>c. c = slash) (replicate j slash) = []" by (simp add: dropWhile_eq_Nil_conv)
  then have "skipelem (replicate j slash) name = None" by (simp add: skipelem_def)
  then show ?case by (simp add: join_path_def path_names.simps [of "replicate j slash"])
next
  case (Cons ke kes)
  obtain k e where ke: "ke = (k, e)" by force
  let ?rest = "join_path kes @ replicate j slash"
  have rest: "?rest = [] \<or> hd ?rest = slash"
  proof (cases kes)
    case Nil
    then show ?thesis by (cases j) (simp_all add: join_path_def)
  next
    case kes: (Cons kf kfs)
    then have "0 < fst kf" using Cons.prems(2) by auto
    then obtain k' e' where "kf = (Suc k', e')" by (cases kf; cases "fst kf") auto
    then show ?thesis using kes by (simp add: join_path_def)
  qed
  obtain nm where nm: "skipelem (replicate k slash @ e @ ?rest) name = Some (dropWhile (\<lambda>c. c = slash) ?rest, nm)"
    "cname nm = take DIRSIZ e" "length nm = DIRSIZ"
    by (rule skipelem_elem [of e ?rest name k]) (use Cons.prems rest ke in auto)
  have "path_names (join_path (ke # kes) @ replicate j slash) name = take DIRSIZ e # path_names ?rest nm"
    using nm(1,2) path_names_slashes [of ?rest nm]
    by (subst path_names.simps) (simp add: join_path_def ke)
  also have "path_names ?rest nm = map (\<lambda>(k, e). take DIRSIZ e) kes"
    using Cons.prems nm(3) by (intro Cons.IH) (auto dest: in_set_tlD)
  finally show ?case by (simp add: ke)
qed

theorem skipelem_walk_witness:
  "path_names (join_path [(1, [97]), (2, replicate 20 98)] @ replicate 1 slash) (replicate DIRSIZ 0) =
     [[97], replicate 14 98]"
  using skipelem_walk [of "[(1, [97]), (2, replicate 20 98)]" "replicate DIRSIZ 0" 1] by simp

end
