(* ===== verification/Mmap.thy ===== *)
theory Mmap
  imports Trap Pagetable Fs_Files
begin

text \<open>
  Memory-mapped files: what \<open>mmap\<close> (\<^verbatim>\<open>kernel/sysfile.c\<close>) records, and what the page fault in
  \<^verbatim>\<open>kernel/trap.c\<close> makes of it. The fault handler joins the page allocator, the inode layer with
  the buffer cache and the disk below it, and the page table; its correctness rests on the lemmas
  of \<open>Kalloc\<close>, \<open>Fs_Files\<close> and \<open>Pagetable\<close>.
\<close>

section \<open>A page taken from and given back to the allocator\<close>

lemma ptinv_take_page:
  assumes inv: "ptinv s pt (pg # ps)" and fl: "freelist t = load64 (mem s) pg" and ke: "kernel_end t = kernel_end s"
    and out: "\<And>x. \<not> in_page pg x \<Longrightarrow> mem t x = mem s x"
  shows "ptinv t pt ps" "pte_of (mem t) pt vb = pte_of (mem s) pt vb"
    "table_pages (mem t) pt = table_pages (mem s) pt" "pg \<notin> table_pages (mem s) pt" "page_ok (kernel_end s) pg" "pg \<notin> set ps"
proof -
  have fp: "free_pages s (pg # ps)" and wf: "wf_table (mem s) pt"
    and tp: "\<And>a. a \<in> table_pages (mem s) pt \<Longrightarrow> page_ok (kernel_end s) a \<and> a \<notin> set (pg # ps)"
    using inv by (auto simp: ptinv_def)
  show pg: "pg \<notin> table_pages (mem s) pt" "page_ok (kernel_end s) pg" "pg \<notin> set ps"
    using tp fp by (auto simp: free_pages_def)
  have al: "aligned pg" using pg(2) by (simp add: page_ok_def)
  have same: "mem t x = mem s x" if "a \<noteq> pg" "aligned a" "in_page a x" for a x
    using out in_page_unique [OF _ al] that by blast
  have tsame: "mem t x = mem s x" if "a \<in> table_pages (mem s) pt" "in_page a x" for a x
    using same [of a x] that pg(1) wf by (auto simp: wf_table_def)
  have wt: "wf_table (mem t) pt" "table_pages (mem t) pt = table_pages (mem s) pt"
    using wf_table_cong [OF wf node_cong_pages [OF wf tsame]] by auto
  show "table_pages (mem t) pt = table_pages (mem s) pt" by (rule wt(2))
  show "pte_of (mem t) pt vb = pte_of (mem s) pt vb" by (rule pte_of_cong_pages [OF wf tsame])
  have "free_pages t ps"
  proof (rule free_pages_cong [OF free_pages_kalloc [OF fp, of 0]])
    fix q x
    assume "q \<in> set ps" "in_page q x"
    moreover from this have "aligned q" "q \<noteq> pg" using fp by (auto simp: free_pages_def page_ok_def)
    ultimately show "mem t x = mem (s\<lparr>freelist := load64 (mem s) pg, mem := memset (mem s) pg 0 4096\<rparr>) x"
      using same [of q x] in_page_unique [OF _ al] by (auto simp: memset_page)
  qed (simp_all add: fl ke)
  then show "ptinv t pt ps" using wt tp ke by (simp add: ptinv_def)
qed

lemma ptinv_give_page:
  assumes inv: "ptinv s pt ps" and pg: "page_ok (kernel_end s) pg" "pg \<notin> set ps" "pg \<notin> table_pages (mem s) pt"
  defines "t \<equiv> s\<lparr>mem := store64 (memset (mem s) pg 1 4096) pg (freelist s), freelist := pg\<rparr>"
  shows "ptinv t pt (pg # ps)" "pte_of (mem t) pt vb = pte_of (mem s) pt vb"
proof -
  have fp: "free_pages s ps" and wf: "wf_table (mem s) pt"
    and tp: "\<And>a. a \<in> table_pages (mem s) pt \<Longrightarrow> page_ok (kernel_end s) a \<and> a \<notin> set ps"
    using inv by (auto simp: ptinv_def)
  have al: "aligned pg" using pg(1) by (simp add: page_ok_def)
  have tsame: "mem t x = mem s x" if "a \<in> table_pages (mem s) pt" "in_page a x" for a x
  proof -
    have "aligned a" "a \<noteq> pg" using that pg(3) wf by (auto simp: wf_table_def)
    then have "\<not> in_page pg x" using in_page_unique [OF _ al] that(2) by blast
    then show ?thesis by (simp add: t_def kfree_frame)
  qed
  have wt: "wf_table (mem t) pt" "table_pages (mem t) pt = table_pages (mem s) pt"
    using wf_table_cong [OF wf node_cong_pages [OF wf tsame]] by auto
  show "pte_of (mem t) pt vb = pte_of (mem s) pt vb" by (rule pte_of_cong_pages [OF wf tsame])
  have "free_pages t (pg # ps)" using free_pages_kfree [OF fp pg(1,2)] by (simp add: t_def)
  moreover have "kernel_end t = kernel_end s" by (simp add: t_def)
  ultimately show "ptinv t pt (pg # ps)" using wt tp pg(3) unfolding ptinv_def by auto
qed

section \<open>Filling a page from a file\<close>

lemma wp_read_page:
  fixes s :: "'x fs_state_scheme"
  assumes dev: "virtio_device dev" and op: "op_inv d p 0 s" and al: "allocated d s (inodes s ip)"
    and ino: "1 \<le> i_ref (inodes s ip)" "i_valid (inodes s ip)" "\<not> sl_locked (slocks s (SL_inode ip))"
    and Q: "\<And>t. op_inv d p 0 t \<Longrightarrow> view d t = view d s \<Longrightarrow> procs t = procs s \<Longrightarrow> freelist t = freelist s \<Longrightarrow>
      kernel_end t = kernel_end s \<Longrightarrow> mem t = store_bytes (mem s) pg (file_range d s (inodes s ip) off 4096) \<Longrightarrow> Q () t"
  shows "wp (irq_env dev) (ilock ip) (\<lambda>_. wp (irq_env dev) (bindM (readi ip (To_page pg) off 4096) (\<lambda>_. skipM))
    (\<lambda>_. wp (irq_env dev) (iunlock ip) Q)) s"
proof -
  let ?s = "lock_inode ip p s" and ?bs = "file_range d s (inodes s ip) off 4096"
  have q: "held s = {}" "cur s = Some p" using op_inv_quiet [OF op] by auto
  have "allocated d ?s (inodes ?s ip)" "file_range d ?s (inodes ?s ip) off 4096 = ?bs"
    using al allocated_cong [of d ?s s] file_bytes_cong [of d ?s s] by (simp_all add: file_range_def)
  then obtain t where t: "readi ip (To_page pg) off 4096 (irq_env dev) ?s = Done (of_nat (length ?bs), ?bs) t"
      and hr: "has_read (To_page pg) d p 0 ?s ?bs t"
    using readi_run [OF dev _ , of d p 0 ?s ip "To_page pg" off 4096] op by (auto simp: kernel_dst_def)
  have ot: "op_inv d p 0 t" and vt: "view d t = view d s"
    and lf: "log_frame (?s\<lparr>mem := dst_mem (To_page pg) 0 ?bs (mem ?s)\<rparr>) t" using hr by (simp_all add: has_read_def)
  note sel = log_frame_sel [OF lf] log_frame_kmem [OF lf] log_frame_fs [OF lf]
  have lk: "slocks t (SL_inode ip) = \<lparr>sl_locked = True, sl_pid = p_pid (procs s p)\<rparr>"
    using lf by (simp add: log_frame_def)
  have "wp (irq_env dev) (iunlock ip) Q t"
    unfolding wp_iunlock [OF ot, of ip, unfolded lk sel, simplified, OF ino(1)]
    by (rule Q) (simp_all add: ot vt sel dst_mem_def)
  then show ?thesis
    using ino q t by (simp add: ilock_def wp_simps wp_acquiresleep_free wp_def [of _ "readi _ _ _ _"])
qed

section \<open>The page fault\<close>

text \<open>
  Two results of a fault on page \<open>va\<close>: the process is killed, no page of its address space has
  changed and at most one page is free; or the page is mapped to a frame \<open>pg\<close> that was free,
  which holds \<open>bs\<close> and zeros after it, and no other page of the address space has changed.
\<close>

definition fault_failed :: "nat \<Rightarrow> u64 \<Rightarrow> 'x kmem_state_scheme \<Rightarrow> 'x kmem_state_scheme \<Rightarrow> bool" where
  "fault_failed p pt s t \<longleftrightarrow> p_killed (procs t p) \<and> (\<forall>vb<MAXVA. pte_of (mem t) pt vb = pte_of (mem s) pt vb) \<and>
     (\<exists>qs. ptinv t pt qs \<and> length qs \<le> 1)"

definition fault_mapped :: "u64 \<Rightarrow> u64 \<Rightarrow> u64 \<Rightarrow> u64 \<Rightarrow> u8 list \<Rightarrow> 'x kmem_state_scheme \<Rightarrow> 'x kmem_state_scheme \<Rightarrow> bool" where
  "fault_mapped pt va pg flags bs s t \<longleftrightarrow> procs t = procs s \<and> (\<exists>qs. ptinv t pt qs) \<and>
     (\<forall>vb<MAXVA. pte_of (mem t) pt vb =
        (if PGROUNDDOWN vb = va then PA2PTE pg OR flags OR PTE_V else pte_of (mem s) pt vb)) \<and>
     load_bytes (mem t) pg 4096 = bs @ replicate (4096 - length bs) 0"

lemma load_bytes_filled:
  assumes "length bs \<le> 4096"
  shows "load_bytes (store_bytes (memset m pg 0 4096) pg bs) pg 4096 = bs @ replicate (4096 - length bs) 0"
proof (rule nth_equalityI)
  fix i
  assume "i < length (load_bytes (store_bytes (memset m pg 0 4096) pg bs) pg 4096)"
  then have i: "i < 4096" by simp
  then have "unat (of_nat i :: u64) = i" by (simp add: unat_of_nat take_bit_nat_eq_self_iff)
  then show "load_bytes (store_bytes (memset m pg 0 4096) pg bs) pg 4096 ! i = (bs @ replicate (4096 - length bs) 0) ! i"
    using i by (auto simp: load_bytes_def store_bytes_def memset_apply nth_append)
qed (use assms in simp)

lemma wp_map_page:
  assumes inv: "ptinv s pt qs" and lk: "L_kmem \<notin> held s" and va: "aligned va" "va < MAXVA"
    and un: "\<not> pte_v (pte_of (mem s) pt va)"
    and ok: "\<And>t ps. mem_only s t \<Longrightarrow> ptinv t pt ps \<Longrightarrow> (\<And>vb. vb < MAXVA \<Longrightarrow> pte_of (mem t) pt vb =
      (if PGROUNDDOWN vb = va then PA2PTE pg OR flags OR PTE_V else pte_of (mem s) pt vb)) \<Longrightarrow>
      (\<And>x. \<forall>a\<in>table_pages (mem s) pt \<union> set qs. \<not> in_page a x \<Longrightarrow> mem t x = mem s x) \<Longrightarrow> Q True t"
    and fail: "\<And>t. mem_only s t \<Longrightarrow> ptinv t pt [] \<Longrightarrow>
      (\<And>vb. vb < MAXVA \<Longrightarrow> pte_of (mem t) pt vb = pte_of (mem s) pt vb) \<Longrightarrow>
      table_pages (mem t) pt \<subseteq> table_pages (mem s) pt \<union> set qs \<Longrightarrow> Q False t"
  shows "wp env (mappages pt va PGSIZE pg flags) Q s"
proof -
  have v: "unat va < 2 ^ 38" "PGROUNDDOWN va = va" using va PGROUNDDOWN_in_page [OF va(1), of 0]
    by (simp_all add: word_less_nat_alt)
  have "4096 dvd unat va" using va(1) by (simp add: aligned_unat dvd_eq_mod_eq_0)
  then obtain j where j: "unat va = 4096 * j" by blast
  then have "unat va + 4096 \<le> 2 ^ 38" using v(1) by simp
  moreover have "va + PGSIZE - 1 = va + of_nat 4095" by simp
  then have "PGROUNDDOWN (va + PGSIZE - 1) = va" using PGROUNDDOWN_in_page [OF va(1), of 4095] by (simp add: add.commute)
  ultimately have "wp env (mappages pt va PGSIZE pg flags) (mapping_result pt s qs va pg flags 1) s"
    using va(1) v(2) un by (intro mappages_pages [OF inv lk]) simp_all
  then show ?thesis
  proof (rule wp_conseq)
    fix r t
    assume "mapping_result pt s qs va pg flags 1 r t"
    then obtain ps i where rs: "respaced pt s qs (mapped (pte_of (mem s) pt) va pg flags i) t ps"
      and i: "if r then i = 1 else i < 1 \<and> ps = []" unfolding mapping_result_def by blast
    note rd = rs [unfolded respaced_def]
    obtain us where us: "qs = us @ ps" "table_pages (mem t) pt = table_pages (mem s) pt \<union> set us" using rd by blast
    have one: "unat (PGROUNDDOWN vb - va) < 4096 \<longleftrightarrow> PGROUNDDOWN vb = va" for vb
      using in_page_unique [of va "PGROUNDDOWN vb" "PGROUNDDOWN vb"] va(1)
      by (auto simp: in_page_def PGROUNDDOWN_aligned aligned_def)
    show "Q r t"
    proof (cases r)
      case True
      have "Q True t"
      proof (rule ok)
        show "pte_of (mem t) pt vb = (if PGROUNDDOWN vb = va then PA2PTE pg OR flags OR PTE_V else pte_of (mem s) pt vb)"
          if "vb < MAXVA" for vb
          using rd that True i by (simp add: mapped_def Let_def one)
        show "mem t x = mem s x" if "\<forall>a\<in>table_pages (mem s) pt \<union> set qs. \<not> in_page a x" for x
          using rd us that by auto
      qed (use rd in auto)
      then show ?thesis using True by simp
    next
      case False
      have "Q False t" by (rule fail) (use rd us i False in auto)
      then show ?thesis using False by simp
    qed
  qed
qed

lemma op_inv_mem_only:
  fixes s :: "'x fs_state_scheme"
  assumes "mem_only s t"
  shows "op_inv d p k t = op_inv d p k s" "view d t = view d s" "procs t = procs s" "held t = held s" "kernel_end t = kernel_end s"
  using assms unfolding mem_only_def by auto

abbreviation (input) killed :: "nat \<Rightarrow> 'x kbase_scheme \<Rightarrow> 'x kbase_scheme" where
  "killed p s \<equiv> s\<lparr>procs := (procs s)(p := (procs s p)\<lparr>p_killed := True\<rparr>)\<rparr>"

lemma op_inv_killed:
  fixes s :: "'x fs_state_scheme"
  shows "op_inv d p k s \<Longrightarrow> op_inv d p k (killed p s)" "view d (killed p s) = view d s"
  by (auto simp: op_inv_def cache_def quiet_def txn_def homes_def log_geom_def outside_def hdr_bn_def log_bn_def view_def)

lemma wp_set_killed: "wp env (set_killed p) Q s = Q () (killed p s)"
  by (simp add: set_killed_def upd_proc_def wp_mod)

lemma ptinv_killed: "ptinv (killed p s) pt ps = ptinv s pt ps"
  by (simp add: ptinv_def free_pages_def)

lemma file_range_length: "length (file_range d s v off n) \<le> unat n"
  by (simp add: file_range_def)

lemma load_vma_page_mapped:
  fixes t :: "'x fs_state_scheme"
  assumes inv: "ptinv s pt (pg # ps)" and t: "mem t = store_bytes (memset (mem s) pg 0 4096) pg bs"
      "freelist t = load64 (mem s) pg" "kernel_end t = kernel_end s" "procs t = procs s" "op_inv d p 0 t" "view d t = view d s"
    and bs: "length bs \<le> 4096" and va: "aligned va" "va < MAXVA" "\<not> pte_v (pte_of (mem s) pt va)"
  shows "wp env (bindM (mappages pt va PGSIZE pg flags) (\<lambda>ok. whenM (\<not> ok) (doM [kfree pg, set_killed p])))
    (\<lambda>_ u. op_inv d p 0 u \<and> view d u = view d s \<and> (fault_failed p pt s u \<or> fault_mapped pt va pg flags bs s u)) t"
proof -
  have out: "mem t x = mem s x" if "\<not> in_page pg x" for x
    using that bs by (auto simp: t(1) store_bytes_def memset_page in_page_def)
  note tk = ptinv_take_page [OF inv t(2,3) out]
  have h: "held t = {}" using op_inv_quiet [OF t(5)] by simp
  have pg: "aligned pg" "pg mod PGSIZE = 0" "kernel_end s \<le> pg" "pg < PHYSTOP"
    using tk(5) by (simp_all add: page_ok_def aligned_def)
  have "wp env (mappages pt va PGSIZE pg flags) (\<lambda>ok. wp env (whenM (\<not> ok) (doM [kfree pg, set_killed p]))
    (\<lambda>_ u. op_inv d p 0 u \<and> view d u = view d s \<and> (fault_failed p pt s u \<or> fault_mapped pt va pg flags bs s u))) t"
  proof (rule wp_map_page [OF tk(1) _ va(1,2)])
    fix u qs
    assume u: "mem_only t u" "ptinv u pt qs" "\<And>vb. vb < MAXVA \<Longrightarrow> pte_of (mem u) pt vb =
        (if PGROUNDDOWN vb = va then PA2PTE pg OR flags OR PTE_V else pte_of (mem t) pt vb)"
      "\<And>x. \<forall>a\<in>table_pages (mem t) pt \<union> set ps. \<not> in_page a x \<Longrightarrow> mem u x = mem t x"
    note mo = op_inv_mem_only [OF u(1)]
    have "aligned a \<and> a \<noteq> pg" if "a \<in> table_pages (mem t) pt \<union> set ps" for a
      using that inv tk(3,4,6) by (auto simp: ptinv_def free_pages_def page_ok_def)
    then have "mem u x = mem t x" if "in_page pg x" for x
      using u(4) in_page_unique [OF _ pg(1) _ that] by blast
    moreover have "in_page pg (pg + of_nat i)" if "i < 4096" for i
      using that by (simp add: in_page_def unat_of_nat take_bit_nat_eq_self_iff)
    ultimately have "load_bytes (mem u) pg 4096 = load_bytes (mem t) pg 4096" by (simp add: load_bytes_def)
    then have "fault_mapped pt va pg flags bs s u"
      using u(2,3) mo(3) t(4) load_bytes_filled [OF bs, of "mem s" pg, folded t(1)] by (auto simp: fault_mapped_def tk(2))
    then show "wp env (whenM (\<not> True) (doM [kfree pg, set_killed p]))
      (\<lambda>_ u. op_inv d p 0 u \<and> view d u = view d s \<and> (fault_failed p pt s u \<or> fault_mapped pt va pg flags bs s u)) u"
      using mo t by (simp add: wp_simps)
  next
    fix u
    assume u: "mem_only t u" "ptinv u pt []" "\<And>vb. vb < MAXVA \<Longrightarrow> pte_of (mem u) pt vb = pte_of (mem t) pt vb"
      "table_pages (mem u) pt \<subseteq> table_pages (mem t) pt \<union> set ps"
    note mo = op_inv_mem_only [OF u(1)]
    let ?v = "u\<lparr>mem := store64 (memset (mem u) pg 1 4096) pg (freelist u), freelist := pg\<rparr>"
    have "page_ok (kernel_end u) pg" "pg \<notin> table_pages (mem u) pt"
      using tk(3-6) u(4) mo(5) t(3) by auto
    note gv = ptinv_give_page [OF u(2) this(1) _ this(2)]
    have "fault_failed p pt s (killed p ?v)"
      using gv u(3) tk(2) ptinv_killed [where p = p and s = ?v and pt = pt and ps = "[pg]"] by (auto simp: fault_failed_def)
    moreover have "op_inv d p 0 (killed p ?v)" "view d (killed p ?v) = view d s"
      using mo t(5,6) op_inv_killed(1) [where p = p and s = ?v and d = d and k = 0] op_inv_killed(2) [where p = p and s = ?v and d = d] by simp_all
    ultimately show "wp env (whenM (\<not> False) (doM [kfree pg, set_killed p]))
      (\<lambda>_ u. op_inv d p 0 u \<and> view d u = view d s \<and> (fault_failed p pt s u \<or> fault_mapped pt va pg flags bs s u)) u"
      using mo pg h t(3) by (simp add: wp_when wp_doM_Cons wp_doM_Nil wp_kfree wp_set_killed)
  qed (use h va(3) tk(2) in auto)
  then show ?thesis by (simp add: wp_bind)
qed

lemma wp_load_vma_page:
  fixes s :: "'x file_state_scheme"
  assumes dev: "virtio_device dev" and op: "op_inv d p 0 s" and pt: "pt = p_pagetable (procs s p)" "ptinv s pt ps"
    and ip: "ip = f_ip (files s (vma_f m))" "allocated d s (inodes s ip)" "1 \<le> i_ref (inodes s ip)" "i_valid (inodes s ip)"
      "\<not> sl_locked (slocks s (SL_inode ip))"
    and va: "va = PGROUNDDOWN va0" "va < MAXVA" "\<not> pte_v (pte_of (mem s) pt va)"
  defines "bs \<equiv> file_range d s (inodes s ip) (ucast (va - vma_addr m)) 4096"
  shows "wp (irq_env dev) (load_vma_page p m va0) (\<lambda>_ t. op_inv d p 0 t \<and> view d t = view d s \<and>
    (fault_failed p pt s t \<or> ps \<noteq> [] \<and> fault_mapped pt va (hd ps) (prot_flags (vma_prot m)) bs s t)) s"
proof (cases ps)
  case Nil
  have h: "L_kmem \<notin> held s" using op_inv_quiet [OF op] by simp
  have "freelist s = 0" using pt(2) Nil by (simp add: ptinv_def free_pages_def)
  moreover have "fault_failed p pt s (killed p s)"
    using pt(2) Nil ptinv_killed [where p = p and s = s and pt = pt and ps = "[]"] by (auto simp: fault_failed_def)
  ultimately show ?thesis
    using h op_inv_killed(1) [OF op] op_inv_killed(2) [where p = p and s = s and d = d]
    by (simp add: load_vma_page_def Let_def wp_bind wp_kalloc wp_set_killed)
next
  case (Cons pg qs)
  have h: "L_kmem \<notin> held s" using op_inv_quiet [OF op] by simp
  have fl: "freelist s = pg" "pg \<noteq> 0" using pt(2) Cons by (auto simp: ptinv_def free_pages_def)
  let ?s = "s\<lparr>freelist := load64 (mem s) pg, mem := memset (mem s) pg 0 4096\<rparr>"
  let ?Q = "\<lambda>t. op_inv d p 0 t \<and> view d t = view d s \<and>
    (fault_failed p pt s t \<or> ps \<noteq> [] \<and> fault_mapped pt va (hd ps) (prot_flags (vma_prot m)) bs s t)"
  have al: "allocated d ?s (inodes ?s ip)" "file_range d ?s (inodes ?s ip) (ucast (va - vma_addr m)) 4096 = bs"
    using ip(2) allocated_cong [of d ?s s] file_bytes_cong [of d ?s s] by (simp_all add: file_range_def bs_def)
  have "wp (irq_env dev) (ilock ip) (\<lambda>_. wp (irq_env dev) (bindM (readi ip (To_page pg) (ucast (va - vma_addr m)) 4096) (\<lambda>_. skipM))
    (\<lambda>_. wp (irq_env dev) (iunlock ip) (\<lambda>_. wp (irq_env dev) (getM (\<lambda>s. p_pagetable (procs s p))) (\<lambda>pt.
      wp (irq_env dev) (bindM (mappages pt va PGSIZE pg (prot_flags (vma_prot m))) (\<lambda>ok. whenM (\<not> ok) (doM [kfree pg, set_killed p])))
        (\<lambda>_. ?Q))))) ?s"
  proof (rule wp_read_page [OF dev, of d p])
    fix t :: "'x file_state_scheme"
    assume t: "op_inv d p 0 t" "view d t = view d ?s" "procs t = procs ?s" "freelist t = freelist ?s"
      "kernel_end t = kernel_end ?s" "mem t = store_bytes (mem ?s) pg (file_range d ?s (inodes ?s ip) (ucast (va - vma_addr m)) 4096)"
    have "length bs \<le> 4096" using file_range_length [of d s "inodes s ip" _ 4096] by (simp add: bs_def)
    moreover have "aligned va" by (simp add: va(1) aligned_def PGROUNDDOWN_aligned)
    ultimately have "wp (irq_env dev) (bindM (mappages pt va PGSIZE pg (prot_flags (vma_prot m)))
        (\<lambda>ok. whenM (\<not> ok) (doM [kfree pg, set_killed p]))) (\<lambda>_ u. op_inv d p 0 u \<and> view d u = view d s \<and>
          (fault_failed p pt s u \<or> fault_mapped pt va pg (prot_flags (vma_prot m)) bs s u)) t"
      using pt(2) Cons t al(2) va(2,3) by (intro load_vma_page_mapped) simp_all
    then show "wp (irq_env dev) (getM (\<lambda>s. p_pagetable (procs s p))) (\<lambda>pt.
      wp (irq_env dev) (bindM (mappages pt va PGSIZE pg (prot_flags (vma_prot m))) (\<lambda>ok. whenM (\<not> ok) (doM [kfree pg, set_killed p])))
        (\<lambda>_. ?Q)) t"
      using t(3) pt(1) Cons by (simp add: wp_get)
  qed (use op ip al in simp_all)
  then show ?thesis
    using h fl ip(1) va(1)
    by (simp add: load_vma_page_def Let_def wp_bind wp_kalloc wp_seq wp_mod wp_get wp_doM_Cons wp_doM_Nil memset_memset)
qed

text \<open>
  C6. A page fault on a mapped file: on a page of a valid mapping that is not mapped yet, the
  handler returns, leaving the disk's blocks and the buffer cache as they were, and either kills
  the process, when memory has run out, with its address space unchanged; or maps the page, with
  the permissions of the mapping, to a free frame that holds the bytes of the file at the distance
  of the page from the start of the mapping, up to the end of the file, and zeros after them. No
  other page changes. The offset passed to \<open>mmap\<close> plays no part.
\<close>

theorem user_page_fault_correct:
  fixes s :: "'x file_state_scheme"
  assumes "virtio_device dev" "op_inv d p 0 s" "pt = p_pagetable (procs s p)" "ptinv s pt ps"
    and "find (\<lambda>i. vma_valid (p_vma (procs s p) i) \<and> vma_covers (p_vma (procs s p) i) va) [0..<VMASIZE] = Some i"
    and "m = p_vma (procs s p) i" "ip = f_ip (files s (vma_f m))"
    and "va < p_sz (procs s p)" "va < MAXVA"
    and "PGROUNDUP va \<noteq> PGROUNDDOWN (load64 (mem s) (p_trapframe (procs s p) + tf_sp))"
    and "\<not> pte_v (pte_of (mem s) pt (PGROUNDDOWN va))"
    and "allocated d s (inodes s ip)" "1 \<le> i_ref (inodes s ip)" "i_valid (inodes s ip)" "\<not> sl_locked (slocks s (SL_inode ip))"
  shows "\<exists>t. user_page_fault p va (irq_env dev) s = Done () t \<and> op_inv d p 0 t \<and> view d t = view d s \<and>
    (fault_failed p pt s t \<or> ps \<noteq> [] \<and> fault_mapped pt (PGROUNDDOWN va) (hd ps) (prot_flags (vma_prot m))
       (file_range d s (inodes s ip) (ucast (PGROUNDDOWN va - vma_addr m)) 4096) s t)"
proof -
  have "PGROUNDDOWN va < MAXVA" using assms(9) PGROUNDDOWN_le [of va] by (rule le_less_trans [rotated])
  then have "wp (irq_env dev) (load_vma_page p m va) (\<lambda>_ t. op_inv d p 0 t \<and> view d t = view d s \<and>
    (fault_failed p pt s t \<or> ps \<noteq> [] \<and> fault_mapped pt (PGROUNDDOWN va) (hd ps) (prot_flags (vma_prot m))
       (file_range d s (inodes s ip) (ucast (PGROUNDDOWN va - vma_addr m)) 4096) s t)) s"
    using assms by (intro wp_load_vma_page) simp_all
  moreover have "\<not> (va \<ge> p_sz (procs s p) \<or> va > MAXVA \<or>
      PGROUNDUP va = PGROUNDDOWN (load64 (mem s) (p_trapframe (procs s p) + tf_sp)))"
    using assms(8-10) by auto
  then have "user_page_fault p va (irq_env dev) s = load_vma_page p m va (irq_env dev) s"
    using assms(5,6) by (simp add: user_page_fault_def tf_get_def proc_at_def run_simps)
  ultimately show ?thesis by (simp add: wp_iff)
qed

text \<open>A process with a mapping of two pages of file 0, on the file system above and two free pages.\<close>

definition demo_vma :: vma where
  "demo_vma = zero_vma\<lparr>vma_valid := True, vma_addr := 0x4000, vma_len := 0x2000, vma_prot := PROT_READ, vma_f := 0\<rparr>"

definition demo_user :: file_state where
  "demo_user =
     \<lparr>held = {}, cur = Some 0, procs = (\<lambda>_. zero_proc)(0 := zero_proc\<lparr>p_state := RUNNING, p_pid := 1,
        p_sz := 0x6000, p_pagetable := 0x87FFD000, p_vma := (\<lambda>_. zero_vma)(0 := demo_vma)\<rparr>),
      slocks = (\<lambda>_. \<lparr>sl_locked = False, sl_pid = 0\<rparr>), nextpid = 2, initproc = Some 0,
      mem = mem two_free, freelist = freelist two_free, kernel_end = kernel_end two_free,
      kernel_pagetable = 0, etext = 0, trampoline = 0, satp = 0,
      bufs = ring_bufs False, vq = idle_vq, disk_img = demo_disk, disk_log = [],
      log_start = 2, log_size = 30, log_outstanding = 1, log_committing = False, log_dev = 1,
      lh_n = 0, lh_block = (\<lambda>_. 0), sb = demo_sb, inodes = (\<lambda>_. demo_inode),
      uart_tx_buf = (\<lambda>_. 0), uart_tx_w = 0, uart_tx_r = 0, uart_in = (\<lambda>_ _. 0), uart_nread = 0, uart_log = [],
      panicked = False, pr_locking = True, cons_buf = (\<lambda>_. 0), cons_r = 0, cons_w = 0, cons_e = 0,
      devsw_read = (\<lambda>_. None), devsw_write = (\<lambda>_. None), plic_in = (\<lambda>_. 0), plic_nclaim = 0, plic_log = [], tp = 0,
      files = (\<lambda>_. \<lparr>f_type = FD_INODE, f_ref = 1, f_readable = True, f_writable = True, f_pipe = 0, f_ip = 3, f_off = 0, f_major = 0\<rparr>),
      pipes = (\<lambda>_. \<lparr>pi_data = (\<lambda>_. 0), pi_nread = 0, pi_nwrite = 0, pi_readopen = False, pi_writeopen = False\<rparr>)\<rparr>"

lemma demo_user_sel:
  "held demo_user = {}" "inodes demo_user = (\<lambda>_. demo_inode)" "disk_img demo_user = demo_disk"
  "mem demo_user = mem two_free" "f_ip (files demo_user f) = 3" "slocks demo_user l = \<lparr>sl_locked = False, sl_pid = 0\<rparr>"
  "procs demo_user 0 = zero_proc\<lparr>p_state := RUNNING, p_pid := 1, p_sz := 0x6000, p_pagetable := 0x87FFD000,
     p_vma := (\<lambda>_. zero_vma)(0 := demo_vma)\<rparr>"
  by (simp_all add: demo_user_def)

lemma demo_user_cache: "cache 1 0 {} {} demo_user"
  using ring_lru [of False]
  by (auto simp: cache_def demo_user_def quiet_def idle_def idle_vq_def bufs_ok_def buf_ok_def ring_bufs_def
      zero_proc_def demo_disk_def split: if_splits)

lemma demo_user_op: "op_inv 1 0 0 demo_user"
  using demo_user_cache
  by (auto simp: op_inv_def txn_def homes_def log_geom_def demo_user_def intro!: exI [of _ "{}"])

lemma demo_user_ptinv: "ptinv demo_user 0x87FFD000 [0x87FFE000, 0x87FFF000]"
  using ptinv_two_free by (simp add: ptinv_def free_pages_def demo_user_def)

lemma demo_user_file: "file_range 1 demo_user demo_inode 0 4096 = replicate 5 0" "allocated 1 demo_user demo_inode"
proof -
  have v: "view 1 demo_user bn = demo_disk (unat bn)" for bn
    using view_disk [OF demo_user_cache] by (simp add: demo_user_sel)
  have "file_bytes 1 demo_user demo_inode = replicate 5 0"
    by (simp add: file_bytes_def file_blocks_def demo_inode_def file_addr_def v demo_disk_def)
  then show "file_range 1 demo_user demo_inode 0 4096 = replicate 5 0"
    by (simp add: file_range_def demo_inode_def)
  show "allocated 1 demo_user demo_inode"
    by (simp add: allocated_def demo_inode_def file_blocks_def file_addr_def)
qed

theorem user_page_fault_correct_witness:
  "\<exists>t. user_page_fault 0 0x4123 (irq_env complete_request) demo_user = Done () t \<and>
    (fault_failed 0 0x87FFD000 demo_user t \<or>
     fault_mapped 0x87FFD000 0x4000 0x87FFE000 (PTE_U OR PTE_R) (replicate 5 0) demo_user t)"
proof -
  have r: "PGROUNDDOWN (0x4123 :: u64) = 0x4000" "PGROUNDUP (0x4123 :: u64) = 0x5000" "PGROUNDDOWN (0 :: u64) = 0"
    by (simp_all add: PGROUNDDOWN_def PGROUNDUP_def)
  have c: "find (\<lambda>i. vma_valid (p_vma (procs demo_user 0) i) \<and> vma_covers (p_vma (procs demo_user 0) i) 0x4123) [0..<VMASIZE] = Some 0"
    by (simp add: demo_user_sel upt_rec demo_vma_def vma_covers_def)
  have "load64 (mem two_free) 48 = load64 (\<lambda>_. 0) 48"
    unfolding two_free_def boot_kmem_def
    by (simp add: kbase.defs kmem_state.defs load64_def load_bytes_def upt_rec store64_apply)
  then have sp: "load64 (mem two_free) (p_trapframe zero_proc + 48) = 0"
    by (simp add: zero_proc_def load64_def load_bytes_def of_le_def upt_rec)
  have un: "\<not> pte_v (pte_of (mem demo_user) 0x87FFD000 vb)" for vb
    using empty_two_free(3) by (simp add: demo_user_sel aligned_def pte_v_def)
  have m: "p_vma (procs demo_user 0) 0 = demo_vma" "p_pagetable (procs demo_user 0) = 0x87FFD000" "p_sz (procs demo_user 0) = 0x6000"
    by (simp_all add: demo_user_sel)
  show ?thesis
    using user_page_fault_correct [OF virtio_device_complete_request demo_user_op m(2) [symmetric] demo_user_ptinv c m(1) [symmetric]
        demo_user_sel(5) [symmetric], unfolded r m demo_user_sel, OF _ _ _ un [unfolded demo_user_sel] demo_user_file(2)]
    by (auto simp: sp r demo_vma_def prot_flags_def demo_inode_def demo_user_file(1) [unfolded demo_inode_def])
qed

section \<open>Regions of an address space\<close>

text \<open>The system-call argument \<open>n\<close> of process \<open>p\<close>, and the open file a descriptor argument names.\<close>

abbreviation (input) sysarg :: "'x kmem_state_scheme \<Rightarrow> nat \<Rightarrow> nat \<Rightarrow> u64" where
  "sysarg s p n \<equiv> load64 (mem s) (p_trapframe (procs s p) + (tf_a0 + 8 * of_nat n))"

definition fd_file :: "'x kmem_state_scheme \<Rightarrow> nat \<Rightarrow> u32 \<Rightarrow> nat option" where
  "fd_file s p fd = (if sint fd < 0 \<or> sint fd \<ge> int NOFILE then None else p_ofile (procs s p) (unat fd))"

text \<open>
  The mappings of a process lie below the end of its address space and do not meet. A mapping's
  length is a C \<open>int\<close>.
\<close>

definition regions_ok :: "proc \<Rightarrow> bool" where
  "regions_ok v \<longleftrightarrow> (\<forall>i<VMASIZE. vma_valid (p_vma v i) \<longrightarrow> 0 \<le> sint (vma_len (p_vma v i)) \<and>
       unat (vma_addr (p_vma v i)) + unat (vma_len (p_vma v i)) \<le> unat (p_sz v)) \<and>
     (\<forall>i<VMASIZE. \<forall>j<VMASIZE. \<forall>va. vma_valid (p_vma v i) \<and> vma_covers (p_vma v i) va \<and>
       vma_valid (p_vma v j) \<and> vma_covers (p_vma v j) va \<longrightarrow> i = j)"

lemma sint_unat: "0 \<le> sint (x :: u32) \<Longrightarrow> sint x = int (unat x)"
proof -
  assume "0 \<le> sint x"
  moreover have "sint x < 2 ^ 31" using sint_less [of x] by simp
  ultimately have "take_bit 32 (sint x) = sint x" by (simp add: take_bit_int_eq_self)
  then show ?thesis using uint_sint [of x] by simp
qed

lemma unat_sint: "unat (x :: u32) < 2 ^ 31 \<Longrightarrow> sint x = int (unat x)"
proof -
  assume "unat x < 2 ^ 31"
  then have "int (unat x) < int (2 ^ 31)" by (simp only: of_nat_less_iff)
  then have "uint x < 2 ^ 31" by simp
  moreover have "- (2 ^ 31) \<le> uint x" by (rule order_trans [of _ 0]) simp_all
  ultimately have "signed_take_bit 31 (uint x) = uint x" by (intro signed_take_bit_int_eq_self)
  then show ?thesis by (simp add: sint_uint)
qed

lemma sint_nonneg_bound: "0 \<le> sint (x :: u32) \<Longrightarrow> unat x < 2 ^ 31"
proof -
  assume "0 \<le> sint x"
  then have "int (unat x) < int (2 ^ 31)" using sint_unat [of x] sint_less [of x] by simp
  then show ?thesis by (simp only: of_nat_less_iff)
qed

lemma scast_nonneg: "0 \<le> sint (x::u32) \<Longrightarrow> unat (scast x :: u64) = unat x"
proof -
  assume "0 \<le> sint x"
  then have "scast x = (of_int (int (unat x)) :: u64)" by (simp only: scast_eq sint_unat)
  then have "scast x = (of_nat (unat x) :: u64)" by (simp only: of_int_of_nat_eq)
  moreover have "unat x < 2 ^ 32" using unsigned_less [of x] by simp
  ultimately show ?thesis by (simp only: unat_of_nat) (simp add: take_bit_nat_eq_self)
qed

lemma pgroundup_int_nonneg:
  assumes "0 < sint len" "sint len \<le> 2 ^ 31 - 4096"
  shows "0 \<le> sint (pgroundup_int len)"
proof -
  have "sint len = int (unat len)" using assms(1) by (intro sint_unat) simp
  then have "int (unat len) \<le> int (2 ^ 31 - 4096)" using assms(2) by simp
  then have l: "unat len \<le> 2 ^ 31 - 4096" by (simp only: of_nat_le_iff)
  have "len + 4096 - 1 = len + of_nat 4095" by simp
  moreover have "unat (len + of_nat 4095) = unat len + 4095" using l by (simp add: unat_word_ariths)
  ultimately have "unat (len + 4096 - 1) < 2 ^ 31" using l by (simp add: add.commute)
  moreover have "unat (pgroundup_int len) \<le> unat (len + 4096 - 1)"
    unfolding pgroundup_int_def word_le_nat_alt [symmetric] by (rule word_and_le2)
  ultimately show ?thesis using unat_sint [of "pgroundup_int len"] by linarith
qed

lemma sys_mmap_run:
  fixes s :: "'x file_state_scheme"
  assumes "cur s = Some p" "L_ftable \<notin> held s" "\<And>f. fd_file s p (ucast (sysarg s p 4)) = Some f \<Longrightarrow> 1 \<le> f_ref (files s f)"
  defines "len \<equiv> pgroundup_int (ucast (sysarg s p 1))" and "v \<equiv> procs s p"
  shows "sys_mmap env s = (case fd_file s p (ucast (sysarg s p 4)) of None \<Rightarrow> Done (- 1) s | Some f \<Rightarrow>
     if \<not> f_writable (files s f) \<and> ucast (sysarg s p 2) AND PROT_WRITE \<noteq> 0 \<and> ucast (sysarg s p 3) = MAP_SHARED \<or>
       p_sz v > MAXVA - scast len then Done (- 1) s
     else case find (\<lambda>i. \<not> vma_valid (p_vma v i)) [0..<VMASIZE] of None \<Rightarrow> Done (- 1) s | Some i \<Rightarrow>
       Done (p_sz v) (s\<lparr>files := (files s)(f := (files s f)\<lparr>f_ref := f_ref (files s f) + 1\<rparr>),
         procs := (procs s)(p := v\<lparr>p_vma := (p_vma v)(i := (p_vma v i)\<lparr>vma_valid := True,
           vma_addr := p_sz v, vma_len := len, vma_f := f, vma_prot := ucast (sysarg s p 2),
           vma_flags := ucast (sysarg s p 3), vma_offset := ucast (sysarg s p 5)\<rparr>), p_sz := p_sz v + scast len\<rparr>)\<rparr>))"
proof -
  have int: "bindM (argint n) g env s = g (ucast (sysarg s p n)) env s" if "n < 6" for n g
    using that assms(1) by (simp add: argint_def argraw_def myproc_def tf_get_def run_simps)
  have fd: "bindM (argfd 4) g env s =
      g (map_option (\<lambda>f. (unat (ucast (sysarg s p 4) :: u32), f)) (fd_file s p (ucast (sysarg s p 4)))) env s" for g
    using assms(1) by (simp add: argfd_def int myproc_def proc_at_def run_simps fd_file_def)
  show ?thesis
  proof (cases "fd_file s p (ucast (sysarg s p 4))")
    case None
    then show ?thesis by (simp add: sys_mmap_def int fd run_simps)
  next
    case (Some f)
    then show ?thesis
      using assms(1,2,3)
      by (simp add: sys_mmap_def int fd file_at_def myproc_def proc_at_def run_simps Let_def v_def len_def mmap_vma_def upd_vma_def
          upd_proc_def upd_file_def filedup_def split: option.split cong: if_cong option.case_cong)
  qed
qed

lemma covers_below:
  assumes "0 \<le> sint (vma_len m)" "unat (vma_addr m) + unat (vma_len m) \<le> n" "n < 2 ^ 64" "vma_covers m va"
  shows "unat va < n"
proof -
  have "unat (vma_addr m + scast (vma_len m)) = unat (vma_addr m) + unat (vma_len m)"
    using assms(1-3) by (simp add: unat_word_ariths scast_nonneg)
  then show ?thesis using assms(2,4) by (simp add: vma_covers_def word_less_nat_alt)
qed

lemma regions_ok_add:
  assumes v: "regions_ok v" and i: "\<not> vma_valid (p_vma v i)" and m: "vma_addr m = p_sz v" "0 \<le> sint (vma_len m)"
    and sz: "unat (p_sz v) + unat (vma_len m) \<le> 2 ^ 38"
  shows "regions_ok (v\<lparr>p_vma := (p_vma v)(i := m), p_sz := p_sz v + scast (vma_len m)\<rparr>)"
proof -
  have add: "unat (p_sz v + scast (vma_len m)) = unat (p_sz v) + unat (vma_len m)"
    using sz m(2) by (simp add: unat_word_ariths scast_nonneg)
  have old: "0 \<le> sint (vma_len (p_vma v j)) \<and> unat (vma_addr (p_vma v j)) + unat (vma_len (p_vma v j)) \<le> unat (p_sz v)"
    if "j < VMASIZE" "vma_valid (p_vma v j)" for j
    using v that by (simp add: regions_ok_def)
  have below: "unat va < unat (p_sz v)" if "j < VMASIZE" "vma_valid (p_vma v j)" "vma_covers (p_vma v j) va" for j va
    using covers_below [of "p_vma v j" _ va] old that unat_u64 [of "p_sz v"] by blast
  have above: "unat (p_sz v) \<le> unat va" if "vma_covers m va" for va
    using that by (simp add: vma_covers_def m(1) word_le_nat_alt)
  have "False" if "j < VMASIZE" "vma_valid (p_vma v j)" "vma_covers (p_vma v j) va" "vma_covers m va" for j va
    using below [OF that(1-3)] above [OF that(4)] by simp
  then show ?thesis
    using v m add old unfolding regions_ok_def by (auto intro: le_trans [OF _ le_add1])
qed

text \<open>
  C19. \<open>mmap\<close> of a positive length either fails and changes nothing, or takes a free slot of the
  mapping table, counts one more reference to the file, and returns the old end of the address
  space: the new region lies from there to the new end, which is still at most \<open>MAXVA\<close>, and the
  regions of the process still do not meet.
\<close>

theorem mmap_keeps_regions:
  fixes s :: "'x file_state_scheme"
  assumes "cur s = Some p" "L_ftable \<notin> held s" "regions_ok (procs s p)"
    and "\<forall>f. fd_file s p (ucast (sysarg s p 4)) = Some f \<longrightarrow> 1 \<le> f_ref (files s f)"
    and "p_sz (procs s p) \<le> MAXVA"
    and "0 < sint (ucast (sysarg s p 1) :: u32)" "sint (ucast (sysarg s p 1) :: u32) \<le> 2 ^ 31 - 4096"
  shows "sys_mmap env s = Done (- 1) s \<or>
    (\<exists>t i f. sys_mmap env s = Done (p_sz (procs s p)) t \<and> regions_ok (procs t p) \<and> i < VMASIZE \<and>
      \<not> vma_valid (p_vma (procs s p) i) \<and> vma_valid (p_vma (procs t p) i) \<and> p_sz (procs t p) \<le> MAXVA \<and>
      (\<forall>va. vma_covers (p_vma (procs t p) i) va \<longleftrightarrow> p_sz (procs s p) \<le> va \<and> va < p_sz (procs t p)) \<and>
      vma_f (p_vma (procs t p) i) = f \<and> f_ref (files t f) = f_ref (files s f) + 1)"
proof -
  let ?v = "procs s p" and ?len = "pgroundup_int (ucast (sysarg s p 1))"
  have len: "0 \<le> sint ?len" by (rule pgroundup_int_nonneg [OF assms(6,7)])
  note run = sys_mmap_run [OF assms(1,2), of env] assms(4)
  consider "sys_mmap env s = Done (- 1) s"
    | f i where "fd_file s p (ucast (sysarg s p 4)) = Some f" "find (\<lambda>i. \<not> vma_valid (p_vma ?v i)) [0..<VMASIZE] = Some i"
      "\<not> p_sz ?v > MAXVA - scast ?len"
      "sys_mmap env s = Done (p_sz ?v) (s\<lparr>files := (files s)(f := (files s f)\<lparr>f_ref := f_ref (files s f) + 1\<rparr>),
         procs := (procs s)(p := ?v\<lparr>p_vma := (p_vma ?v)(i := (p_vma ?v i)\<lparr>vma_valid := True,
           vma_addr := p_sz ?v, vma_len := ?len, vma_f := f, vma_prot := ucast (sysarg s p 2),
           vma_flags := ucast (sysarg s p 3), vma_offset := ucast (sysarg s p 5)\<rparr>), p_sz := p_sz ?v + scast ?len\<rparr>)\<rparr>)"
    using run by (auto split: option.splits if_splits)
  then show ?thesis
  proof cases
    case (2 f i)
    let ?m = "(p_vma ?v i)\<lparr>vma_valid := True, vma_addr := p_sz ?v, vma_len := ?len, vma_f := f,
        vma_prot := ucast (sysarg s p 2), vma_flags := ucast (sysarg s p 3), vma_offset := ucast (sysarg s p 5)\<rparr>"
    have i: "i < VMASIZE" "\<not> vma_valid (p_vma ?v i)" using 2(2) by (simp_all add: find_upt_Some)
    have "unat (scast ?len :: u64) < 2 ^ 31" using sint_nonneg_bound [OF len] by (simp only: scast_nonneg [OF len])
    then have "unat (MAXVA - scast ?len) = 2 ^ 38 - unat ?len"
      using len by (subst unat_sub) (simp_all add: word_le_nat_alt scast_nonneg)
    then have sz: "unat (p_sz ?v) + unat ?len \<le> 2 ^ 38"
      using 2(3) \<open>unat (scast ?len :: u64) < 2 ^ 31\<close> len by (simp add: word_less_nat_alt scast_nonneg)
    have "unat (p_sz ?v + scast ?len) = unat (p_sz ?v) + unat ?len"
      using sz len by (simp add: unat_word_ariths scast_nonneg)
    then have "p_sz ?v + scast ?len \<le> MAXVA" using sz by (simp add: word_le_nat_alt)
    moreover have "regions_ok (?v\<lparr>p_vma := (p_vma ?v)(i := ?m), p_sz := p_sz ?v + scast ?len\<rparr>)"
      using regions_ok_add [OF assms(3) i(2), of ?m] len sz by simp
    ultimately show ?thesis
      using 2(4) i by (intro disjI2) (auto simp: vma_covers_def)
  qed simp
qed

text \<open>The same process about to map \<open>len\<close> bytes of the file behind descriptor 0.\<close>

definition demo_call :: "u64 \<Rightarrow> file_state" where
  "demo_call len = demo_user\<lparr>mem := store64 (\<lambda>_. 0) 120 len,
     procs := (procs demo_user)(0 := (procs demo_user 0)\<lparr>p_ofile := (\<lambda>_. None)(0 := Some 0)\<rparr>)\<rparr>"

lemma demo_call_facts:
  "cur (demo_call len) = Some 0" "held (demo_call len) = {}" "sysarg (demo_call len) 0 1 = len"
  "sysarg (demo_call len) 0 2 = 0" "sysarg (demo_call len) 0 4 = 0" "fd_file (demo_call len) 0 0 = Some 0"
  "files (demo_call len) f = \<lparr>f_type = FD_INODE, f_ref = 1, f_readable = True, f_writable = True, f_pipe = 0, f_ip = 3,
     f_off = 0, f_major = 0\<rparr>" "p_sz (procs (demo_call len) 0) = 0x6000"
  "vma_valid (p_vma (procs (demo_call len) 0) i) \<longleftrightarrow> i = 0" "p_vma (procs (demo_call len) 0) 0 = demo_vma"
proof -
  have m: "mem (demo_call len) = store64 (\<lambda>_. 0) 120 len" by (simp add: demo_call_def)
  have tf: "p_trapframe (procs (demo_call len) 0) = 0" by (simp add: demo_call_def demo_user_def zero_proc_def)
  show "sysarg (demo_call len) 0 1 = len" by (simp add: m tf load64_store64_same)
  show "sysarg (demo_call len) 0 2 = 0" "sysarg (demo_call len) 0 4 = 0"
    by (simp_all add: m tf load64_def load_bytes_def upt_rec store64_apply of_le_def)
qed (simp_all add: demo_call_def demo_user_def fd_file_def demo_vma_def zero_vma_def zero_proc_def)

theorem mmap_keeps_regions_witness:
  "\<exists>t. sys_mmap id (demo_call 5000) = Done 0x6000 t \<and> regions_ok (procs t 0)"
proof -
  let ?s = "demo_call 5000"
  note df = demo_call_facts demo_call_facts(3-5) [simplified]
  have "regions_ok (procs ?s 0)"
    unfolding regions_ok_def demo_call_facts by (auto simp: demo_call_facts demo_vma_def)
  then have "sys_mmap id ?s = Done (- 1) ?s \<or> (\<exists>t. sys_mmap id ?s = Done 0x6000 t \<and> regions_ok (procs t 0))"
    using mmap_keeps_regions [of ?s 0 id] by (auto simp: df)
  moreover have "find (\<lambda>i. \<not> vma_valid (p_vma (procs ?s 0) i)) [0..<VMASIZE] = Some 1"
    unfolding demo_call_facts by (simp add: upt_rec)
  then have "\<exists>t. sys_mmap id ?s = Done 0x6000 t"
    by (simp add: sys_mmap_run [where p = 0] df pgroundup_int_def)
  ultimately show ?thesis by auto
qed

text \<open>Rounding a negative length, which brings it closer to 0.\<close>

lemma round_down_12:
  fixes a b :: u32
  assumes "unat b < 4096"
  shows "(push_bit 12 a + b) AND NOT (mask 12) = push_bit 12 a"
proof -
  have b: "b = take_bit 12 b"
    using assms by (intro word_unat_eq_iff [THEN iffD2]) (simp add: unsigned_take_bit_eq take_bit_nat_eq_self)
  have low: "i < 12" if "bit b i" for i using that b by (metis bit_take_bit_iff)
  have "push_bit 12 a AND b = 0" by (rule bit_word_eqI) (auto simp: bit_simps dest: low)
  then have eq: "push_bit 12 a + b = push_bit 12 a OR b" by (rule disjunctive_add_eq_or)
  show ?thesis unfolding eq by (rule bit_word_eqI) (auto simp: bit_simps dest: low)
qed

lemma pgroundup_int_neg: "pgroundup_int (- of_nat n) = - of_nat (4096 * (n div 4096))"
proof -
  define q r where "q = n div 4096" and "r = n mod 4096"
  have n: "n = 4096 * q + r" and r: "r < 4096" by (simp_all add: q_def r_def)
  have "- of_nat n + 4096 - 1 = push_bit 12 (- of_nat q) + (of_nat (4095 - r) :: u32)"
    using r by (simp add: n push_bit_eq_mult of_nat_diff)
  moreover have "unat (of_nat (4095 - r) :: u32) < 4096" by (simp add: unat_of_nat take_bit_nat_eq_self)
  ultimately have "(- of_nat n + 4096 - 1) AND NOT (mask 12) = (push_bit 12 (- of_nat q) :: u32)"
    using round_down_12 by simp
  then show ?thesis by (simp add: pgroundup_int_def mask_numeral push_bit_eq_mult q_def)
qed

lemma sint_neg:
  assumes "m \<le> 2 ^ 31"
  shows "sint (- of_nat m :: u32) = - int m"
proof -
  have "int m \<le> int (2 ^ 31)" using assms by (simp only: of_nat_le_iff)
  then have "signed_take_bit 31 (- int m) = - int m" by (intro signed_take_bit_int_eq_self) simp_all
  moreover have "(- of_nat m :: u32) = of_int (- int m)" by simp
  ultimately show ?thesis by (simp only: signed_of_int) simp
qed

text \<open>What the arithmetic of \<open>sys_mmap\<close> makes of the length \<open>-n\<close> and the size \<open>sz\<close>.\<close>

lemma negative_length:
  fixes x :: u32 and sz :: u64
  assumes x: "sint x = - int n" and sz: "sz \<le> MAXVA" "4096 * (n div 4096) \<le> unat sz"
  shows "\<not> sz > MAXVA - scast (pgroundup_int x)"
    and "unat (sz + scast (pgroundup_int x)) = unat sz - 4096 * (n div 4096)"
proof -
  let ?k = "4096 * (n div 4096)"
  have "- (2 ^ 31) \<le> sint x" using sint_ge [of x] by simp
  then have "int n \<le> int (2 ^ 31)" using x by simp
  then have n: "n \<le> 2 ^ 31" by (simp only: of_nat_le_iff)
  have k: "?k \<le> n" by simp
  have "sint x = sint (- of_nat n :: u32)" using sint_neg [OF n] x by simp
  then have arg: "x = - of_nat n" by (simp only: signed_word_eqI)
  have "sint (- of_nat ?k :: u32) = - int ?k" using n k by (intro sint_neg) linarith
  then have len: "scast (pgroundup_int x) = (- of_nat ?k :: u64)"
    unfolding arg pgroundup_int_neg scast_eq by (simp only: of_int_minus of_int_of_nat_eq)
  have K: "unat (of_nat ?k :: u64) = ?k" using n k by (simp only: unat_of_nat) (simp add: take_bit_nat_eq_self)
  have "unat sz \<le> 2 ^ 38" using sz(1) by (simp add: word_le_nat_alt)
  moreover have "unat (MAXVA + of_nat ?k) = 2 ^ 38 + ?k" using n k K by (simp add: unat_word_ariths)
  ultimately show "\<not> sz > MAXVA - scast (pgroundup_int x)" unfolding len by (simp add: word_less_nat_alt)
  have "unat (sz - of_nat ?k) = unat sz - ?k" using sz(2) K by (subst unat_sub) (simp_all add: word_le_nat_alt)
  then show "unat (sz + scast (pgroundup_int x)) = unat sz - ?k" unfolding len by simp
qed

text \<open>
  C20. A negative length gets through: \<open>mmap\<close> of \<open>-n\<close> bytes, for any \<open>n > 0\<close>, of a file that is open
  for writing succeeds while a slot of the mapping table is free. The new region is valid and
  contains no address, and the end of the address space moves down by the whole pages in \<open>n\<close> into
  the memory of the process, which must have that many, although nothing is unmapped.
\<close>

theorem mmap_negative_length:
  fixes s :: "'x file_state_scheme"
  assumes "cur s = Some p" "L_ftable \<notin> held s" "fd_file s p (ucast (sysarg s p 4)) = Some f"
    and "1 \<le> f_ref (files s f)" "f_writable (files s f)" "i < VMASIZE" "\<not> vma_valid (p_vma (procs s p) i)"
    and "p_sz (procs s p) \<le> MAXVA" "sint (ucast (sysarg s p 1) :: u32) = - int n" "0 < n"
    and "4096 * (n div 4096) \<le> unat (p_sz (procs s p))"
  shows "\<exists>t j. sys_mmap env s = Done (p_sz (procs s p)) t \<and> j < VMASIZE \<and> \<not> vma_valid (p_vma (procs s p) j) \<and>
    vma_valid (p_vma (procs t p) j) \<and> vma_f (p_vma (procs t p) j) = f \<and> (\<forall>va. \<not> vma_covers (p_vma (procs t p) j) va) \<and>
    unat (p_sz (procs t p)) = unat (p_sz (procs s p)) - 4096 * (n div 4096) \<and>
    mem t = mem s \<and> p_pagetable (procs t p) = p_pagetable (procs s p)"
proof -
  let ?v = "procs s p" and ?len = "pgroundup_int (ucast (sysarg s p 1))"
  note size = negative_length [OF assms(9,8,11)]
  obtain j where j: "find (\<lambda>i. \<not> vma_valid (p_vma ?v i)) [0..<VMASIZE] = Some j"
    using assms(6,7) by (cases "find (\<lambda>i. \<not> vma_valid (p_vma ?v i)) [0..<VMASIZE]") (auto simp: find_upt_None)
  let ?t = "s\<lparr>files := (files s)(f := (files s f)\<lparr>f_ref := f_ref (files s f) + 1\<rparr>),
         procs := (procs s)(p := ?v\<lparr>p_vma := (p_vma ?v)(j := (p_vma ?v j)\<lparr>vma_valid := True,
           vma_addr := p_sz ?v, vma_len := ?len, vma_f := f, vma_prot := ucast (sysarg s p 2),
           vma_flags := ucast (sysarg s p 3), vma_offset := ucast (sysarg s p 5)\<rparr>), p_sz := p_sz ?v + scast ?len\<rparr>)\<rparr>"
  have "sys_mmap env s = Done (p_sz ?v) ?t"
    using sys_mmap_run [OF assms(1,2), of env, unfolded assms(3)] assms(4,5) size(1) j by simp
  moreover have "j < VMASIZE" "\<not> vma_valid (p_vma ?v j)" using j by (simp_all add: find_upt_Some)
  moreover have "\<not> vma_covers (p_vma (procs ?t p) j) va" for va
    using size(2) by (auto simp: vma_covers_def word_le_nat_alt word_less_nat_alt)
  moreover have "unat (p_sz (procs ?t p)) = unat (p_sz ?v) - 4096 * (n div 4096)" using size(2) by simp
  ultimately show ?thesis by (intro exI [of _ ?t] exI [of _ j]) simp
qed

theorem mmap_negative_length_witness:
  "\<exists>t j. sys_mmap id (demo_call (- 5000)) = Done 0x6000 t \<and> vma_valid (p_vma (procs t 0) j) \<and>
    (\<forall>va. \<not> vma_covers (p_vma (procs t 0) j) va) \<and> unat (p_sz (procs t 0)) = 0x5000"
  using mmap_negative_length [of "demo_call (- 5000)" 0 0 1 5000 id] by (auto simp: demo_call_facts demo_call_facts(3-5) [simplified])

end
