(* ===== verification/Pipes.thy ===== *)
theory Pipes
  imports Mmap Usermem
begin

text \<open>
  Pipes as queues of bytes, \<^verbatim>\<open>kernel/pipe.c\<close>. The counters \<open>nread\<close> and \<open>nwrite\<close> run freely
  and wrap around at \<open>2^32\<close>, a multiple of \<open>PIPESIZE\<close>; the buffer holds the bytes between them.
  \<open>pipe_queue\<close> lifts the ring to the list of its bytes, and the two loops are shown to append to
  and take from that list.
\<close>

section \<open>The ring buffer\<close>

definition pipe_queue :: "pipe \<Rightarrow> u8 list" where
  "pipe_queue v = map (\<lambda>i. pi_data v (unat (pi_nread v + of_nat i) mod PIPESIZE)) [0..<unat (pi_nwrite v - pi_nread v)]"

definition pipe_ok :: "pipe \<Rightarrow> bool" where
  "pipe_ok v \<longleftrightarrow> length (pipe_queue v) \<le> PIPESIZE"

lemma length_pipe_queue: "length (pipe_queue v) = unat (pi_nwrite v - pi_nread v)"
  by (simp add: pipe_queue_def)

lemma pipe_empty_iff: "pi_nread v = pi_nwrite v \<longleftrightarrow> pipe_queue v = []"
proof -
  have "pipe_queue v = [] \<longleftrightarrow> unat (pi_nwrite v - pi_nread v) = 0" using length_pipe_queue [of v] by (metis length_0_conv)
  then show ?thesis by (auto simp: unat_eq_zero)
qed

lemma pipe_full_iff: "pi_nwrite v = pi_nread v + 512 \<longleftrightarrow> length (pipe_queue v) = PIPESIZE"
proof -
  have "pi_nwrite v = pi_nread v + 512 \<longleftrightarrow> pi_nwrite v - pi_nread v = 512" by (auto simp: algebra_simps)
  also have "\<dots> \<longleftrightarrow> unat (pi_nwrite v - pi_nread v) = unat (512 :: u32)" by (simp only: word_unat_eq_iff)
  finally show ?thesis by (simp add: length_pipe_queue)
qed

text \<open>\<open>2^32\<close> is a multiple of the buffer size, so that indices do not jump when a counter wraps.\<close>

lemma ring_index: "unat (r + of_nat i :: u32) mod PIPESIZE = (unat r + i) mod PIPESIZE"
proof -
  have "unat (r + of_nat i) = (unat r + i) mod 2 ^ 32"
    by (simp add: unat_word_ariths unat_of_nat take_bit_eq_mod mod_add_right_eq)
  moreover have "(x mod 2 ^ 32) mod 512 = x mod (512 :: nat)" for x by (simp add: mod_mod_cancel)
  ultimately show ?thesis by simp
qed

lemma pipe_queue_put:
  fixes c :: u8
  assumes "length (pipe_queue v) < PIPESIZE"
  defines "w \<equiv> v\<lparr>pi_data := (pi_data v)(unat (pi_nwrite v) mod PIPESIZE := c), pi_nwrite := pi_nwrite v + 1\<rparr>"
  shows "pipe_queue w = pipe_queue v @ [c]"
proof -
  let ?r = "pi_nread v" and ?k = "unat (pi_nwrite v - pi_nread v)"
  have k: "?k < 512" using assms(1) by (simp add: length_pipe_queue)
  have len: "unat (pi_nwrite w - pi_nread w) = Suc ?k"
  proof -
    have "pi_nwrite w - pi_nread w = (pi_nwrite v - ?r) + 1" by (simp add: w_def)
    then show ?thesis using k by (simp add: unat_word_ariths)
  qed
  have nw: "pi_nwrite v = ?r + of_nat ?k" by simp
  have wi: "unat (pi_nwrite v) mod 512 = (unat ?r + ?k) mod 512"
    using ring_index [of ?r ?k] by (simp only: nw [symmetric])
  have ne: "(unat ?r + i) mod 512 \<noteq> (unat ?r + ?k) mod 512" if "i < ?k" for i
  proof
    assume "(unat ?r + i) mod 512 = (unat ?r + ?k) mod 512"
    then have "512 dvd (unat ?r + ?k) - (unat ?r + i)" using that by (metis add_le_cancel_left less_imp_le_nat mod_eq_dvd_iff_nat)
    then show False using that k by (auto dest: dvd_imp_le)
  qed
  have "pipe_queue w = map (\<lambda>i. pi_data w (unat (?r + of_nat i) mod 512)) [0..<?k] @ [pi_data w (unat (?r + of_nat ?k) mod 512)]"
    unfolding pipe_queue_def len by (simp add: w_def)
  also have "map (\<lambda>i. pi_data w (unat (?r + of_nat i) mod 512)) [0..<?k] = pipe_queue v"
    unfolding pipe_queue_def ring_index using ne by (simp add: w_def wi)
  finally show ?thesis by (simp add: w_def nw [symmetric])
qed

lemma pipe_queue_get:
  assumes "pipe_queue v \<noteq> []"
  shows "pipe_queue v = pi_data v (unat (pi_nread v) mod PIPESIZE) # pipe_queue (v\<lparr>pi_nread := pi_nread v + 1\<rparr>)"
proof -
  let ?k = "unat (pi_nwrite v - pi_nread v)"
  have k: "0 < ?k" using assms length_pipe_queue [of v] by (metis length_greater_0_conv)
  then have "pi_nwrite v - pi_nread v \<noteq> 0" by auto
  then have "unat (pi_nwrite v - (pi_nread v + 1)) = ?k - 1"
    using unat_minus_one [of "pi_nwrite v - pi_nread v"] by (simp add: algebra_simps)
  then have "pipe_queue (v\<lparr>pi_nread := pi_nread v + 1\<rparr>) =
      map (\<lambda>i. pi_data v (unat (pi_nread v + of_nat (Suc i)) mod 512)) [0..<?k - 1]"
    by (simp add: pipe_queue_def add.assoc)
  also have "\<dots> = map (\<lambda>i. pi_data v (unat (pi_nread v + of_nat i) mod 512)) [Suc 0..<?k]"
    using k by (intro nth_equalityI) simp_all
  finally show ?thesis using k by (simp add: pipe_queue_def upt_conv_Cons [of 0 ?k])
qed

section \<open>Bytes of user memory\<close>

lemma uread_bytes_nth:
  "uread_bytes m pt va n = (bs, True) \<Longrightarrow> length bs = n \<and>
     (\<forall>i<n. \<exists>x. uaddr m pt (va + of_nat i) = Some x \<and> m x = bs ! i)"
proof (induction n arbitrary: va bs)
  case (Suc n)
  then obtain a cs where a: "uaddr m pt va = Some a" "bs = m a # cs" "uread_bytes m pt (va + 1) n = (cs, True)"
    by (auto split: option.splits prod.splits)
  show ?case
  proof (intro conjI allI impI)
    show "length bs = Suc n" using Suc.IH [OF a(3)] a(2) by simp
    fix i
    assume "i < Suc n"
    then show "\<exists>x. uaddr m pt (va + of_nat i) = Some x \<and> m x = bs ! i"
      using Suc.IH [OF a(3)] a(1,2) by (cases i) (simp_all add: add.assoc)
  qed
qed simp

lemma uwrite_bytes_append:
  "uwrite_bytes m0 pt m va (xs @ ys) = (let (m', ok) = uwrite_bytes m0 pt m va xs in
     if ok then uwrite_bytes m0 pt m' (va + of_nat (length xs)) ys else (m', False))"
  by (induction xs arbitrary: m va) (auto simp: add.assoc split: option.splits prod.splits)

section \<open>The loops\<close>

abbreviation (input) with_pipe :: "'x file_state_scheme \<Rightarrow> u64 \<Rightarrow> pipe \<Rightarrow> 'x file_state_scheme" where
  "with_pipe s a v \<equiv> s\<lparr>pipes := (pipes s)(a := v)\<rparr>"

lemma wp_pipewrite_loop:
  fixes s :: "'x file_state_scheme"
  assumes pt: "pt_ok s (p_pagetable (procs s p))" and bs: "uread_bytes (mem s) (p_pagetable (procs s p)) addr (length bs) = (bs, True)"
    and n: "sint n = int (length bs)" and rd: "pi_readopen (pipes s a)" "\<not> p_killed (procs s p)"
    and room: "length (pipe_queue (pipes s a)) + length bs \<le> PIPESIZE"
    and Q: "\<And>v. pipe_queue v = pipe_queue (pipes s a) @ bs \<Longrightarrow> v\<lparr>pi_data := pi_data (pipes s a), pi_nwrite := pi_nwrite (pipes s a)\<rparr> = pipes s a \<Longrightarrow>
      Q (Some (length bs)) (with_pipe s a v)"
  shows "wp env (loopM (pipewrite_body a p addr n) 0) Q s"
proof (rule wp_loop [where I = "\<lambda>i u. i \<le> length bs \<and> (\<exists>v. u = with_pipe s a v \<and> pipe_queue v = pipe_queue (pipes s a) @ take i bs \<and>
      v\<lparr>pi_data := pi_data (pipes s a), pi_nwrite := pi_nwrite (pipes s a)\<rparr> = pipes s a)" and \<mu> = "\<lambda>i _. length bs - i"])
  show "0 \<le> length bs \<and> (\<exists>v. s = with_pipe s a v \<and> pipe_queue v = pipe_queue (pipes s a) @ take 0 bs \<and>
      v\<lparr>pi_data := pi_data (pipes s a), pi_nwrite := pi_nwrite (pipes s a)\<rparr> = pipes s a)"
    by (intro conjI exI [of _ "pipes s a"]) simp_all
next
  fix i and u :: "'x file_state_scheme"
  assume "i \<le> length bs \<and> (\<exists>v. u = with_pipe s a v \<and> pipe_queue v = pipe_queue (pipes s a) @ take i bs \<and>
      v\<lparr>pi_data := pi_data (pipes s a), pi_nwrite := pi_nwrite (pipes s a)\<rparr> = pipes s a)"
  then obtain v where i: "i \<le> length bs" and u: "u = with_pipe s a v" and q: "pipe_queue v = pipe_queue (pipes s a) @ take i bs"
    and fr: "v\<lparr>pi_data := pi_data (pipes s a), pi_nwrite := pi_nwrite (pipes s a)\<rparr> = pipes s a" by blast
  have ro: "pi_readopen v" using arg_cong [OF fr, of pi_readopen] rd(1) by simp
  show "wp env (pipewrite_body a p addr n i) (\<lambda>r w. case r of
      Inl k \<Rightarrow> (k \<le> length bs \<and> (\<exists>v. w = with_pipe s a v \<and> pipe_queue v = pipe_queue (pipes s a) @ take k bs \<and>
        v\<lparr>pi_data := pi_data (pipes s a), pi_nwrite := pi_nwrite (pipes s a)\<rparr> = pipes s a)) \<and> length bs - k < length bs - i
    | Inr x \<Rightarrow> Q x w) u"
  proof (cases "i < length bs")
    case False
    then show ?thesis using i n Q [of v] q fr by (simp add: pipewrite_body_def wp_ret u)
  next
    case True
    obtain x where x: "uaddr (mem s) (p_pagetable (procs s p)) (addr + of_nat i) = Some x" "mem s x = bs ! i"
      using uread_bytes_nth [OF bs] True by blast
    have "pt_ok u (p_pagetable (procs u p))" using pt by (simp add: u pt_ok_def)
    then have ci: "copyin (p_pagetable (procs s p)) (addr + of_nat i) 1 env u = Done ([bs ! i], True) u"
      using copyin_run [of u "p_pagetable (procs s p)" "addr + of_nat i" 1 env] x by (simp add: u)
    let ?w = "v\<lparr>pi_data := (pi_data v)(unat (pi_nwrite v) mod PIPESIZE := bs ! i), pi_nwrite := pi_nwrite v + 1\<rparr>"
    have lt: "length (pipe_queue v) < PIPESIZE" using q room True by simp
    then have nf: "pi_nwrite v \<noteq> pi_nread v + 512" using pipe_full_iff [of v] by simp
    have "pipe_queue ?w = pipe_queue (pipes s a) @ take (Suc i) bs"
      using pipe_queue_put [OF lt, of "bs ! i"] q True by (simp add: take_Suc_conv_app_nth)
    moreover have "?w\<lparr>pi_data := pi_data (pipes s a), pi_nwrite := pi_nwrite (pipes s a)\<rparr> = pipes s a" using fr by simp
    ultimately show ?thesis
      using True n ro rd(2) nf ci
      by (auto simp: pipewrite_body_def wp_simps u upd_pipe_def wp_def [of _ "copyin _ _ _"] intro!: exI [of _ ?w])
  qed
qed

lemma wp_piperead_loop:
  fixes s :: "'x file_state_scheme" and a :: u64
  assumes ok: "user_ok s pt" and pt: "pt = p_pagetable (procs s p)" and n: "0 \<le> sint n"
  defines "q \<equiv> pipe_queue (pipes s a)" and "k \<equiv> min (nat (sint n)) (length (pipe_queue (pipes s a)))"
  assumes map: "\<And>i. i < k \<Longrightarrow> uaddr (mem s) pt (addr + of_nat i) \<noteq> None"
    and Q: "\<And>v m. pipe_queue v = drop k q \<Longrightarrow> v\<lparr>pi_nread := pi_nread (pipes s a)\<rparr> = pipes s a \<Longrightarrow>
      uwrite_bytes (mem s) pt (mem s) addr (take k q) = (m, True) \<Longrightarrow> Q k (with_pipe (s\<lparr>mem := m\<rparr>) a v)"
  shows "wp env (loopM (piperead_body a p addr n) 0) Q s"
proof (rule wp_loop [where I = "\<lambda>i u. i \<le> k \<and> (\<exists>v m. u = with_pipe (s\<lparr>mem := m\<rparr>) a v \<and> pipe_queue v = drop i q \<and>
      v\<lparr>pi_nread := pi_nread (pipes s a)\<rparr> = pipes s a \<and> uwrite_bytes (mem s) pt (mem s) addr (take i q) = (m, True))"
    and \<mu> = "\<lambda>i _. k - i"])
  show "0 \<le> k \<and> (\<exists>v m. s = with_pipe (s\<lparr>mem := m\<rparr>) a v \<and> pipe_queue v = drop 0 q \<and>
      v\<lparr>pi_nread := pi_nread (pipes s a)\<rparr> = pipes s a \<and> uwrite_bytes (mem s) pt (mem s) addr (take 0 q) = (m, True))"
    by (intro conjI exI [of _ "pipes s a"] exI [of _ "mem s"]) (simp_all add: q_def)
next
  fix i and u :: "'x file_state_scheme"
  assume "i \<le> k \<and> (\<exists>v m. u = with_pipe (s\<lparr>mem := m\<rparr>) a v \<and> pipe_queue v = drop i q \<and>
      v\<lparr>pi_nread := pi_nread (pipes s a)\<rparr> = pipes s a \<and> uwrite_bytes (mem s) pt (mem s) addr (take i q) = (m, True))"
  then obtain v m where i: "i \<le> k" and u: "u = with_pipe (s\<lparr>mem := m\<rparr>) a v" and v: "pipe_queue v = drop i q"
      "v\<lparr>pi_nread := pi_nread (pipes s a)\<rparr> = pipes s a" and m: "uwrite_bytes (mem s) pt (mem s) addr (take i q) = (m, True)" by blast
  have kq: "k \<le> length q" "k \<le> nat (sint n)" by (simp_all add: k_def q_def)
  show "wp env (piperead_body a p addr n i) (\<lambda>r w. case r of
      Inl j \<Rightarrow> (j \<le> k \<and> (\<exists>v m. w = with_pipe (s\<lparr>mem := m\<rparr>) a v \<and> pipe_queue v = drop j q \<and>
        v\<lparr>pi_nread := pi_nread (pipes s a)\<rparr> = pipes s a \<and> uwrite_bytes (mem s) pt (mem s) addr (take j q) = (m, True))) \<and>
        k - j < k - i
    | Inr x \<Rightarrow> Q x w) u"
  proof (cases "i < k")
    case False
    then have ik: "i = k" using i by simp
    then have "\<not> int i < sint n \<or> pi_nread v = pi_nwrite v"
      using n v(1) pipe_empty_iff [of v] by (auto simp: k_def q_def min_def split: if_splits)
    then show ?thesis using Q [OF _ v(2)] v(1) m ik by (auto simp: piperead_body_def wp_simps u)
  next
    case True
    let ?c = "pi_data v (unat (pi_nread v) mod PIPESIZE)" and ?w = "v\<lparr>pi_nread := pi_nread v + 1\<rparr>"
    have iq: "i < length q" "int i < sint n" using True kq n by linarith+
    have "pipe_queue v \<noteq> []" using v(1) iq by simp
    note get = pipe_queue_get [OF this]
    then have c: "?c = q ! i" and w: "pipe_queue ?w = drop (Suc i) q"
      using v(1) iq by (simp_all add: Cons_nth_drop_Suc [symmetric])
    have ne: "pi_nread v \<noteq> pi_nwrite v" using pipe_empty_iff [of v] v(1) iq by simp
    obtain x where x: "uaddr (mem s) pt (addr + of_nat i) = Some x" using map [OF True] by blast
    let ?s = "with_pipe s a ?w"
    have "user_ok ?s pt" using ok by (simp add: user_ok_def pt_ok_def)
    moreover have "tables_agree (mem ?s) pt m"
      using uwrite_tables [OF ok, of "mem s" addr "take i q"] m by (simp add: tables_agree_def)
    ultimately have "copyout pt (addr + of_nat i) [q ! i] env (?s\<lparr>mem := m\<rparr>) = Done True (?s\<lparr>mem := m(x := q ! i)\<rparr>)"
      using copyout_loop [of ?s pt m "addr + of_nat i" "[q ! i]" env] x by (simp add: copyout_def)
    moreover have "?s\<lparr>mem := g\<rparr> = with_pipe (s\<lparr>mem := g\<rparr>) a ?w" for g by simp
    ultimately have co: "copyout pt (addr + of_nat i) [q ! i] env (with_pipe (s\<lparr>mem := m\<rparr>) a ?w) =
        Done True (with_pipe (s\<lparr>mem := m(x := q ! i)\<rparr>) a ?w)" by (simp only:)
    have "uwrite_bytes (mem s) pt (mem s) addr (take (Suc i) q) = (m(x := q ! i), True)"
      using m x iq by (simp add: take_Suc_conv_app_nth uwrite_bytes_append)
    moreover have "?w\<lparr>pi_nread := pi_nread (pipes s a)\<rparr> = pipes s a" using v(2) by simp
    ultimately show ?thesis
      using True iq ne c w co pt
      by (auto simp: piperead_body_def wp_simps u upd_pipe_def wp_def [of _ "copyout _ _ _"]
          intro!: exI [of _ ?w] exI [of _ "m(x := q ! i)"])
  qed
qed

section \<open>Whole calls\<close>

lemma no_proc_lock_pipe: "held s = {L_pipe a} \<Longrightarrow> no_proc_lock s"
  by (simp add: no_proc_lock_def)

text \<open>A write for which there is room appends its bytes and wakes the readers.\<close>

lemma pipewrite_run:
  fixes s :: "'x file_state_scheme"
  assumes cur: "cur s = Some p" "held s = {}"
    and pt: "pt_ok s (p_pagetable (procs s p))" and bs: "uread_bytes (mem s) (p_pagetable (procs s p)) addr (length bs) = (bs, True)"
    and n: "sint n = int (length bs)" and rd: "pi_readopen (pipes s a)" "\<not> p_killed (procs s p)"
    and room: "length (pipe_queue (pipes s a)) + length bs \<le> PIPESIZE"
  shows "\<exists>v. pipewrite a addr n env s = Done n (s\<lparr>pipes := (pipes s)(a := v), procs := wake (Ch_pipe_nread a) (Some p) (procs s)\<rparr>) \<and>
    pipe_queue v = pipe_queue (pipes s a) @ bs"
proof -
  let ?h = "s\<lparr>held := {L_pipe a}\<rparr>"
  have ret: "of_nat (length bs) = n" using n by (metis of_int_of_nat_eq of_int_sint scast_id)
  have ok: "pt_ok ?h (p_pagetable (procs ?h p))" using pt by (simp add: pt_ok_def)
  have "wp env (loopM (pipewrite_body a p addr n) 0)
      (\<lambda>r t. \<exists>v. r = Some (length bs) \<and> t = ?h\<lparr>pipes := (pipes s)(a := v)\<rparr> \<and> pipe_queue v = pipe_queue (pipes s a) @ bs) ?h"
    by (rule wp_pipewrite_loop [OF ok, of addr bs]) (use bs n rd room in \<open>simp_all, blast\<close>)
  then obtain v where run: "loopM (pipewrite_body a p addr n) 0 env ?h = Done (Some (length bs)) (?h\<lparr>pipes := (pipes s)(a := v)\<rparr>)"
    and v: "pipe_queue v = pipe_queue (pipes s a) @ bs" unfolding wp_iff by blast
  have "no_proc_lock (?h\<lparr>pipes := (pipes s)(a := v)\<rparr>)" by (simp add: no_proc_lock_def)
  then have w: "wakeup (Ch_pipe_nread a) env (?h\<lparr>pipes := (pipes s)(a := v)\<rparr>) =
      Done () (?h\<lparr>pipes := (pipes s)(a := v), procs := wake (Ch_pipe_nread a) (Some p) (procs s)\<rparr>)"
    using cur by (simp add: wakeup_run)
  have "s\<lparr>held := {}, pipes := P, procs := R\<rparr> = s\<lparr>pipes := P, procs := R\<rparr>" for P R using cur by simp
  then have "pipewrite a addr n env s = Done n (s\<lparr>pipes := (pipes s)(a := v), procs := wake (Ch_pipe_nread a) (Some p) (procs s)\<rparr>)"
    using cur by (simp add: pipewrite_def run_simps bindM_Done [where m = "loopM _ _"] run seqM_Done [where m = "wakeup _"] w ret)
  then show ?thesis using v by blast
qed

text \<open>
  A read from a pipe that holds bytes, or whose write end is closed, does not wait: it hands over
  the oldest bytes and wakes the writers.
\<close>

lemma uwrite_uread:
  assumes "user_ok s pt" "user_inj (mem s) pt" "uwrite_bytes (mem s) pt (mem s) va bs = (m, True)" "length bs < 2 ^ 64"
  shows "uread_bytes m pt va (length bs) = (bs, True)"
proof -
  have "tables_agree (mem s) pt m"
    using uwrite_tables [OF assms(1), of "mem s" va bs] assms(3) by (simp add: tables_agree_def)
  then have "uaddr m pt vb = uaddr (mem s) pt vb" for vb
    using tables_agree_same [of s pt m] assms(1) by (simp add: user_ok_def uaddr_def)
  then show ?thesis using uwrite_effect [OF assms(2,3,4)] by (intro uread_bytes_all) simp
qed

lemma piperead_run:
  fixes s :: "'x file_state_scheme"
  assumes cur: "cur s = Some p" "held s = {}"
    and pt: "pt = p_pagetable (procs s p)" and ok: "user_ok s pt" and inj: "user_inj (mem s) pt"
    and n: "0 \<le> sint n" and q: "pipe_queue (pipes s a) \<noteq> [] \<or> \<not> pi_writeopen (pipes s a)"
  defines "k \<equiv> min (nat (sint n)) (length (pipe_queue (pipes s a)))"
  assumes map: "\<And>i. i < k \<Longrightarrow> uaddr (mem s) pt (addr + of_nat i) \<noteq> None"
  shows "\<exists>v m. piperead a addr n env s =
      Done (of_nat k) (s\<lparr>mem := m, pipes := (pipes s)(a := v), procs := wake (Ch_pipe_nwrite a) (Some p) (procs s)\<rparr>) \<and>
    pipe_queue v = drop k (pipe_queue (pipes s a)) \<and> uread_bytes m pt addr k = (take k (pipe_queue (pipes s a)), True)"
proof -
  let ?h = "s\<lparr>held := {L_pipe a}\<rparr>" and ?q = "pipe_queue (pipes s a)"
  have okh: "user_ok ?h pt" using ok by (simp add: user_ok_def pt_ok_def)
  have "unat x < 2 ^ 32" for x :: u32 using unsigned_less [of x, where 'a = nat] by simp
  then have "length ?q < 2 ^ 32" by (simp only: length_pipe_queue)
  then have kq: "length (take k ?q) = k" "k < 2 ^ 64" by (simp_all add: k_def)
  have "wp env (loopM (piperead_body a p addr n) 0) (\<lambda>r t. \<exists>v m. r = k \<and> t = ?h\<lparr>mem := m, pipes := (pipes s)(a := v)\<rparr> \<and>
      pipe_queue v = drop k ?q \<and> uwrite_bytes (mem s) pt (mem s) addr (take k ?q) = (m, True)) ?h"
    by (rule wp_piperead_loop [OF okh]) (use pt n map in \<open>simp_all add: k_def, blast\<close>)
  then obtain v m where run: "loopM (piperead_body a p addr n) 0 env ?h = Done k (?h\<lparr>mem := m, pipes := (pipes s)(a := v)\<rparr>)"
    and v: "pipe_queue v = drop k ?q" and m: "uwrite_bytes (mem s) pt (mem s) addr (take k ?q) = (m, True)"
    unfolding wp_iff by blast
  have wait: "loopM (pipe_wait_body a p) () env ?h = Done True ?h"
    unfolding wp_returns [symmetric] using q pipe_empty_iff [of "pipes s a"]
    by (subst wp_loop_unfold) (auto simp: pipe_wait_body_def wp_simps)
  have "no_proc_lock (?h\<lparr>mem := m, pipes := (pipes s)(a := v)\<rparr>)" by (simp add: no_proc_lock_def)
  then have w: "wakeup (Ch_pipe_nwrite a) env (?h\<lparr>mem := m, pipes := (pipes s)(a := v)\<rparr>) =
      Done () (?h\<lparr>mem := m, pipes := (pipes s)(a := v), procs := wake (Ch_pipe_nwrite a) (Some p) (procs s)\<rparr>)"
    using cur by (simp add: wakeup_run)
  have "s\<lparr>held := {}, mem := g, pipes := P, procs := R\<rparr> = s\<lparr>mem := g, pipes := P, procs := R\<rparr>" for g P R using cur by simp
  then have "piperead a addr n env s =
      Done (of_nat k) (s\<lparr>mem := m, pipes := (pipes s)(a := v), procs := wake (Ch_pipe_nwrite a) (Some p) (procs s)\<rparr>)"
    using cur by (simp add: piperead_def run_simps bindM_Done [where m = "loopM _ _"] run wait seqM_Done [where m = "wakeup _"] w)
  then show ?thesis using v uwrite_uread [OF ok inj m] kq by auto
qed

text \<open>
  C7. A pipe is a first-in first-out queue of bytes across processes: when process \<open>w\<close> writes
  \<open>bs\<close> to a pipe with room for them and process \<open>r\<close> then runs and reads \<open>l\<close> bytes, both calls
  return, the reader's memory holds the oldest \<open>min l (length q + length bs)\<close> bytes of the old
  contents \<open>q\<close> followed by \<open>bs\<close>, and the pipe keeps exactly the rest, wherever the two 32-bit
  counters stand and even when they wrap around.
\<close>

theorem pipe_fifo:
  fixes s :: "'x file_state_scheme"
  assumes "cur s = Some w" "held s = {}" "pi_readopen (pipes s a)" "\<not> p_killed (procs s w)"
    and "pt_ok s (p_pagetable (procs s w))" "uread_bytes (mem s) (p_pagetable (procs s w)) src (length bs) = (bs, True)"
    and "sint n = int (length bs)" "length (pipe_queue (pipes s a)) + length bs \<le> PIPESIZE"
    and pt: "pt = p_pagetable (procs s r)" and ok: "user_ok s pt" and inj: "user_inj (mem s) pt"
    and l: "0 \<le> sint l" and q: "q = pipe_queue (pipes s a) @ bs" "q \<noteq> []" and k: "k = min (nat (sint l)) (length q)"
    and map: "\<forall>i<k. uaddr (mem s) pt (dst + of_nat i) \<noteq> None"
  shows "\<exists>t u. pipewrite a src n env s = Done n t \<and> piperead a dst l env (t\<lparr>cur := Some r\<rparr>) = Done (of_nat k) u \<and>
    uread_bytes (mem u) pt dst k = (take k q, True) \<and> pipe_queue (pipes u a) = drop k q"
proof -
  obtain v where v: "pipewrite a src n env s = Done n (s\<lparr>pipes := (pipes s)(a := v), procs := wake (Ch_pipe_nread a) (Some w) (procs s)\<rparr>)"
    "pipe_queue v = q" using pipewrite_run [OF assms(1,2,5,6,7,3,4,8), of env] q(1) by blast
  let ?t = "s\<lparr>pipes := (pipes s)(a := v), procs := wake (Ch_pipe_nread a) (Some w) (procs s)\<rparr>" and ?r = "\<lambda>t. t\<lparr>cur := Some r\<rparr>"
  have sel: "cur (?r ?t) = Some r" "held (?r ?t) = {}" "pt = p_pagetable (procs (?r ?t) r)" "user_ok (?r ?t) pt" "user_inj (mem (?r ?t)) pt"
    using assms(2) pt ok inj by (simp_all add: wake_def user_ok_def pt_ok_def)
  have "\<exists>v' m. piperead a dst l env (?r ?t) = Done (of_nat k) ((?r ?t)\<lparr>mem := m, pipes := (pipes (?r ?t))(a := v'),
      procs := wake (Ch_pipe_nwrite a) (Some r) (procs (?r ?t))\<rparr>) \<and> pipe_queue v' = drop k q \<and> uread_bytes m pt dst k = (take k q, True)"
    using piperead_run [OF sel l, of a dst env] v(2) q(2) map k by simp
  then show ?thesis using v(1) by force
qed

definition demo_pipe :: file_state where
  "demo_pipe = demo_user\<lparr>mem := demo_mem, kernel_end := 0x87FF0123, procs := (\<lambda>_. zero_proc\<lparr>p_pagetable := 0x87FFC000\<rparr>),
     pipes := (\<lambda>_. \<lparr>pi_data = (\<lambda>_. 9), pi_nread = - 1, pi_nwrite = 0, pi_readopen = True, pi_writeopen = True\<rparr>)\<rparr>"

theorem pipe_fifo_witness:
  "\<exists>t u. pipewrite 0x87FF1000 0x1000 2 id demo_pipe = Done 2 t \<and> piperead 0x87FF1000 0x1100 2 id (t\<lparr>cur := Some 1\<rparr>) = Done 2 u \<and>
    uread_bytes (mem u) 0x87FFC000 0x1100 2 = ([9, demo_mem 0x87FFF000], True) \<and> pipe_queue (pipes u 0x87FF1000) = [demo_mem 0x87FFF001]"
proof -
  let ?bs = "[demo_mem 0x87FFF000, demo_mem 0x87FFF001]"
  have sel: "cur demo_pipe = Some 0" "held demo_pipe = {}" "mem demo_pipe = demo_mem" "pi_readopen (pipes demo_pipe a)"
    "\<not> p_killed (procs demo_pipe p)" "p_pagetable (procs demo_pipe p) = 0x87FFC000" "pipe_queue (pipes demo_pipe a) = [9]" for a p
    by (simp_all add: demo_pipe_def demo_user_def zero_proc_def pipe_queue_def)
  have ok: "pt_ok demo_pipe 0x87FFC000" "user_ok demo_pipe 0x87FFC000"
    using demo_ok demo_user_ok(1) by (simp_all add: user_ok_def pt_ok_def demo_pipe_def)
  have pg: "PGROUNDDOWN 0x1000 = 0x1000" "PGROUNDDOWN 0x1001 = 0x1000" "PGROUNDDOWN 0x1100 = 0x1000" "PGROUNDDOWN 0x1101 = 0x1000"
    by (simp_all add: PGROUNDDOWN_def)
  have rd: "uread_bytes demo_mem 0x87FFC000 0x1000 (length ?bs) = (?bs, True)" using pg by (simp add: demo_uaddr)
  have map: "\<forall>i<2. uaddr demo_mem 0x87FFC000 (0x1100 + of_nat i) \<noteq> None" using pg by (simp add: demo_uaddr less_2_cases_iff)
  show ?thesis
    using pipe_fifo [OF sel(1,2,4,5), where r = 1 and env = id and a = "0x87FF1000" and bs = ?bs and src = "0x1000" and n = 2 and l = 2 and dst = "0x1100",
        unfolded sel, OF ok(1) rd _ _ refl ok(2) demo_user_ok(2) _ refl _ refl] map
    by (simp add: numeral_2_eq_2 del: uread_bytes.simps)
qed

end
