(* ===== verification/Ulib.thy ===== *)
theory Ulib
  imports Cstring
begin

text \<open>
  The user library: \<^verbatim>\<open>user/ulib.c\<close> and \<^verbatim>\<open>user/printf.c\<close>, over the system calls of
  \<^verbatim>\<open>user/usys.pl\<close>. A user program is code of the same kind as the kernel's, run on a state
  \<open>'w\<close> that stands for the machine as one process sees it; the system calls are an argument of
  the program, one field per stub. \<open>read\<close> gives the bytes it stored, or \<open>None\<close> for \<open>-1\<close>. A
  process that has called \<open>exit\<close> never runs again, which is the outcome \<open>Parked\<close>.

  A \<open>char*\<close> is the list of bytes from the pointer to the end of the object it points into, as in
  \<^verbatim>\<open>kernel/string.c\<close>; \<open>None\<close> means a read past that end. Characters are unsigned, as the RISC-V
  calling convention has them.
\<close>

section \<open>System calls\<close>

record ustat =
  st_dev :: int
  st_ino :: u32
  st_type :: u16
  st_nlink :: u16
  st_size :: u64

record 'w usys =
  u_fork :: "('w, int) km"
  u_exit :: "int \<Rightarrow> 'w \<Rightarrow> 'w"
  u_wait :: "('w, int) km"
  u_pipe :: "('w, (int \<times> int) option) km"
  u_read :: "int \<Rightarrow> nat \<Rightarrow> ('w, u8 list option) km"
  u_write :: "int \<Rightarrow> u8 list \<Rightarrow> ('w, int) km"
  u_close :: "int \<Rightarrow> ('w, int) km"
  u_kill :: "u32 \<Rightarrow> ('w, int) km"
  u_exec :: "u8 list \<Rightarrow> u8 list list \<Rightarrow> ('w, int) km"
  u_open :: "u8 list \<Rightarrow> u32 \<Rightarrow> ('w, int) km"
  u_mknod :: "u8 list \<Rightarrow> u16 \<Rightarrow> u16 \<Rightarrow> ('w, int) km"
  u_unlink :: "u8 list \<Rightarrow> ('w, int) km"
  u_fstat :: "int \<Rightarrow> ('w, ustat option) km"
  u_link :: "u8 list \<Rightarrow> u8 list \<Rightarrow> ('w, int) km"
  u_mkdir :: "u8 list \<Rightarrow> ('w, int) km"
  u_chdir :: "u8 list \<Rightarrow> ('w, int) km"
  u_dup :: "int \<Rightarrow> ('w, int) km"
  u_sbrk :: "u32 \<Rightarrow> ('w, u64) km"
  u_sleep :: "int \<Rightarrow> ('w, int) km"

definition exit :: "'w usys \<Rightarrow> int \<Rightarrow> ('w, 'a) km" where
  "exit S status = (\<lambda>env s. Parked (u_exit S status s))"

text \<open>A call whose result the program does not look at.\<close>

definition call :: "('w, 'a) km \<Rightarrow> ('w, unit) km" where
  "call m = seqM m skipM"

abbreviation (input) O_RDONLY :: u32 where "O_RDONLY \<equiv> 0"
abbreviation (input) O_WRONLY :: u32 where "O_WRONLY \<equiv> 1"
abbreviation (input) O_RDWR :: u32 where "O_RDWR \<equiv> 2"
abbreviation (input) O_CREATE :: u32 where "O_CREATE \<equiv> 0x200"
abbreviation (input) O_TRUNC :: u32 where "O_TRUNC \<equiv> 0x400"

section \<open>ulib.c\<close>

text \<open>The bytes \<open>strcpy(s, t)\<close> writes at \<open>s\<close>.\<close>

fun strcpy :: "u8 list \<Rightarrow> u8 list option" where
  "strcpy [] = None"
| "strcpy (b # t) = (if b = 0 then Some [0] else map_option ((#) b) (strcpy t))"

fun strcmp :: "u8 list \<Rightarrow> u8 list \<Rightarrow> int option" where
  "strcmp (a # p) (b # q) = (if a \<noteq> 0 \<and> a = b then strcmp p q else Some (uint a - uint b))"
| "strcmp _ _ = None"

fun strlen :: "u8 list \<Rightarrow> nat option" where
  "strlen [] = None"
| "strlen (b # s) = (if b \<noteq> 0 then map_option Suc (strlen s) else Some 0)"

definition memset :: "memory \<Rightarrow> u64 \<Rightarrow> u8 \<Rightarrow> nat \<Rightarrow> memory" where
  "memset m dst c n = fold (\<lambda>i m'. m'(dst + of_nat i := c)) [0..<n] m"

text \<open>The offset of the character found, or \<open>Some None\<close> for a null pointer.\<close>

fun strchr :: "u8 list \<Rightarrow> u8 \<Rightarrow> nat option option" where
  "strchr [] c = None"
| "strchr (b # s) c =
     (if b = 0 then Some None
      else if b = c then Some (Some 0)
      else map_option (map_option Suc) (strchr s c))"

text \<open>The characters \<open>gets(buf, max)\<close> stores, before the final NUL.\<close>

definition gets_body :: "'w usys \<Rightarrow> int \<Rightarrow> u8 list \<Rightarrow> ('w, u8 list + u8 list) km" where
  "gets_body S maxn cs =
     (if int (length cs) + 1 < maxn then
        bindM (u_read S 0 1) (\<lambda>r. case r of
            Some (c # _) \<Rightarrow>
              retM (if c = 10 \<or> c = 13 then Inr (cs @ [c]) else Inl (cs @ [c]))
          | _ \<Rightarrow> retM (Inr cs))
      else retM (Inr cs))"

definition gets :: "'w usys \<Rightarrow> int \<Rightarrow> ('w, u8 list) km" where
  "gets S maxn = loopM (gets_body S maxn) []"

definition stat :: "'w usys \<Rightarrow> u8 list \<Rightarrow> ('w, ustat option) km" where
  "stat S n =
     bindM (u_open S n O_RDONLY) (\<lambda>fd.
       if fd < 0 then retM None
       else bindM (u_fstat S fd) (\<lambda>r. seqM (u_close S fd) (retM r)))"

fun atoi_loop :: "u32 \<Rightarrow> u8 list \<Rightarrow> u32 option" where
  "atoi_loop n [] = None"
| "atoi_loop n (c # s) =
     (if 48 \<le> c \<and> c \<le> 57 then atoi_loop (n * 10 + ucast c - 48) s else Some n)"

definition atoi :: "u8 list \<Rightarrow> u32 option" where
  "atoi s = atoi_loop 0 s"

definition memmove :: "memory \<Rightarrow> u64 \<Rightarrow> u64 \<Rightarrow> int \<Rightarrow> memory" where
  "memmove m dst src n =
     (if src > dst then copy_forward m dst src (nat n)
      else copy_backward m (dst + of_int n) (src + of_int n) (nat n))"

fun memcmp :: "u8 list \<Rightarrow> u8 list \<Rightarrow> nat \<Rightarrow> int option" where
  "memcmp p1 p2 0 = Some 0"
| "memcmp (a # p1) (b # p2) (Suc n) = (if a \<noteq> b then Some (uint a - uint b) else memcmp p1 p2 n)"
| "memcmp _ _ (Suc n) = None"

definition memcpy :: "memory \<Rightarrow> u64 \<Rightarrow> u64 \<Rightarrow> u32 \<Rightarrow> memory" where
  "memcpy m dst src n = memmove m dst src (sint n)"

section \<open>printf.c\<close>

definition digits :: "u8 list" where
  "digits = ascii ''0123456789ABCDEF''"

definition putc :: "'w usys \<Rightarrow> int \<Rightarrow> u8 \<Rightarrow> ('w, unit) km" where
  "putc S fd c = call (u_write S fd [c])"

text \<open>
  \<open>digit_buf\<close> is the \<open>do ... while\<close> loop of \<open>printint\<close>, the digits in the order of \<open>buf\<close>
  (every caller passes base 10 or 16); \<open>printint\<close> sends them, last element first.
\<close>

function digit_buf :: "nat \<Rightarrow> nat \<Rightarrow> u8 list" where
  "digit_buf base x = (digits ! (x mod base)) #
     (if 2 \<le> base \<and> x div base \<noteq> 0 then digit_buf base (x div base) else [])"
  by auto
termination
  by (relation "measure snd") (auto simp: div_greater_zero_iff)

declare digit_buf.simps [simp del]

definition printint_text :: "u32 \<Rightarrow> nat \<Rightarrow> bool \<Rightarrow> u8 list" where
  "printint_text xx base sign =
     (let neg = sign \<and> sint xx < 0;
          x = if neg then - xx else xx
      in rev (digit_buf base (unat x) @ (if neg then [0x2D] else [])))"

definition printint :: "'w usys \<Rightarrow> int \<Rightarrow> u32 \<Rightarrow> nat \<Rightarrow> bool \<Rightarrow> ('w, unit) km" where
  "printint S fd xx base sign = eachM (printint_text xx base sign) (putc S fd)"

definition printptr :: "'w usys \<Rightarrow> int \<Rightarrow> u64 \<Rightarrow> ('w, unit) km" where
  "printptr S fd x = doM [
     putc S fd 0x30,
     putc S fd 0x78,
     eachM [0..<16] (\<lambda>i. putc S fd (digits ! unat (drop_bit 60 (push_bit (4 * i) x))))]"

text \<open>
  The variable arguments. A format that asks for an argument the caller did not pass, or passed
  with another type, has undefined behaviour in C; the model stops. The characters of the format
  are those before its NUL; \<open>pending\<close> is \<open>state == '%'\<close>.
\<close>

datatype uarg = U_int u32 | U_long u64 | U_str "u8 list option"

definition vprintf_arg :: "'w usys \<Rightarrow> int \<Rightarrow> u8 \<Rightarrow> uarg list \<Rightarrow> ('w, uarg list) km" where
  "vprintf_arg S fd c ap =
     (if c = 100 then (case ap of
          U_int v # ap' \<Rightarrow> seqM (printint S fd v 10 True) (retM ap') | _ \<Rightarrow> panicM ''va_arg'')
      else if c = 108 then (case ap of
          U_long v # ap' \<Rightarrow> seqM (printint S fd (ucast v) 10 False) (retM ap') | _ \<Rightarrow> panicM ''va_arg'')
      else if c = 120 then (case ap of
          U_int v # ap' \<Rightarrow> seqM (printint S fd v 16 False) (retM ap') | _ \<Rightarrow> panicM ''va_arg'')
      else if c = 112 then (case ap of
          U_long v # ap' \<Rightarrow> seqM (printptr S fd v) (retM ap') | _ \<Rightarrow> panicM ''va_arg'')
      else if c = 115 then (case ap of
          U_str v # ap' \<Rightarrow>
            seqM (eachM (case v of None \<Rightarrow> ascii ''(null)'' | Some t \<Rightarrow> t) (putc S fd)) (retM ap')
        | _ \<Rightarrow> panicM ''va_arg'')
      else if c = 99 then (case ap of
          U_int v # ap' \<Rightarrow> seqM (putc S fd (ucast v)) (retM ap') | _ \<Rightarrow> panicM ''va_arg'')
      else if c = 37 then seqM (putc S fd c) (retM ap)
      else seqM (putc S fd 37) (seqM (putc S fd c) (retM ap)))"

fun vprintf_loop :: "'w usys \<Rightarrow> int \<Rightarrow> bool \<Rightarrow> u8 list \<Rightarrow> uarg list \<Rightarrow> ('w, unit) km" where
  "vprintf_loop S fd pending [] ap = skipM"
| "vprintf_loop S fd pending (c # fmt) ap =
     (if \<not> pending then
        (if c = 37 then vprintf_loop S fd True fmt ap
         else seqM (putc S fd c) (vprintf_loop S fd False fmt ap))
      else bindM (vprintf_arg S fd c ap) (vprintf_loop S fd False fmt))"

definition vprintf :: "'w usys \<Rightarrow> int \<Rightarrow> u8 list \<Rightarrow> uarg list \<Rightarrow> ('w, unit) km" where
  "vprintf S fd fmt ap = vprintf_loop S fd False fmt ap"

definition fprintf :: "'w usys \<Rightarrow> int \<Rightarrow> string \<Rightarrow> uarg list \<Rightarrow> ('w, unit) km" where
  "fprintf S fd fmt ap = vprintf S fd (ascii fmt) ap"

definition printf :: "'w usys \<Rightarrow> string \<Rightarrow> uarg list \<Rightarrow> ('w, unit) km" where
  "printf S fmt ap = vprintf S 1 (ascii fmt) ap"

section \<open>What the functions compute\<close>

lemma user_strlen_cstr: "strlen s = (if 0 \<in> set s then Some (length (cstr s)) else None)"
  by (induction s) (auto simp: cstr_def)

lemma user_strcpy_cstr: "strcpy t = (if 0 \<in> set t then Some (cstr t @ [0]) else None)"
  by (induction t) (auto simp: cstr_def)

text \<open>
  The user library's \<open>memmove\<close> and the kernel's agree: they decide by different tests whether
  to copy forwards or backwards, but on ranges that do not wrap around the address space both
  leave in the destination what the source held before, overlap or not.
\<close>

lemma memmove_agrees:
  assumes "unat dst + n < 2 ^ 64" "unat src + n < 2 ^ 64" "n < 2 ^ 31"
  shows "memmove m dst src (int n) = Cstring.memmove m dst src n \<and>
    memmove m dst src (int n) = (\<lambda>x. if unat (x - dst) < n then m (src + (x - dst)) else m x)"
proof -
  have "memmove m dst src (int n) x = (if unat (x - dst) < n then m (src + (x - dst)) else m x)" for x
  proof (cases "src > dst")
    case True
    then show ?thesis using assms
      by (simp add: memmove_def copy_forward_apply word_less_nat_alt)
  next
    case False
    then have "unat src \<le> unat dst" by (simp add: word_less_nat_alt)
    then show ?thesis using False assms
      by (simp add: memmove_def copy_backward_apply unat_add_small)
  qed
  then show ?thesis
    using assms by (simp add: fun_eq_iff memmove_apply)
qed

lemma digits_nth:
  "x < 10 \<Longrightarrow> digits ! x = of_nat (48 + x)"
proof -
  assume "x < 10"
  then have "x \<in> {0,1,2,3,4,5,6,7,8,9}" by auto
  then show ?thesis by (auto simp: digits_def ascii_def)
qed

lemma atoi_loop_append:
  "\<forall>c\<in>set ds. 48 \<le> c \<and> c \<le> 57 \<Longrightarrow>
    atoi_loop n (ds @ s) = atoi_loop (foldl (\<lambda>n c. n * 10 + ucast c - 48) n ds) s"
  by (induction ds arbitrary: n) auto

lemma digit_buf_10:
  "(\<forall>c\<in>set (digit_buf 10 x). 48 \<le> c \<and> c \<le> 57) \<and>
   foldl (\<lambda>n c. n * 10 + ucast c - 48) 0 (rev (digit_buf 10 x)) = (of_nat x :: u32)"
proof (induction x rule: less_induct)
  case (less x)
  have d: "digits ! (x mod 10) = of_nat (48 + x mod 10)" by (rule digits_nth) simp
  have u: "unat (of_nat (48 + x mod 10) :: u8) = 48 + x mod 10"
    by (simp only: unat_of_nat) (simp add: take_bit_nat_eq_self_iff)
  have b: "48 \<le> digits ! (x mod 10)" "digits ! (x mod 10) \<le> 57"
    unfolding d word_le_nat_alt u by simp_all
  have c: "ucast (digits ! (x mod 10)) = (of_nat (48 + x mod 10) :: u32)"
    unfolding d by (rule word_unat_eq_iff [THEN iffD2])
      (simp only: unsigned_ucast_eq u unat_of_nat, simp add: take_bit_nat_eq_self_iff)
  show ?case
  proof (cases "x div 10 = 0")
    case True
    then have "digit_buf 10 x = [digits ! (x mod 10)]" "x mod 10 = x"
      by (simp_all add: digit_buf.simps [of 10 x])
    then show ?thesis using b c by simp
  next
    case False
    then have db: "digit_buf 10 x = digits ! (x mod 10) # digit_buf 10 (x div 10)"
      by (simp add: digit_buf.simps [of 10 x])
    have "x = x div 10 * 10 + x mod 10" by simp
    then have "(of_nat x :: u32) = of_nat (x div 10) * 10 + of_nat (x mod 10)"
      by (metis of_nat_add of_nat_mult of_nat_numeral)
    then show ?thesis using less [of "x div 10"] False b c by (simp add: db)
  qed
qed

text \<open>
  Decimal output reads back: the characters \<open>printint\<close> sends for a number in base 10, followed
  by anything that is not a digit, are read by \<open>atoi\<close> as that number if it is not negative, the
  full range of \<open>int\<close> included; for a negative one it stops at the sign and gives 0.
\<close>

lemma atoi_printint:
  assumes "\<not> (48 \<le> c \<and> c \<le> 57)"
  shows "atoi (printint_text xx 10 True @ c # s) = Some (if 0 \<le> sint xx then xx else 0) \<and>
    atoi (printint_text xx 10 False @ c # s) = Some xx"
proof -
  have dec: "atoi (rev (digit_buf 10 (unat x)) @ c # s) = Some x" for x :: u32
    using digit_buf_10 [of "unat x"] assms by (auto simp: atoi_def atoi_loop_append)
  have minus: "atoi (0x2D # r) = Some 0" for r by (simp add: atoi_def)
  show ?thesis using dec [of xx] minus by (simp add: printint_text_def Let_def)
qed

end
