(* ===== verification/Uprogs.thy ===== *)
theory Uprogs
  imports Ulib
begin

text \<open>
  The small user programs: \<^verbatim>\<open>cat\<close>, \<^verbatim>\<open>wc\<close>, \<^verbatim>\<open>echo\<close>, \<^verbatim>\<open>ls\<close>, \<^verbatim>\<open>ln\<close>, \<^verbatim>\<open>rm\<close>, \<^verbatim>\<open>mkdir\<close>, \<^verbatim>\<open>kill\<close>, \<^verbatim>\<open>zombie\<close>,
  \<^verbatim>\<open>init\<close>, \<^verbatim>\<open>forktest\<close> and \<^verbatim>\<open>stressfs\<close>. Each is a function of the system calls it makes; \<open>argv\<close> holds
  the strings up to \<open>argv[argc]\<close>, so \<open>argc\<close> is its length.
\<close>

abbreviation (input) newline :: string where
  "newline \<equiv> [CHR 0x0A]"

section \<open>cat, wc, echo\<close>

definition cat_body :: "'w usys \<Rightarrow> int \<Rightarrow> unit \<Rightarrow> ('w, unit + bool) km" where
  "cat_body S fd _ =
     bindM (u_read S fd 512) (\<lambda>r. case r of
       Some (b # bs) \<Rightarrow>
         bindM (u_write S 1 (b # bs)) (\<lambda>m.
           if m \<noteq> int (length (b # bs)) then seqM (fprintf S 2 (''cat: write error'' @ newline) []) (exit S 1)
           else retM (Inl ()))
     | Some [] \<Rightarrow> retM (Inr True)
     | None \<Rightarrow> retM (Inr False))"

definition cat :: "'w usys \<Rightarrow> int \<Rightarrow> ('w, unit) km" where
  "cat S fd =
     bindM (loopM (cat_body S fd) ()) (\<lambda>ok.
       whenM (\<not> ok) (seqM (fprintf S 2 (''cat: read error'' @ newline) []) (exit S 1)))"

definition cat_main :: "'w usys \<Rightarrow> u8 list list \<Rightarrow> ('w, unit) km" where
  "cat_main S argv =
     (if length argv \<le> 1 then seqM (cat S 0) (exit S 0)
      else seqM (eachM (drop 1 argv) (\<lambda>arg.
          bindM (u_open S arg 0) (\<lambda>fd.
            if fd < 0 then seqM (fprintf S 2 (''cat: cannot open %s'' @ newline) [U_str (Some arg)]) (exit S 1)
            else seqM (cat S fd) (call (u_close S fd)))))
        (exit S 0))"

text \<open>The counters \<open>l\<close>, \<open>w\<close>, \<open>c\<close> and \<open>inword\<close>.\<close>

type_synonym wc_state = "u32 \<times> u32 \<times> u32 \<times> bool"

definition wc_char :: "u8 \<Rightarrow> wc_state \<Rightarrow> wc_state" where
  "wc_char b = (\<lambda>(l, w, c, inword).
     let c = c + 1; l = (if b = 10 then l + 1 else l)
     in if strchr [0x20, 0x0D, 0x09, 0x0A, 0x0B, 0] b \<noteq> Some None then (l, w, c, False)
        else if \<not> inword then (l, w + 1, c, True)
        else (l, w, c, inword))"

definition wc_body :: "'w usys \<Rightarrow> int \<Rightarrow> wc_state \<Rightarrow> ('w, wc_state + wc_state option) km" where
  "wc_body S fd k =
     bindM (u_read S fd 512) (\<lambda>r. case r of
       Some (b # bs) \<Rightarrow> retM (Inl (fold wc_char (b # bs) k))
     | Some [] \<Rightarrow> retM (Inr (Some k))
     | None \<Rightarrow> retM (Inr None))"

definition wc :: "'w usys \<Rightarrow> int \<Rightarrow> u8 list \<Rightarrow> ('w, unit) km" where
  "wc S fd name =
     bindM (loopM (wc_body S fd) (0, 0, 0, False)) (\<lambda>r. case r of
       None \<Rightarrow> seqM (printf S (''wc: read error'' @ newline) []) (exit S 1)
     | Some (l, w, c, _) \<Rightarrow> printf S (''%d %d %d %s'' @ newline) [U_int l, U_int w, U_int c, U_str (Some name)])"

definition wc_main :: "'w usys \<Rightarrow> u8 list list \<Rightarrow> ('w, unit) km" where
  "wc_main S argv =
     (if length argv \<le> 1 then seqM (wc S 0 []) (exit S 0)
      else seqM (eachM (drop 1 argv) (\<lambda>arg.
          bindM (u_open S arg 0) (\<lambda>fd.
            if fd < 0 then seqM (printf S (''wc: cannot open %s'' @ newline) [U_str (Some arg)]) (exit S 1)
            else seqM (wc S fd arg) (call (u_close S fd)))))
        (exit S 0))"

definition echo_main :: "'w usys \<Rightarrow> u8 list list \<Rightarrow> ('w, unit) km" where
  "echo_main S argv =
     seqM (eachM [1..<length argv] (\<lambda>i.
       seqM (call (u_write S 1 (argv ! i)))
         (if i + 1 < length argv then call (u_write S 1 [0x20]) else call (u_write S 1 [0x0A]))))
     (exit S 0)"

section \<open>ls\<close>

text \<open>The name after the last slash, padded with blanks in a static buffer when it is short.\<close>

definition fmtname :: "u8 list \<Rightarrow> u8 list" where
  "fmtname path =
     (let p = rev (takeWhile (\<lambda>c. c \<noteq> 0x2F) (rev path))
      in if length p \<ge> 14 then p else p @ replicate (14 - length p) 0x20)"

text \<open>
  \<open>printf\<close> takes the low half of the 64-bit size for \<open>%d\<close>, as the calling convention passes it.
\<close>

definition ls_entry :: "'w usys \<Rightarrow> int \<Rightarrow> u8 list \<Rightarrow> unit \<Rightarrow> ('w, unit + unit) km" where
  "ls_entry S fd path _ =
     bindM (u_read S fd 16) (\<lambda>r. case r of
       None \<Rightarrow> retM (Inr ())
     | Some de \<Rightarrow>
         if length de \<noteq> 16 then retM (Inr ())
         else if take 2 de = [0, 0] then retM (Inl ())
         else
           let buf = cstr (path @ [0x2F] @ drop 2 de @ [0])
           in bindM (stat S buf) (\<lambda>st. case st of
                None \<Rightarrow> seqM (printf S (''ls: cannot stat %s'' @ newline) [U_str (Some buf)]) (retM (Inl ()))
              | Some st \<Rightarrow>
                  seqM (printf S (''%s %d %d %d'' @ newline)
                    [U_str (Some (fmtname buf)), U_int (ucast (st_type st)), U_int (st_ino st), U_int (ucast (st_size st))])
                  (retM (Inl ()))))"

definition ls :: "'w usys \<Rightarrow> u8 list \<Rightarrow> ('w, unit) km" where
  "ls S path =
     bindM (u_open S path 0) (\<lambda>fd.
       if fd < 0 then fprintf S 2 (''ls: cannot open %s'' @ newline) [U_str (Some path)]
       else bindM (u_fstat S fd) (\<lambda>r. case r of
           None \<Rightarrow> seqM (fprintf S 2 (''ls: cannot stat %s'' @ newline) [U_str (Some path)]) (call (u_close S fd))
         | Some st \<Rightarrow>
             seqM
               (if st_type st = 2 then
                  printf S (''%s %d %d %l'' @ newline)
                    [U_str (Some (fmtname path)), U_int (ucast (st_type st)), U_int (st_ino st), U_long (st_size st)]
                else if st_type st = 1 then
                  (if length path + 1 + 14 + 1 > 512 then printf S (''ls: path too long'' @ newline) []
                   else loopM (ls_entry S fd path) ())
                else skipM)
             (call (u_close S fd))))"

definition ls_main :: "'w usys \<Rightarrow> u8 list list \<Rightarrow> ('w, unit) km" where
  "ls_main S argv =
     (if length argv < 2 then seqM (ls S (ascii ''.'')) (exit S 0)
      else seqM (eachM (drop 1 argv) (ls S)) (exit S 0))"

section \<open>ln, rm, mkdir, kill, zombie\<close>

definition ln_main :: "'w usys \<Rightarrow> u8 list list \<Rightarrow> ('w, unit) km" where
  "ln_main S argv =
     (if length argv \<noteq> 3 then seqM (fprintf S 2 (''Usage: ln old new'' @ newline) []) (exit S 1)
      else
        bindM (u_link S (argv ! 1) (argv ! 2)) (\<lambda>r.
          seqM (whenM (r < 0) (fprintf S 2 (''link %s %s: failed'' @ newline) [U_str (Some (argv ! 1)), U_str (Some (argv ! 2))]))
            (exit S 0)))"

text \<open>The loops of \<open>rm\<close> and \<open>mkdir\<close>, which stop at the first failure.\<close>

fun rm_loop :: "'w usys \<Rightarrow> u8 list list \<Rightarrow> ('w, unit) km" where
  "rm_loop S [] = skipM"
| "rm_loop S (arg # args) =
     bindM (u_unlink S arg) (\<lambda>r.
       if r < 0 then fprintf S 2 (''rm: %s failed to delete'' @ newline) [U_str (Some arg)]
       else rm_loop S args)"

definition rm_main :: "'w usys \<Rightarrow> u8 list list \<Rightarrow> ('w, unit) km" where
  "rm_main S argv =
     (if length argv < 2 then seqM (fprintf S 2 (''Usage: rm files...'' @ newline) []) (exit S 1)
      else seqM (rm_loop S (drop 1 argv)) (exit S 0))"

fun mkdir_loop :: "'w usys \<Rightarrow> u8 list list \<Rightarrow> ('w, unit) km" where
  "mkdir_loop S [] = skipM"
| "mkdir_loop S (arg # args) =
     bindM (u_mkdir S arg) (\<lambda>r.
       if r < 0 then fprintf S 2 (''mkdir: %s failed to create'' @ newline) [U_str (Some arg)]
       else mkdir_loop S args)"

definition mkdir_main :: "'w usys \<Rightarrow> u8 list list \<Rightarrow> ('w, unit) km" where
  "mkdir_main S argv =
     (if length argv < 2 then seqM (fprintf S 2 (''Usage: mkdir files...'' @ newline) []) (exit S 1)
      else seqM (mkdir_loop S (drop 1 argv)) (exit S 0))"

definition kill_main :: "'w usys \<Rightarrow> u8 list list \<Rightarrow> ('w, unit) km" where
  "kill_main S argv =
     (if length argv < 2 then seqM (fprintf S 2 (''usage: kill pid...'' @ newline) []) (exit S 1)
      else seqM (eachM (drop 1 argv) (\<lambda>arg. case atoi (arg @ [0]) of
            None \<Rightarrow> panicM ''atoi'' | Some n \<Rightarrow> call (u_kill S n)))
        (exit S 0))"

definition zombie_main :: "'w usys \<Rightarrow> ('w, unit) km" where
  "zombie_main S =
     bindM (u_fork S) (\<lambda>pid. seqM (whenM (pid > 0) (call (u_sleep S 5))) (exit S 0))"

section \<open>init\<close>

definition init_wait_body :: "'w usys \<Rightarrow> int \<Rightarrow> unit \<Rightarrow> ('w, unit + unit) km" where
  "init_wait_body S pid _ =
     bindM (u_wait S) (\<lambda>wpid.
       if wpid = pid then retM (Inr ())
       else if wpid < 0 then seqM (printf S (''init: wait returned an error'' @ newline) []) (exit S 1)
       else retM (Inl ()))"

definition init_body :: "'w usys \<Rightarrow> unit \<Rightarrow> ('w, unit + unit) km" where
  "init_body S _ =
     seqM (printf S (''init: starting sh'' @ newline) [])
     (bindM (u_fork S) (\<lambda>pid.
        if pid < 0 then seqM (printf S (''init: fork failed'' @ newline) []) (exit S 1)
        else if pid = 0 then
          seqM (call (u_exec S (ascii ''sh'') [ascii ''sh'']))
          (seqM (printf S (''init: exec sh failed'' @ newline) [])
          (exit S 1))
        else seqM (loopM (init_wait_body S pid) ()) (retM (Inl ()))))"

text \<open>\<open>CONSOLE\<close> is device 1.\<close>

definition init_main :: "'w usys \<Rightarrow> ('w, unit) km" where
  "init_main S =
     bindM (u_open S (ascii ''console'') O_RDWR) (\<lambda>r. doM [
       whenM (r < 0) (doM [
         call (u_mknod S (ascii ''console'') 1 0),
         call (u_open S (ascii ''console'') O_RDWR)]),
       call (u_dup S 0),
       call (u_dup S 0),
       loopM (init_body S) ()])"

section \<open>forktest and stressfs\<close>

definition print :: "'w usys \<Rightarrow> string \<Rightarrow> ('w, unit) km" where
  "print S s = call (u_write S 1 (ascii s))"

definition forktest_fork_body :: "'w usys \<Rightarrow> nat \<Rightarrow> ('w, nat + nat) km" where
  "forktest_fork_body S n =
     (if n < 1000 then
        bindM (u_fork S) (\<lambda>pid.
          if pid < 0 then retM (Inr n)
          else if pid = 0 then exit S 0
          else retM (Inl (n + 1)))
      else retM (Inr n))"

definition forktest :: "'w usys \<Rightarrow> ('w, unit) km" where
  "forktest S =
     seqM (print S (''fork test'' @ newline))
     (bindM (loopM (forktest_fork_body S) 0) (\<lambda>n. doM [
        whenM (n = 1000) (doM [print S (''fork claimed to work N times!'' @ newline), exit S 1]),
        eachM (rev [0..<n]) (\<lambda>_.
          bindM (u_wait S) (\<lambda>r. whenM (r < 0) (doM [print S (''wait stopped early'' @ newline), exit S 1]))),
        bindM (u_wait S) (\<lambda>r. whenM (r \<noteq> - 1) (doM [print S (''wait got too many'' @ newline), exit S 1])),
        print S (''fork test OK'' @ newline)]))"

definition forktest_main :: "'w usys \<Rightarrow> ('w, unit) km" where
  "forktest_main S = seqM (forktest S) (exit S 0)"

definition stressfs_fork_body :: "'w usys \<Rightarrow> nat \<Rightarrow> ('w, nat + nat) km" where
  "stressfs_fork_body S i =
     (if i < 4 then bindM (u_fork S) (\<lambda>pid. retM (if pid > 0 then Inr i else Inl (i + 1)))
      else retM (Inr i))"

definition stressfs_main :: "'w usys \<Rightarrow> ('w, unit) km" where
  "stressfs_main S =
     seqM (printf S (''stressfs starting'' @ newline) [])
     (bindM (loopM (stressfs_fork_body S) 0) (\<lambda>i.
      let path = ascii ''stressfs'' @ [0x30 + of_nat i]
      in seqM (printf S (''write %d'' @ newline) [U_int (of_nat i)])
        (bindM (u_open S path (O_CREATE OR O_RDWR)) (\<lambda>fd.
         seqM (eachM [0..<20] (\<lambda>_. call (u_write S fd (replicate 512 0x61))))
        (seqM (call (u_close S fd))
        (seqM (printf S (''read'' @ newline) [])
        (bindM (u_open S path O_RDONLY) (\<lambda>fd. doM [
           eachM [0..<20] (\<lambda>_. call (u_read S fd 512)),
           call (u_close S fd),
           call (u_wait S),
           exit S 0]))))))))"

end
