(* ===== verification/Grep.thy ===== *)
theory Grep
  imports Ulib
begin

text \<open>
  \<^verbatim>\<open>user/grep.c\<close>: the regular-expression matcher, shown equal to a reference semantics of
  patterns, and the loop that finds the lines of its input through a fixed buffer.
  A pattern and a line are the characters before the NUL; the
  characters \<open>^ $ * .\<close> are 94, 36, 42 and 46, and newline is 10.
\<close>

section \<open>The matcher\<close>

function (sequential) matchhere :: "u8 list \<Rightarrow> u8 list \<Rightarrow> bool"
  and matchstar :: "u8 \<Rightarrow> u8 list \<Rightarrow> u8 list \<Rightarrow> bool" where
  "matchhere [] text = True"
| "matchhere (r # re) text =
     (if re \<noteq> [] \<and> hd re = 42 then matchstar r (tl re) text
      else if r = 36 \<and> re = [] then text = []
      else (case text of
          [] \<Rightarrow> False
        | t # ts \<Rightarrow> if r = 46 \<or> r = t then matchhere re ts else False))"
| "matchstar c re text =
     (if matchhere re text then True
      else (case text of [] \<Rightarrow> False | t # ts \<Rightarrow> if t = c \<or> c = 46 then matchstar c re ts else False))"
  by pat_completeness auto
termination
  by (relation "measures [\<lambda>x. (case x of Inl (re, _) \<Rightarrow> 2 * length re | Inr (_, re, _) \<Rightarrow> 2 * length re + 1),
      \<lambda>x. (case x of Inl (_, text) \<Rightarrow> length text | Inr (_, _, text) \<Rightarrow> length text)]")
    (auto simp: neq_Nil_conv)

declare matchhere.simps(2) [simp del] matchstar.simps [simp del]

fun match_from :: "u8 list \<Rightarrow> u8 list \<Rightarrow> bool" where
  "match_from re [] = matchhere re []"
| "match_from re (t # ts) = (if matchhere re (t # ts) then True else match_from re ts)"

definition match :: "u8 list \<Rightarrow> u8 list \<Rightarrow> bool" where
  "match re text =
     (if re \<noteq> [] \<and> hd re = 94 then matchhere (tl re) text else match_from re text)"

section \<open>Searching a file\<close>

text \<open>
  \<open>rest\<close> holds the bytes from \<open>p\<close> to \<open>buf + m\<close>. A line that does not match leaves a NUL in place
  of its newline, which nothing reads again; the value is the bytes from the last \<open>p\<close> on.
\<close>

lemma strchr_bound: "strchr s c = Some (Some k) \<Longrightarrow> k < length s \<and> s ! k \<noteq> 0 \<and> s ! k = c"
  by (induction s c arbitrary: k rule: strchr.induct) (auto split: if_splits)

function grep_lines :: "'w usys \<Rightarrow> u8 list \<Rightarrow> u8 list \<Rightarrow> ('w, u8 list) km" where
  "grep_lines S pattern rest = (case strchr (rest @ [0]) 10 of
       Some (Some k) \<Rightarrow>
         seqM (whenM (match pattern (take k rest)) (call (u_write S 1 (take (Suc k) rest))))
           (grep_lines S pattern (drop (Suc k) rest))
     | _ \<Rightarrow> retM rest)"
  by pat_completeness auto
termination
proof (relation "measure (\<lambda>(_, _, rest). length rest)")
  fix rest :: "u8 list" and r k and S :: "'w usys" and pattern :: "u8 list"
  assume "strchr (rest @ [0]) 10 = Some r" "r = Some k"
  then have "k < length (rest @ [0])" "(rest @ [0]) ! k \<noteq> 0" using strchr_bound [of "rest @ [0]" 10 k] by simp_all
  then show "((S, pattern, drop (Suc k) rest), S, pattern, rest) \<in> measure (\<lambda>(_, _, rest). length rest)"
    by (cases rest) auto
qed simp

declare grep_lines.simps [simp del]

definition grep_body :: "'w usys \<Rightarrow> u8 list \<Rightarrow> int \<Rightarrow> u8 list \<Rightarrow> ('w, u8 list + unit) km" where
  "grep_body S pattern fd pend =
     bindM (u_read S fd (1024 - length pend - 1)) (\<lambda>r. case r of
         Some (b # bs) \<Rightarrow> bindM (grep_lines S pattern (pend @ b # bs)) (\<lambda>rest. retM (Inl rest))
       | _ \<Rightarrow> retM (Inr ()))"

definition grep :: "'w usys \<Rightarrow> u8 list \<Rightarrow> int \<Rightarrow> ('w, unit) km" where
  "grep S pattern fd = loopM (grep_body S pattern fd) []"

definition main :: "'w usys \<Rightarrow> u8 list list \<Rightarrow> ('w, unit) km" where
  "main S argv =
     (if length argv \<le> 1 then seqM (fprintf S 2 (''usage: grep pattern [file ...]'' @ [CHR 0x0A]) []) (exit S 1)
      else if length argv \<le> 2 then seqM (grep S (argv ! 1) 0) (exit S 0)
      else seqM (eachM (drop 2 argv) (\<lambda>arg.
          bindM (u_open S arg 0) (\<lambda>fd.
            if fd < 0 then seqM (printf S (''grep: cannot open %s'' @ [CHR 0x0A]) [U_str (Some arg)]) (exit S 1)
            else seqM (grep S (argv ! 1) fd) (call (u_close S fd)))))
        (exit S 0))"

section \<open>What a pattern means\<close>

text \<open>
  A pattern after its \<open>^\<close> is a sequence of items, a character (\<open>.\<close> for any) or a starred one, and
  ends in \<open>$\<close> or not. \<open>denotes\<close> relates a sequence of items to the strings it stands for.
\<close>

datatype item = One u8 | Many u8

definition item_char :: "u8 \<Rightarrow> u8 \<Rightarrow> bool" where
  "item_char c t \<longleftrightarrow> c = 46 \<or> t = c"

fun items :: "u8 list \<Rightarrow> item list" where
  "items [] = []"
| "items [c] = (if c = 36 then [] else [One c])"
| "items (c # d # re) = (if d = 42 then Many c # items re else One c # items (d # re))"

fun ends_line :: "u8 list \<Rightarrow> bool" where
  "ends_line [] = False"
| "ends_line [c] = (c = 36)"
| "ends_line (c # d # re) = (if d = 42 then ends_line re else ends_line (d # re))"

inductive denotes :: "item list \<Rightarrow> u8 list \<Rightarrow> bool" where
  empty: "denotes [] []"
| one: "denotes (One c # is) (t # w)" if "item_char c t" "denotes is w"
| many: "denotes (Many c # is) (u @ w)" if "\<forall>t\<in>set u. item_char c t" "denotes is w"

inductive_cases denotes_NilE [elim!]: "denotes [] w"
inductive_cases denotes_OneE [elim!]: "denotes (One c # is) w"
inductive_cases denotes_ManyE [elim!]: "denotes (Many c # is) w"

definition found_at_start :: "u8 list \<Rightarrow> u8 list \<Rightarrow> bool" where
  "found_at_start re text \<longleftrightarrow>
     (\<exists>w z. text = w @ z \<and> denotes (items re) w \<and> (ends_line re \<longrightarrow> z = []))"

lemma found_at_start_Nil: "found_at_start [] text"
  by (auto simp: found_at_start_def intro!: denotes.empty)

lemma found_at_start_dollar: "found_at_start [36] text \<longleftrightarrow> text = []"
  by (auto simp: found_at_start_def intro!: denotes.empty)

lemma found_at_startI:
  "denotes (items re) w \<Longrightarrow> (ends_line re \<longrightarrow> z = []) \<Longrightarrow> found_at_start re (w @ z)"
  by (auto simp: found_at_start_def)

lemma found_at_startE:
  assumes "found_at_start re text"
  obtains w z where "text = w @ z" "denotes (items re) w" "ends_line re \<longrightarrow> z = []"
  using assms by (auto simp: found_at_start_def)

lemma found_at_start_one:
  assumes "re = [] \<Longrightarrow> c \<noteq> 36" "re \<noteq> [] \<Longrightarrow> hd re \<noteq> 42"
  shows "found_at_start (c # re) text \<longleftrightarrow>
    (\<exists>t ts. text = t # ts \<and> item_char c t \<and> found_at_start re ts)" (is "_ \<longleftrightarrow> ?r")
proof -
  have i: "items (c # re) = One c # items re" "ends_line (c # re) = ends_line re"
    using assms by (cases re; simp)+
  show ?thesis
  proof
    assume "found_at_start (c # re) text"
    then show ?r by (rule found_at_startE) (force simp: i dest: found_at_startI)
  next
    assume ?r
    then obtain t w z where "text = (t # w) @ z" "item_char c t" "denotes (items re) w" "ends_line re \<longrightarrow> z = []"
      by (auto elim!: found_at_startE)
    moreover from this have "denotes (items (c # re)) (t # w)" by (simp add: i denotes.one)
    ultimately show "found_at_start (c # re) text" by (metis found_at_startI i(2))
  qed
qed

lemma found_at_start_many:
  "found_at_start (c # 42 # re) text \<longleftrightarrow>
     (\<exists>u ts. text = u @ ts \<and> (\<forall>t\<in>set u. item_char c t) \<and> found_at_start re ts)" (is "_ \<longleftrightarrow> ?r")
proof
  assume "found_at_start (c # 42 # re) text"
  then show ?r by (rule found_at_startE) (force dest: found_at_startI)
next
  assume ?r
  then obtain u w z where "text = (u @ w) @ z" "\<forall>t\<in>set u. item_char c t" "denotes (items re) w"
      "ends_line re \<longrightarrow> z = []"
    by (auto elim!: found_at_startE)
  moreover from this have "denotes (items (c # 42 # re)) (u @ w)" by (simp add: denotes.many)
  ultimately show "found_at_start (c # 42 # re) text" by (metis found_at_startI ends_line.simps(3))
qed

text \<open>The matcher tries the shortest run of a starred character first; a longer one is a later try.\<close>

lemma matcher_correct:
  "matchhere re text = found_at_start re text"
  "matchstar c re text =
     (\<exists>u ts. text = u @ ts \<and> (\<forall>t\<in>set u. item_char c t) \<and> found_at_start re ts)"
proof (induction re "text" and c re "text" rule: matchhere_matchstar.induct)
  case (1 "text")
  then show ?case by (simp add: found_at_start_Nil)
next
  case (2 r re "text")
  consider (star) "re \<noteq> []" "hd re = 42" | (dollar) "r = 36" "re = []"
    | (plain) "\<not> (re \<noteq> [] \<and> hd re = 42)" "\<not> (r = 36 \<and> re = [])" by blast
  then show ?case
  proof cases
    case star
    then obtain re' where "re = 42 # re'" by (cases re) auto
    then show ?thesis using 2(1) by (simp add: matchhere.simps found_at_start_many)
  next
    case dollar
    then show ?thesis by (simp add: matchhere.simps found_at_start_dollar)
  next
    case plain
    then have "found_at_start (r # re) text \<longleftrightarrow>
        (\<exists>t ts. text = t # ts \<and> item_char r t \<and> found_at_start re ts)"
      by (intro found_at_start_one) auto
    moreover have "matchhere (r # re) text \<longleftrightarrow> (\<exists>t ts. text = t # ts \<and> item_char r t \<and> matchhere re ts)"
      using plain by (auto simp: matchhere.simps(2) [of r re] item_char_def split: list.split)
    ultimately show ?thesis using 2(2) [OF plain] by (auto simp: item_char_def)
  qed
next
  case (3 c re "text")
  define run where "run x \<longleftrightarrow> (\<exists>u ts. x = u @ ts \<and> (\<forall>t\<in>set u. item_char c t) \<and> found_at_start re ts)" for x
  have run_Nil: "run [] \<longleftrightarrow> found_at_start re []" by (simp add: run_def)
  have run_Cons: "run (t # ts) \<longleftrightarrow> found_at_start re (t # ts) \<or> item_char c t \<and> run ts" for t ts
  proof
    assume "run (t # ts)"
    then obtain u z where u: "t # ts = u @ z" "\<forall>t\<in>set u. item_char c t" "found_at_start re z"
      by (auto simp: run_def)
    then show "found_at_start re (t # ts) \<or> item_char c t \<and> run ts"
      by (cases u) (auto simp: run_def)
  next
    assume "found_at_start re (t # ts) \<or> item_char c t \<and> run ts"
    then show "run (t # ts)"
    proof
      assume "found_at_start re (t # ts)"
      then show ?thesis unfolding run_def by - (rule exI [of _ "[]"], simp)
    next
      assume "item_char c t \<and> run ts"
      then obtain u z where "ts = u @ z" "\<forall>x\<in>set (t # u). item_char c x" "found_at_start re z"
        by (auto simp: run_def)
      then show ?thesis unfolding run_def by - (rule exI [of _ "t # u"], auto)
    qed
  qed
  have "matchstar c re text = run text"
  proof (cases "text")
    case [simp]: (Cons t ts)
    have "matchstar c re ts = run ts" if "\<not> matchhere re text" "t = c \<or> c = 46"
      using 3(2) [of t ts] that by (simp add: run_def)
    then show ?thesis using 3(1) run_Cons by (auto simp: matchstar.simps [of c re "t # ts"] item_char_def)
  qed (use 3(1) in \<open>simp add: matchstar.simps run_Nil\<close>)
  then show ?case by (simp add: run_def)
qed

lemma match_from_iff: "match_from re text \<longleftrightarrow> (\<exists>x y. text = x @ y \<and> found_at_start re y)"
proof (induction re "text" rule: match_from.induct)
  case (2 re t ts)
  have eq: "(\<exists>x y. t # ts = x @ y \<and> found_at_start re y) \<longleftrightarrow>
      found_at_start re (t # ts) \<or> (\<exists>x y. ts = x @ y \<and> found_at_start re y)" (is "?l \<longleftrightarrow> ?a \<or> ?b")
  proof
    assume ?l
    then obtain x y where "t # ts = x @ y" "found_at_start re y" by blast
    then show "?a \<or> ?b" by (cases x) auto
  next
    assume "?a \<or> ?b"
    then show ?l by (metis append_Nil append_Cons)
  qed
  show ?case
  proof (cases "found_at_start re (t # ts)")
    case True
    then show ?thesis by (simp only: match_from.simps matcher_correct(1) eq if_True simp_thms)
  next
    case False
    then show ?thesis using 2 by (simp only: match_from.simps matcher_correct(1) eq if_False simp_thms)
  qed
qed (simp add: matcher_correct(1))

text \<open>
  C23. The matcher is right: \<open>match\<close> says yes exactly if some part of the line (from its start,
  after \<open>^\<close>; to its end, before \<open>$\<close>) is one of the strings the pattern stands for. It always
  returns.
\<close>

theorem match_correct:
  "match re text \<longleftrightarrow>
     (let start = re \<noteq> [] \<and> hd re = 94; body = if start then tl re else re
      in \<exists>x w z. text = x @ w @ z \<and> denotes (items body) w \<and>
           \<not> (start \<and> x \<noteq> []) \<and> \<not> (ends_line body \<and> z \<noteq> []))"
proof (cases "re \<noteq> [] \<and> hd re = 94")
  case True
  have "match re text \<longleftrightarrow> found_at_start (tl re) text"
    unfolding match_def if_P [OF True] by (rule matcher_correct(1))
  also have "\<dots> \<longleftrightarrow> (\<exists>x w z. text = x @ w @ z \<and> denotes (items (tl re)) w \<and> x = [] \<and>
      \<not> (ends_line (tl re) \<and> z \<noteq> []))"
    unfolding found_at_start_def by (metis append_Nil)
  finally show ?thesis unfolding Let_def if_P [OF True] using True by blast
next
  case False
  have "match re text \<longleftrightarrow> (\<exists>x y. text = x @ y \<and> found_at_start re y)"
    unfolding match_def if_not_P [OF False] by (rule match_from_iff)
  also have "\<dots> \<longleftrightarrow> (\<exists>x w z. text = x @ w @ z \<and> denotes (items re) w \<and> \<not> (ends_line re \<and> z \<noteq> []))"
    unfolding found_at_start_def by blast
  finally show ?thesis unfolding Let_def if_not_P [OF False] using False by blast
qed

end
