(* ===== verification/Filters.thy ===== *)
theory Filters
  imports Uprogs Grep
begin

text \<open>
  What the programs that read a stream print: \<^verbatim>\<open>cat\<close> copies it, \<^verbatim>\<open>wc\<close> counts its lines, words and
  bytes, and \<^verbatim>\<open>grep\<close> prints its matching lines. The system is one where \<open>read\<close> delivers the next
  bytes of the stream, as many as it likes, and \<open>write\<close> to descriptor 1 appends to an output.
\<close>

section \<open>Streams\<close>

definition stream_sys :: "'w usys \<Rightarrow> int \<Rightarrow> ('w \<Rightarrow> u8 list) \<Rightarrow> ('w \<Rightarrow> u8 list) \<Rightarrow> bool" where
  "stream_sys S fd inp out \<longleftrightarrow>
     (\<forall>n env s. 0 < n \<longrightarrow> (\<exists>bs t. u_read S fd n env s = Done (Some bs) t \<and> length bs \<le> n \<and>
        inp s = bs @ inp t \<and> out t = out s \<and> (bs = [] \<longrightarrow> inp s = []))) \<and>
     (\<forall>bs env s. \<exists>t. u_write S 1 bs env s = Done (int (length bs)) t \<and> out t = out s @ bs \<and> inp t = inp s)"

lemma wp_stream_read:
  assumes "stream_sys S fd inp out" "0 < n"
    and "\<And>bs t. length bs \<le> n \<Longrightarrow> inp s = bs @ inp t \<Longrightarrow> out t = out s \<Longrightarrow> (bs = [] \<Longrightarrow> inp s = []) \<Longrightarrow> Q (Some bs) t"
  shows "wp env (u_read S fd n) Q s"
proof -
  obtain bs t where "u_read S fd n env s = Done (Some bs) t" "length bs \<le> n" "inp s = bs @ inp t" "out t = out s" "bs = [] \<longrightarrow> inp s = []"
    using assms(1,2) unfolding stream_sys_def by blast
  then show ?thesis using assms(3) by (auto simp: wp_iff)
qed

lemma wp_stream_write:
  assumes "stream_sys S fd inp out" "\<And>t. out t = out s @ bs \<Longrightarrow> inp t = inp s \<Longrightarrow> Q (int (length bs)) t"
  shows "wp env (u_write S 1 bs) Q s"
proof -
  obtain t where "u_write S 1 bs env s = Done (int (length bs)) t" "out t = out s @ bs" "inp t = inp s"
    using assms(1) unfolding stream_sys_def by blast
  then show ?thesis using assms(2) by (auto simp: wp_iff)
qed

text \<open>A system of that kind: the state is the rest of the input and the output so far.\<close>

definition pipe_sys :: "(u8 list \<times> u8 list) usys" where
  "pipe_sys =
     \<lparr>u_fork = retM (- 1), u_exit = (\<lambda>_ s. s), u_wait = retM (- 1), u_pipe = retM None,
      u_read = (\<lambda>_ n env (i, out). Done (Some (take n i)) (drop n i, out)),
      u_write = (\<lambda>_ bs env (i, out). Done (int (length bs)) (i, out @ bs)),
      u_close = (\<lambda>_. retM 0), u_kill = (\<lambda>_. retM (- 1)), u_exec = (\<lambda>_ _. retM (- 1)), u_open = (\<lambda>_ _. retM (- 1)),
      u_mknod = (\<lambda>_ _ _. retM (- 1)), u_unlink = (\<lambda>_. retM (- 1)), u_fstat = (\<lambda>_. retM None), u_link = (\<lambda>_ _. retM (- 1)),
      u_mkdir = (\<lambda>_. retM (- 1)), u_chdir = (\<lambda>_. retM (- 1)), u_dup = (\<lambda>_. retM (- 1)), u_sbrk = (\<lambda>_. retM 0), u_sleep = (\<lambda>_. retM 0)\<rparr>"

lemma pipe_sys_stream: "stream_sys pipe_sys fd fst snd"
  by (auto simp: stream_sys_def pipe_sys_def)

section \<open>cat\<close>

lemma wp_cat:
  assumes S: "stream_sys S fd inp out"
  shows "wp env (cat S fd) (\<lambda>_ t. inp t = [] \<and> out t = out s @ inp s) s"
proof -
  have "wp env (loopM (cat_body S fd) ()) (\<lambda>ok t. ok \<and> inp t = [] \<and> out t = out s @ inp s) s"
  proof (rule wp_loop [where I = "\<lambda>_ u. out u @ inp u = out s @ inp s" and \<mu> = "\<lambda>_ u. length (inp u)"])
    fix i u
    assume "out u @ inp u = out s @ inp s"
    then show "wp env (cat_body S fd i) (\<lambda>r t. case r of
        Inl j \<Rightarrow> out t @ inp t = out s @ inp s \<and> length (inp t) < length (inp u)
      | Inr ok \<Rightarrow> ok \<and> inp t = [] \<and> out t = out s @ inp s) u"
      unfolding cat_body_def wp_bind
      by (intro wp_stream_read [OF S]) (auto simp: wp_simps intro!: wp_stream_write [OF S] split: list.splits)
  qed simp
  then show ?thesis unfolding cat_def wp_bind by (rule wp_conseq) (simp add: wp_simps)
qed

text \<open>
  \<^verbatim>\<open>cat\<close> copies: however the stream is cut into reads, it ends with the input used up and the
  output extended by exactly the bytes of the input.
\<close>

lemma cat_copies:
  assumes "stream_sys S fd inp out"
  shows "\<exists>t. cat S fd env s = Done () t \<and> inp t = [] \<and> out t = out s @ inp s"
  using wp_cat [OF assms, of env s] by (auto simp: wp_iff)

section \<open>Formatted output\<close>

definition emits :: "('w \<Rightarrow> u8 list) \<Rightarrow> ('w \<Rightarrow> u8 list) \<Rightarrow> ('w, unit) km \<Rightarrow> u8 list \<Rightarrow> bool" where
  "emits inp out m bs \<longleftrightarrow> (\<forall>env s. \<exists>t. m env s = Done () t \<and> inp t = inp s \<and> out t = out s @ bs)"

lemma emits_skip: "emits inp out skipM []"
  by (simp add: emits_def run_simps)

lemma emits_seq: "emits inp out m xs \<Longrightarrow> emits inp out n ys \<Longrightarrow> emits inp out (seqM m n) (xs @ ys)"
  unfolding emits_def by (metis append.assoc seqM_Done)

lemma emits_putc: "stream_sys S fd inp out \<Longrightarrow> emits inp out (putc S 1 c) [c]"
  unfolding emits_def putc_def call_def stream_sys_def by (metis run_base(2) seqM_Done)

lemma emits_chars: "stream_sys S fd inp out \<Longrightarrow> emits inp out (eachM cs (putc S 1)) cs"
proof (induction cs)
  case (Cons c cs)
  then show ?case using emits_seq [OF emits_putc Cons.IH, of S fd c] by simp
qed (simp add: emits_skip)

lemma emits_printint: "stream_sys S fd inp out \<Longrightarrow> emits inp out (printint S 1 x b sg) (printint_text x b sg)"
  unfolding printint_def by (rule emits_chars)

lemma bind_seq_ret: "bindM (seqM m (retM x)) f = seqM m (f x)"
  by (simp add: seqM_def bindM_def retM_def fun_eq_iff split: outcome.splits)

lemma emits_putc_seq: "stream_sys S fd inp out \<Longrightarrow> emits inp out n ys \<Longrightarrow> emits inp out (seqM (putc S 1 c) n) (c # ys)"
  using emits_seq [OF emits_putc] by fastforce

lemma emits_wc_line:
  assumes S: "stream_sys S fd inp out"
  shows "emits inp out (printf S (''%d %d %d %s'' @ newline) [U_int l, U_int w, U_int c, U_str (Some name)])
    (printint_text l 10 True @ [0x20] @ printint_text w 10 True @ [0x20] @ printint_text c 10 True @ [0x20] @ name @ [0x0A])"
  unfolding printf_def vprintf_def
  by (simp add: ascii_def vprintf_arg_def bind_seq_ret)
    (intro emits_seq emits_printint [OF S] emits_chars [OF S] emits_putc_seq [OF S] emits_skip)

section \<open>wc\<close>

definition blank :: "u8 \<Rightarrow> bool" where
  "blank c \<longleftrightarrow> c \<in> {0x20, 0x0D, 0x09, 0x0A, 0x0B}"

text \<open>Where a word begins: at a character that is not blank and does not follow one that is not.\<close>

definition word_starts :: "u8 list \<Rightarrow> nat set" where
  "word_starts xs = {i. i < length xs \<and> \<not> blank (xs ! i) \<and> (i = 0 \<or> blank (xs ! (i - 1)))}"

lemma word_starts_snoc:
  "word_starts (xs @ [x]) = word_starts xs \<union> (if \<not> blank x \<and> (xs = [] \<or> blank (last xs)) then {length xs} else {})"
  by (cases "xs = []") (auto simp: word_starts_def nth_append last_conv_nth less_Suc_eq split: if_splits)

lemma finite_word_starts: "finite (word_starts xs)" "length xs \<notin> word_starts xs"
  by (simp_all add: word_starts_def)

lemma wc_counts_fold:
  "fold wc_char xs (0, 0, 0, False) =
     (of_nat (count_list xs 10), of_nat (card (word_starts xs)), of_nat (length xs), xs \<noteq> [] \<and> \<not> blank (last xs))"
proof (induction xs rule: rev_induct)
  case (snoc x xs)
  have "strchr [0x20, 0x0D, 0x09, 0x0A, 0x0B, 0] x \<noteq> Some None \<longleftrightarrow> blank x" by (simp add: blank_def)
  then show ?case using snoc
    by (auto simp: wc_char_def word_starts_snoc finite_word_starts count_list_append)
qed (simp add: word_starts_def)

lemma wp_wc:
  assumes S: "stream_sys S fd inp out"
  shows "wp env (loopM (wc_body S fd) (0, 0, 0, False))
    (\<lambda>r t. r = Some (fold wc_char (inp s) (0, 0, 0, False)) \<and> inp t = [] \<and> out t = out s) s"
proof (rule wp_loop [where I = "\<lambda>k u. fold wc_char (inp u) k = fold wc_char (inp s) (0, 0, 0, False) \<and> out u = out s"
    and \<mu> = "\<lambda>_ u. length (inp u)"])
  fix k u
  assume "fold wc_char (inp u) k = fold wc_char (inp s) (0, 0, 0, False) \<and> out u = out s"
  then show "wp env (wc_body S fd k) (\<lambda>r t. case r of
      Inl j \<Rightarrow> (fold wc_char (inp t) j = fold wc_char (inp s) (0, 0, 0, False) \<and> out t = out s) \<and> length (inp t) < length (inp u)
    | Inr r \<Rightarrow> r = Some (fold wc_char (inp s) (0, 0, 0, False)) \<and> inp t = [] \<and> out t = out s) u"
    unfolding wc_body_def wp_bind
    by (intro wp_stream_read [OF S]) (auto simp: wp_simps split: list.splits)
qed simp

text \<open>
  C33. \<^verbatim>\<open>wc\<close> counts: however the stream is cut into reads, it prints the number of newlines, the
  number of words and the number of bytes of the whole input, and its name. A word begins at a
  character that is not blank at the start of the input or after a blank, also when a read ends
  inside it.
\<close>

theorem wc_counts:
  assumes "stream_sys S fd inp out"
  shows "\<exists>t. wc S fd name env s = Done () t \<and> inp t = [] \<and>
    out t = out s @ printint_text (of_nat (count_list (inp s) 10)) 10 True @ [0x20] @
      printint_text (of_nat (card (word_starts (inp s)))) 10 True @ [0x20] @
      printint_text (of_nat (length (inp s))) 10 True @ [0x20] @ name @ [0x0A]"
proof -
  obtain u where u: "loopM (wc_body S fd) (0, 0, 0, False) env s = Done (Some (fold wc_char (inp s) (0, 0, 0, False))) u"
    "inp u = []" "out u = out s" using wp_wc [OF assms, of env s] by (auto simp: wp_iff)
  obtain t where "printf S (''%d %d %d %s'' @ newline) [U_int (of_nat (count_list (inp s) 10)), U_int (of_nat (card (word_starts (inp s)))),
      U_int (of_nat (length (inp s))), U_str (Some name)] env u = Done () t" "inp t = inp u"
    "out t = out u @ printint_text (of_nat (count_list (inp s) 10)) 10 True @ [0x20] @
      printint_text (of_nat (card (word_starts (inp s)))) 10 True @ [0x20] @
      printint_text (of_nat (length (inp s))) 10 True @ [0x20] @ name @ [0x0A]"
    using emits_wc_line [OF assms] unfolding emits_def by blast
  then show ?thesis using u by (simp add: wc_def bindM_Done wc_counts_fold)
qed

theorem wc_counts_witness:
  "\<exists>t. wc pipe_sys 0 [0x66] id ([0x61, 0x20, 0x62, 0x0A], []) = Done () t \<and> fst t = [] \<and>
    snd t = [0x31, 0x20, 0x32, 0x20, 0x34, 0x20, 0x66, 0x0A]"
proof -
  have "word_starts [0x61, 0x20, 0x62, 0x0A] = {0, Suc (Suc 0)}"
    using word_starts_snoc [of "[0x61, 0x20, 0x62]" "0x0A"] word_starts_snoc [of "[0x61, 0x20]" "0x62"]
      word_starts_snoc [of "[0x61]" "0x20"] word_starts_snoc [of "[]" "0x61"]
    by (simp add: blank_def word_starts_def [of "[]"] insert_commute)
  moreover have "printint_text 1 10 True = [0x31]" "printint_text 2 10 True = [0x32]" "printint_text 4 10 True = [0x34]"
    by (simp add: printint_text_def, subst digit_buf.simps, simp add: digits_def ascii_def)+
  ultimately show ?thesis
    using wc_counts [OF pipe_sys_stream, of 0 "[0x66]" id "([0x61, 0x20, 0x62, 0x0A], [])"] by simp
qed

section \<open>grep\<close>

text \<open>The complete lines of a text that begins with \<open>acc\<close>, and what follows the last newline.\<close>

fun split_lines :: "u8 list \<Rightarrow> u8 list \<Rightarrow> u8 list list \<times> u8 list" where
  "split_lines acc [] = ([], acc)"
| "split_lines acc (c # cs) =
     (if c = 10 then let (lns, r) = split_lines [] cs in (acc # lns, r) else split_lines (acc @ [c]) cs)"

lemma split_lines_append:
  "split_lines acc (xs @ ys) =
     (let (l1, r1) = split_lines acc xs; (l2, r2) = split_lines r1 ys in (l1 @ l2, r2))"
  by (induction acc xs rule: split_lines.induct) (auto split: prod.splits)

lemma split_lines_none: "10 \<notin> set xs \<Longrightarrow> split_lines acc xs = ([], acc @ xs)"
  by (induction xs arbitrary: acc) auto

lemma split_lines_rest: "split_lines acc xs = (lns, r) \<Longrightarrow> 10 \<notin> set acc \<Longrightarrow> 10 \<notin> set r"
  by (induction acc xs arbitrary: lns rule: split_lines.induct) (auto split: prod.splits if_splits)

lemma split_lines_set: "split_lines acc xs = (lns, r) \<Longrightarrow> set r \<subseteq> set acc \<union> set xs"
  by (induction acc xs arbitrary: lns rule: split_lines.induct) (fastforce split: prod.splits if_splits)+

lemma split_lines_acc: "split_lines acc xs = (lns, r) \<Longrightarrow> length acc \<le> length (hd (lns @ [r]))"
proof (induction acc xs arbitrary: lns rule: split_lines.induct)
  case (2 acc c cs)
  then show ?case by (cases "c = 10") (fastforce split: prod.splits)+
qed simp

definition print_lines :: "u8 list list \<Rightarrow> u8 list" where
  "print_lines lns = concat (map (\<lambda>l. l @ [10]) lns)"

lemma strchr_newline:
  "0 \<notin> set l \<Longrightarrow> 10 \<notin> set l \<Longrightarrow> strchr (l @ [0]) 10 = Some None"
  "0 \<notin> set l \<Longrightarrow> 10 \<notin> set l \<Longrightarrow> strchr (l @ 10 # r) 10 = Some (Some (length l))"
  by (induction l) auto

lemma split_lines_Cons: "10 \<notin> set l \<Longrightarrow> split_lines [] (l @ 10 # r) = (l # fst (split_lines [] r), snd (split_lines [] r))"
  by (simp add: split_lines_append split_lines_none split: prod.splits)

lemma wp_grep_lines:
  assumes S: "stream_sys S fd inp out" and "0 \<notin> set rest"
    and "\<And>t. inp t = inp s \<Longrightarrow> out t = out s @ print_lines (filter (match pattern) (fst (split_lines [] rest))) \<Longrightarrow> Q (snd (split_lines [] rest)) t"
  shows "wp env (grep_lines S pattern rest) Q s"
  using assms(2,3)
proof (induction "length rest" arbitrary: rest s rule: less_induct)
  case less
  show ?case
  proof (cases "10 \<in> set rest")
    case False
    then show ?thesis using less.prems split_lines_none [of rest "[]"]
      by (subst grep_lines.simps) (simp add: strchr_newline wp_simps print_lines_def)
  next
    case True
    then obtain l r where rest: "rest = l @ 10 # r" and l: "10 \<notin> set l" using split_list_first by metis
    have nul: "0 \<notin> set l" "0 \<notin> set r" using less.prems(1) rest by auto
    have step: "wp env (grep_lines S pattern r) Q u"
      if "inp u = inp s" "out u = out s @ (if match pattern l then l @ [10] else [])" for u
      by (rule less.hyps) (use rest nul l less.prems(2) that in \<open>auto simp: split_lines_Cons print_lines_def\<close>)
    have "wp env (u_write S 1 (l @ [10])) (\<lambda>_. wp env (grep_lines S pattern r) Q) s" if "match pattern l"
      by (rule wp_stream_write [OF S]) (use step that in auto)
    moreover have "strchr (rest @ [0]) 10 = Some (Some (length l))" using nul l rest by (simp add: strchr_newline)
    ultimately show ?thesis using step [of s]
      by (subst grep_lines.simps) (auto simp: rest wp_simps call_def)
  qed
qed

text \<open>No NUL, and lines that fit the buffer, the last, unfinished one included.\<close>

definition lines_fit :: "u8 list \<Rightarrow> bool" where
  "lines_fit xs \<longleftrightarrow> 0 \<notin> set xs \<and> list_all (\<lambda>l. length l \<le> 1022) (fst (split_lines [] xs) @ [snd (split_lines [] xs)])"

lemma lines_fit_pending:
  assumes "lines_fit (xs @ ys)" "split_lines [] xs = (lns, p)"
  shows "length p \<le> 1022"
proof -
  obtain l2 r2 where l2: "split_lines p ys = (l2, r2)" by fastforce
  then have "length p \<le> length (hd (l2 @ [r2]))" by (rule split_lines_acc)
  moreover have "\<forall>l\<in>set (l2 @ [r2]). length l \<le> 1022" using assms l2 by (auto simp: lines_fit_def split_lines_append list_all_iff)
  moreover have "hd (l2 @ [r2]) \<in> set (l2 @ [r2])" by (rule hd_in_set) simp
  ultimately show ?thesis by (meson le_trans)
qed

lemma wp_grep_body:
  assumes S: "stream_sys S fd inp out" and fit: "lines_fit (x @ inp u)" and x: "split_lines [] x = (lns, p)"
    and go: "\<And>bs t p'. inp u = bs @ inp t \<Longrightarrow> bs \<noteq> [] \<Longrightarrow> split_lines [] (x @ bs) = (lns @ fst (split_lines p bs), p') \<Longrightarrow>
      out t = out u @ print_lines (filter (match pattern) (fst (split_lines p bs))) \<Longrightarrow> Q (Inl p') t"
    and stop: "\<And>t. inp u = [] \<Longrightarrow> inp t = [] \<Longrightarrow> out t = out u \<Longrightarrow> Q (Inr ()) t"
  shows "wp env (grep_body S pattern fd p) Q u"
  unfolding grep_body_def wp_bind
proof (rule wp_stream_read [OF S])
  show "0 < 1024 - length p - 1" using lines_fit_pending [OF fit x] by simp
  fix bs t
  assume bs: "inp u = bs @ inp t" "out t = out u" "bs = [] \<Longrightarrow> inp u = []"
  have p: "10 \<notin> set p" "0 \<notin> set (p @ bs)"
    using split_lines_rest [OF x] split_lines_set [OF x] fit bs(1) by (auto simp: lines_fit_def)
  have sp: "split_lines [] (p @ bs) = split_lines p bs" using p(1) by (simp add: split_lines_append split_lines_none split: prod.splits)
  have "split_lines [] (x @ bs) = (lns @ fst (split_lines p bs), snd (split_lines p bs))"
    using x by (simp add: split_lines_append split: prod.splits)
  then have "wp env (grep_lines S pattern (p @ bs)) (\<lambda>r. Q (Inl r)) t" if "bs \<noteq> []"
    by (intro wp_grep_lines [OF S p(2)]) (use that bs go sp in auto)
  then show "wp env (case Some bs of Some (b # bs) \<Rightarrow> bindM (grep_lines S pattern (p @ b # bs)) (\<lambda>rest. retM (Inl rest))
      | _ \<Rightarrow> retM (Inr ())) Q t"
    using bs stop [of t] by (cases bs) (simp_all add: wp_simps)
qed

lemma wp_grep:
  assumes S: "stream_sys S fd inp out" and fit: "lines_fit (inp s)"
  shows "wp env (grep S pattern fd) (\<lambda>_ t. inp t = [] \<and>
    out t = out s @ print_lines (filter (match pattern) (fst (split_lines [] (inp s))))) s"
  unfolding grep_def
proof (rule wp_loop [where I = "\<lambda>p u. \<exists>x lns. inp s = x @ inp u \<and> split_lines [] x = (lns, p) \<and>
      out u = out s @ print_lines (filter (match pattern) lns)" and \<mu> = "\<lambda>_ u. length (inp u)"])
  fix p u
  assume "\<exists>x lns. inp s = x @ inp u \<and> split_lines [] x = (lns, p) \<and> out u = out s @ print_lines (filter (match pattern) lns)"
  then obtain x lns where x: "inp s = x @ inp u" "split_lines [] x = (lns, p)" "out u = out s @ print_lines (filter (match pattern) lns)" by blast
  have f: "lines_fit (x @ inp u)" using fit x(1) by simp
  show "wp env (grep_body S pattern fd p) (\<lambda>r t. case r of
      Inl q \<Rightarrow> (\<exists>x lns. inp s = x @ inp t \<and> split_lines [] x = (lns, q) \<and> out t = out s @ print_lines (filter (match pattern) lns)) \<and>
        length (inp t) < length (inp u)
    | Inr _ \<Rightarrow> inp t = [] \<and> out t = out s @ print_lines (filter (match pattern) (fst (split_lines [] (inp s))))) u"
  proof (rule wp_grep_body [OF S f x(2)])
    fix bs t q
    assume "inp u = bs @ inp t" "bs \<noteq> []" "split_lines [] (x @ bs) = (lns @ fst (split_lines p bs), q)"
      "out t = out u @ print_lines (filter (match pattern) (fst (split_lines p bs)))"
    then show "case Inl q of Inl q \<Rightarrow> (\<exists>x lns. inp s = x @ inp t \<and> split_lines [] x = (lns, q) \<and>
          out t = out s @ print_lines (filter (match pattern) lns)) \<and> length (inp t) < length (inp u)
      | Inr _ \<Rightarrow> inp t = [] \<and> out t = out s @ print_lines (filter (match pattern) (fst (split_lines [] (inp s))))"
      using x by (auto simp: print_lines_def intro!: exI [of _ "x @ bs"])
  qed (use x in simp)
qed (intro exI [of _ "[]"], simp add: print_lines_def)

text \<open>
  C24. \<^verbatim>\<open>grep\<close> prints exactly the lines of its input that match, whole and in order, however the
  stream is cut into reads: on an input without NUL whose lines have at most 1022 characters it
  uses up the input and adds to the output the complete lines on which \<open>match\<close> says yes. Text
  after the last newline is not a line and is not printed.
\<close>

theorem grep_prints_matches:
  assumes "stream_sys S fd inp out" "lines_fit (inp s)"
  shows "\<exists>t. grep S pattern fd env s = Done () t \<and> inp t = [] \<and>
    out t = out s @ concat (map (\<lambda>l. l @ [10]) (filter (match pattern) (fst (split_lines [] (inp s)))))"
  using wp_grep [OF assms, of env pattern] by (auto simp: wp_iff print_lines_def)

theorem grep_prints_matches_witness:
  "\<exists>t. grep pipe_sys [0x61, 0x2A, 0x62] 0 id ([0x63, 0x0A, 0x61, 0x62, 0x0A, 0x62], []) = Done () t \<and> fst t = [] \<and>
    snd t = [0x61, 0x62, 0x0A]"
proof -
  have "match [0x61, 0x2A, 0x62] [0x61, 0x62]" "\<not> match [0x61, 0x2A, 0x62] [0x63]"
    by (simp_all add: match_def matchhere.simps matchstar.simps)
  then show ?thesis
    using grep_prints_matches [OF pipe_sys_stream, of "([0x63, 0x0A, 0x61, 0x62, 0x0A, 0x62], [])" "[0x61, 0x2A, 0x62]" 0 id]
    by (simp add: lines_fit_def)
qed

end
