(* ===== verification/Sh.thy ===== *)
theory Sh
  imports Ulib "HOL-Library.Sublist"
begin

text \<open>
  \<^verbatim>\<open>user/sh.c\<close>: the tokenizer, the recursive-descent parser and the command runner of the shell.

  While a line is parsed \<open>*ps\<close> and \<open>es\<close> point into it and \<open>*es\<close> is NUL: a pointer is the list of
  the bytes from it up to \<open>es\<close>, so that \<open>s < es\<close> says that the list is not empty and \<open>*s\<close> at the
  end is 0. What the parser keeps of a word are its two pointers, as offsets in the line. The
  nodes of a command are fresh objects nothing else points to, which makes a command a tree.
\<close>

section \<open>Tokens\<close>

definition whitespace :: "u8 list" where
  "whitespace = [0x20, 0x09, 0x0D, 0x0A, 0x0B]"

definition symbols :: "u8 list" where
  "symbols = [0x3C, 0x7C, 0x3E, 0x26, 0x3B, 0x28, 0x29]"

text \<open>Whether \<open>strchr(toks, c)\<close> is not null.\<close>

definition strchr_in :: "u8 list \<Rightarrow> u8 \<Rightarrow> bool" where
  "strchr_in toks c = (case strchr (toks @ [0]) c of Some (Some _) \<Rightarrow> True | _ \<Rightarrow> False)"

type_synonym tok = "nat \<times> nat"

definition word_char :: "u8 \<Rightarrow> bool" where
  "word_char c \<longleftrightarrow> \<not> strchr_in whitespace c \<and> \<not> strchr_in symbols c"

text \<open>The switch of \<open>gettoken\<close>: the code of the token at \<open>s\<close>, \<open>'a'\<close> or 97 for a word, and its end.\<close>

definition scan_token :: "u8 list \<Rightarrow> u8 \<times> u8 list" where
  "scan_token s = (case s of
       [] \<Rightarrow> (0, s)
     | c # t \<Rightarrow>
         if c = 0 then (0, s)
         else if c \<in> {0x7C, 0x28, 0x29, 0x3B, 0x26, 0x3C} then (c, t)
         else if c = 0x3E then (if t \<noteq> [] \<and> hd t = 0x3E then (0x2B, tl t) else (c, t))
         else (97, dropWhile word_char s))"

text \<open>The token, the pair \<open>(q, eq)\<close>, and the rest of the line.\<close>

definition gettoken :: "nat \<Rightarrow> u8 list \<Rightarrow> u8 \<times> tok \<times> u8 list" where
  "gettoken es r =
     (let s = dropWhile (strchr_in whitespace) r; (ret, s') = scan_token s
      in (ret, (es - length s, es - length s'), dropWhile (strchr_in whitespace) s'))"

definition peek :: "u8 list \<Rightarrow> u8 list \<Rightarrow> bool \<times> u8 list" where
  "peek r toks =
     (let s = dropWhile (strchr_in whitespace) r in (case s of [] \<Rightarrow> False | c # _ \<Rightarrow> c \<noteq> 0 \<and> strchr_in toks c, s))"

lemma strchr_in_iff [simp]: "0 \<notin> set toks \<Longrightarrow> strchr_in toks c \<longleftrightarrow> c \<in> set toks"
proof -
  assume "0 \<notin> set toks"
  then have "strchr (toks @ [0]) c = Some (if c \<in> set toks then Some (length (takeWhile ((\<noteq>) c) toks)) else None)"
    by (induction toks) auto
  then show ?thesis by (simp add: strchr_in_def)
qed

lemma scan_suffix: "suffix (snd (scan_token s)) s"
proof (cases s)
  case (Cons c t)
  have "suffix (dropWhile word_char s) s" "suffix t s" "suffix (tl t) s"
    using Cons suffix_dropWhile [of word_char s] suffix_tl [of t] by (auto simp: suffix_Cons)
  then show ?thesis using Cons by (auto simp: scan_token_def)
qed (simp add: scan_token_def)

lemma suffix_gettoken: "gettoken es r = (ret, qe, r') \<Longrightarrow> suffix r' r"
  using scan_suffix [of "dropWhile (strchr_in whitespace) r"]
  by (auto simp: gettoken_def Let_def split: prod.splits) (meson suffix_dropWhile suffix_order.order_trans)

lemma peek_suffix: "peek r toks = (b, r') \<Longrightarrow> suffix r' r"
  by (auto simp: peek_def Let_def suffix_dropWhile)

lemma peek_idem: "peek r toks = (b, r') \<Longrightarrow> dropWhile (strchr_in whitespace) r' = r'"
  by (auto simp: peek_def Let_def)

lemma scan_shorter:
  assumes "fst (scan_token s) \<noteq> 0" "s \<noteq> [] \<Longrightarrow> \<not> strchr_in whitespace (hd s)"
  shows "length (snd (scan_token s)) < length s"
proof (cases s)
  case (Cons c t)
  have "length (dropWhile word_char t) \<le> length t" by (rule length_dropWhile_le)
  moreover have "word_char c" if "c \<notin> {0x7C, 0x28, 0x29, 0x3B, 0x26, 0x3C, 0x3E}"
    using that assms(2) Cons by (simp add: word_char_def symbols_def)
  ultimately show ?thesis using Cons assms(1) by (auto simp: scan_token_def)
qed (use assms in \<open>simp add: scan_token_def\<close>)

lemma gettoken_shorter:
  assumes "gettoken es r = (ret, qe, r')" "ret \<noteq> 0"
  shows "length r' < length r"
proof -
  let ?s = "dropWhile (strchr_in whitespace) r"
  have "length (snd (scan_token ?s)) < length ?s"
    using assms by (intro scan_shorter) (auto simp: gettoken_def Let_def hd_dropWhile split: prod.splits)
  moreover have "length r' \<le> length (snd (scan_token ?s))" "length ?s \<le> length r"
    using assms by (auto simp: gettoken_def Let_def length_dropWhile_le split: prod.splits)
  ultimately show ?thesis by simp
qed

lemma peek_gettoken:
  assumes "peek r toks = (True, r1)" "gettoken es r1 = (ret, qe, r')" "0 \<notin> set toks"
  shows "length r' < length r" "hd r1 \<in> set toks" "r1 \<noteq> []"
proof -
  obtain c t where r1: "r1 = c # t" "c \<noteq> 0" "c \<in> set toks"
    using assms(1,3) by (auto simp: peek_def Let_def split: list.splits)
  then show "hd r1 \<in> set toks" "r1 \<noteq> []" by simp_all
  have "ret \<noteq> 0" using assms(2) peek_idem [OF assms(1)] r1
    by (auto simp: gettoken_def scan_token_def split: if_splits)
  then show "length r' < length r"
    using gettoken_shorter [OF assms(2)] peek_suffix [OF assms(1)] suffix_length_le by fastforce
qed

section \<open>Commands and the parser\<close>

text \<open>
  Commands over what stands for a string: a pair of pointers from the parser, a C string when the
  command runs. The constructor stands for the \<open>type\<close> field; \<open>argv\<close> ends at the first null pointer.
\<close>

datatype 'a cmd =
    EXEC "'a list"
  | REDIR "'a cmd" 'a u32 int
  | PIPE "'a cmd" "'a cmd"
  | LIST "'a cmd" "'a cmd"
  | BACK "'a cmd"

datatype 'a parsed = P_ok 'a "u8 list" | P_panic string | P_fuel

definition execcmd :: "'a cmd" where
  "execcmd = EXEC []"

definition redircmd :: "'a cmd \<Rightarrow> 'a \<Rightarrow> u32 \<Rightarrow> int \<Rightarrow> 'a cmd" where
  "redircmd subcmd qe mode fd = REDIR subcmd qe mode fd"

definition pipecmd :: "'a cmd \<Rightarrow> 'a cmd \<Rightarrow> 'a cmd" where
  "pipecmd left right = PIPE left right"

definition listcmd :: "'a cmd \<Rightarrow> 'a cmd \<Rightarrow> 'a cmd" where
  "listcmd left right = LIST left right"

definition backcmd :: "'a cmd \<Rightarrow> 'a cmd" where
  "backcmd subcmd = BACK subcmd"

lemmas cmd_defs = execcmd_def redircmd_def pipecmd_def listcmd_def backcmd_def

text \<open>
  \<open>parseexec\<close> keeps a pointer to the \<open>execcmd\<close> under the redirections built so far and stores the
  next argument there.
\<close>

fun add_arg :: "'a \<Rightarrow> 'a cmd \<Rightarrow> 'a cmd" where
  "add_arg a (EXEC args) = EXEC (args @ [a])"
| "add_arg a (REDIR c f m fd) = REDIR (add_arg a c) f m fd"
| "add_arg a c = c"

definition redir_of :: "u8 \<Rightarrow> 'a cmd \<Rightarrow> 'a \<Rightarrow> 'a cmd" where
  "redir_of tok cmd qe =
     (if tok = 0x3C then redircmd cmd qe O_RDONLY 0
      else if tok = 0x3E then redircmd cmd qe (O_WRONLY OR O_CREATE OR O_TRUNC) 1
      else if tok = 0x2B then redircmd cmd qe (O_WRONLY OR O_CREATE) 1
      else cmd)"

lemma redir_shorter:
  assumes "(True, r1) = peek r [0x3C, 0x3E]" "(tok, y, r2) = gettoken es r1" "(97, qe, r3) = gettoken es r2"
  shows "length r3 < length r"
proof -
  have "length r2 < length r" using assms(1,2) [symmetric] by (rule peek_gettoken) simp
  moreover have "length r3 \<le> length r2" using suffix_gettoken [OF assms(3) [symmetric]] by (rule suffix_length_le)
  ultimately show ?thesis by simp
qed

function parseredirs :: "nat \<Rightarrow> tok cmd \<Rightarrow> u8 list \<Rightarrow> tok cmd parsed" where
  "parseredirs es cmd r = (case peek r [0x3C, 0x3E] of
       (False, r1) \<Rightarrow> P_ok cmd r1
     | (True, r1) \<Rightarrow> (case gettoken es r1 of (tok, _, r2) \<Rightarrow> (case gettoken es r2 of (a, qe, r3) \<Rightarrow>
         if a \<noteq> 97 then P_panic ''missing file for redirection''
         else parseredirs es (redir_of tok cmd qe) r3)))"
  by pat_completeness auto
termination
  by (relation "measure (\<lambda>(_, _, r). length r)") (auto intro!: redir_shorter)

declare parseredirs.simps [simp del]

lemma suffix_trans3: "suffix c b \<Longrightarrow> suffix b a \<Longrightarrow> suffix c a"
  by (rule suffix_order.order_trans)

lemma parseredirs_suffix: "parseredirs es cmd r = P_ok c r' \<Longrightarrow> suffix r' r"
proof (induction es cmd r rule: parseredirs.induct)
  case (1 es cmd r)
  obtain b r1 where p: "peek r [0x3C, 0x3E] = (b, r1)" by fastforce
  obtain tok y r2 where t: "gettoken es r1 = (tok, y, r2)" using prod_cases3 by blast
  obtain a qe r3 where u: "gettoken es r2 = (a, qe, r3)" using prod_cases3 by blast
  have s: "suffix r1 r" "suffix r3 r" using peek_suffix [OF p] suffix_gettoken [OF t] suffix_gettoken [OF u]
    by (blast intro: suffix_trans3)+
  show ?case
  proof (cases b)
    case False
    then show ?thesis using "1.prems" p s by (subst (asm) parseredirs.simps) auto
  next
    case True
    then have a: "a = 97" "parseredirs es (redir_of tok cmd qe) r3 = P_ok c r'"
      using "1.prems" p t u by (subst (asm) parseredirs.simps; simp split: if_splits)+
    then have "suffix r' r3" using "1.IH" [of True r1 tok "(y, r2)" y r2 97 "(qe, r3)" qe r3] p t u True by simp
    then show ?thesis using s by (blast intro: suffix_trans3)
  qed
qed

text \<open>The argument loop of \<open>parseexec\<close>.\<close>

function parse_args :: "nat \<Rightarrow> nat \<Rightarrow> tok cmd \<Rightarrow> u8 list \<Rightarrow> tok cmd parsed" where
  "parse_args es argc ret r = (case peek r [0x7C, 0x29, 0x26, 0x3B] of
       (True, r1) \<Rightarrow> P_ok ret r1
     | (False, r1) \<Rightarrow> (case gettoken es r1 of (tok, qe, r2) \<Rightarrow>
         if tok = 0 then P_ok ret r2
         else if tok \<noteq> 97 then P_panic ''syntax''
         else if Suc argc \<ge> 10 then P_panic ''too many args''
         else (case parseredirs es (add_arg qe ret) r2 of
             P_ok ret' r3 \<Rightarrow> parse_args es (Suc argc) ret' r3
           | P_panic e \<Rightarrow> P_panic e
           | P_fuel \<Rightarrow> P_fuel)))"
  by pat_completeness auto
termination
proof (relation "measure (\<lambda>(_, _, _, r). length r)", simp, clarsimp)
  fix es ret and r r1 r2 r3 :: "u8 list" and q e ret'
  assume a: "(False, r1) = peek r [0x7C, 0x29, 0x26, 0x3B]" "(97, (q, e), r2) = gettoken es r1"
    "parseredirs es (add_arg (q, e) ret) r2 = P_ok ret' r3"
  have "length r2 < length r1" using a(2) [symmetric] by (rule gettoken_shorter) simp
  moreover have "suffix r1 r" "suffix r3 r2" using peek_suffix [OF a(1) [symmetric]] parseredirs_suffix [OF a(3)] by blast+
  ultimately show "length r3 < length r" by (auto dest!: suffix_length_le)
qed

declare parse_args.simps [simp del]

text \<open>The loop of \<open>parseline\<close> over \<open>&\<close>.\<close>

function parse_backs :: "nat \<Rightarrow> 'a cmd \<Rightarrow> u8 list \<Rightarrow> 'a cmd \<times> u8 list" where
  "parse_backs es cmd r = (case peek r [0x26] of
       (False, r1) \<Rightarrow> (cmd, r1)
     | (True, r1) \<Rightarrow> (case gettoken es r1 of (_, _, r2) \<Rightarrow> parse_backs es (backcmd cmd) r2))"
  by pat_completeness auto
termination
  by (relation "measure (\<lambda>(_, _, r). length r)") (auto intro: peek_gettoken(1) [OF sym sym])

declare parse_backs.simps [simp del]

text \<open>
  The recursive descent. The functions call each other through a bracket; \<open>4 * length r + 4\<close> is
  fuel enough for \<open>parseline\<close>.
\<close>

fun parseline :: "nat \<Rightarrow> nat \<Rightarrow> u8 list \<Rightarrow> tok cmd parsed"
  and parsepipe :: "nat \<Rightarrow> nat \<Rightarrow> u8 list \<Rightarrow> tok cmd parsed"
  and parseblock :: "nat \<Rightarrow> nat \<Rightarrow> u8 list \<Rightarrow> tok cmd parsed"
  and parseexec :: "nat \<Rightarrow> nat \<Rightarrow> u8 list \<Rightarrow> tok cmd parsed" where
  "parseline 0 es r = P_fuel"
| "parseline (Suc n) es r = (case parsepipe n es r of
       P_ok cmd r1 \<Rightarrow> (case parse_backs es cmd r1 of (cmd', r2) \<Rightarrow> (case peek r2 [0x3B] of
           (False, r3) \<Rightarrow> P_ok cmd' r3
         | (True, r3) \<Rightarrow> (case gettoken es r3 of (_, _, r4) \<Rightarrow> (case parseline n es r4 of
               P_ok cmd2 r5 \<Rightarrow> P_ok (listcmd cmd' cmd2) r5
             | e \<Rightarrow> e))))
     | e \<Rightarrow> e)"
| "parsepipe 0 es r = P_fuel"
| "parsepipe (Suc n) es r = (case parseexec n es r of
       P_ok cmd r1 \<Rightarrow> (case peek r1 [0x7C] of
           (False, r2) \<Rightarrow> P_ok cmd r2
         | (True, r2) \<Rightarrow> (case gettoken es r2 of (_, _, r3) \<Rightarrow> (case parsepipe n es r3 of
               P_ok cmd2 r4 \<Rightarrow> P_ok (pipecmd cmd cmd2) r4
             | e \<Rightarrow> e)))
     | e \<Rightarrow> e)"
| "parseblock 0 es r = P_fuel"
| "parseblock (Suc n) es r = (case peek r [0x28] of
       (False, _) \<Rightarrow> P_panic ''parseblock''
     | (True, r1) \<Rightarrow> (case gettoken es r1 of (_, _, r2) \<Rightarrow> (case parseline n es r2 of
           P_ok cmd r3 \<Rightarrow> (case peek r3 [0x29] of
               (False, _) \<Rightarrow> P_panic ''syntax - missing )''
             | (True, r4) \<Rightarrow> (case gettoken es r4 of (_, _, r5) \<Rightarrow> parseredirs es cmd r5))
         | e \<Rightarrow> e)))"
| "parseexec 0 es r = P_fuel"
| "parseexec (Suc n) es r = (case peek r [0x28] of
       (True, r1) \<Rightarrow> parseblock n es r1
     | (False, r1) \<Rightarrow> (case parseredirs es execcmd r1 of
           P_ok ret r2 \<Rightarrow> parse_args es 0 ret r2
         | e \<Rightarrow> e))"

text \<open>What \<open>nulterminate\<close> makes of the line, a NUL at the end of every word.\<close>

fun nulterminate :: "tok cmd \<Rightarrow> u8 list \<Rightarrow> u8 list" where
  "nulterminate (EXEC args) buf = fold (\<lambda>(q, eq) b. b[eq := 0]) args buf"
| "nulterminate (REDIR cmd (file, efile) mode fd) buf = (nulterminate cmd buf)[efile := 0]"
| "nulterminate (PIPE left right) buf = nulterminate right (nulterminate left buf)"
| "nulterminate (LIST left right) buf = nulterminate right (nulterminate left buf)"
| "nulterminate (BACK cmd) buf = nulterminate cmd buf"

definition panic :: "'w usys \<Rightarrow> string \<Rightarrow> ('w, 'a) km" where
  "panic S e = seqM (fprintf S 2 (''%s'' @ [CHR 0x0A]) [U_str (Some (ascii e))]) (exit S 1)"

text \<open>The command with the strings it points to. A \<open>buf\<close> without a NUL has no \<open>strlen\<close>.\<close>

definition parsecmd :: "'w usys \<Rightarrow> u8 list \<Rightarrow> ('w, u8 list cmd) km" where
  "parsecmd S buf = (case strlen buf of
       None \<Rightarrow> panicM ''strlen''
     | Some es \<Rightarrow> (case parseline (4 * es + 4) es (take es buf) of
           P_ok cmd r \<Rightarrow> (case peek r [] of (_, s) \<Rightarrow>
             if s \<noteq> [] then
               seqM (fprintf S 2 (''leftovers: %s'' @ [CHR 0x0A]) [U_str (Some s)]) (panic S ''syntax'')
             else retM (map_cmd (\<lambda>(q, _). cstr (drop q (nulterminate cmd buf))) cmd))
         | P_panic e \<Rightarrow> panic S e
         | P_fuel \<Rightarrow> (\<lambda>_ _. Diverge)))"

section \<open>Running commands\<close>

definition fork1 :: "'w usys \<Rightarrow> ('w, int) km" where
  "fork1 S = bindM (u_fork S) (\<lambda>pid. if pid = - 1 then panic S ''fork'' else retM pid)"

text \<open>
  A command is never null and its type never unknown. Both sides of a fork run the code that
  follows it; only the child enters the branch.
\<close>

fun runcmd :: "'w usys \<Rightarrow> u8 list cmd \<Rightarrow> ('w, unit) km" where
  "runcmd S (EXEC argv) =
     (case argv of
        [] \<Rightarrow> exit S 1
      | path # _ \<Rightarrow> doM [
          call (u_exec S path argv),
          fprintf S 2 (''exec %s failed'' @ [CHR 0x0A]) [U_str (Some path)],
          exit S 0])"
| "runcmd S (REDIR cmd file mode fd) =
     seqM (call (u_close S fd))
     (bindM (u_open S file mode) (\<lambda>r.
        if r < 0 then seqM (fprintf S 2 (''open %s failed'' @ [CHR 0x0A]) [U_str (Some file)]) (exit S 1)
        else doM [runcmd S cmd, exit S 0]))"
| "runcmd S (LIST left right) =
     bindM (fork1 S) (\<lambda>pid. doM [
       whenM (pid = 0) (runcmd S left),
       call (u_wait S),
       runcmd S right,
       exit S 0])"
| "runcmd S (PIPE left right) =
     bindM (u_pipe S) (\<lambda>p. case p of
       None \<Rightarrow> panic S ''pipe''
     | Some (p0, p1) \<Rightarrow>
         bindM (fork1 S) (\<lambda>pid. seqM
           (whenM (pid = 0) (doM [
             call (u_close S 1), call (u_dup S p1), call (u_close S p0), call (u_close S p1), runcmd S left]))
         (bindM (fork1 S) (\<lambda>pid. doM [
           whenM (pid = 0) (doM [
             call (u_close S 0), call (u_dup S p0), call (u_close S p0), call (u_close S p1), runcmd S right]),
           call (u_close S p0),
           call (u_close S p1),
           call (u_wait S),
           call (u_wait S),
           exit S 0]))))"
| "runcmd S (BACK cmd) =
     bindM (fork1 S) (\<lambda>pid. doM [whenM (pid = 0) (runcmd S cmd), exit S 0])"

text \<open>The buffer after \<open>gets\<close>, or \<open>None\<close> at the end of the input.\<close>

definition getcmd :: "'w usys \<Rightarrow> nat \<Rightarrow> ('w, u8 list option) km" where
  "getcmd S nbuf =
     seqM (fprintf S 2 ''$ '' [])
     (bindM (gets S (int nbuf)) (\<lambda>cs.
        let buf = cs @ replicate (nbuf - length cs) 0
        in retM (if buf ! 0 = 0 then None else Some buf)))"

definition open_console_body :: "'w usys \<Rightarrow> unit \<Rightarrow> ('w, unit + unit) km" where
  "open_console_body S _ =
     bindM (u_open S (ascii ''console'') O_RDWR) (\<lambda>fd.
       if fd \<ge> 0 then
         if fd \<ge> 3 then seqM (call (u_close S fd)) (retM (Inr ())) else retM (Inl ())
       else retM (Inr ()))"

text \<open>\<open>cd\<close> runs in the shell itself; the last character before the NUL is taken for the newline.\<close>

definition main_body :: "'w usys \<Rightarrow> unit \<Rightarrow> ('w, unit + unit) km" where
  "main_body S _ =
     bindM (getcmd S 100) (\<lambda>r. case r of
       None \<Rightarrow> retM (Inr ())
     | Some buf \<Rightarrow>
         if buf ! 0 = 0x63 \<and> buf ! 1 = 0x64 \<and> buf ! 2 = 0x20 then
           let dir = cstr (drop 3 (buf[length (cstr buf) - 1 := 0]))
           in bindM (u_chdir S dir) (\<lambda>c.
                seqM (whenM (c < 0) (fprintf S 2 (''cannot cd %s'' @ [CHR 0x0A]) [U_str (Some dir)]))
                (retM (Inl ())))
         else
           bindM (fork1 S) (\<lambda>pid.
             seqM (whenM (pid = 0) (bindM (parsecmd S buf) (runcmd S)))
             (seqM (call (u_wait S))
             (retM (Inl ())))))"

definition main :: "'w usys \<Rightarrow> ('w, unit) km" where
  "main S = doM [
     loopM (open_console_body S) (),
     loopM (main_body S) (),
     exit S 0]"

end
