(* ===== verification/Sh_Parser.thy ===== *)
theory Sh_Parser
  imports Sh
begin

text \<open>
  What the shell's parser and runner guarantee: the parser returns on every line, the strings of
  the command it builds are exactly the words of the line, it reads back every command that is
  written out with brackets, and running a command never returns to its caller.
\<close>

section \<open>Running a command does not return\<close>

definition never_returns :: "('w, 'a) km \<Rightarrow> bool" where
  "never_returns m \<longleftrightarrow> (\<forall>env s x t. m env s \<noteq> Done x t)"

named_theorems never

lemma never_exit [never]: "never_returns (exit S n)"
  by (simp add: never_returns_def exit_def)

lemma never_bind [never]:
  "never_returns (bindM m f)" if "\<And>x. never_returns (f x)"
  using that by (auto simp: never_returns_def bindM_def split: outcome.splits)

lemma never_seq [never]:
  "never_returns n \<Longrightarrow> never_returns (seqM m n)"
  by (simp add: seqM_def never)

lemma never_panic [never]: "never_returns (panic S e)"
  by (simp add: panic_def never)

lemma never_doM [never]: "ms \<noteq> [] \<Longrightarrow> never_returns (last ms) \<Longrightarrow> never_returns (doM ms)"
proof (induction ms)
  case (Cons m ms)
  show ?case
  proof (cases "ms = []")
    case True
    then show ?thesis using Cons.prems by (auto simp: doM.simps never_returns_def seqM_def bindM_def split: outcome.splits)
  next
    case False
    then show ?thesis using Cons by (simp add: doM.simps never)
  qed
qed simp

lemma runcmd_never: "never_returns (runcmd S cmd)"
  by (induction cmd) (auto intro!: never split: list.splits option.splits)

section \<open>What the parser keeps of a line\<close>

text \<open>A token kept by the parser is a maximal run of word characters of the line, on both sides.\<close>

definition tok_ok :: "u8 list \<Rightarrow> tok \<Rightarrow> bool" where
  "tok_ok T = (\<lambda>(q, e). q < e \<and> e \<le> length T \<and> (\<forall>i. q \<le> i \<and> i < e \<longrightarrow> word_char (T ! i)) \<and>
     (e < length T \<longrightarrow> \<not> word_char (T ! e)) \<and> (0 < q \<longrightarrow> \<not> word_char (T ! (q - 1))))"

definition tok_text :: "u8 list \<Rightarrow> tok \<Rightarrow> u8 list" where
  "tok_text T = (\<lambda>(q, e). take (e - q) (drop q T))"

text \<open>\<open>r'\<close> is what is left of \<open>r\<close> at a place that is not inside a word.\<close>

definition wcut :: "u8 list \<Rightarrow> u8 list \<Rightarrow> bool" where
  "wcut r' r \<longleftrightarrow> (\<exists>pre. r = pre @ r' \<and> (pre \<noteq> [] \<longrightarrow> r' \<noteq> [] \<longrightarrow> \<not> (word_char (last pre) \<and> word_char (hd r'))))"

lemma cut_refl [simp]: "wcut r r"
  by (simp add: wcut_def)

lemma cutI: "\<not> word_char (last pre) \<or> pre = [] \<or> r' = [] \<or> \<not> word_char (hd r') \<Longrightarrow> wcut r' (pre @ r')"
  by (auto simp: wcut_def)

lemma cut_suffix: "wcut r' r \<Longrightarrow> suffix r' r"
  by (auto simp: wcut_def suffix_def)

lemma cut_length_le: "wcut r' r \<Longrightarrow> length r' \<le> length r"
  by (intro suffix_length_le cut_suffix)

lemma cut_trans: "wcut c b \<Longrightarrow> wcut b a \<Longrightarrow> wcut c a"
proof -
  assume "wcut c b" "wcut b a"
  then obtain p q where "b = p @ c" "p \<noteq> [] \<longrightarrow> c \<noteq> [] \<longrightarrow> \<not> (word_char (last p) \<and> word_char (hd c))"
    "a = q @ b" "q \<noteq> [] \<longrightarrow> b \<noteq> [] \<longrightarrow> \<not> (word_char (last q) \<and> word_char (hd b))"
    unfolding wcut_def by blast
  then show ?thesis
    unfolding wcut_def by (intro exI [of _ "q @ p"]) (cases "p = []", auto)
qed

lemma cut_blanks: "wcut (dropWhile (strchr_in whitespace) r) r"
proof -
  let ?p = "takeWhile (strchr_in whitespace) r"
  have "\<not> word_char (last ?p)" if "?p \<noteq> []"
    using set_takeWhileD [OF last_in_set [OF that]] by (simp add: word_char_def)
  then have "wcut (dropWhile (strchr_in whitespace) r) (?p @ dropWhile (strchr_in whitespace) r)" by (intro cutI) blast
  then show ?thesis by simp
qed

lemma peek_cut: "peek r toks = (b, r') \<Longrightarrow> wcut r' r"
  by (auto simp: peek_def Let_def cut_blanks)

lemma cut_scan: "wcut (snd (scan_token s)) s"
proof (cases s)
  case (Cons c t)
  have "wcut (dropWhile word_char s) (takeWhile word_char s @ dropWhile word_char s)"
    by (rule cutI) (use hd_dropWhile [of word_char s] in blast)
  then have w: "wcut (dropWhile word_char s) s" by simp
  have sym: "\<not> word_char x" if "x \<in> {0x7C, 0x28, 0x29, 0x3B, 0x26, 0x3C, 0x3E}" for x
    using that unfolding word_char_def by (subst strchr_in_iff [of symbols]) (auto simp: symbols_def)
  have "wcut t ([c] @ t)" if "c \<in> {0x7C, 0x28, 0x29, 0x3B, 0x26, 0x3C, 0x3E}" by (rule cutI) (use sym [OF that] in simp)
  moreover have "wcut (tl t) ([c, 0x3E] @ tl t)" by (rule cutI) (use sym in simp)
  ultimately show ?thesis using w Cons by (cases t) (auto simp: scan_token_def)
qed (simp add: scan_token_def)

lemma gettoken_cut: "gettoken es r = (ret, qe, r') \<Longrightarrow> wcut r' r"
  using cut_scan [of "dropWhile (strchr_in whitespace) r"] cut_blanks [of r]
  by (auto simp: gettoken_def Let_def split: prod.splits) (meson cut_blanks cut_trans)

lemma parseredirs_okE:
  assumes "parseredirs es cmd r = P_ok c r'"
  obtains "peek r [0x3C, 0x3E] = (False, r')" "c = cmd"
  | r1 tok y r2 qe r3 where "peek r [0x3C, 0x3E] = (True, r1)" "gettoken es r1 = (tok, y, r2)" "gettoken es r2 = (97, qe, r3)"
      "parseredirs es (redir_of tok cmd qe) r3 = P_ok c r'"
  using assms by (subst (asm) parseredirs.simps) (auto split: prod.splits bool.splits if_splits)

lemma parseredirs_cut: "parseredirs es cmd r = P_ok c r' \<Longrightarrow> wcut r' r"
proof (induction "length r" arbitrary: r cmd rule: less_induct)
  case less
  from less.prems show ?case
  proof (cases rule: parseredirs_okE)
    case 1
    then show ?thesis by (simp add: peek_cut)
  next
    case (2 r1 tok y r2 qe r3)
    have "wcut r' r3" by (rule less.hyps [OF redir_shorter [OF 2(1-3) [symmetric]] 2(4)])
    then show ?thesis
      using peek_cut [OF 2(1)] gettoken_cut [OF 2(2)] gettoken_cut [OF 2(3)] cut_trans by blast
  qed
qed

text \<open>What every function of the parser keeps: it moves forward, and its tokens are words.\<close>

definition parse_good :: "u8 list \<Rightarrow> u8 list \<Rightarrow> tok cmd \<Rightarrow> u8 list \<Rightarrow> bool" where
  "parse_good T r c r' \<longleftrightarrow> wcut r' r \<and> (\<forall>t\<in>set_cmd c. tok_ok T t)"

lemma scan_word: "fst (scan_token s) = 97 \<Longrightarrow> scan_token s = (97, dropWhile word_char s)"
  by (cases s) (auto simp: scan_token_def split: if_splits)

lemma tok_okI:
  assumes "w \<noteq> []" "\<And>c. c \<in> set w \<Longrightarrow> word_char c" "rest \<noteq> [] \<Longrightarrow> \<not> word_char (hd rest)" "pre \<noteq> [] \<Longrightarrow> \<not> word_char (last pre)"
  shows "tok_ok (pre @ w @ rest) (length pre, length pre + length w)"
  using assms by (auto simp: tok_ok_def nth_append hd_conv_nth last_conv_nth)

lemma gettoken_word:
  assumes "gettoken (length T) r = (97, qe, r')" "wcut r T"
  shows "tok_ok T qe"
proof -
  let ?s = "dropWhile (strchr_in whitespace) r" and ?w = "takeWhile word_char" and ?d = "dropWhile word_char"
  have "wcut ?s T" using assms(2) cut_blanks cut_trans by blast
  then obtain pre where T: "T = pre @ ?s" and left: "pre \<noteq> [] \<Longrightarrow> ?s \<noteq> [] \<Longrightarrow> \<not> (word_char (last pre) \<and> word_char (hd ?s))"
    by (auto simp: wcut_def)
  have scan: "scan_token ?s = (97, ?d ?s)" and q: "qe = (length T - length ?s, length T - length (?d ?s))"
    using assms(1) scan_word [of ?s] by (auto simp: gettoken_def Let_def split: prod.splits)
  have ne: "?d ?s \<noteq> ?s" using scan_shorter [of ?s] scan by (auto simp: hd_dropWhile)
  have s: "?s = ?w ?s @ ?d ?s" by simp
  then have len: "length ?s = length (?w ?s) + length (?d ?s)" by (metis length_append)
  then have e: "qe = (length pre, length pre + length (?w ?s))" using q arg_cong [OF T, of length] by auto
  have w: "?w ?s \<noteq> []" using ne s by (metis append_Nil)
  then have "?s \<noteq> []" "word_char (hd ?s)" by (cases ?s; auto split: if_splits)+
  with w left have "tok_ok (pre @ ?w ?s @ ?d ?s) (length pre, length pre + length (?w ?s))"
    by (intro tok_okI) (use hd_dropWhile [of word_char ?s] in \<open>auto dest: set_takeWhileD\<close>)
  then show ?thesis unfolding e using T s by metis
qed

subsection \<open>Inversion of successful parses\<close>

lemma parse_args_okE:
  assumes "parse_args es argc ret r = P_ok c r'"
  obtains "peek r [0x7C, 0x29, 0x26, 0x3B] = (True, r')" "c = ret"
  | r1 qe where "peek r [0x7C, 0x29, 0x26, 0x3B] = (False, r1)" "gettoken es r1 = (0, qe, r')" "c = ret"
  | r1 qe r2 ret' r3 where "peek r [0x7C, 0x29, 0x26, 0x3B] = (False, r1)" "gettoken es r1 = (97, qe, r2)"
      "parseredirs es (add_arg qe ret) r2 = P_ok ret' r3" "Suc argc < 10" "parse_args es (Suc argc) ret' r3 = P_ok c r'"
  using assms by (subst (asm) parse_args.simps) (auto split: prod.splits bool.splits if_splits parsed.splits)

lemma parse_backs_okE:
  assumes "parse_backs es cmd r = (c, r')"
  obtains "peek r [0x26] = (False, r')" "c = cmd"
  | r1 tok qe r2 where "peek r [0x26] = (True, r1)" "gettoken es r1 = (tok, qe, r2)" "parse_backs es (BACK cmd) r2 = (c, r')"
  using assms by (subst (asm) parse_backs.simps) (auto simp: cmd_defs split: prod.splits bool.splits)

lemma parseline_okE:
  assumes "parseline n es r = P_ok c r'"
  obtains n' cmd r1 r2 where "n = Suc n'" "parsepipe n' es r = P_ok cmd r1" "parse_backs es cmd r1 = (c, r2)" "peek r2 [0x3B] = (False, r')"
  | n' cmd r1 cmd1 r2 r3 tok qe r4 cmd2 where "n = Suc n'" "parsepipe n' es r = P_ok cmd r1" "parse_backs es cmd r1 = (cmd1, r2)"
      "peek r2 [0x3B] = (True, r3)" "gettoken es r3 = (tok, qe, r4)" "parseline n' es r4 = P_ok cmd2 r'" "c = LIST cmd1 cmd2"
  using assms by (cases n) (auto simp: cmd_defs split: prod.splits bool.splits parsed.splits)

lemma parsepipe_okE:
  assumes "parsepipe n es r = P_ok c r'"
  obtains n' r1 where "n = Suc n'" "parseexec n' es r = P_ok c r1" "peek r1 [0x7C] = (False, r')"
  | n' cmd r1 r2 tok qe r3 cmd2 where "n = Suc n'" "parseexec n' es r = P_ok cmd r1" "peek r1 [0x7C] = (True, r2)"
      "gettoken es r2 = (tok, qe, r3)" "parsepipe n' es r3 = P_ok cmd2 r'" "c = PIPE cmd cmd2"
  using assms by (cases n) (auto simp: cmd_defs split: prod.splits bool.splits parsed.splits)

lemma parseblock_okE:
  assumes "parseblock n es r = P_ok c r'"
  obtains n' r1 tok qe r2 cmd r3 r4 tok' qe' r5 where "n = Suc n'" "peek r [0x28] = (True, r1)" "gettoken es r1 = (tok, qe, r2)"
      "parseline n' es r2 = P_ok cmd r3" "peek r3 [0x29] = (True, r4)" "gettoken es r4 = (tok', qe', r5)" "parseredirs es cmd r5 = P_ok c r'"
  using assms by (cases n) (auto split: prod.splits bool.splits parsed.splits)

lemma parseexec_okE:
  assumes "parseexec n es r = P_ok c r'"
  obtains n' r1 where "n = Suc n'" "peek r [0x28] = (True, r1)" "parseblock n' es r1 = P_ok c r'"
  | n' r1 ret r2 where "n = Suc n'" "peek r [0x28] = (False, r1)" "parseredirs es execcmd r1 = P_ok ret r2" "parse_args es 0 ret r2 = P_ok c r'"
  using assms by (cases n) (auto split: prod.splits bool.splits parsed.splits)

subsection \<open>Every function moves forward over words\<close>

lemma parse_good_step:
  "parse_good T r1 c r' \<Longrightarrow> wcut r1 r \<Longrightarrow> parse_good T r c r'"
  by (auto simp: parse_good_def intro: cut_trans)

lemma set_cmd_redir_of: "set_cmd (redir_of tok cmd qe) \<subseteq> insert qe (set_cmd cmd)"
  by (auto simp: redir_of_def cmd_defs)

lemma set_cmd_add_arg: "set_cmd (add_arg a c) \<subseteq> insert a (set_cmd c)"
  by (induction a c rule: add_arg.induct) auto

lemma parseredirs_good:
  assumes "parseredirs (length T) cmd r = P_ok c r'" "wcut r T" "\<forall>t\<in>set_cmd cmd. tok_ok T t"
  shows "parse_good T r c r'"
  using assms
proof (induction "length r" arbitrary: r cmd rule: less_induct)
  case less
  from less.prems(1) show ?case
  proof (cases rule: parseredirs_okE)
    case 1
    then show ?thesis using less.prems(3) peek_cut by (auto simp: parse_good_def)
  next
    case (2 r1 tok y r2 qe r3)
    have r3: "wcut r2 r" "wcut r3 r" using peek_cut [OF 2(1)] gettoken_cut [OF 2(2)] gettoken_cut [OF 2(3)]
      by (blast intro: cut_trans)+
    then have "tok_ok T qe" using gettoken_word [OF 2(3)] less.prems(2) cut_trans by blast
    then have "parse_good T r3 c r'"
      using less.hyps [OF redir_shorter [OF 2(1-3) [symmetric]] 2(4)] less.prems(2,3) r3 set_cmd_redir_of [of tok cmd qe]
        cut_trans by blast
    then show ?thesis using r3(2) by (rule parse_good_step)
  qed
qed

lemma parse_args_good:
  assumes "parse_args (length T) argc ret r = P_ok c r'" "wcut r T" "\<forall>t\<in>set_cmd ret. tok_ok T t"
  shows "parse_good T r c r'"
  using assms
proof (induction "length r" arbitrary: r argc ret rule: less_induct)
  case less
  from less.prems(1) show ?case
  proof (cases rule: parse_args_okE)
    case 1
    then show ?thesis using less.prems(3) peek_cut by (auto simp: parse_good_def)
  next
    case (2 r1 qe)
    then show ?thesis using less.prems(3) peek_cut [OF 2(1)] gettoken_cut [OF 2(2)]
      by (auto simp: parse_good_def intro: cut_trans)
  next
    case (3 r1 qe r2 ret' r3)
    have s: "wcut r1 r" "wcut r2 r" using peek_cut [OF 3(1)] gettoken_cut [OF 3(2)] by (blast intro: cut_trans)+
    then have "tok_ok T qe" using gettoken_word [OF 3(2)] less.prems(2) cut_trans by blast
    then have g: "parse_good T r2 ret' r3"
      using parseredirs_good [OF 3(3)] less.prems(2,3) s set_cmd_add_arg [of qe ret] cut_trans by blast
    have "length r2 < length r1" using 3(2) by (rule gettoken_shorter) simp
    then have "length r3 < length r" using g s(1) by (auto simp: parse_good_def dest!: cut_length_le)
    moreover have r3: "wcut r3 r" "\<forall>t\<in>set_cmd ret'. tok_ok T t" using g s(2) by (auto simp: parse_good_def intro: cut_trans)
    ultimately have "parse_good T r3 c r'" using less.hyps 3(5) less.prems(2) cut_trans by blast
    then show ?thesis using r3(1) by (rule parse_good_step)
  qed
qed

lemma parse_backs_good:
  assumes "parse_backs es cmd r = (c, r')"
  shows "wcut r' r \<and> set_cmd c = set_cmd cmd"
  using assms
proof (induction "length r" arbitrary: r cmd rule: less_induct)
  case less
  from less.prems(1) show ?case
  proof (cases rule: parse_backs_okE)
    case 1
    then show ?thesis using peek_cut by auto
  next
    case (2 r1 tok qe r2)
    then show ?thesis using less.hyps [of r2 "BACK cmd"] peek_gettoken(1) [OF 2(1,2)] peek_cut [OF 2(1)] gettoken_cut [OF 2(2)]
      by (auto intro: cut_trans)
  qed
qed

lemma parse_good_combine:
  "parse_good T r c r1 \<Longrightarrow> wcut r2 r1 \<Longrightarrow> parse_good T r2 d r3 \<Longrightarrow> set_cmd e \<subseteq> set_cmd c \<union> set_cmd d \<Longrightarrow> parse_good T r e r3"
  unfolding parse_good_def by (meson UnE subsetD cut_trans)

lemma parse_good_cut: "parse_good T r c r' \<Longrightarrow> wcut r' r"
  by (simp add: parse_good_def)

lemma peek_gettoken_cut: "peek r toks = (b, r1) \<Longrightarrow> gettoken es r1 = (tok, qe, r2) \<Longrightarrow> wcut r2 r"
  using peek_cut gettoken_cut cut_trans by metis

text \<open>One level of each function, its callees assumed good.\<close>

abbreviation (input) good_parser :: "u8 list \<Rightarrow> (u8 list \<Rightarrow> tok cmd parsed) \<Rightarrow> bool" where
  "good_parser T p \<equiv> (\<forall>r c r'. p r = P_ok c r' \<longrightarrow> wcut r T \<longrightarrow> parse_good T r c r')"

lemma parseline_good:
  assumes "good_parser T (parsepipe n (length T))" "good_parser T (parseline n (length T))"
  shows "good_parser T (parseline (Suc n) (length T))"
proof (intro allI impI)
  fix r c r'
  assume p: "parseline (Suc n) (length T) r = P_ok c r'" and r: "wcut r T"
  from p show "parse_good T r c r'"
  proof (cases rule: parseline_okE)
    case (1 n' cmd r1 r2)
    have "parse_good T r cmd r1" using assms(1) 1(1,2) r by simp
    then show ?thesis using parse_backs_good [OF 1(3)] peek_cut [OF 1(4)]
      unfolding parse_good_def by (metis cut_trans)
  next
    case (2 n' cmd r1 cmd1 r2 r3 tok qe r4 cmd2)
    have a: "parse_good T r cmd r1" using assms(1) 2(1,2) r by simp
    have r4: "wcut r4 r1"
      using peek_gettoken_cut [OF 2(4,5)] parse_backs_good [OF 2(3)] cut_trans by metis
    then have "wcut r4 T" using parse_good_cut [OF a] r cut_trans by metis
    then have "parse_good T r4 cmd2 r'" using assms(2) 2(1,6) by simp
    with a r4 show ?thesis by (rule parse_good_combine) (use 2(7) parse_backs_good [OF 2(3)] in auto)
  qed
qed

lemma parsepipe_good:
  assumes "good_parser T (parseexec n (length T))" "good_parser T (parsepipe n (length T))"
  shows "good_parser T (parsepipe (Suc n) (length T))"
proof (intro allI impI)
  fix r c r'
  assume p: "parsepipe (Suc n) (length T) r = P_ok c r'" and r: "wcut r T"
  from p show "parse_good T r c r'"
  proof (cases rule: parsepipe_okE)
    case (1 n' r1)
    have "parse_good T r c r1" using assms(1) 1(1,2) r by simp
    then show ?thesis using peek_cut [OF 1(3)] unfolding parse_good_def by (metis cut_trans)
  next
    case (2 n' cmd r1 r2 tok qe r3 cmd2)
    have a: "parse_good T r cmd r1" using assms(1) 2(1,2) r by simp
    have r3: "wcut r3 r1" by (rule peek_gettoken_cut [OF 2(3,4)])
    then have "wcut r3 T" using parse_good_cut [OF a] r cut_trans by metis
    then have "parse_good T r3 cmd2 r'" using assms(2) 2(1,5) by simp
    with a r3 show ?thesis by (rule parse_good_combine) (use 2(6) in auto)
  qed
qed

lemma parseblock_good:
  assumes "good_parser T (parseline n (length T))"
  shows "good_parser T (parseblock (Suc n) (length T))"
proof (intro allI impI)
  fix r c r'
  assume p: "parseblock (Suc n) (length T) r = P_ok c r'" and r: "wcut r T"
  from p show "parse_good T r c r'"
  proof (cases rule: parseblock_okE)
    case (1 n' r1 tok qe r2 cmd r3 r4 tok' qe' r5)
    have r2: "wcut r2 r" by (rule peek_gettoken_cut [OF 1(2,3)])
    then have "wcut r2 T" using r by (rule cut_trans)
    then have g: "parse_good T r2 cmd r3" using assms 1(1,4) by simp
    have "wcut r5 r3" by (rule peek_gettoken_cut [OF 1(5,6)])
    then have r5: "wcut r5 r" using parse_good_cut [OF g] r2 cut_trans by metis
    then have "wcut r5 T" using r by (rule cut_trans)
    then have "parse_good T r5 c r'" using parseredirs_good [OF 1(7)] g by (simp add: parse_good_def)
    then show ?thesis using r5 by (rule parse_good_step)
  qed
qed

lemma parseexec_good:
  assumes "good_parser T (parseblock n (length T))"
  shows "good_parser T (parseexec (Suc n) (length T))"
proof (intro allI impI)
  fix r c r'
  assume p: "parseexec (Suc n) (length T) r = P_ok c r'" and r: "wcut r T"
  from p show "parse_good T r c r'"
  proof (cases rule: parseexec_okE)
    case (1 n' r1)
    have r1: "wcut r1 r" by (rule peek_cut [OF 1(2)])
    then have "wcut r1 T" using r by (rule cut_trans)
    then have "parse_good T r1 c r'" using assms 1(1,3) by simp
    then show ?thesis using r1 by (rule parse_good_step)
  next
    case (2 n' r1 ret r2)
    have r1: "wcut r1 r" by (rule peek_cut [OF 2(2)])
    then have "wcut r1 T" using r by (rule cut_trans)
    then have g: "parse_good T r1 ret r2" using parseredirs_good [OF 2(3)] by (simp add: execcmd_def)
    then have r2: "wcut r2 r" using parse_good_cut r1 cut_trans by metis
    then have "wcut r2 T" using r by (rule cut_trans)
    then have "parse_good T r2 c r'" using parse_args_good [OF 2(4)] g by (simp add: parse_good_def)
    then show ?thesis using r2 by (rule parse_good_step)
  qed
qed

lemma parser_good:
  "good_parser T (parseline n (length T)) \<and> good_parser T (parsepipe n (length T)) \<and>
   good_parser T (parseblock n (length T)) \<and> good_parser T (parseexec n (length T))"
proof (induction n)
  case (Suc n)
  note ih = Suc [THEN conjunct1] Suc [THEN conjunct2, THEN conjunct1] Suc [THEN conjunct2, THEN conjunct2, THEN conjunct1]
    Suc [THEN conjunct2, THEN conjunct2, THEN conjunct2]
  show ?case
    by (intro conjI parseline_good [OF ih(2,1)] parsepipe_good [OF ih(4,2)] parseblock_good [OF ih(1)] parseexec_good [OF ih(3)])
qed simp

subsection \<open>The fuel is enough\<close>

lemma parseredirs_fuel: "parseredirs es cmd r \<noteq> P_fuel"
proof (induction "length r" arbitrary: r cmd rule: less_induct)
  case less
  have "parseredirs es (redir_of tok cmd qe) r3 \<noteq> P_fuel"
    if "peek r [0x3C, 0x3E] = (True, r1)" "gettoken es r1 = (tok, y, r2)" "gettoken es r2 = (97, qe, r3)" for r1 tok y r2 qe r3
    by (rule less.hyps [OF redir_shorter [OF that [symmetric]]])
  then show ?case by (subst parseredirs.simps) (auto split: prod.splits bool.splits)
qed

lemma parse_args_fuel: "parse_args (length T) argc ret r \<noteq> P_fuel" if "wcut r T"
  using that
proof (induction "length r" arbitrary: r argc ret rule: less_induct)
  case less
  have "parse_args (length T) (Suc argc) ret' r3 \<noteq> P_fuel"
    if p: "peek r [0x7C, 0x29, 0x26, 0x3B] = (False, r1)" "gettoken (length T) r1 = (97, qe, r2)"
      "parseredirs (length T) (add_arg qe ret) r2 = P_ok ret' r3" for r1 qe r2 ret' r3
  proof (rule less.hyps)
    have "length r2 < length r1" using p(2) by (rule gettoken_shorter) simp
    moreover have s: "wcut r3 r2" "wcut r2 r1" "wcut r1 r"
      using parseredirs_cut [OF p(3)] gettoken_cut [OF p(2)] peek_cut [OF p(1)] by blast+
    ultimately show "length r3 < length r" by (auto dest!: cut_length_le)
    show "wcut r3 T" using s less.prems cut_trans by metis
  qed
  then show ?case
    using parseredirs_fuel by (subst parse_args.simps) (auto split: prod.splits bool.splits parsed.splits)
qed

text \<open>A bracket takes a character and four levels of calls.\<close>

abbreviation (input) fuelled :: "u8 list \<Rightarrow> nat \<Rightarrow> (u8 list \<Rightarrow> tok cmd parsed) \<Rightarrow> bool" where
  "fuelled T k p \<equiv> (\<forall>r. length r < k \<longrightarrow> wcut r T \<longrightarrow> p r \<noteq> P_fuel)"

lemma peek_gettoken_less:
  "peek r toks = (True, r1) \<Longrightarrow> gettoken es r1 = (tok, qe, r2) \<Longrightarrow> 0 \<notin> set toks \<Longrightarrow> length r < Suc k \<Longrightarrow> length r2 < k"
  using peek_gettoken(1) [of r toks r1 es tok qe r2] by simp

lemma parseline_fuel:
  assumes "fuelled T (Suc k) (parsepipe n (length T))" "fuelled T k (parseline n (length T))"
  shows "fuelled T (Suc k) (parseline (Suc n) (length T))"
proof (intro allI impI)
  fix r
  assume r: "length r < Suc k" "wcut r T"
  have "parseline n (length T) r4 \<noteq> P_fuel"
    if p: "parsepipe n (length T) r = P_ok cmd r1" "parse_backs (length T) cmd r1 = (cmd1, r2)" "peek r2 [0x3B] = (True, r3)"
      "gettoken (length T) r3 = (tok, qe, r4)" for cmd r1 cmd1 r2 r3 tok qe r4
  proof -
    have "parse_good T r cmd r1" using parser_good [THEN conjunct2, THEN conjunct1] p(1) r(2) by blast
    then have r2: "wcut r2 r" using parse_backs_good [OF p(2)] parse_good_cut cut_trans by metis
    then have "length r2 < Suc k" using r(1) cut_length_le by fastforce
    then have "length r4 < k" using peek_gettoken_less [OF p(3,4)] by simp
    moreover have "wcut r4 T" using peek_gettoken_cut [OF p(3,4)] r2 r(2) cut_trans by metis
    ultimately show ?thesis using assms(2) by blast
  qed
  moreover have "parsepipe n (length T) r \<noteq> P_fuel" using assms(1) r by blast
  ultimately show "parseline (Suc n) (length T) r \<noteq> P_fuel" by (auto split: prod.splits bool.splits parsed.splits)
qed

lemma parsepipe_fuel:
  assumes "fuelled T (Suc k) (parseexec n (length T))" "fuelled T k (parsepipe n (length T))"
  shows "fuelled T (Suc k) (parsepipe (Suc n) (length T))"
proof (intro allI impI)
  fix r
  assume r: "length r < Suc k" "wcut r T"
  have "parsepipe n (length T) r3 \<noteq> P_fuel"
    if p: "parseexec n (length T) r = P_ok cmd r1" "peek r1 [0x7C] = (True, r2)" "gettoken (length T) r2 = (tok, qe, r3)"
    for cmd r1 r2 tok qe r3
  proof -
    have "parse_good T r cmd r1" using parser_good [THEN conjunct2, THEN conjunct2, THEN conjunct2] p(1) r(2) by blast
    then have r1: "wcut r1 r" by (rule parse_good_cut)
    then have "length r1 < Suc k" using r(1) cut_length_le by fastforce
    then have "length r3 < k" using peek_gettoken_less [OF p(2,3)] by simp
    moreover have "wcut r3 T" using peek_gettoken_cut [OF p(2,3)] r1 r(2) cut_trans by metis
    ultimately show ?thesis using assms(2) by blast
  qed
  moreover have "parseexec n (length T) r \<noteq> P_fuel" using assms(1) r by blast
  ultimately show "parsepipe (Suc n) (length T) r \<noteq> P_fuel" by (auto split: prod.splits bool.splits parsed.splits)
qed

lemma parseblock_fuel:
  assumes "fuelled T k (parseline n (length T))"
  shows "fuelled T (Suc k) (parseblock (Suc n) (length T))"
proof (intro allI impI)
  fix r
  assume r: "length r < Suc k" "wcut r T"
  have "parseline n (length T) r2 \<noteq> P_fuel"
    if p: "peek r [0x28] = (True, r1)" "gettoken (length T) r1 = (tok, qe, r2)" for r1 tok qe r2
  proof -
    have "length r2 < k" using peek_gettoken_less [OF p] r(1) by simp
    moreover have "wcut r2 T" using peek_gettoken_cut [OF p] r(2) by (rule cut_trans)
    ultimately show ?thesis using assms by blast
  qed
  then show "parseblock (Suc n) (length T) r \<noteq> P_fuel" using parseredirs_fuel by (auto split: prod.splits bool.splits parsed.splits)
qed

lemma parseexec_fuel:
  assumes "fuelled T k (parseblock n (length T))"
  shows "fuelled T k (parseexec (Suc n) (length T))"
proof (intro allI impI)
  fix r
  assume r: "length r < k" "wcut r T"
  have "parseblock n (length T) r1 \<noteq> P_fuel" if p: "peek r [0x28] = (b, r1)" for b r1
  proof -
    have r1: "wcut r1 r" by (rule peek_cut [OF p])
    then have "length r1 < k" using r(1) cut_length_le by fastforce
    moreover have "wcut r1 T" using r1 r(2) by (rule cut_trans)
    ultimately show ?thesis using assms by blast
  qed
  moreover have "parse_args (length T) 0 ret r2 \<noteq> P_fuel"
    if "peek r [0x28] = (b, r1)" "parseredirs (length T) execcmd r1 = P_ok ret r2" for b r1 ret r2
    using parse_args_fuel [of r2 T] parseredirs_cut [OF that(2)] peek_cut [OF that(1)] r(2) cut_trans by metis
  ultimately show "parseexec (Suc n) (length T) r \<noteq> P_fuel"
    using parseredirs_fuel by (auto split: prod.splits bool.splits parsed.splits)
qed

lemma parser_fuel: "fuelled T m (parseline (n + 4 * m) (length T)) \<and> fuelled T m (parsepipe (n + 4 * m) (length T))"
proof (induction m arbitrary: n)
  case (Suc m)
  have exec: "fuelled T (Suc m) (parseexec (j + 4 * m + 2) (length T))" for j
    using parseexec_fuel [OF parseblock_fuel [OF Suc [THEN conjunct1]]] by simp
  have pipe: "fuelled T (Suc m) (parsepipe (j + 4 * m + 3) (length T))" for j
    using parsepipe_fuel [OF exec [of j]] Suc [of "j + 2"] by (simp add: numeral_3_eq_3)
  have line: "fuelled T (Suc m) (parseline (j + 4 * m + 4) (length T))" for j
    using parseline_fuel [OF pipe [of j]] Suc [of "j + 3"] by (simp add: eval_nat_numeral)
  show ?case using pipe [of "Suc n"] line [of n] by (simp add: eval_nat_numeral algebra_simps)
qed simp

lemma parseline_total: "parseline (4 * length T + 4) (length T) T \<noteq> P_fuel"
proof -
  have "fuelled T (Suc (length T)) (parseline (0 + 4 * Suc (length T)) (length T))" using parser_fuel by blast
  then show ?thesis by (simp add: algebra_simps)
qed

section \<open>The strings of a command\<close>

lemma fold_nul_nth:
  "length (fold (\<lambda>(q, e) b. b[e := 0]) ts b) = length b \<and>
   (i < length b \<longrightarrow> fold (\<lambda>(q, e) b. b[e := 0]) ts b ! i = (if \<exists>q. (q, i) \<in> set ts then 0 else b ! i))" for b :: "u8 list"
  by (induction ts arbitrary: b) (simp, fastforce simp: nth_list_update)

lemma nulterminate_nth:
  "length (nulterminate c b) = length b \<and>
   (i < length b \<longrightarrow> nulterminate c b ! i = (if \<exists>q. (q, i) \<in> set_cmd c then 0 else b ! i))"
proof (induction c b rule: nulterminate.induct)
  case (1 args b)
  then show ?case by (simp add: fold_nul_nth)
next
  case (2 cmd f efile mode fd b)
  then show ?case by (cases "i = efile") (auto simp: nth_list_update)
qed (auto split: if_splits)

lemma nulterminate_words:
  assumes "\<forall>t\<in>set_cmd c. tok_ok T t" "0 \<notin> set T" "(q, e) \<in> set_cmd c"
  shows "cstr (drop q (nulterminate c (T @ 0 # rest))) = tok_text T (q, e)"
proof -
  let ?b = "nulterminate c (T @ 0 # rest)"
  have qe: "q < e" "e \<le> length T" "\<And>i. q \<le> i \<Longrightarrow> i < e \<Longrightarrow> word_char (T ! i)" using assms(1,3) by (auto simp: tok_ok_def)
  have len: "length ?b = length T + Suc (length rest)" by (simp add: nulterminate_nth)
  have "?b ! i = T ! i" if i: "q \<le> i" "i < e" for i
  proof -
    have "word_char (T ! i)" "i < length T" using qe i by simp_all
    then have "\<nexists>q. (q, i) \<in> set_cmd c" using assms(1) by (auto simp: tok_ok_def)
    then show ?thesis using \<open>i < length T\<close> by (simp add: nulterminate_nth nth_append)
  qed
  then have eq: "take (e - q) (drop q ?b) = take (e - q) (drop q T)"
    using qe(1,2) by (intro nth_equalityI) (simp_all add: len)
  have e0: "?b ! e = 0" using assms(3) qe(2) by (auto simp: nulterminate_nth)
  have "T ! i \<noteq> 0" if "i < length T" for i using that assms(2) by (metis nth_mem)
  then have "cstr (drop q ?b) = take (e - q) (drop q ?b)"
    unfolding cstr_def using qe e0 \<open>\<And>i. q \<le> i \<Longrightarrow> i < e \<Longrightarrow> ?b ! i = T ! i\<close>
    by (intro takeWhile_eq_take_P_nth) (auto simp: len)
  then show ?thesis using eq by (simp add: tok_text_def)
qed

lemma strlen_line: "0 \<notin> set T \<Longrightarrow> strlen (T @ 0 # rest) = Some (length T)"
  by (induction T) auto

text \<open>What \<open>parsecmd\<close> does with a line, in terms of what \<open>parseline\<close> gives.\<close>

lemma parsecmd_ok:
  assumes "0 \<notin> set T" "parseline (4 * length T + 4) (length T) T = P_ok c r"
  shows "parsecmd S (T @ 0 # rest) = (case peek r [] of (_, s) \<Rightarrow>
     if s = [] then retM (map_cmd (tok_text T) c)
     else seqM (fprintf S 2 (''leftovers: %s'' @ [CHR 0x0A]) [U_str (Some s)]) (panic S ''syntax''))"
proof -
  have "parse_good T T c r" using parser_good [THEN conjunct1] assms(2) cut_refl by blast
  then have "\<forall>t\<in>set_cmd c. tok_ok T t" by (simp add: parse_good_def)
  then have "map_cmd (\<lambda>(q, _). cstr (drop q (nulterminate c (T @ 0 # rest)))) c = map_cmd (tok_text T) c"
    using nulterminate_words [OF _ assms(1)] by (intro cmd.map_cong) auto
  then show ?thesis using assms(2) strlen_line [OF assms(1)] by (auto simp: parsecmd_def split: prod.splits)
qed

lemma parsecmd_cases:
  assumes T: "0 \<notin> set T"
  shows "(\<exists>c. set_cmd c \<subseteq> Collect (tok_ok T) \<and> parsecmd S (T @ 0 # rest) = retM (map_cmd (tok_text T) c)) \<or>
   (\<exists>e. parsecmd S (T @ 0 # rest) = panic S e) \<or>
   (\<exists>s. s \<noteq> [] \<and> suffix s T \<and> parsecmd S (T @ 0 # rest) =
     seqM (fprintf S 2 (''leftovers: %s'' @ [CHR 0x0A]) [U_str (Some s)]) (panic S ''syntax''))"
proof (cases "parseline (4 * length T + 4) (length T) T")
  case (P_ok c r)
  obtain b s where s: "peek r [] = (b, s)" by fastforce
  have g: "parse_good T T c r" using parser_good [THEN conjunct1] P_ok cut_refl by blast
  then have "suffix s T" "set_cmd c \<subseteq> Collect (tok_ok T)"
    using suffix_trans3 [OF peek_suffix [OF s] cut_suffix] by (auto simp: parse_good_def)
  then show ?thesis using parsecmd_ok [OF T P_ok, of S rest] s by (cases "s = []") auto
next
  case (P_panic e)
  then show ?thesis using strlen_line [OF T, of rest] by (auto simp: parsecmd_def)
qed (simp add: parseline_total)

text \<open>
  C31. The shell parses every line: \<open>parsecmd\<close> either gives a command whose strings are words of
  the line, each a maximal run of characters that are neither blanks nor symbols and cut out
  exactly by \<open>nulterminate\<close> although all words share the one buffer, or it complains about the
  line and exits. It never loops.
\<close>

theorem parsecmd_total:
  "(\<exists>c. set_cmd c \<subseteq> Collect (tok_ok (cstr line)) \<and> parsecmd S (cstr line @ 0 # rest) = retM (map_cmd (tok_text (cstr line)) c)) \<or>
   (\<exists>e. parsecmd S (cstr line @ 0 # rest) = panic S e) \<or>
   (\<exists>s. s \<noteq> [] \<and> suffix s (cstr line) \<and> parsecmd S (cstr line @ 0 # rest) =
     seqM (fprintf S 2 (''leftovers: %s'' @ [CHR 0x0A]) [U_str (Some s)]) (panic S ''syntax''))"
  by (rule parsecmd_cases) (auto simp: cstr_def dest: set_takeWhileD)

section \<open>Commands written out\<close>

definition redir_sym :: "u32 \<Rightarrow> u8 list" where
  "redir_sym mode = (if mode = O_RDONLY then [0x3C] else if mode = O_WRONLY OR O_CREATE OR O_TRUNC then [0x3E] else [0x3E, 0x3E])"

text \<open>A command as a line: words followed by blanks, every part of a compound command in brackets.\<close>

fun unparse :: "u8 list cmd \<Rightarrow> u8 list" where
  "unparse (EXEC ws) = concat (map (\<lambda>w. w @ [0x20]) ws)"
| "unparse (REDIR c f mode fd) = [0x28] @ unparse c @ [0x29] @ redir_sym mode @ f @ [0x20]"
| "unparse (PIPE l r) = [0x28] @ unparse l @ [0x29, 0x7C, 0x28] @ unparse r @ [0x29]"
| "unparse (LIST l r) = [0x28] @ unparse l @ [0x29, 0x3B, 0x28] @ unparse r @ [0x29]"
| "unparse (BACK c) = [0x28] @ unparse c @ [0x29, 0x26]"

definition word :: "u8 list \<Rightarrow> bool" where
  "word w \<longleftrightarrow> w \<noteq> [] \<and> (\<forall>c\<in>set w. word_char c \<and> c \<noteq> 0)"

fun wf_cmd :: "u8 list cmd \<Rightarrow> bool" where
  "wf_cmd (EXEC ws) \<longleftrightarrow> length ws < 10 \<and> list_all word ws"
| "wf_cmd (REDIR c f mode fd) \<longleftrightarrow> wf_cmd c \<and> word f \<and>
     (mode, fd) \<in> {(O_RDONLY, 0), (O_WRONLY OR O_CREATE OR O_TRUNC, 1), (O_WRONLY OR O_CREATE, 1)}"
| "wf_cmd (PIPE l r) \<longleftrightarrow> wf_cmd l \<and> wf_cmd r"
| "wf_cmd (LIST l r) \<longleftrightarrow> wf_cmd l \<and> wf_cmd r"
| "wf_cmd (BACK c) \<longleftrightarrow> wf_cmd c"

definition nonblank :: "u8 list \<Rightarrow> bool" where
  "nonblank r \<longleftrightarrow> (r \<noteq> [] \<longrightarrow> \<not> strchr_in whitespace (hd r))"

text \<open>What may follow a line in brackets or the whole line.\<close>

definition stop :: "u8 list \<Rightarrow> bool" where
  "stop r \<longleftrightarrow> (r \<noteq> [] \<longrightarrow> hd r = 0x29)"

lemma strchr_whitespace [simp]: "strchr_in whitespace c \<longleftrightarrow> c \<in> {0x20, 0x09, 0x0D, 0x0A, 0x0B}"
  by (subst strchr_in_iff) (simp_all add: whitespace_def)

lemma strchr_symbols [simp]: "strchr_in symbols c \<longleftrightarrow> c \<in> {0x3C, 0x7C, 0x3E, 0x26, 0x3B, 0x28, 0x29}"
  by (subst strchr_in_iff) (simp_all add: symbols_def)

lemma nonblank_simps [simp]: "nonblank []" "nonblank (c # r) \<longleftrightarrow> \<not> strchr_in whitespace c"
  by (simp_all add: nonblank_def)

lemma nonblank_skip: "nonblank r \<Longrightarrow> dropWhile (strchr_in whitespace) r = r"
  by (cases r) simp_all

lemma stop_nonblank: "stop r \<Longrightarrow> nonblank r"
  by (cases r) (simp_all add: stop_def)

lemma peek_nonblank: "nonblank r \<Longrightarrow> peek r toks = (r \<noteq> [] \<and> hd r \<noteq> 0 \<and> strchr_in toks (hd r), r)"
  by (cases r) (simp_all add: peek_def nonblank_skip)

lemma gettoken_sym:
  "c \<in> {0x7C, 0x28, 0x29, 0x3B, 0x26, 0x3C} \<Longrightarrow> nonblank r \<Longrightarrow> \<exists>qe. gettoken es (c # r) = (c, qe, r)"
  by (auto simp: gettoken_def scan_token_def nonblank_skip)

lemma gettoken_written:
  assumes "word w" "nonblank r" "suffix (w @ 0x20 # r) T"
  shows "\<exists>qe. gettoken (length T) (w @ 0x20 # r) = (97, qe, r) \<and> tok_text T qe = w"
proof -
  obtain c w' where w: "w = c # w'" using assms(1) by (cases w) (auto simp: word_def)
  have wc: "\<forall>c\<in>set w. word_char c" using assms(1) by (simp add: word_def)
  have c: "word_char c" "c \<noteq> 0" using assms(1) w by (simp_all add: word_def)
  have "dropWhile word_char (w @ 0x20 # r) = 0x20 # r" using wc by (simp add: dropWhile_append3 word_char_def)
  then have "scan_token (w @ 0x20 # r) = (97, 0x20 # r)" using c w by (auto simp: scan_token_def word_char_def)
  moreover have "dropWhile (strchr_in whitespace) (w @ 0x20 # r) = w @ 0x20 # r" using c w by (simp add: word_char_def)
  moreover obtain pre where "T = pre @ w @ 0x20 # r" using assms(3) by (auto simp: suffix_def)
  ultimately show ?thesis using assms(2) by (simp add: gettoken_def nonblank_skip tok_text_def)
qed

lemma parseredirs_none: "nonblank r \<Longrightarrow> r \<noteq> [] \<longrightarrow> hd r \<notin> {0x3C, 0x3E} \<Longrightarrow> parseredirs es c r = P_ok c r"
  by (subst parseredirs.simps) (auto simp: peek_nonblank)

lemma suffix_append: "suffix (xs @ ys) T \<Longrightarrow> suffix ys T"
  by (auto simp: suffix_def)

lemma suffix_Cons_tl: "suffix (x # ys) T \<Longrightarrow> suffix ys T"
  using suffix_append [of "[x]"] by simp

lemma word_hd: "word w \<Longrightarrow> word_char (hd (w @ r)) \<and> hd (w @ r) \<noteq> 0"
  by (cases w) (auto simp: word_def)

lemma parse_args_written:
  assumes "list_all word ws" "stop rest" "argc + length ws < 10" "suffix (concat (map (\<lambda>w. w @ [0x20]) ws) @ rest) T"
  shows "\<exists>ts. parse_args (length T) argc (EXEC as) (concat (map (\<lambda>w. w @ [0x20]) ws) @ rest) = P_ok (EXEC (as @ ts)) rest \<and>
    map (tok_text T) ts = ws"
  using assms
proof (induction ws arbitrary: as argc)
  case Nil
  have "parse_args (length T) argc (EXEC as) rest = P_ok (EXEC as) rest"
  proof (cases rest)
    case Nil
    then show ?thesis by (subst parse_args.simps) (simp add: peek_nonblank gettoken_def scan_token_def)
  next
    case (Cons c r)
    then show ?thesis using Nil.prems(2) by (subst parse_args.simps) (simp add: peek_nonblank stop_def)
  qed
  then show ?case by simp
next
  case (Cons w ws)
  let ?r = "concat (map (\<lambda>w. w @ [0x20]) ws) @ rest"
  have w: "word w" and ws: "list_all word ws" using Cons.prems(1) by simp_all
  have hd: "nonblank ?r" "?r \<noteq> [] \<longrightarrow> hd ?r \<notin> {0x3C, 0x3E}"
    using ws Cons.prems(2) stop_nonblank [of rest] word_hd [of "hd ws"]
    by (cases ws; auto simp: nonblank_def stop_def word_char_def)+
  have s: "suffix (w @ 0x20 # ?r) T" using Cons.prems(4) by simp
  obtain qe where qe: "gettoken (length T) (w @ 0x20 # ?r) = (97, qe, ?r)" "tok_text T qe = w"
    using gettoken_written [OF w hd(1) s] by blast
  have "suffix ?r T" using suffix_append [of "w @ [0x20]" ?r T] s by simp
  then obtain ts where ts: "parse_args (length T) (Suc argc) (EXEC (as @ [qe])) ?r = P_ok (EXEC ((as @ [qe]) @ ts)) rest"
    "map (tok_text T) ts = ws" using Cons.IH [of "Suc argc" "as @ [qe]"] ws Cons.prems by auto
  have "peek (w @ 0x20 # ?r) [0x7C, 0x29, 0x26, 0x3B] = (False, w @ 0x20 # ?r)"
    using word_hd [OF w, of "0x20 # ?r"] by (subst peek_nonblank) (auto simp: nonblank_def word_char_def)
  then have "parse_args (length T) argc (EXEC as) (w @ 0x20 # ?r) = P_ok (EXEC (as @ qe # ts)) rest"
    using qe(1) ts(1) Cons.prems(3) parseredirs_none [OF hd] by (subst parse_args.simps) simp
  then show ?case using qe(2) ts(2) by (intro exI [of _ "qe # ts"]) simp
qed

text \<open>\<open>parseline\<close> reads back a command that is followed by a closing bracket or the end.\<close>

definition line_reads :: "u8 list \<Rightarrow> u8 list cmd \<Rightarrow> bool" where
  "line_reads T c \<longleftrightarrow> (\<forall>n rest. stop rest \<longrightarrow> suffix (unparse c @ rest) T \<longrightarrow> 4 * length (unparse c @ rest) + 4 \<le> n \<longrightarrow>
     (\<exists>c'. parseline n (length T) (unparse c @ rest) = P_ok c' rest \<and> map_cmd (tok_text T) c' = c))"

lemma nonblank_unparse: "wf_cmd c \<Longrightarrow> nonblank rest \<Longrightarrow> nonblank (unparse c @ rest)"
proof (cases c)
  case (EXEC ws)
  assume "wf_cmd c" "nonblank rest"
  then show ?thesis using EXEC word_hd [of "hd ws"] by (cases ws) (auto simp: nonblank_def word_char_def)
qed simp_all

lemma block_reads:
  assumes "line_reads T c" "wf_cmd c" "nonblank rest" "suffix (0x28 # unparse c @ 0x29 # rest) T"
    and "4 * length (unparse c @ 0x29 # rest) + 6 \<le> n"
  shows "\<exists>c'. parseexec n (length T) (0x28 # unparse c @ 0x29 # rest) = parseredirs (length T) c' rest \<and> map_cmd (tok_text T) c' = c"
proof -
  obtain m where n: "n = Suc (Suc m)" using assms(5) by (cases n; cases "n - 1") auto
  have "nonblank (unparse c @ 0x29 # rest)" using assms(2) by (rule nonblank_unparse) simp
  then obtain qe where g: "gettoken (length T) (0x28 # unparse c @ 0x29 # rest) = (0x28, qe, unparse c @ 0x29 # rest)"
    using gettoken_sym [of "0x28"] by fastforce
  obtain qe' where g': "gettoken (length T) (0x29 # rest) = (0x29, qe', rest)" using gettoken_sym [of "0x29"] assms(3) by fastforce
  obtain c' where "parseline m (length T) (unparse c @ 0x29 # rest) = P_ok c' (0x29 # rest)" "map_cmd (tok_text T) c' = c"
    using assms(1) [unfolded line_reads_def, rule_format, OF _ suffix_Cons_tl [OF assms(4)], of m] assms(5) n
    by (auto simp: stop_def)
  then show ?thesis using g g' by (auto simp: n peek_nonblank)
qed

lemma pipe_reads:
  assumes "parseexec n es r = P_ok c rest" "nonblank rest" "rest \<noteq> [] \<longrightarrow> hd rest \<noteq> 0x7C"
  shows "parsepipe (Suc n) es r = P_ok c rest"
  using assms by (auto simp: peek_nonblank)

lemma parse_backs_none: "nonblank r \<Longrightarrow> r \<noteq> [] \<longrightarrow> hd r \<noteq> 0x26 \<Longrightarrow> parse_backs es c r = (c, r)"
  by (subst parse_backs.simps) (auto simp: peek_nonblank)

lemma line_stops:
  assumes "parsepipe n es r = P_ok c rest" "stop rest"
  shows "parseline (Suc n) es r = P_ok c rest"
  using assms stop_nonblank [OF assms(2)] by (auto simp: parse_backs_none peek_nonblank stop_def)

text \<open>A command in brackets and what follows it, as \<open>parsepipe\<close> sees them.\<close>

lemma pipe_block_reads:
  assumes "line_reads T c" "wf_cmd c" "nonblank rest" "rest \<noteq> [] \<longrightarrow> hd rest \<notin> {0x3C, 0x3E, 0x7C}"
    "suffix (0x28 # unparse c @ 0x29 # rest) T" and n: "4 * length (unparse c @ 0x29 # rest) + 7 \<le> n"
  shows "\<exists>c'. parsepipe n (length T) (0x28 # unparse c @ 0x29 # rest) = P_ok c' rest \<and> map_cmd (tok_text T) c' = c"
proof -
  obtain m where m: "n = Suc m" using n by (cases n) auto
  obtain c' where "parseexec m (length T) (0x28 # unparse c @ 0x29 # rest) = parseredirs (length T) c' rest" "map_cmd (tok_text T) c' = c"
    using block_reads [OF assms(1,2,3,5), of m] n m by auto
  then show ?thesis using assms(3,4) parseredirs_none [of rest "length T" c'] pipe_reads [of m "length T" _ c' rest] m by auto
qed

lemma exec_reads: "line_reads T (EXEC ws)" if wf: "wf_cmd (EXEC ws)"
  unfolding line_reads_def
proof (intro allI impI)
  fix n rest
  assume a: "stop rest" "suffix (unparse (EXEC ws) @ rest) T" "4 * length (unparse (EXEC ws) @ rest) + 4 \<le> n"
  obtain m where m: "n = Suc (Suc (Suc m))" using a(3) by (cases n; cases "n - 1"; cases "n - 2") auto
  let ?u = "unparse (EXEC ws) @ rest"
  have nb: "nonblank ?u" using wf stop_nonblank [OF a(1)] by (rule nonblank_unparse)
  have hd: "?u \<noteq> [] \<longrightarrow> hd ?u \<notin> {0x3C, 0x3E, 0x28}"
    using wf a(1) word_hd [of "hd ws"] by (cases ws) (auto simp: stop_def word_char_def)
  obtain ts where ts: "parse_args (length T) 0 (EXEC []) ?u = P_ok (EXEC ts) rest" "map (tok_text T) ts = ws"
    using parse_args_written [of ws rest 0 T "[]"] wf a(1,2) by auto
  have "parseexec (Suc m) (length T) ?u = P_ok (EXEC ts) rest"
    using ts(1) nb hd parseredirs_none [OF nb, of "length T" "EXEC []"] by (auto simp: peek_nonblank execcmd_def)
  then have "parsepipe (Suc (Suc m)) (length T) ?u = P_ok (EXEC ts) rest"
    by (rule pipe_reads) (use a(1) stop_nonblank in \<open>auto simp: stop_def\<close>)
  then show "\<exists>c'. parseline n (length T) ?u = P_ok c' rest \<and> map_cmd (tok_text T) c' = EXEC ws"
    unfolding m using ts(2) line_stops [OF _ a(1)] by fastforce
qed

lemma redir_token:
  assumes "(mode, fd) \<in> {(O_RDONLY, 0), (O_WRONLY OR O_CREATE OR O_TRUNC, 1), (O_WRONLY OR O_CREATE, 1)}" "word f"
  shows "\<exists>tok qe. gettoken es (redir_sym mode @ f @ r) = (tok, qe, f @ r) \<and> redir_of tok c x = REDIR c x mode fd"
proof -
  have "nonblank (f @ r)" "f @ r \<noteq> []" "hd (f @ r) \<noteq> 0x3E"
    using word_hd [OF assms(2), of r] assms(2) by (auto simp: nonblank_def word_char_def word_def)
  then show ?thesis
    using assms(1) by (auto simp: redir_sym_def gettoken_def scan_token_def nonblank_skip redir_of_def redircmd_def)
qed

lemma redir_reads:
  assumes "line_reads T c" "wf_cmd (REDIR c f mode fd)"
  shows "line_reads T (REDIR c f mode fd)"
  unfolding line_reads_def
proof (intro allI impI)
  fix n rest
  assume a: "stop rest" "suffix (unparse (REDIR c f mode fd) @ rest) T" "4 * length (unparse (REDIR c f mode fd) @ rest) + 4 \<le> n"
  let ?f = "f @ 0x20 # rest" and ?r = "redir_sym mode @ f @ 0x20 # rest"
  obtain m where m: "n = Suc (Suc m)" using a(3) by (cases n; cases "n - 1") auto
  have f: "word f" and wf: "wf_cmd c" using assms(2) by simp_all
  have r: "nonblank ?r" "?r \<noteq> []" "hd ?r \<in> {0x3C, 0x3E}" by (auto simp: redir_sym_def)
  have s: "suffix (0x28 # unparse c @ 0x29 # ?r) T" using a(2) by simp
  then have sf: "suffix ?f T" using suffix_append [of "0x28 # unparse c @ 0x29 # redir_sym mode" ?f T] by simp
  obtain c' where c': "parseexec m (length T) (0x28 # unparse c @ 0x29 # ?r) = parseredirs (length T) c' ?r" "map_cmd (tok_text T) c' = c"
    using block_reads [OF assms(1) wf r(1) s, of m] a(3) m by auto
  obtain qf where qf: "gettoken (length T) ?f = (97, qf, rest)" "tok_text T qf = f"
    using gettoken_written [OF f stop_nonblank [OF a(1)] sf] by blast
  obtain tok qe where t: "gettoken (length T) ?r = (tok, qe, ?f)" "redir_of tok c' qf = REDIR c' qf mode fd"
    using redir_token [of mode fd f "length T" "0x20 # rest" c' qf] assms(2) by auto
  have "parseredirs (length T) (REDIR c' qf mode fd) rest = P_ok (REDIR c' qf mode fd) rest"
    using a(1) stop_nonblank [OF a(1)] by (intro parseredirs_none) (auto simp: stop_def)
  then have "parseredirs (length T) c' ?r = P_ok (REDIR c' qf mode fd) rest"
    using t qf(1) r by (subst parseredirs.simps) (auto simp: peek_nonblank)
  then have "parsepipe (Suc m) (length T) (0x28 # unparse c @ 0x29 # ?r) = P_ok (REDIR c' qf mode fd) rest"
    using c'(1) a(1) stop_nonblank [OF a(1)] by (intro pipe_reads) (auto simp: stop_def)
  then show "\<exists>c'. parseline n (length T) (unparse (REDIR c f mode fd) @ rest) = P_ok c' rest \<and> map_cmd (tok_text T) c' = REDIR c f mode fd"
    using line_stops [OF _ a(1), of "Suc m" "length T" _ "REDIR c' qf mode fd"] c'(2) qf(2) m by fastforce
qed

lemma pipe_cmd_reads:
  assumes "line_reads T l" "line_reads T r" "wf_cmd (PIPE l r)"
  shows "line_reads T (PIPE l r)"
  unfolding line_reads_def
proof (intro allI impI)
  fix n rest
  assume a: "stop rest" "suffix (unparse (PIPE l r) @ rest) T" "4 * length (unparse (PIPE l r) @ rest) + 4 \<le> n"
  let ?r = "0x28 # unparse r @ 0x29 # rest" and ?l = "\<lambda>x. 0x28 # unparse l @ 0x29 # x"
  obtain m where m: "n = Suc (Suc m)" using a(3) by (cases n; cases "n - 1") auto
  have nb: "nonblank rest" "rest \<noteq> [] \<longrightarrow> hd rest \<notin> {0x3C, 0x3E, 0x7C}" using a(1) stop_nonblank by (auto simp: stop_def)
  have s: "suffix (?l (0x7C # ?r)) T" using a(2) by simp
  then have sr: "suffix ?r T" using suffix_append [of "?l [0x7C]" ?r T] by simp
  obtain l' where l': "parseexec m (length T) (?l (0x7C # ?r)) = parseredirs (length T) l' (0x7C # ?r)" "map_cmd (tok_text T) l' = l"
    using block_reads [OF assms(1) _ _ s, of m] assms(3) a(3) m by auto
  obtain r' where r': "parsepipe m (length T) ?r = P_ok r' rest" "map_cmd (tok_text T) r' = r"
    using pipe_block_reads [OF assms(2) _ nb sr, of m] assms(3) a(3) m by auto
  obtain qe where "gettoken (length T) (0x7C # ?r) = (0x7C, qe, ?r)" using gettoken_sym [of "0x7C" ?r "length T"] by auto
  then have "parsepipe (Suc m) (length T) (?l (0x7C # ?r)) = P_ok (PIPE l' r') rest"
    using l'(1) r'(1) parseredirs_none [of "0x7C # ?r" "length T" l'] by (simp add: peek_nonblank pipecmd_def)
  then show "\<exists>c'. parseline n (length T) (unparse (PIPE l r) @ rest) = P_ok c' rest \<and> map_cmd (tok_text T) c' = PIPE l r"
    using line_stops [OF _ a(1), of "Suc m" "length T" _ "PIPE l' r'"] l'(2) r'(2) m by fastforce
qed

lemma list_cmd_reads:
  assumes "line_reads T l" "line_reads T r" "wf_cmd (LIST l r)"
  shows "line_reads T (LIST l r)"
  unfolding line_reads_def
proof (intro allI impI)
  fix n rest
  assume a: "stop rest" "suffix (unparse (LIST l r) @ rest) T" "4 * length (unparse (LIST l r) @ rest) + 4 \<le> n"
  let ?r = "0x28 # unparse r @ 0x29 # rest" and ?l = "\<lambda>x. 0x28 # unparse l @ 0x29 # x"
  obtain m where m: "n = Suc (Suc m)" using a(3) by (cases n; cases "n - 1") auto
  have nb: "nonblank rest" "rest \<noteq> [] \<longrightarrow> hd rest \<notin> {0x3C, 0x3E, 0x7C}" using a(1) stop_nonblank by (auto simp: stop_def)
  have s: "suffix (?l (0x3B # ?r)) T" using a(2) by simp
  then have sr: "suffix ?r T" using suffix_append [of "?l [0x3B]" ?r T] by simp
  obtain l' where l': "parsepipe (Suc m) (length T) (?l (0x3B # ?r)) = P_ok l' (0x3B # ?r)" "map_cmd (tok_text T) l' = l"
    using pipe_block_reads [OF assms(1) _ _ _ s, of "Suc m"] assms(3) a(3) m by auto
  obtain r' where r': "parsepipe m (length T) ?r = P_ok r' rest" "map_cmd (tok_text T) r' = r"
    using pipe_block_reads [OF assms(2) _ nb sr, of m] assms(3) a(3) m by auto
  obtain qe where "gettoken (length T) (0x3B # ?r) = (0x3B, qe, ?r)" using gettoken_sym [of "0x3B" ?r "length T"] by auto
  then have "parseline n (length T) (?l (0x3B # ?r)) = P_ok (LIST l' r') rest"
    unfolding m using l'(1) line_stops [OF r'(1) a(1)] parse_backs_none [of "0x3B # ?r" "length T" l']
    by (subst parseline.simps) (simp add: peek_nonblank listcmd_def del: parseline.simps)
  then show "\<exists>c'. parseline n (length T) (unparse (LIST l r) @ rest) = P_ok c' rest \<and> map_cmd (tok_text T) c' = LIST l r"
    using l'(2) r'(2) by fastforce
qed

lemma back_reads:
  assumes "line_reads T c" "wf_cmd c"
  shows "line_reads T (BACK c)"
  unfolding line_reads_def
proof (intro allI impI)
  fix n rest
  assume a: "stop rest" "suffix (unparse (BACK c) @ rest) T" "4 * length (unparse (BACK c) @ rest) + 4 \<le> n"
  obtain m where m: "n = Suc m" using a(3) by (cases n) auto
  have nb: "nonblank rest" "rest \<noteq> [] \<longrightarrow> hd rest \<noteq> 0x26" "rest \<noteq> [] \<longrightarrow> hd rest \<noteq> 0x3B" using a(1) stop_nonblank by (auto simp: stop_def)
  have s: "suffix (0x28 # unparse c @ 0x29 # 0x26 # rest) T" using a(2) by simp
  obtain c' where c': "parsepipe m (length T) (0x28 # unparse c @ 0x29 # 0x26 # rest) = P_ok c' (0x26 # rest)" "map_cmd (tok_text T) c' = c"
    using pipe_block_reads [OF assms _ _ s, of m] a(3) m by auto
  obtain qe where "gettoken (length T) (0x26 # rest) = (0x26, qe, rest)" using gettoken_sym [of "0x26" rest "length T"] nb by auto
  then have "parse_backs (length T) c' (0x26 # rest) = (BACK c', rest)"
    using parse_backs_none [OF nb(1,2), of "length T" "BACK c'"] by (subst parse_backs.simps) (simp add: peek_nonblank backcmd_def)
  then have "parseline n (length T) (0x28 # unparse c @ 0x29 # 0x26 # rest) = P_ok (BACK c') rest"
    unfolding m using c'(1) nb by (auto simp: peek_nonblank)
  then show "\<exists>c'. parseline n (length T) (unparse (BACK c) @ rest) = P_ok c' rest \<and> map_cmd (tok_text T) c' = BACK c"
    using c'(2) by fastforce
qed

lemma line_reads_cmd: "wf_cmd c \<Longrightarrow> line_reads T c"
  by (induction c) (simp_all add: exec_reads redir_reads pipe_cmd_reads list_cmd_reads back_reads)

lemma unparse_nonul: "wf_cmd c \<Longrightarrow> 0 \<notin> set (unparse c)"
  by (induction c) (auto simp: word_def redir_sym_def list_all_iff)

text \<open>
  C22. The parser reads back what is written: a command of any shape, with at most nine words a
  program and any nesting, written as a line with its parts in brackets, is parsed as that very
  command with the same strings, whatever is left in the buffer after the line.
\<close>

theorem parsecmd_roundtrip:
  assumes "wf_cmd c"
  shows "parsecmd S (unparse c @ 0 # rest) = retM c"
proof -
  let ?T = "unparse c"
  obtain c' where c': "parseline (4 * length ?T + 4) (length ?T) ?T = P_ok c' []" "map_cmd (tok_text ?T) c' = c"
    using line_reads_cmd [OF assms, of ?T, unfolded line_reads_def, rule_format, of "[]"] by (auto simp: stop_def)
  then show ?thesis using parsecmd_ok [OF unparse_nonul [OF assms] c'(1), of S rest] by (simp add: peek_nonblank)
qed

definition demo_cmd :: "u8 list cmd" where
  "demo_cmd = PIPE (EXEC [[0x6C, 0x73], [0x61]]) (LIST (REDIR (EXEC [[0x77, 0x63]]) [0x66] (O_WRONLY OR O_CREATE) 1) (BACK (EXEC [])))"

theorem parsecmd_roundtrip_witness:
  "\<forall>S :: unit usys. parsecmd S (unparse demo_cmd @ 0 # [1, 2, 3]) = retM demo_cmd"
proof -
  have "wf_cmd demo_cmd" by (simp add: demo_cmd_def word_def word_char_def)
  then show ?thesis by (simp add: parsecmd_roundtrip)
qed

text \<open>
  C32. Running a command never returns, as its comment says: whatever the system calls do, each
  process that enters \<open>runcmd\<close> ends in \<open>exit\<close>, is replaced by \<open>exec\<close> or waits for ever, and the
  same holds of the shell's \<open>main\<close>, so that no child ever runs on into its parent's code.
\<close>

theorem runcmd_never_returns: "never_returns (runcmd S cmd) \<and> never_returns (main S)"
  by (simp add: runcmd_never main_def never)

end
