(* ===== verification/Mkfs.thy ===== *)
theory Mkfs
  imports Fs_Files
begin

text \<open>
  \<^verbatim>\<open>mkfs/mkfs.c\<close>: the program that builds the disk image on the host. Its state are the sectors of
  the image file and its global variables. A run that calls \<open>die\<close> or fails an assertion is a
  \<open>Panic\<close>; one that ends with \<open>exit(0)\<close> is \<open>Done\<close>. The host has 32-bit integers in little-endian
  order, its file operations on the image succeed except for reads past the end, and what it
  gives for the files to be copied is a parameter. Progress messages are left out.

  A \<open>struct dinode\<close> is the kernel's \<open>inode\<close> record, of which \<open>dinode_bytes\<close> and \<open>load_dinode\<close> write and
  read exactly the fields of the structure; the other fields stay as in \<open>zero_dinode\<close>.
\<close>

section \<open>The program\<close>

record mkfs_state =
  img :: "nat \<Rightarrow> u8 list"
  img_size :: nat
  mkfs_sb :: superblock
  freeinode :: u32
  freeblock :: u32

text \<open>What the host gives: whether the image can be created, and for a path either an open that
  fails or the pieces the calls of \<open>read\<close> return.\<close>

record host =
  h_create :: "u8 list \<Rightarrow> bool"
  h_open :: "u8 list \<Rightarrow> u8 list list option"

abbreviation (input) NINODES :: nat where "NINODES \<equiv> 200"

definition nbitmap :: nat where
  "nbitmap = FSSIZE div (BSIZE * 8) + 1"

definition ninodeblocks :: nat where
  "ninodeblocks = NINODES div 16 + 1"

definition nlog :: nat where
  "nlog = LOGSIZE"

definition xshort :: "u16 \<Rightarrow> u16" where
  "xshort x = of_le [ucast x, ucast (drop_bit 8 x)]"

definition xint :: "u32 \<Rightarrow> u32" where
  "xint x = of_le [ucast x, ucast (drop_bit 8 x), ucast (drop_bit 16 x), ucast (drop_bit 24 x)]"

definition zero_dinode :: inode where
  "zero_dinode = \<lparr>i_dev = 0, i_inum = 0, i_ref = 0, i_valid = False, i_type = 0, i_major = 0, i_minor = 0, i_nlink = 0,
     i_size = 0, i_addrs = (\<lambda>_. 0)\<rparr>"

text \<open>The sector at offset \<open>sec * BSIZE\<close> of the image, the product taken modulo \<open>2^32\<close>.\<close>

definition sector :: "u32 \<Rightarrow> nat" where
  "sector sec = unat (sec * 1024) div 1024"

definition wsect :: "u32 \<Rightarrow> u8 list \<Rightarrow> (mkfs_state, unit) km" where
  "wsect sec buf = modM (\<lambda>s. s\<lparr>img := (img s)(sector sec := buf), img_size := max (img_size s) (Suc (sector sec))\<rparr>)"

definition rsect :: "u32 \<Rightarrow> (mkfs_state, u8 list) km" where
  "rsect sec = ifM (\<lambda>s. sector sec < img_size s) (getM (\<lambda>s. img s (sector sec))) (panicM ''read'')"

definition winode :: "u32 \<Rightarrow> inode \<Rightarrow> (mkfs_state, unit) km" where
  "winode inum ip =
     bindM (getM (\<lambda>s. IBLOCK inum (mkfs_sb s))) (\<lambda>bn.
     bindM (rsect bn) (\<lambda>buf.
     wsect bn (splice buf (dinode_off inum) (dinode_bytes ip))))"

definition rinode :: "u32 \<Rightarrow> (mkfs_state, inode) km" where
  "rinode inum =
     bindM (getM (\<lambda>s. IBLOCK inum (mkfs_sb s))) (\<lambda>bn.
     bindM (rsect bn) (\<lambda>buf.
     retM (load_dinode buf (dinode_off inum) zero_dinode)))"

definition ialloc :: "u16 \<Rightarrow> (mkfs_state, u32) km" where
  "ialloc type =
     bindM (getM freeinode) (\<lambda>inum.
     seqM (modM (\<lambda>s. s\<lparr>freeinode := freeinode s + 1\<rparr>))
     (seqM (winode inum (zero_dinode\<lparr>i_type := xshort type, i_nlink := xshort 1, i_size := xint 0\<rparr>))
     (retM inum)))"

definition balloc :: "nat \<Rightarrow> (mkfs_state, unit) km" where
  "balloc used =
     (if used < BSIZE * 8 then
        let buf = fold (\<lambda>i buf. buf[i div 8 := (buf ! (i div 8)) OR push_bit (i mod 8) 1]) [0..<used] (replicate BSIZE 0)
        in bindM (getM (\<lambda>s. sb_bmapstart (mkfs_sb s))) (\<lambda>bn. wsect bn buf)
      else panicM ''used < BSIZE*8'')"

text \<open>\<open>freeblock++\<close>\<close>

definition next_block :: "(mkfs_state, u32) km" where
  "next_block = bindM (getM freeblock) (\<lambda>b. seqM (modM (\<lambda>s. s\<lparr>freeblock := freeblock s + 1\<rparr>)) (retM b))"

text \<open>The entry of the indirect block.\<close>

definition iappend_indirect :: "nat \<Rightarrow> inode \<Rightarrow> (mkfs_state, u32 \<times> inode) km" where
  "iappend_indirect fbn din =
     bindM (rsect (xint (i_addrs din NDIRECT))) (\<lambda>indirect.
     bindM (if get32 indirect (4 * (fbn - NDIRECT)) = 0
            then bindM next_block (\<lambda>b.
              let indirect = put32 indirect (4 * (fbn - NDIRECT)) (xint b)
              in seqM (wsect (xint (i_addrs din NDIRECT)) indirect) (retM indirect))
            else retM indirect) (\<lambda>indirect.
     retM (xint (get32 indirect (4 * (fbn - NDIRECT))), din)))"

text \<open>The block for part \<open>fbn\<close> of the file, allocated if need be, and the inode as changed.\<close>

definition iappend_block :: "nat \<Rightarrow> inode \<Rightarrow> (mkfs_state, u32 \<times> inode) km" where
  "iappend_block fbn din =
     (if fbn < NDIRECT then
        bindM (if xint (i_addrs din fbn) = 0
               then bindM next_block (\<lambda>b. retM (din\<lparr>i_addrs := (i_addrs din)(fbn := xint b)\<rparr>))
               else retM din) (\<lambda>din.
        retM (xint (i_addrs din fbn), din))
      else
        bindM (if xint (i_addrs din NDIRECT) = 0
               then bindM next_block (\<lambda>b. retM (din\<lparr>i_addrs := (i_addrs din)(NDIRECT := xint b)\<rparr>))
               else retM din) (iappend_indirect fbn))"

text \<open>The loop variables: the bytes still to be written, \<open>n\<close> of them at \<open>p\<close>, \<open>off\<close> and \<open>din\<close>.\<close>

definition iappend_body :: "u8 list \<times> u32 \<times> inode \<Rightarrow> (mkfs_state, (u8 list \<times> u32 \<times> inode) + u32 \<times> inode) km" where
  "iappend_body = (\<lambda>(p, off, din).
     if p = [] then retM (Inr (off, din))
     else
       let fbn = off div 1024
       in if unat fbn < MAXFILE then
            bindM (iappend_block (unat fbn) din) (\<lambda>(x, din).
              let n1 = min (length p) (unat ((fbn + 1) * 1024 - off))
              in bindM (rsect x) (\<lambda>buf.
                 seqM (wsect x (splice buf (unat (off - fbn * 1024)) (take n1 p)))
                 (retM (Inl (drop n1 p, off + of_nat n1, din)))))
          else panicM ''fbn < MAXFILE'')"

definition iappend :: "u32 \<Rightarrow> u8 list \<Rightarrow> (mkfs_state, unit) km" where
  "iappend inum xp =
     bindM (rinode inum) (\<lambda>din.
     bindM (loopM iappend_body (xp, xint (i_size din), din)) (\<lambda>(off, din).
     winode inum (din\<lparr>i_size := xint off\<rparr>)))"

text \<open>A directory entry; \<open>bzero\<close> has cleared the bytes after the name.\<close>

definition mkfs_dirent :: "u32 \<Rightarrow> u8 list \<Rightarrow> u8 list" where
  "mkfs_dirent inum name = le_bytes 2 (xshort (ucast inum)) @
     (case strncpy (name @ [0]) DIRSIZ of Some bs \<Rightarrow> bs | None \<Rightarrow> [])"

definition short_name :: "u8 list \<Rightarrow> u8 list" where
  "short_name arg = (if take 5 arg = ascii ''user/'' then drop 5 arg else arg)"

definition add_file :: "host \<Rightarrow> u32 \<Rightarrow> u8 list \<Rightarrow> (mkfs_state, unit) km" where
  "add_file h rootino arg =
     (let shortname = short_name arg
      in if 0x2F \<in> set shortname then panicM ''index(shortname)''
         else (case h_open h arg of
             None \<Rightarrow> panicM ''open''
           | Some pieces \<Rightarrow>
               let shortname = (if shortname \<noteq> [] \<and> hd shortname = 0x5F then tl shortname else shortname)
               in bindM (ialloc T_FILE) (\<lambda>inum. doM [
                    iappend rootino (mkfs_dirent inum shortname),
                    eachM pieces (iappend inum)])))"

definition superblock_bytes :: "superblock \<Rightarrow> u8 list" where
  "superblock_bytes v = concat (map (le_bytes 4) [sb_magic v, sb_size v, sb_nblocks v, sb_ninodes v, sb_nlog v,
     sb_logstart v, sb_inodestart v, sb_bmapstart v])"

definition make_sb :: superblock where
  "make_sb =
     (let nmeta = 2 + nlog + ninodeblocks + nbitmap; nblocks = FSSIZE - nmeta
      in \<lparr>sb_magic = FSMAGIC, sb_size = xint (of_nat FSSIZE), sb_nblocks = xint (of_nat nblocks), sb_ninodes = xint (of_nat NINODES),
          sb_nlog = xint (of_nat nlog), sb_logstart = xint 2, sb_inodestart = xint (2 + of_nat nlog),
          sb_bmapstart = xint (2 + of_nat nlog + of_nat ninodeblocks)\<rparr>)"

definition main :: "host \<Rightarrow> u8 list list \<Rightarrow> (mkfs_state, unit) km" where
  "main h argv =
     (if length argv < 2 then panicM ''Usage: mkfs fs.img files...''
      else if \<not> h_create h (argv ! 1) then panicM ''open''
      else
        seqM (modM (\<lambda>s. s\<lparr>mkfs_sb := make_sb, freeblock := of_nat (2 + nlog + ninodeblocks + nbitmap)\<rparr>))
        (seqM (eachM [0..<FSSIZE] (\<lambda>i. wsect (of_nat i) (replicate BSIZE 0)))
        (seqM (wsect 1 (superblock_bytes make_sb @ replicate (BSIZE - 32) 0))
        (bindM (ialloc T_DIR) (\<lambda>rootino.
         if rootino \<noteq> ROOTINO then panicM ''rootino == ROOTINO''
         else
           seqM (doM [
             iappend rootino (mkfs_dirent rootino (ascii ''.'')),
             iappend rootino (mkfs_dirent rootino (ascii ''..'')),
             eachM (drop 2 argv) (add_file h rootino)])
           (bindM (rinode rootino) (\<lambda>din.
            let off = (xint (i_size din) div 1024 + 1) * 1024
            in seqM (winode rootino (din\<lparr>i_size := xint off\<rparr>))
              (bindM (getM freeblock) (\<lambda>b. balloc (nat (sint b)))))))))))"

text \<open>The state in which \<open>main\<close> starts, the image file just truncated.\<close>

definition mkfs_start :: "superblock \<Rightarrow> mkfs_state" where
  "mkfs_start v = \<lparr>img = (\<lambda>_. replicate BSIZE 0), img_size = 0, mkfs_sb = v, freeinode = 1, freeblock = 0\<rparr>"

section \<open>Files in the image\<close>

lemma xint_id [simp]: "xint x = x"
proof -
  have "le_bytes 4 x = [ucast x, ucast (drop_bit 8 x), ucast (drop_bit 16 x), ucast (drop_bit 24 x)]"
    by (simp add: le_bytes_def upt_rec)
  then show ?thesis using of_le_le_bytes [of 4 x] by (simp add: xint_def)
qed

lemma xshort_id [simp]: "xshort x = x"
proof -
  have "le_bytes 2 x = [ucast x, ucast (drop_bit 8 x)]" by (simp add: le_bytes_def upt_rec)
  then show ?thesis using of_le_le_bytes [of 2 x] by (simp add: xshort_def)
qed

lemma sector_small: "unat x < 2 ^ 22 \<Longrightarrow> sector x = unat x"
proof -
  assume "unat x < 2 ^ 22"
  then have "unat (x * 1024) = unat x * 1024" by (simp add: unat_word_ariths)
  then show ?thesis by (simp add: sector_def)
qed

text \<open>Block \<open>k\<close> of an inode, and its first \<open>B\<close> blocks together.\<close>

definition iaddr :: "mkfs_state \<Rightarrow> inode \<Rightarrow> nat \<Rightarrow> u32" where
  "iaddr s n k = (if k < NDIRECT then i_addrs n k else get32 (img s (unat (i_addrs n NDIRECT))) (4 * (k - NDIRECT)))"

definition iblocks :: "mkfs_state \<Rightarrow> inode \<Rightarrow> nat \<Rightarrow> u8 list" where
  "iblocks s n B = concat (map (\<lambda>k. img s (unat (iaddr s n k))) [0..<B])"

definition icontent :: "mkfs_state \<Rightarrow> inode \<Rightarrow> u8 list" where
  "icontent s n = take (unat (i_size n)) (iblocks s n (file_blocks n))"

text \<open>The kernel sees these files on a disk whose blocks are the sectors of the image.\<close>

lemma kernel_sees_image:
  assumes "\<And>bn. view d u bn = img s (unat bn)"
  shows "file_bytes d u n = icontent s n"
  by (simp add: file_bytes_def icontent_def iblocks_def file_addr_def iaddr_def assms cong: if_cong)

text \<open>The first of \<open>B\<close> blocks of an inode are allocated and its own, the rest is not allocated.\<close>

definition blocks_ok :: "mkfs_state \<Rightarrow> inode \<Rightarrow> nat \<Rightarrow> bool" where
  "blocks_ok s n B \<longleftrightarrow> B \<le> MAXFILE \<and>
     (\<forall>k<B. 46 \<le> unat (iaddr s n k) \<and> unat (iaddr s n k) < unat (freeblock s)) \<and>
     inj_on (iaddr s n) {..<B} \<and>
     (\<forall>k. B \<le> k \<longrightarrow> k < NDIRECT \<longrightarrow> i_addrs n k = 0) \<and>
     (if B \<le> NDIRECT then i_addrs n NDIRECT = 0
      else 46 \<le> unat (i_addrs n NDIRECT) \<and> unat (i_addrs n NDIRECT) < unat (freeblock s) \<and>
        i_addrs n NDIRECT \<notin> iaddr s n ` {..<B} \<and> (\<forall>k. B \<le> k \<longrightarrow> k < MAXFILE \<longrightarrow> iaddr s n k = 0))"

definition image_ok :: "mkfs_state \<Rightarrow> bool" where
  "image_ok s \<longleftrightarrow> img_size s = FSSIZE \<and> (\<forall>b. length (img s b) = BSIZE) \<and> unat (freeblock s) \<le> FSSIZE \<and> 46 \<le> unat (freeblock s) \<and>
     (\<forall>b. unat (freeblock s) \<le> b \<longrightarrow> img s b = replicate BSIZE 0)"

text \<open>The blocks an inode owns, and what appending to it leaves alone.\<close>

definition owned :: "mkfs_state \<Rightarrow> inode \<Rightarrow> nat \<Rightarrow> nat set" where
  "owned s n B = unat ` iaddr s n ` {..<B} \<union> (if B \<le> NDIRECT then {} else {unat (i_addrs n NDIRECT)})"

definition keeps :: "nat set \<Rightarrow> mkfs_state \<Rightarrow> mkfs_state \<Rightarrow> bool" where
  "keeps X s t \<longleftrightarrow> freeinode t = freeinode s \<and> mkfs_sb t = mkfs_sb s \<and> freeblock s \<le> freeblock t \<and>
     (\<forall>b. b < unat (freeblock s) \<longrightarrow> b \<notin> X \<longrightarrow> img t b = img s b)"

lemma wp_rsect:
  "image_ok s \<Longrightarrow> unat x < FSSIZE \<Longrightarrow> wp env (rsect x) Q s = Q (img s (unat x)) s"
  by (simp add: rsect_def wp_simps sector_small image_ok_def)

lemma wp_wsect:
  "image_ok s \<Longrightarrow> unat x < FSSIZE \<Longrightarrow> wp env (wsect x b) Q s = Q () (s\<lparr>img := (img s)(unat x := b)\<rparr>)"
proof -
  assume "image_ok s" "unat x < FSSIZE"
  then have "max (img_size s) (Suc (sector x)) = img_size s" "sector x = unat x" by (simp_all add: sector_small image_ok_def)
  moreover have "s\<lparr>img := g, img_size := img_size s\<rparr> = s\<lparr>img := g\<rparr>" for g by (cases s) simp
  ultimately show ?thesis by (simp add: wsect_def wp_simps)
qed

lemma wp_next_block: "wp env next_block Q s = Q (freeblock s) (s\<lparr>freeblock := freeblock s + 1\<rparr>)"
  by (simp add: next_block_def wp_simps)

lemma get_zero: "get32 (replicate n 0) k = 0" "get16 (replicate n 0) k = 0"
  by (rule bit_eqI, simp add: get32_def get16_def bit_of_le)+

subsection \<open>The block for the next bytes\<close>

text \<open>What finding or allocating block \<open>fbn\<close> of an inode with \<open>B\<close> blocks establishes.\<close>

definition block_found :: "nat \<Rightarrow> nat \<Rightarrow> inode \<Rightarrow> mkfs_state \<Rightarrow> u32 \<Rightarrow> inode \<Rightarrow> mkfs_state \<Rightarrow> bool" where
  "block_found B fbn din s x n t \<longleftrightarrow>
     image_ok t \<and> blocks_ok t n (max B (Suc fbn)) \<and> x = iaddr t n fbn \<and> keeps (owned s din B) s t \<and>
     unat (freeblock t) \<le> unat (freeblock s) + (if fbn = B then if B = NDIRECT then 2 else 1 else 0) \<and> n = din\<lparr>i_addrs := i_addrs n\<rparr> \<and>
     (\<forall>k<B. iaddr t n k = iaddr s din k \<and> img t (unat (iaddr s din k)) = img s (unat (iaddr s din k))) \<and>
     owned t n (max B (Suc fbn)) \<subseteq> owned s din B \<union> {unat (freeblock s)..<unat (freeblock t)}"

lemma found_existing:
  assumes "image_ok s" "blocks_ok s din B" "fbn < B"
  shows "wp env (iappend_block fbn din) (\<lambda>(x, n) t. block_found B fbn din s x n t) s"
proof -
  have a: "iaddr s din fbn \<noteq> 0" using assms(2,3) by (force simp: blocks_ok_def)
  have m: "max B (Suc fbn) = B" using assms(3) by simp
  have "block_found B fbn din s (iaddr s din fbn) din s"
    unfolding block_found_def m using assms by (simp add: keeps_def)
  moreover have "i_addrs din NDIRECT \<noteq> 0 \<and> unat (i_addrs din NDIRECT) < FSSIZE" if "\<not> fbn < NDIRECT"
    using assms that by (auto simp: blocks_ok_def image_ok_def split: if_splits)
  ultimately show ?thesis
    using a assms(1) by (cases "fbn < NDIRECT") (simp_all add: iappend_block_def iappend_indirect_def wp_simps wp_rsect iaddr_def)
qed

lemma free_Suc: "unat f < 2000 \<Longrightarrow> unat (f + 1 :: u32) = Suc (unat f)"
  by (simp add: unat_word_ariths)

lemma found_direct:
  assumes s: "image_ok s" and b: "blocks_ok s din B" and B: "B < NDIRECT" and room: "unat (freeblock s) < FSSIZE"
  shows "wp env (iappend_block B din) (\<lambda>(x, n) t. block_found B B din s x n t) s"
proof -
  let ?f = "freeblock s" and ?t = "s\<lparr>freeblock := freeblock s + 1\<rparr>" and ?n = "din\<lparr>i_addrs := (i_addrs din)(B := freeblock s)\<rparr>"
  have f: "unat (?f + 1) = Suc (unat ?f)" using room by (simp add: free_Suc)
  have addr: "iaddr ?t ?n k = (if k = B then ?f else iaddr s din k)" if "k < NDIRECT" for k
    using that by (simp add: iaddr_def)
  have old: "46 \<le> unat (iaddr s din k) \<and> unat (iaddr s din k) < unat ?f" if "k < B" for k using b that by (simp add: blocks_ok_def)
  have "inj_on (iaddr ?t ?n) {..<Suc B}"
  proof (rule inj_onI)
    fix i j
    assume ij: "i \<in> {..<Suc B}" "j \<in> {..<Suc B}" "iaddr ?t ?n i = iaddr ?t ?n j"
    have "inj_on (iaddr s din) {..<B}" using b by (simp add: blocks_ok_def)
    then show "i = j" using ij B old [of i] old [of j] by (cases "i = B"; cases "j = B") (auto simp: addr less_Suc_eq inj_on_def)
  qed
  then have "blocks_ok ?t ?n (Suc B)"
    using b B s room f old by (auto simp: blocks_ok_def addr less_Suc_eq image_ok_def)
  moreover have "image_ok ?t" using s room f by (simp add: image_ok_def)
  moreover have "iaddr ?t ?n ` {..<Suc B} \<subseteq> insert ?f (iaddr s din ` {..<B})" using B by (auto simp: addr less_Suc_eq)
  then have "owned ?t ?n (Suc B) \<subseteq> owned s din B \<union> {unat ?f..<unat (?f + 1)}" using B f by (fastforce simp: owned_def)
  ultimately have "block_found B B din s ?f ?n ?t"
    unfolding block_found_def using B f by (simp add: addr keeps_def word_le_nat_alt)
  moreover have "i_addrs din B = 0" using b B by (simp add: blocks_ok_def)
  ultimately show ?thesis using B by (simp add: iappend_block_def wp_simps wp_next_block)
qed

definition indirect_ready :: "mkfs_state \<Rightarrow> inode \<Rightarrow> nat \<Rightarrow> bool" where
  "indirect_ready s n B \<longleftrightarrow> NDIRECT \<le> B \<and> B < MAXFILE \<and>
     (\<forall>k<B. 46 \<le> unat (iaddr s n k) \<and> unat (iaddr s n k) < unat (freeblock s)) \<and> inj_on (iaddr s n) {..<B} \<and>
     46 \<le> unat (i_addrs n NDIRECT) \<and> unat (i_addrs n NDIRECT) < unat (freeblock s) \<and>
     i_addrs n NDIRECT \<notin> iaddr s n ` {..<B} \<and> (\<forall>k. B \<le> k \<longrightarrow> k < MAXFILE \<longrightarrow> iaddr s n k = 0)"

text \<open>A new entry in the indirect block.\<close>

definition with_entry :: "mkfs_state \<Rightarrow> inode \<Rightarrow> nat \<Rightarrow> mkfs_state" where
  "with_entry s n B = s\<lparr>freeblock := freeblock s + 1,
     img := (img s)(unat (i_addrs n NDIRECT) := put32 (img s (unat (i_addrs n NDIRECT))) (4 * (B - NDIRECT)) (freeblock s))\<rparr>"

lemma get32_put32_other:
  assumes "off + 4 \<le> i \<or> i + 4 \<le> off" "i + 4 \<le> length bs"
  shows "get32 (put32 bs i w) off = get32 bs off"
  using field_splice_other [of off 4 i "le_bytes 4 w" bs] assms by (simp add: get32_def put_splice)

lemma iaddr_with_entry:
  assumes "image_ok s" "NDIRECT \<le> B" "B < MAXFILE" "k < MAXFILE"
  shows "iaddr (with_entry s n B) n k = (if k = B then freeblock s else iaddr s n k)"
proof -
  have len: "length (img s b) = 1024" for b using assms(1) by (simp add: image_ok_def)
  have "k \<noteq> B \<Longrightarrow> NDIRECT \<le> k \<Longrightarrow> 4 * (k - NDIRECT) + 4 \<le> 4 * (B - NDIRECT) \<or> 4 * (B - NDIRECT) + 4 \<le> 4 * (k - NDIRECT)"
    using assms(2) by linarith
  moreover have "4 * (B - NDIRECT) + 4 \<le> 1024" using assms(3) by simp
  ultimately show ?thesis
    using assms(2) len by (auto simp: iaddr_def with_entry_def get32_put32 get32_put32_other)
qed

lemma with_entry_ok:
  assumes s: "image_ok s" and r: "indirect_ready s n B" and room: "unat (freeblock s) < FSSIZE"
  shows "image_ok (with_entry s n B)" "blocks_ok (with_entry s n B) n (Suc B)"
proof -
  let ?f = "freeblock s" and ?t = "with_entry s n B"
  have f: "unat (?f + 1) = Suc (unat ?f)" using room by (simp add: free_Suc)
  have B: "NDIRECT \<le> B" "B < MAXFILE" using r by (simp_all add: indirect_ready_def)
  have a: "unat (i_addrs n NDIRECT) < unat ?f" using r by (simp add: indirect_ready_def)
  have ft: "freeblock ?t = ?f + 1" by (simp add: with_entry_def)
  have "4 * (B - NDIRECT) + 4 \<le> 1024" using B by simp
  then have "length (put32 (img s b) (4 * (B - NDIRECT)) w) = 1024" for b w using s by (simp add: image_ok_def put_splice)
  then show "image_ok ?t" using s a room f by (simp add: image_ok_def with_entry_def)
  note addr = iaddr_with_entry [OF s B]
  have old: "46 \<le> unat (iaddr s n k) \<and> unat (iaddr s n k) < unat ?f" if "k < B" for k using r that by (simp add: indirect_ready_def)
  have "inj_on (iaddr ?t n) {..<Suc B}"
  proof (rule inj_onI)
    fix i j
    assume ij: "i \<in> {..<Suc B}" "j \<in> {..<Suc B}" "iaddr ?t n i = iaddr ?t n j"
    have "inj_on (iaddr s n) {..<B}" using r by (simp add: indirect_ready_def)
    then show "i = j" using ij B old [of i] old [of j] by (cases "i = B"; cases "j = B") (auto simp: addr less_Suc_eq inj_on_def)
  qed
  moreover have "iaddr ?t n ` {..<Suc B} = insert ?f (iaddr s n ` {..<B})"
  proof -
    have "iaddr ?t n ` {..<B} = iaddr s n ` {..<B}" using B by (intro image_cong) (simp_all add: addr)
    then show ?thesis using B by (simp add: lessThan_Suc addr)
  qed
  moreover have "i_addrs n NDIRECT \<noteq> ?f" using a by auto
  moreover have "46 \<le> unat (iaddr ?t n k) \<and> unat (iaddr ?t n k) < unat (freeblock ?t)" if "k < Suc B" for k
    using that B old [of k] s f by (auto simp: addr ft less_Suc_eq image_ok_def)
  moreover have "iaddr ?t n k = 0" if "Suc B \<le> k" "k < MAXFILE" for k using that r by (simp add: addr indirect_ready_def)
  ultimately show "blocks_ok ?t n (Suc B)"
    using B r f unfolding blocks_ok_def by (simp add: ft indirect_ready_def)
qed

lemma wp_iappend_indirect:
  assumes s: "image_ok s" and r: "indirect_ready s n B" and room: "unat (freeblock s) < FSSIZE"
  shows "wp env (iappend_indirect B n) Q s = Q (freeblock s, n) (with_entry s n B)"
proof -
  let ?a = "i_addrs n NDIRECT" and ?s = "s\<lparr>freeblock := freeblock s + 1\<rparr>"
  have B: "NDIRECT \<le> B" "B < MAXFILE" and a: "unat ?a < FSSIZE" using r room by (simp_all add: indirect_ready_def)
  have s': "image_ok ?s" using s room free_Suc [of "freeblock s"] by (simp add: image_ok_def)
  have z: "get32 (img s (unat ?a)) (4 * (B - NDIRECT)) = 0" using r B by (simp add: indirect_ready_def iaddr_def)
  have "4 * (B - NDIRECT) + 4 \<le> length (img s (unat ?a))" using B s by (simp add: image_ok_def)
  then have "get32 (put32 (img s (unat ?a)) (4 * (B - NDIRECT)) (freeblock s)) (4 * (B - NDIRECT)) = freeblock s" by (rule get32_put32)
  then show ?thesis
    using z a by (simp add: iappend_indirect_def wp_simps wp_rsect [OF s] wp_next_block wp_wsect [OF s'] with_entry_def Let_def)
qed

lemma with_entry_found:
  assumes s: "image_ok s" and r: "indirect_ready s n B" and room: "unat (freeblock s) < FSSIZE"
    and din: "n = din\<lparr>i_addrs := i_addrs n\<rparr>" and keep: "keeps (owned s0 din B) s0 s" "unat (freeblock s) < unat (freeblock s0) + (if B = NDIRECT then 2 else 1)"
    and same: "\<And>k. k < B \<Longrightarrow> iaddr s n k = iaddr s0 din k \<and> img s (unat (iaddr s0 din k)) = img s0 (unat (iaddr s0 din k))"
    and a: "unat (i_addrs n NDIRECT) \<in> owned s0 din B \<union> {unat (freeblock s0)..<unat (freeblock s)}"
  shows "block_found B B din s0 (freeblock s) n (with_entry s n B)"
proof -
  let ?t = "with_entry s n B"
  have B: "NDIRECT \<le> B" "B < MAXFILE" using r by (simp_all add: indirect_ready_def)
  note addr = iaddr_with_entry [OF s B]
  have f: "unat (freeblock s + 1) = Suc (unat (freeblock s))" using room by (simp add: free_Suc)
  have t: "freeblock ?t = freeblock s + 1" "freeinode ?t = freeinode s" "mkfs_sb ?t = mkfs_sb s"
    "b \<noteq> unat (i_addrs n NDIRECT) \<Longrightarrow> img ?t b = img s b" for b by (simp_all add: with_entry_def)
  have le: "unat (freeblock s0) \<le> unat (freeblock s)" using keep(1) by (simp add: keeps_def word_le_nat_alt)
  have "img ?t b = img s b" if "b < unat (freeblock s0)" "b \<notin> owned s0 din B" for b
    using that a by (cases "b = unat (i_addrs n NDIRECT)") (simp_all add: t(4))
  then have "keeps (owned s0 din B) s0 ?t" using keep le f by (simp add: keeps_def t word_le_nat_alt)
  moreover have "iaddr ?t n k = iaddr s0 din k \<and> img ?t (unat (iaddr s0 din k)) = img s0 (unat (iaddr s0 din k))" if "k < B" for k
  proof -
    have "iaddr s n k \<noteq> i_addrs n NDIRECT" using r that unfolding indirect_ready_def by force
    then have "unat (iaddr s0 din k) \<noteq> unat (i_addrs n NDIRECT)" using same [OF that] by (simp add: word_unat_eq_iff)
    then show ?thesis using same [OF that] that B by (simp add: addr t(4))
  qed
  moreover have "owned ?t n (Suc B) \<subseteq> owned s0 din B \<union> {unat (freeblock s0)..<unat (freeblock ?t)}"
  proof -
    have "iaddr ?t n ` {..<Suc B} \<subseteq> insert (freeblock s) (iaddr s0 din ` {..<B})" using B same by (auto simp: addr less_Suc_eq)
    then have "unat ` iaddr ?t n ` {..<Suc B} \<subseteq> insert (unat (freeblock s)) (owned s0 din B)" by (auto simp: owned_def)
    moreover have "insert (unat (freeblock s)) (owned s0 din B) \<subseteq> owned s0 din B \<union> {unat (freeblock s0)..<unat (freeblock ?t)}"
      using le f by (simp add: t subset_insertI2)
    ultimately have "unat ` iaddr ?t n ` {..<Suc B} \<subseteq> owned s0 din B \<union> {unat (freeblock s0)..<unat (freeblock ?t)}" by (rule subset_trans)
    moreover have "unat (i_addrs n NDIRECT) \<in> owned s0 din B \<union> {unat (freeblock s0)..<unat (freeblock ?t)}" using a f by (auto simp: t)
    moreover have "owned ?t n (Suc B) = unat ` iaddr ?t n ` {..<Suc B} \<union> {unat (i_addrs n NDIRECT)}" using B by (simp add: owned_def)
    ultimately show ?thesis by simp
  qed
  ultimately show ?thesis
    unfolding block_found_def using with_entry_ok [OF s r room] B din keep(2) f by (simp add: addr t)
qed

lemma found_indirect:
  assumes s: "image_ok s" and b: "blocks_ok s din B" and B: "NDIRECT < B" "B < MAXFILE" and room: "unat (freeblock s) < FSSIZE"
  shows "wp env (iappend_block B din) (\<lambda>(x, n) t. block_found B B din s x n t) s"
proof -
  have r: "indirect_ready s din B" using b B by (simp add: blocks_ok_def indirect_ready_def)
  have "block_found B B din s (freeblock s) din (with_entry s din B)"
    by (rule with_entry_found [OF s r room]) (use B in \<open>simp_all add: keeps_def owned_def\<close>)
  moreover have "i_addrs din NDIRECT \<noteq> 0" using r by (auto simp: indirect_ready_def)
  ultimately show ?thesis using B by (simp add: iappend_block_def wp_simps wp_iappend_indirect [OF s r room])
qed

lemma found_first_indirect:
  assumes s: "image_ok s" and b: "blocks_ok s din NDIRECT" and room: "Suc (unat (freeblock s)) < FSSIZE"
  shows "wp env (iappend_block NDIRECT din) (\<lambda>(x, n) t. block_found NDIRECT NDIRECT din s x n t) s"
proof -
  let ?f = "freeblock s" and ?s = "s\<lparr>freeblock := freeblock s + 1\<rparr>" and ?n = "din\<lparr>i_addrs := (i_addrs din)(NDIRECT := freeblock s)\<rparr>"
  have f: "unat (?f + 1) = Suc (unat ?f)" "46 \<le> unat ?f" using room s by (simp_all add: free_Suc image_ok_def)
  have s': "image_ok ?s" using s room f by (simp add: image_ok_def)
  have addr: "iaddr ?s ?n k = iaddr s din k" if "k < NDIRECT" for k using that by (simp add: iaddr_def)
  have old: "46 \<le> unat (iaddr s din k) \<and> unat (iaddr s din k) < unat ?f" if "k < NDIRECT" for k using b that by (simp add: blocks_ok_def)
  have "inj_on (iaddr s din) {..<NDIRECT}" using b by (simp add: blocks_ok_def)
  then have "inj_on (iaddr ?s ?n) {..<NDIRECT}" using addr by (simp add: inj_on_def)
  moreover have "?f \<notin> iaddr ?s ?n ` {..<NDIRECT}"
  proof
    assume "?f \<in> iaddr ?s ?n ` {..<NDIRECT}"
    then obtain k where "k < NDIRECT" "?f = iaddr ?s ?n k" by blast
    then show False using old [of k] addr [of k] by simp
  qed
  moreover have "iaddr ?s ?n k = 0" if "NDIRECT \<le> k" for k using that s by (simp add: iaddr_def image_ok_def get_zero)
  ultimately have r: "indirect_ready ?s ?n NDIRECT"
    unfolding indirect_ready_def using old f by (auto simp: addr less_Suc_eq)
  have room': "unat (freeblock ?s) < FSSIZE" using room f by simp
  have "block_found NDIRECT NDIRECT din s (freeblock ?s) ?n (with_entry ?s ?n NDIRECT)"
    by (rule with_entry_found [OF s' r room']) (use f addr in \<open>simp_all add: keeps_def word_le_nat_alt\<close>)
  moreover have "i_addrs din NDIRECT = 0" using b by (simp add: blocks_ok_def)
  ultimately show ?thesis by (simp add: iappend_block_def wp_simps wp_next_block wp_iappend_indirect [OF s' r room'])
qed

lemma wp_iappend_block:
  assumes "image_ok s" "blocks_ok s din B" "fbn \<le> B" "fbn < MAXFILE" "fbn = B \<longrightarrow> Suc (unat (freeblock s)) < FSSIZE"
  shows "wp env (iappend_block fbn din) (\<lambda>(x, n) t. block_found B fbn din s x n t) s"
proof -
  consider "fbn < B" | "fbn = B" "B < NDIRECT" | "fbn = B" "B = NDIRECT" | "fbn = B" "NDIRECT < B" using assms(3) by linarith
  then show ?thesis
  proof cases
    case 3
    then show ?thesis using assms found_first_indirect [OF assms(1), of din] by simp
  qed (use assms found_existing found_direct found_indirect in simp_all)
qed

subsection \<open>Appending\<close>

definition nblocks :: "nat \<Rightarrow> nat" where
  "nblocks off = (off + (BSIZE - 1)) div BSIZE"

lemma nblocks_eq: "nblocks off = off div 1024 + (if off mod 1024 = 0 then 0 else 1)"
proof -
  define q r where "q = off div 1024" and "r = off mod 1024"
  have off: "off = r + q * 1024" and r: "r < 1024" by (simp_all add: q_def r_def)
  have "nblocks off = (r + 1023) div 1024 + q" by (simp add: nblocks_def off)
  moreover have "(r + 1023) div 1024 = 1" if "r \<noteq> 0" using that r by (intro div_nat_eqI) simp_all
  ultimately show ?thesis by (simp add: q_def [symmetric] r_def [symmetric])
qed

lemma nblocks_advance:
  assumes "0 < n" "n \<le> 1024 - off mod 1024"
  shows "nblocks (off + n) = Suc (off div 1024)"
proof -
  define q r where "q = off div 1024" and "r = off mod 1024"
  have off: "off = r + q * 1024" by (simp add: q_def r_def)
  have "nblocks (off + n) = (r + n + 1023) div 1024 + q" by (simp add: nblocks_def off algebra_simps)
  moreover have "(r + n + 1023) div 1024 = 1" using assms by (intro div_nat_eqI) (simp_all add: r_def)
  ultimately show ?thesis by (simp add: q_def)
qed

lemma length_iblocks: "image_ok s \<Longrightarrow> length (iblocks s n B) = 1024 * B"
  by (induction B) (simp_all add: iblocks_def image_ok_def)

lemma iblocks_Suc: "iblocks s n (Suc B) = iblocks s n B @ img s (unat (iaddr s n B))"
  by (simp add: iblocks_def)

lemma iblocks_cong: "(\<And>k. k < B \<Longrightarrow> img t (unat (iaddr t m k)) = img s (unat (iaddr s n k))) \<Longrightarrow> iblocks t m B = iblocks s n B"
  unfolding iblocks_def by (rule arg_cong [of _ _ concat], rule map_cong) simp_all

text \<open>Writing to a data block of an inode does not move its blocks.\<close>

lemma data_write_ok:
  assumes t: "image_ok t" and b: "blocks_ok t n B" and k: "j < B" and len: "length new = 1024"
  defines "u \<equiv> t\<lparr>img := (img t)(unat (iaddr t n j) := new)\<rparr>"
  shows "image_ok u" "iaddr u n = iaddr t n" "blocks_ok u n B" "owned u n B = owned t n B"
    "k < B \<Longrightarrow> k \<noteq> j \<Longrightarrow> img u (unat (iaddr t n k)) = img t (unat (iaddr t n k))"
proof -
  let ?x = "iaddr t n j"
  have x: "46 \<le> unat ?x" "unat ?x < unat (freeblock t)" using b k by (simp_all add: blocks_ok_def)
  show "image_ok u" using t x len by (simp add: image_ok_def u_def)
  have "i_addrs n NDIRECT \<noteq> ?x" using b k x by (auto simp: blocks_ok_def split: if_splits)
  then have "unat (i_addrs n NDIRECT) \<noteq> unat ?x" by (simp add: word_unat_eq_iff)
  then have "img u (unat (i_addrs n NDIRECT)) = img t (unat (i_addrs n NDIRECT))" by (simp add: u_def)
  then show a: "iaddr u n = iaddr t n" by (simp add: iaddr_def fun_eq_iff)
  show "blocks_ok u n B" using b by (simp add: blocks_ok_def a) (simp add: u_def)
  show "owned u n B = owned t n B" by (simp add: owned_def a)
  show "img u (unat (iaddr t n k)) = img t (unat (iaddr t n k))" if "k < B" "k \<noteq> j"
  proof -
    have "iaddr t n k \<noteq> ?x" using b that k by (auto simp: blocks_ok_def inj_on_def)
    then show ?thesis by (simp add: u_def word_unat_eq_iff)
  qed
qed

text \<open>
  The loop of \<open>iappend\<close> started in \<open>s0\<close> with inode \<open>n0\<close> of \<open>B0\<close> blocks, when the file holds \<open>w\<close>.
\<close>

definition appending :: "mkfs_state \<Rightarrow> inode \<Rightarrow> nat \<Rightarrow> u8 list \<Rightarrow> mkfs_state \<Rightarrow> inode \<Rightarrow> bool" where
  "appending s0 n0 B0 w s n \<longleftrightarrow> (let B = nblocks (length w) in
     image_ok s \<and> blocks_ok s n B \<and> take (length w) (iblocks s n B) = w \<and> n = n0\<lparr>i_addrs := i_addrs n\<rparr> \<and>
     keeps (owned s0 n0 B0) s0 s \<and> owned s n B \<subseteq> owned s0 n0 B0 \<union> {unat (freeblock s0)..<unat (freeblock s)} \<and>
     B0 \<le> B \<and> unat (freeblock s) \<le> unat (freeblock s0) + (B - B0) + (if B0 \<le> NDIRECT \<and> NDIRECT < B then 1 else 0))"

lemma keeps_trans:
  assumes "keeps X s0 s" "keeps Y s t" "Y \<subseteq> X \<union> {unat (freeblock s0)..<f}"
  shows "keeps X s0 t"
proof -
  have "img t b = img s0 b" if "b < unat (freeblock s0)" "b \<notin> X" for b
  proof -
    have "b \<notin> Y" "b < unat (freeblock s)" using assms(1,3) that by (auto simp: keeps_def word_le_nat_alt)
    then show ?thesis using assms(1,2) that by (simp add: keeps_def)
  qed
  then show ?thesis using assms(1,2) by (auto simp: keeps_def)
qed

text \<open>The contents after one piece is written, on lists.\<close>

lemma splice_append:
  assumes "length A = 1024 * q" "length blk = 1024" "r + length c \<le> 1024"
  shows "take (1024 * q + r + length c) (A @ splice blk r c) = A @ take r blk @ c"
  using assms by (simp add: splice_def)

lemma piece_written:
  assumes t: "image_ok t" "blocks_ok t n (Suc q)" and s: "image_ok s"
    and same: "\<And>k. k < B \<Longrightarrow> iaddr t n k = iaddr s m k \<and> img t (unat (iaddr s m k)) = img s (unat (iaddr s m k))"
    and w: "take (length w) (iblocks s m B) = w" "B = nblocks (length w)" "q = length w div 1024" and c: "length w mod 1024 + length c \<le> 1024"
  defines "u \<equiv> t\<lparr>img := (img t)(unat (iaddr t n q) := splice (img t (unat (iaddr t n q))) (length w mod 1024) c)\<rparr>"
  shows "take (length (w @ c)) (iblocks u n (Suc q)) = w @ c"
proof -
  let ?x = "unat (iaddr t n q)" and ?r = "length w mod 1024"
  have len: "length (img t b) = 1024" for b using t(1) by (simp add: image_ok_def)
  have new: "length (splice (img t ?x) ?r c) = 1024" using len c by simp
  note dw = data_write_ok [OF t, of q "splice (img t ?x) ?r c", folded u_def, OF _ new, simplified]
  have "q \<le> B" using w(2,3) by (simp add: nblocks_eq)
  have "iblocks u n q = iblocks s m q"
    by (rule iblocks_cong) (use dw(2,5) same \<open>q \<le> B\<close> in simp)
  moreover have "img u (unat (iaddr u n q)) = splice (img t ?x) ?r c" unfolding dw(2) by (simp add: u_def)
  ultimately have blocks: "iblocks u n (Suc q) = iblocks s m q @ splice (img t ?x) ?r c" by (simp add: iblocks_Suc)
  have w': "w = iblocks s m q @ take ?r (img t ?x)"
  proof (cases "?r = 0")
    case True
    then have "B = q" "length w = 1024 * q" using w(2,3) by (simp_all add: nblocks_eq) (metis True mult_div_mod_eq add_0_right)
    then show ?thesis using w(1) length_iblocks [OF s, of m q] True by simp
  next
    case False
    then have B: "B = Suc q" using w(2,3) by (simp add: nblocks_eq)
    have "length w - 1024 * q = ?r" using w(3) by (simp add: minus_mult_div_eq_mod)
    moreover have "iblocks s m q @ take (length w - 1024 * q) (img s (unat (iaddr s m q))) = w"
      using w(1,3) length_iblocks [OF s, of m q] unfolding B iblocks_Suc by simp
    ultimately have "w = iblocks s m q @ take ?r (img s (unat (iaddr s m q)))" by simp
    then show ?thesis using same [of q] B by simp
  qed
  have "length w = 1024 * q + ?r" using w(3) by simp
  then have "length (w @ c) = 1024 * q + ?r + length c" by simp
  then show ?thesis
    unfolding blocks using splice_append [OF length_iblocks [OF s, of m q] len c, of ?x] w' by simp
qed

lemma offsets:
  assumes "l \<le> MAXFILE * BSIZE"
  defines "off \<equiv> of_nat l :: u32"
  shows "unat off = l" "unat (off div 1024) = l div 1024" "unat ((off div 1024 + 1) * 1024 - off) = 1024 - l mod 1024"
    "unat (off - off div 1024 * 1024) = l mod 1024"
proof -
  have small: "unat (of_nat k :: u32) = k" if "k < 2 ^ 32" for k using that by (simp add: unat_of_nat take_bit_nat_eq_self)
  show u: "unat off = l" using assms(1) by (simp add: off_def small)
  then have d: "off div 1024 = of_nat (l div 1024)" by (simp add: word_unat_eq_iff unat_div small) (use assms(1) in \<open>simp add: small\<close>)
  show "unat (off div 1024) = l div 1024" using u by (simp add: unat_div)
  have "l = l div 1024 * 1024 + l mod 1024" "l mod 1024 < 1024" by simp_all
  then have e: "l div 1024 * 1024 + 1024 - l = 1024 - l mod 1024" "l \<le> l div 1024 * 1024 + 1024" "l - l div 1024 * 1024 = l mod 1024"
    "l div 1024 * 1024 \<le> l" by linarith+
  have "(off div 1024 + 1) * 1024 - off = of_nat (l div 1024 * 1024 + 1024 - l)"
    unfolding d using e(2) by (simp add: off_def of_nat_diff algebra_simps)
  then show "unat ((off div 1024 + 1) * 1024 - off) = 1024 - l mod 1024" unfolding e(1)
    using small [of "1024 - l mod 1024"] by (simp only:) simp
  have "off - off div 1024 * 1024 = of_nat (l - l div 1024 * 1024)"
    unfolding d using e(4) by (simp add: off_def of_nat_diff)
  then show "unat (off - off div 1024 * 1024) = l mod 1024" unfolding e(3)
    using small [of "l mod 1024"] less_trans [of "l mod 1024" 1024 "2 ^ 32"] by (simp only:) simp
qed

lemma wp_iappend_body:
  assumes ap: "appending s0 n0 B0 w s n" and p: "p \<noteq> []" and max: "length w + length p \<le> MAXFILE * BSIZE"
    and room: "unat (freeblock s0) + (nblocks (length w + length p) - B0) + 2 \<le> FSSIZE"
    and Q: "\<And>c m t. c \<noteq> [] \<Longrightarrow> p = c @ drop (length c) p \<Longrightarrow> appending s0 n0 B0 (w @ c) t m \<Longrightarrow>
      Q (Inl (drop (length c) p, of_nat (length (w @ c)), m)) t"
  shows "wp env (iappend_body (p, of_nat (length w), n)) Q s"
proof -
  let ?q = "length w div 1024" and ?r = "length w mod 1024" and ?B = "nblocks (length w)" and ?off = "of_nat (length w) :: u32"
  define c where "c = take (min (length p) (1024 - ?r)) p"
  have c: "c \<noteq> []" "?r + length c \<le> 1024" "p = c @ drop (length c) p" "length c = min (length p) (1024 - ?r)" "length c \<le> length p"
    using p by (auto simp: c_def)
  note ap' = ap [unfolded appending_def Let_def]
  have lw: "length w < MAXFILE * BSIZE" using max p by (cases p) simp_all
  then have q: "?q \<le> ?B" "?q < MAXFILE" by (simp add: nblocks_eq, rule less_mult_imp_div_less)
  have B': "nblocks (length (w @ c)) = Suc ?q" using nblocks_advance [of "length c" "length w"] c(1,2) by simp
  have "Suc ?q \<le> nblocks (length w + length p)" using c(5) unfolding B' [symmetric] by (simp add: nblocks_def div_le_mono)
  then have "?q = ?B \<longrightarrow> Suc (unat (freeblock s)) < FSSIZE" using ap' room by (auto split: if_splits)
  then have found: "wp env (iappend_block ?q n) (\<lambda>(x, m) t. block_found ?B ?q n s x m t) s" using ap' q by (intro wp_iappend_block) simp_all
  have mx: "max ?B (Suc ?q) = Suc ?q" by (simp add: nblocks_eq)
  let ?u = "\<lambda>x t. t\<lparr>img := (img t)(unat x := splice (img t (unat x)) ?r c)\<rparr>"
  have step: "unat x < FSSIZE \<and> image_ok t \<and> appending s0 n0 B0 (w @ c) (?u x t) m" if "block_found ?B ?q n s x m t" for x m t
  proof -
    note bf = that [unfolded block_found_def mx]
    have x: "x = iaddr t m ?q" and t: "image_ok t" "blocks_ok t m (Suc ?q)" using bf by simp_all
    have len: "length (splice (img t (unat x)) ?r c) = 1024" using t(1) c(2) by (simp add: image_ok_def)
    note dw = data_write_ok [OF t lessI len, folded x]
    have u: "take (length (w @ c)) (iblocks (?u x t) m (Suc ?q)) = w @ c"
      using piece_written [OF t, of s ?B n w c] bf ap' c(2) x by simp
    have fb: "freeblock (?u x t) = freeblock t" by simp
    have "keeps (owned s n ?B) s t" "owned t m (Suc ?q) \<subseteq> owned s n ?B \<union> {unat (freeblock s)..<unat (freeblock t)}" using bf by simp_all
    moreover have "owned s n ?B \<subseteq> owned s0 n0 B0 \<union> {unat (freeblock s0)..<unat (freeblock s)}" "keeps (owned s0 n0 B0) s0 s" using ap' by simp_all
    moreover have "unat (freeblock s0) \<le> unat (freeblock s)" "unat (freeblock s) \<le> unat (freeblock t)"
      using calculation by (simp_all add: keeps_def word_le_nat_alt)
    ultimately have k: "keeps (owned s0 n0 B0) s0 t" "owned t m (Suc ?q) \<subseteq> owned s0 n0 B0 \<union> {unat (freeblock s0)..<unat (freeblock t)}"
      using keeps_trans [of "owned s0 n0 B0" s0 s "owned s n ?B" t] by (blast, force)
    moreover have "unat x \<in> owned t m (Suc ?q)" by (simp add: x owned_def lessThan_Suc)
    ultimately have "keeps (owned s0 n0 B0) s0 (?u x t)" by (auto simp: keeps_def)
    moreover have "unat (freeblock t) \<le> unat (freeblock s0) + (Suc ?q - B0) + (if B0 \<le> NDIRECT \<and> NDIRECT < Suc ?q then 1 else 0)"
      using bf ap' q by (auto simp: nblocks_eq split: if_splits)
    moreover have "m = n0\<lparr>i_addrs := i_addrs m\<rparr>" using bf ap' by (metis inode.surjective inode.update_convs(10))
    moreover have "B0 \<le> Suc ?q" using ap' by (auto simp: nblocks_eq split: if_splits)
    ultimately have "appending s0 n0 B0 (w @ c) (?u x t) m"
      unfolding appending_def Let_def B' fb dw(4) using u dw(1,3) k(2) by (intro conjI)
    moreover have "unat x < FSSIZE" using t unfolding x by (auto simp: blocks_ok_def image_ok_def)
    ultimately show ?thesis using t(1) by simp
  qed
  have n1: "min (length p) (1024 - ?r) = length c" "take (length c) p = c" using c by (simp_all add: c_def)
  have "wp env (iappend_block ?q n) (\<lambda>(x, m). wp env (bindM (rsect x) (\<lambda>buf. seqM (wsect x (splice buf ?r c))
      (retM (Inl (drop (length c) p, ?off + of_nat (length c), m))))) Q) s"
    using found
  proof (rule wp_conseq)
    fix xm t
    assume "(case xm of (x, m) \<Rightarrow> block_found ?B ?q n s x m) t"
    then obtain x m where xm: "xm = (x, m)" "block_found ?B ?q n s x m t" by (cases xm) simp
    show "(case xm of (x, m) \<Rightarrow> wp env (bindM (rsect x) (\<lambda>buf. seqM (wsect x (splice buf ?r c))
      (retM (Inl (drop (length c) p, ?off + of_nat (length c), m))))) Q) t"
      using step [OF xm(2)] Q [OF c(1,3)] by (simp add: xm(1) wp_simps wp_rsect wp_wsect)
  qed
  then show ?thesis
    using p q(2) offsets [of "length w"] lw n1 by (simp add: iappend_body_def wp_simps Let_def split_def)
qed

lemma wp_iappend_loop:
  assumes ap: "appending s0 n0 B0 c s n" and max: "length c + length p \<le> MAXFILE * BSIZE"
    and room: "unat (freeblock s0) + (nblocks (length c + length p) - B0) + 2 \<le> FSSIZE"
  shows "wp env (loopM iappend_body (p, of_nat (length c), n))
    (\<lambda>(off, m) t. off = of_nat (length (c @ p)) \<and> appending s0 n0 B0 (c @ p) t m) s"
proof (rule wp_loop [where I = "\<lambda>i u. \<exists>d. p = d @ fst i \<and> fst (snd i) = of_nat (length (c @ d)) \<and> appending s0 n0 B0 (c @ d) u (snd (snd i))"
    and \<mu> = "\<lambda>i _. length (fst i)"])
  show "\<exists>d. p = d @ fst (p, of_nat (length c), n) \<and> fst (snd (p, of_nat (length c), n)) = of_nat (length (c @ d)) \<and>
      appending s0 n0 B0 (c @ d) s (snd (snd (p, of_nat (length c) :: u32, n)))"
    using ap by (auto intro!: exI [of _ "[]"])
next
  fix j :: "u8 list \<times> u32 \<times> inode" and u
  assume "\<exists>d. p = d @ fst j \<and> fst (snd j) = of_nat (length (c @ d)) \<and> appending s0 n0 B0 (c @ d) u (snd (snd j))"
  then obtain q m d where j: "j = (q, of_nat (length (c @ d)), m)" "p = d @ q" "appending s0 n0 B0 (c @ d) u m"
    by (metis prod.collapse)
  let ?Q = "\<lambda>r t. case r of Inl k \<Rightarrow> (\<exists>d. p = d @ fst k \<and> fst (snd k) = of_nat (length (c @ d)) \<and>
        appending s0 n0 B0 (c @ d) t (snd (snd k))) \<and> length (fst k) < length (fst j)
      | Inr x \<Rightarrow> (case x of (off, m) \<Rightarrow> \<lambda>t. off = of_nat (length (c @ p)) \<and> appending s0 n0 B0 (c @ p) t m) t"
  show "wp env (iappend_body j) ?Q u"
  proof (cases "q = []")
    case True
    then show ?thesis using j by (simp add: iappend_body_def wp_simps)
  next
    case False
    show ?thesis unfolding j(1)
    proof (rule wp_iappend_body [OF j(3) False])
      show "length (c @ d) + length q \<le> MAXFILE * BSIZE" using max j(2) by simp
      show "unat (freeblock s0) + (nblocks (length (c @ d) + length q) - B0) + 2 \<le> FSSIZE" using room j(2) by (simp add: add.assoc)
      fix x m' t
      assume x: "x \<noteq> []" "q = x @ drop (length x) q" "appending s0 n0 B0 ((c @ d) @ x) t m'"
      have "length (drop (length x) q) < length q" using x(1) False by (cases x; cases q) simp_all
      moreover have "p = (d @ x) @ drop (length x) q" using x(2) j(2) by simp
      ultimately show "case Inl (drop (length x) q, of_nat (length ((c @ d) @ x)) :: u32, m') of Inl k \<Rightarrow> (\<exists>d. p = d @ fst k \<and> fst (snd k) = of_nat (length (c @ d)) \<and>
          appending s0 n0 B0 (c @ d) t (snd (snd k))) \<and> length (fst k) < length (fst (q, of_nat (length (c @ d)) :: u32, m))
        | Inr x \<Rightarrow> (case x of (off, m) \<Rightarrow> \<lambda>t. off = of_nat (length (c @ p)) \<and> appending s0 n0 B0 (c @ p) t m) t"
        using x(3) by (auto intro!: exI [of _ "d @ x"])
    qed
  qed
qed

subsection \<open>Inodes in the image\<close>

definition dinode_of :: "mkfs_state \<Rightarrow> u32 \<Rightarrow> inode" where
  "dinode_of s inum = load_dinode (img s (unat (IBLOCK inum (mkfs_sb s)))) (dinode_off inum) zero_dinode"

text \<open>The file of inode \<open>inum\<close> is complete in the image and holds \<open>c\<close>.\<close>

definition file_ok :: "mkfs_state \<Rightarrow> u32 \<Rightarrow> u8 list \<Rightarrow> bool" where
  "file_ok s inum c \<longleftrightarrow> (let n = dinode_of s inum in
     unat (i_size n) = length c \<and> blocks_ok s n (nblocks (length c)) \<and> icontent s n = c)"

lemma inode_block:
  assumes "unat inum < NINODES"
  shows "unat (IBLOCK inum make_sb) = unat inum div 16 + 32" "unat (IBLOCK inum make_sb) < 46" "dinode_off inum + 64 \<le> 1024"
proof -
  have "unat inum div 16 < 13" using assms by (simp add: less_mult_imp_div_less)
  moreover have "sb_inodestart make_sb = 32" by (simp add: make_sb_def nlog_def)
  ultimately show "unat (IBLOCK inum make_sb) = unat inum div 16 + 32" "unat (IBLOCK inum make_sb) < 46"
    by (simp_all add: IBLOCK_def unat_word_ariths unat_div)
  have "unat (inum mod 16) < 16" by (simp add: unat_mod)
  then show "dinode_off inum + 64 \<le> 1024" by (simp add: dinode_off_def)
qed

lemma file_blocks_nblocks: "file_blocks n = nblocks (unat (i_size n))"
  by (simp add: file_blocks_def nblocks_def)

lemma owned_range: "blocks_ok s n B \<Longrightarrow> b \<in> owned s n B \<Longrightarrow> 46 \<le> b \<and> b < unat (freeblock s)"
  by (auto simp: owned_def blocks_ok_def split: if_splits)

text \<open>The blocks of an inode depend on its addresses and on the sectors it owns only.\<close>

lemma blocks_cong:
  assumes b: "blocks_ok s n B" and a: "i_addrs m = i_addrs n \<or> (\<forall>k\<le>NDIRECT. i_addrs m k = i_addrs n k)"
    and same: "\<And>x. x \<in> owned s n B \<Longrightarrow> img t x = img s x" and free: "freeblock s \<le> freeblock t" and zero: "img t 0 = img s 0"
  shows "blocks_ok t m B" "owned t m B = owned s n B" "k < B \<Longrightarrow> img t (unat (iaddr t m k)) = img s (unat (iaddr s n k))"
proof -
  have ad: "i_addrs m k = i_addrs n k" if "k \<le> NDIRECT" for k using a that by auto
  have "img t (unat (i_addrs n NDIRECT)) = img s (unat (i_addrs n NDIRECT))"
    using b same [of "unat (i_addrs n NDIRECT)"] zero by (auto simp: blocks_ok_def owned_def split: if_splits)
  then have i: "iaddr t m k = iaddr s n k" for k using ad by (simp add: iaddr_def)
  then have "iaddr t m = iaddr s n" by (rule ext)
  then show "owned t m B = owned s n B" by (simp add: owned_def ad)
  show "blocks_ok t m B" using b free \<open>iaddr t m = iaddr s n\<close> ad unfolding blocks_ok_def
    by (auto simp: word_le_nat_alt intro: less_le_trans split: if_splits)
  show "img t (unat (iaddr t m k)) = img s (unat (iaddr s n k))" if "k < B"
    using that same [of "unat (iaddr s n k)"] i by (auto simp: owned_def)
qed

lemma load_dinode_other:
  assumes "off + 64 \<le> j \<or> j + 64 \<le> off" "length bs = 64" "j + 64 \<le> length x"
  shows "load_dinode (splice x j bs) off m = load_dinode x off m"
proof -
  have "take k (drop (off + d) (splice x j bs)) = take k (drop (off + d) x)" if "d + k \<le> 64" for d k
    using that assms by (intro field_splice_other) auto
  note f = this [of _ 2] this [of _ 4]
  have "get16 (splice x j bs) (off + d) = get16 x (off + d)" if "d + 2 \<le> 64" for d using f(1) that by (simp add: get16_def)
  note g16 = this [of 0] this [of 2] this [of 4] this [of 6]
  have "get32 (splice x j bs) (off + d) = get32 x (off + d)" if "d + 4 \<le> 64" for d using f(2) that by (simp add: get32_def)
  note g32 = this [of 8] this [of "12 + 4 * k" for k]
  show ?thesis using g16 g32 by (simp add: load_dinode_def fun_eq_iff add.assoc)
qed

text \<open>The state after \<open>winode\<close>.\<close>

definition with_inode :: "mkfs_state \<Rightarrow> u32 \<Rightarrow> inode \<Rightarrow> mkfs_state" where
  "with_inode s inum n = s\<lparr>img := (img s)(unat (IBLOCK inum (mkfs_sb s)) :=
     splice (img s (unat (IBLOCK inum (mkfs_sb s)))) (dinode_off inum) (dinode_bytes n))\<rparr>"

lemma wp_winode:
  assumes "image_ok s" "mkfs_sb s = make_sb" "unat inum < NINODES"
  shows "wp env (winode inum n) Q s = Q () (with_inode s inum n)"
  using assms inode_block [OF assms(3)] by (simp add: winode_def wp_simps wp_rsect wp_wsect with_inode_def)

lemma wp_rinode:
  assumes "image_ok s" "mkfs_sb s = make_sb" "unat inum < NINODES"
  shows "wp env (rinode inum) Q s = Q (dinode_of s inum) s"
  using assms inode_block [OF assms(3)] by (simp add: rinode_def wp_simps wp_rsect dinode_of_def)

lemma with_inode_facts:
  assumes "image_ok s" "mkfs_sb s = make_sb" "unat inum < NINODES"
  shows "image_ok (with_inode s inum n)" "dinode_of (with_inode s inum n) inum = with_dinode n zero_dinode"
    "x = 0 \<or> 46 \<le> x \<Longrightarrow> img (with_inode s inum n) x = img s x"
    "j \<noteq> inum \<Longrightarrow> unat j < NINODES \<Longrightarrow> dinode_of (with_inode s inum n) j = dinode_of s j"
proof -
  note b = inode_block [OF assms(3)]
  have len: "length (img s y) = 1024" for y using assms(1) by (simp add: image_ok_def)
  show "image_ok (with_inode s inum n)" using assms b len by (simp add: image_ok_def with_inode_def)
  show "dinode_of (with_inode s inum n) inum = with_dinode n zero_dinode"
    using assms(2) b(3) len by (simp add: dinode_of_def with_inode_def load_dinode_splice)
  show "img (with_inode s inum n) x = img s x" if "x = 0 \<or> 46 \<le> x" using that assms(2) b by (auto simp: with_inode_def)
  show "dinode_of (with_inode s inum n) j = dinode_of s j" if j: "j \<noteq> inum" "unat j < NINODES"
  proof (cases "unat (IBLOCK j make_sb) = unat (IBLOCK inum make_sb)")
    case True
    then have "unat j div 16 = unat inum div 16" using b(1) inode_block(1) [OF j(2)] by simp
    then have "unat j mod 16 \<noteq> unat inum mod 16" using j(1) by (metis div_mult_mod_eq word_unat_eq_iff)
    then have "dinode_off j + 64 \<le> dinode_off inum \<or> dinode_off inum + 64 \<le> dinode_off j"
      by (simp add: dinode_off_def unat_mod) linarith
    then show ?thesis using True assms(2) b(3) len by (simp add: dinode_of_def with_inode_def load_dinode_other)
  next
    case False
    then show ?thesis using assms(2) by (simp add: dinode_of_def with_inode_def)
  qed
qed

subsection \<open>The whole call\<close>

lemma file_okD:
  assumes "file_ok s inum c"
  shows "unat (i_size (dinode_of s inum)) = length c" "blocks_ok s (dinode_of s inum) (nblocks (length c))"
    "take (length c) (iblocks s (dinode_of s inum) (nblocks (length c))) = c"
  using assms by (auto simp: file_ok_def icontent_def file_blocks_nblocks Let_def)

lemma appending_start:
  assumes "image_ok s" "file_ok s inum c"
  shows "appending s (dinode_of s inum) (nblocks (length c)) c s (dinode_of s inum)"
  using assms(1) file_okD [OF assms(2)] by (simp add: appending_def keeps_def Let_def)

lemma file_ok_icontent:
  assumes "unat (i_size n) = length c" "n = dinode_of s inum" "blocks_ok s n (nblocks (length c))"
    and "take (length c) (iblocks s n (nblocks (length c))) = c"
  shows "file_ok s inum c"
  using assms by (simp add: file_ok_def icontent_def file_blocks_nblocks)

text \<open>A file is untouched when its inode and the sectors it owns are.\<close>

lemma file_ok_cong:
  assumes "file_ok s j d" "dinode_of t j = dinode_of s j" "\<And>x. x \<in> owned s (dinode_of s j) (nblocks (length d)) \<Longrightarrow> img t x = img s x"
    and "freeblock s \<le> freeblock t" "img t 0 = img s 0"
  shows "file_ok t j d"
proof -
  let ?n = "dinode_of s j" and ?B = "nblocks (length d)"
  note b = file_okD [OF assms(1)]
  note c = blocks_cong [OF b(2) disjI1 [OF refl] assms(3) assms(4,5)]
  have "iblocks t ?n ?B = iblocks s ?n ?B" by (rule iblocks_cong) (rule c(3))
  then show ?thesis using b c(1) assms(2) by (intro file_ok_icontent [of ?n]) simp_all
qed

lemma appended_inode:
  assumes ap: "appending s0 n0 B0 w t m" and sb: "mkfs_sb t = make_sb" "unat inum < NINODES" and w: "length w \<le> MAXFILE * BSIZE"
  defines "u \<equiv> with_inode t inum (m\<lparr>i_size := of_nat (length w)\<rparr>)"
  shows "image_ok u" "file_ok u inum w"
proof -
  note ap' = ap [unfolded appending_def Let_def]
  have t: "image_ok t" "blocks_ok t m (nblocks (length w))" "take (length w) (iblocks t m (nblocks (length w))) = w" using ap' by simp_all
  note wi = with_inode_facts [OF t(1) sb, where n = "m\<lparr>i_size := of_nat (length w)\<rparr>", folded u_def]
  show "image_ok u" by (rule wi(1))
  let ?n = "dinode_of u inum"
  have n: "unat (i_size ?n) = length w" "\<forall>k\<le>NDIRECT. i_addrs ?n k = i_addrs m k"
    using offsets(1) [OF w] by (simp_all add: wi(2) with_dinode_def)
  have fb: "freeblock u = freeblock t" by (simp add: u_def with_inode_def)
  have own: "img u x = img t x" if "x \<in> owned t m (nblocks (length w))" for x
    using owned_range [OF t(2) that] by (intro wi(3)) simp
  note c = blocks_cong [OF t(2) disjI2 [OF n(2)] own _ wi(3)]
  have "iblocks u ?n (nblocks (length w)) = iblocks t m (nblocks (length w))"
    by (rule iblocks_cong) (rule c(3), simp_all add: fb)
  moreover have "blocks_ok u ?n (nblocks (length w))" by (rule c(1)) (simp_all add: fb)
  ultimately show "file_ok u inum w" using n(1) t(3) by (intro file_ok_icontent [OF n(1) refl]) simp_all
qed

lemma other_file:
  assumes ap: "appending s n0 B0 w t m" and s: "mkfs_sb s = make_sb" "unat inum < NINODES" and j: "j \<noteq> inum" "unat j < NINODES"
    and f: "file_ok s j e" and dis: "owned s (dinode_of s j) (nblocks (length e)) \<inter> owned s n0 B0 = {}"
    and n0: "blocks_ok s n0 B0" and im: "image_ok s"
  shows "file_ok (with_inode t inum n) j e"
proof -
  have k: "keeps (owned s n0 B0) s t" and t: "image_ok t" using ap by (simp_all add: appending_def Let_def)
  have sb: "mkfs_sb t = make_sb" using k s(1) by (simp add: keeps_def)
  note wi = with_inode_facts [OF t sb s(2), where n = n]
  have low: "img t x = img s x" if "x < 46" for x
  proof -
    have "x < unat (freeblock s)" "x \<notin> owned s n0 B0" using that im owned_range [OF n0, of x] by (auto simp: image_ok_def)
    then show ?thesis using k by (simp add: keeps_def)
  qed
  then have "dinode_of t j = dinode_of s j" using inode_block(2) [OF j(2)] s(1) sb by (simp add: dinode_of_def)
  then have d: "dinode_of (with_inode t inum n) j = dinode_of s j" using wi(4) [OF j] by simp
  show ?thesis
  proof (rule file_ok_cong [OF f d])
    fix x
    assume x: "x \<in> owned s (dinode_of s j) (nblocks (length e))"
    then have r: "46 \<le> x \<and> x < unat (freeblock s)" using owned_range [OF file_okD(2) [OF f]] by blast
    then have "img t x = img s x" using k x dis by (auto simp: keeps_def)
    then show "img (with_inode t inum n) x = img s x" using wi(3) r by simp
  next
    show "freeblock s \<le> freeblock (with_inode t inum n)" using k by (simp add: keeps_def with_inode_def)
    show "img (with_inode t inum n) 0 = img s 0" using wi(3) [of 0] low by simp
  qed
qed

lemma wp_iappend:
  assumes s: "image_ok s" "mkfs_sb s = make_sb" "unat inum < NINODES" and f: "file_ok s inum c"
    and max: "length c + length bs \<le> MAXFILE * BSIZE"
    and room: "unat (freeblock s) + (nblocks (length c + length bs) - nblocks (length c)) + 2 \<le> FSSIZE"
    and Q: "\<And>t m. appending s (dinode_of s inum) (nblocks (length c)) (c @ bs) t m \<Longrightarrow>
      Q () (with_inode t inum (m\<lparr>i_size := of_nat (length (c @ bs))\<rparr>))"
  shows "wp env (iappend inum bs) Q s"
proof -
  let ?n = "dinode_of s inum"
  have sz: "i_size ?n = of_nat (length c)" by (simp flip: file_okD(1) [OF f])
  have "wp env (loopM iappend_body (bs, of_nat (length c), ?n)) (\<lambda>(off, m). wp env (winode inum (m\<lparr>i_size := xint off\<rparr>)) Q) s"
    using wp_iappend_loop [OF appending_start [OF s(1) f] max room]
  proof (rule wp_conseq)
    fix om :: "u32 \<times> inode" and t
    assume "(case om of (off, m) \<Rightarrow> \<lambda>t. off = of_nat (length (c @ bs)) \<and> appending s ?n (nblocks (length c)) (c @ bs) t m) t"
    then obtain m where m: "om = (of_nat (length (c @ bs)), m)" "appending s ?n (nblocks (length c)) (c @ bs) t m" by (cases om) auto
    then have t: "image_ok t" "mkfs_sb t = make_sb" using s(2) by (simp_all add: appending_def keeps_def Let_def)
    show "(case om of (off, m) \<Rightarrow> wp env (winode inum (m\<lparr>i_size := xint off\<rparr>)) Q) t"
      using Q [OF m(2)] by (simp add: m(1) wp_winode [OF t s(3)])
  qed
  then show ?thesis by (simp add: iappend_def wp_simps wp_rinode [OF s] sz split_def)
qed

text \<open>An image with no files yet.\<close>

definition empty_image :: mkfs_state where
  "empty_image = (mkfs_start make_sb)\<lparr>img_size := FSSIZE, freeblock := 46\<rparr>"

lemma empty_file: "dinode_of empty_image inum = zero_dinode" "file_ok empty_image inum []"
proof -
  show n: "dinode_of empty_image inum = zero_dinode"
    by (simp add: dinode_of_def load_dinode_def empty_image_def mkfs_start_def get_zero zero_dinode_def cong: if_cong)
  show "file_ok empty_image inum []"
    unfolding file_ok_def n
    by (simp add: zero_dinode_def blocks_ok_def nblocks_eq icontent_def iblocks_def)
qed

text \<open>
  C15. \<open>iappend\<close> of \<^verbatim>\<open>mkfs\<close> appends: as long as the file and the image have room, it returns with the
  file of the inode holding its old contents followed by the new bytes, through direct and indirect
  blocks, and the kernel's file system, mounted on a disk with these sectors, reads exactly that
  file. Every other file of the image, which shares no sector with this one, keeps its contents.
\<close>

theorem iappend_appends:
  assumes "image_ok s" "mkfs_sb s = make_sb" "unat inum < NINODES" "file_ok s inum c"
    and "length c + length bs \<le> MAXFILE * BSIZE"
    and "unat (freeblock s) + (nblocks (length c + length bs) - nblocks (length c)) + 2 \<le> FSSIZE"
  shows "\<exists>t. iappend inum bs env s = Done () t \<and> image_ok t \<and> mkfs_sb t = make_sb \<and> file_ok t inum (c @ bs) \<and>
    (\<forall>(k :: fs_state) d. (\<forall>bn. view d k bn = img t (unat bn)) \<longrightarrow> file_bytes d k (dinode_of t inum) = c @ bs) \<and>
    (\<forall>j e. j \<noteq> inum \<longrightarrow> unat j < NINODES \<longrightarrow> file_ok s j e \<longrightarrow>
      owned s (dinode_of s j) (nblocks (length e)) \<inter> owned s (dinode_of s inum) (nblocks (length c)) = {} \<longrightarrow> file_ok t j e)"
proof -
  let ?n = "dinode_of s inum" and ?w = "c @ bs"
  have "wp env (iappend inum bs) (\<lambda>_ t. \<exists>v m. t = with_inode v inum (m\<lparr>i_size := of_nat (length ?w)\<rparr>) \<and>
      appending s ?n (nblocks (length c)) ?w v m) s"
    by (rule wp_iappend [OF assms]) blast
  then obtain t v m where t: "iappend inum bs env s = Done () t"
    and v: "t = with_inode v inum (m\<lparr>i_size := of_nat (length ?w)\<rparr>)" "appending s ?n (nblocks (length c)) ?w v m"
    unfolding wp_iff by auto
  have sb: "mkfs_sb v = make_sb" using v(2) assms(2) by (simp add: appending_def keeps_def Let_def)
  have len: "length ?w \<le> MAXFILE * BSIZE" using assms(5) by simp
  note ok = appended_inode [OF v(2) sb assms(3) len, folded v(1)]
  have "icontent t (dinode_of t inum) = ?w" using ok(2) by (simp add: file_ok_def Let_def)
  then have "file_bytes d k (dinode_of t inum) = ?w" if "\<forall>bn. view d k bn = img t (unat bn)" for d and k :: fs_state
    using that kernel_sees_image [of d k t] by simp
  moreover have "mkfs_sb t = make_sb" using v(1) sb by (simp add: with_inode_def)
  moreover have "file_ok t j e" if "j \<noteq> inum" "unat j < NINODES" "file_ok s j e"
    "owned s (dinode_of s j) (nblocks (length e)) \<inter> owned s ?n (nblocks (length c)) = {}" for j e
    unfolding v(1) by (rule other_file [OF v(2) assms(2,3) that file_okD(2) [OF assms(4)] assms(1)])
  ultimately show ?thesis using t ok by blast
qed

theorem iappend_appends_witness:
  "\<forall>env. \<exists>t. iappend 1 [1, 2, 3] env empty_image = Done () t \<and> file_ok t 1 [1, 2, 3] \<and> file_ok t 2 []"
proof
  fix env
  have img: "image_ok empty_image" "mkfs_sb empty_image = make_sb" "unat (1 :: u32) < NINODES"
    by (simp_all add: image_ok_def empty_image_def mkfs_start_def)
  have room: "length ([] :: u8 list) + length [1, 2, 3 :: u8] \<le> MAXFILE * BSIZE"
    "unat (freeblock empty_image) + (nblocks (length ([] :: u8 list) + length [1, 2, 3 :: u8]) - nblocks (length ([] :: u8 list))) + 2 \<le> FSSIZE"
    by (simp_all add: nblocks_eq empty_image_def mkfs_start_def)
  obtain t where t: "iappend 1 [1, 2, 3] env empty_image = Done () t" "file_ok t 1 ([] @ [1, 2, 3])"
    "\<forall>j e. j \<noteq> 1 \<longrightarrow> unat j < NINODES \<longrightarrow> file_ok empty_image j e \<longrightarrow>
      owned empty_image (dinode_of empty_image j) (nblocks (length e)) \<inter>
        owned empty_image (dinode_of empty_image 1) (nblocks (length ([] :: u8 list))) = {} \<longrightarrow> file_ok t j e"
    using iappend_appends [OF img empty_file(2) room, of env] by blast
  have "file_ok t 2 []"
    using t(3) [rule_format, of 2 "[]"] empty_file(2) by (simp add: owned_def nblocks_eq)
  then show "\<exists>t. iappend 1 [1, 2, 3] env empty_image = Done () t \<and> file_ok t 1 [1, 2, 3] \<and> file_ok t 2 []"
    using t by simp
qed

end
