(* ===== verification/Spec2Isabelle.thy ===== *)
theory Spec2Isabelle
  imports Usermem Trap Asm Sleeping Cache Fs_Files Mmap Pipes Filters Sh_Parser Mkfs
begin

text \<open>
  A verification development for xv6, a small Unix for RISC-V multiprocessors, in the version
  with memory-mapped files: the kernel (\<^verbatim>\<open>src/kernel\<close>), the user library and the user programs
  (\<^verbatim>\<open>src/user\<close>), and the program that builds the disk image (\<^verbatim>\<open>src/mkfs\<close>).

  \<^bold>\<open>How the code is modelled.\<close> Every C function is a definition of the same name. Code that can
  panic, block or loop is a function of the monad of \<open>Xv6_Prelude\<close>: given an environment and a
  state it ends as \<open>Done\<close> with a result, as \<open>Panic\<close> with the message of the C code, as \<open>Parked\<close>
  when it gives up the processor for ever (\<open>exit\<close>, the idle scheduler), or as \<open>Diverge\<close>. Loops are
  \<open>loopM\<close> over the loop variables, defined for every body by iteration, so that a loop that does
  not end has the outcome \<open>Diverge\<close> and every statement of the form \<open>m env s = Done x t\<close> includes
  termination. The environment is what other threads, interrupt handlers and devices do to the
  state while the code waits; only \<open>swtchM\<close>, inside \<open>sched\<close>, applies it. Machine integers are
  words of their C width, memory is a map from 64-bit addresses to bytes, and C structures that
  are not accessed through raw addresses are records in tables indexed as in the code. The state
  grows from theory to theory as an extensible record, each component adding the variables of its
  C file and leaving the rest of the record arbitrary.

  \<^bold>\<open>The kernel, bottom up.\<close>
  \<^item> \<open>Xv6_Prelude\<close>: integer types, outcomes, control structures, and the two calculi all proofs use,
    weakest preconditions (\<open>wp_simps\<close>, \<open>wp_loop\<close>) and symbolic execution (\<open>run_simps\<close>).
  \<^item> \<open>Riscv\<close>, \<open>Cstring\<close>: \<^verbatim>\<open>riscv.h\<close>, \<^verbatim>\<open>memlayout.h\<close>, \<^verbatim>\<open>param.h\<close>; byte memory and \<^verbatim>\<open>string.c\<close>.
  \<^item> \<open>Spinlock\<close>: \<^verbatim>\<open>spinlock.c\<close> on several harts, as atomic steps of an inductive transition relation
    (\<open>lock_step\<close>): mutual exclusion in every reachable state, and exactly when \<open>acquire\<close> and \<open>release\<close> panic.
    The locale \<open>spin_lock_view\<close> states what the rest of the kernel uses of a lock, a set of locks
    held by the current thread, and is interpreted on the sequential versions of the functions.
  \<^item> \<open>Sched\<close>, \<open>Sleeping\<close>: \<open>sched\<close>, \<open>yield\<close>, \<open>sleep\<close>, \<open>wakeup\<close>, \<open>kill\<close>, \<open>scheduler\<close> of \<^verbatim>\<open>proc.c\<close> and
    \<^verbatim>\<open>sleeplock.c\<close>: who a wakeup makes runnable, and that a waiter for a sleep lock gets it;
    \<open>scheduled\<close> is the environment in which the scheduler's scan decides who runs.
  \<^item> \<open>Kalloc\<close>: \<^verbatim>\<open>kalloc.c\<close> with its free list threaded through the pages; \<open>free_pages\<close> relates memory
    to the list of free pages. The locale \<open>page_allocator\<close> is the contract its clients use.
  \<^item> \<open>Vm\<close>, \<open>Pagetable\<close>, \<open>Usermem\<close>: \<^verbatim>\<open>vm.c\<close>; the tree of table pages as the function \<open>pte_of\<close> from
    page addresses to entries, what \<open>walk\<close>, \<open>mappages\<close> and \<open>uvmunmap\<close> do to it, and \<open>copyin\<close> and
    \<open>copyout\<close> as byte-by-byte copies through it.
  \<^item> \<open>Virtio\<close>, \<open>Bio\<close>, \<open>Cache\<close>: the disk driver, \<^verbatim>\<open>virtio_disk.c\<close>, and the buffer cache, \<^verbatim>\<open>bio.c\<close>. The
    device is a parameter of the environment (\<open>irq_env dev\<close>) with the hypothesis \<open>virtio_device dev\<close>:
    given a chain of descriptors whose types, lengths, flags and links are as the virtio
    specification requires (\<open>request_ok\<close>) it transfers the block and raises its interrupt. The locale
    \<open>disk_env\<close> collects what the clients need; \<open>complete_request\<close> is a device that satisfies it.
    \<open>view\<close> is the content of a block as the cache shows it.
  \<^item> \<open>Log\<close>, \<open>Crash\<close>: \<^verbatim>\<open>log.c\<close>. \<open>disk_log\<close> records the block writes in order, so that a crash is a prefix of
    it; \<open>commit\<close> is atomic under every such crash followed by recovery. Locale \<open>log_disk\<close>.
  \<^item> \<open>Fs\<close>, \<open>Fs_Blocks\<close>, \<open>Fs_Files\<close>: \<^verbatim>\<open>fs.c\<close>. Block allocation, inodes on disk and in the table, file
    contents (\<open>file_bytes\<close>) and path names, inside a transaction (\<open>op_inv\<close>). Locale \<open>fs_disk\<close>.
  \<^item> \<open>Uart\<close>, \<open>Console\<close>: \<^verbatim>\<open>uart.c\<close>, \<^verbatim>\<open>plic.c\<close>, \<^verbatim>\<open>console.c\<close>, \<^verbatim>\<open>printf.c\<close> and \<open>procdump\<close>; what the device registers
    return is an arbitrary function of the state.
  \<^item> \<open>File\<close>, \<open>Pipes\<close>: \<^verbatim>\<open>pipe.c\<close> and \<^verbatim>\<open>file.c\<close>; \<open>pipe_queue\<close> lifts the ring buffer to the list of its bytes.
  \<^item> \<open>Proc\<close>, \<open>Exec\<close>, \<open>Sysfile\<close>, \<open>Trap\<close>: the rest of \<^verbatim>\<open>proc.c\<close>, \<^verbatim>\<open>exec.c\<close>, \<^verbatim>\<open>syscall.c\<close>, \<^verbatim>\<open>sysproc.c\<close>,
    \<^verbatim>\<open>sysfile.c\<close>, \<^verbatim>\<open>trap.c\<close> and \<^verbatim>\<open>main.c\<close>: every system call and every trap path as a whole handler.
  \<^item> \<open>Mmap\<close>: the page fault on a mapped file brings the right bytes with the right permissions, mapped
    regions stay disjoint, and what a negative length does.
  \<^item> \<open>Asm\<close>: \<^verbatim>\<open>trampoline.S\<close>, \<^verbatim>\<open>swtch.S\<close>, \<^verbatim>\<open>kernelvec.S\<close>, \<^verbatim>\<open>entry.S\<close> as lists of instructions run by an
    interpreter, and \<^verbatim>\<open>start.c\<close>: registers survive a trap and a context switch.

  \<^bold>\<open>User code.\<close> A user program is code of the same monad over an arbitrary state; the system calls
  are the fields of its argument \<open>S :: 'w usys\<close>, one per stub of \<^verbatim>\<open>usys.pl\<close>.
  \<^item> \<open>Ulib\<close>: \<^verbatim>\<open>ulib.c\<close> and \<^verbatim>\<open>printf.c\<close>. \<open>Uprogs\<close>: \<^verbatim>\<open>cat\<close>, \<^verbatim>\<open>wc\<close>, \<^verbatim>\<open>echo\<close>, \<^verbatim>\<open>ls\<close>, \<^verbatim>\<open>ln\<close>, \<^verbatim>\<open>rm\<close>, \<^verbatim>\<open>mkdir\<close>,
    \<^verbatim>\<open>kill\<close>, \<^verbatim>\<open>zombie\<close>, \<^verbatim>\<open>init\<close>, \<^verbatim>\<open>forktest\<close>, \<^verbatim>\<open>stressfs\<close>.
  \<^item> \<open>Grep\<close>, \<open>Filters\<close>: the matcher of \<^verbatim>\<open>grep.c\<close> against a reference semantics of patterns; \<^verbatim>\<open>cat\<close>, \<^verbatim>\<open>wc\<close>
    and \<^verbatim>\<open>grep\<close> on a system where \<open>read\<close> delivers a stream in pieces of any size (\<open>stream_sys\<close>).
  \<^item> \<open>Sh\<close>, \<open>Sh_Parser\<close>: the shell. The parser returns on every line, cuts out exactly the words,
    reads back every command written with brackets; running a command never returns.

  \<^bold>\<open>The disk image.\<close> \<open>Mkfs\<close>: \<^verbatim>\<open>mkfs.c\<close>, every function, on the sectors of the image file; the files to
  be copied are a parameter. \<open>file_ok\<close> says what a file of the image holds; \<open>iappend\<close> appends to it,
  leaves files that share no sector with it alone, and \<open>file_bytes\<close> of \<open>Fs_Files\<close>, the kernel's view,
  reads the same bytes from a disk with these sectors.

  \<^bold>\<open>Bounds and fuel.\<close> Table sizes (\<open>NPROC\<close>, \<open>NBUF\<close>, \<open>NINODE\<close>, ...) are those of \<^verbatim>\<open>param.h\<close>. The recursion
  of \<open>freewalk\<close> follows the three levels of the table. The shell's recursive-descent parser takes
  fuel, \<open>4 * length + 4\<close>, which \<open>parseline_total\<close> shows to be enough for every line: a bracket uses
  one character and four levels of calls. Everything else terminates by a measure or is a \<open>loopM\<close>.

  \<^bold>\<open>Concurrency.\<close> Spin locks are proved on interleaved steps of several harts. Above them a thread is
  run alone between the points where it sleeps, which the locks it holds justify; what others do
  while it sleeps is the environment. Interleavings of two threads inside the file system other than
  at such points are not modelled, nor are the weak memory model and the translation cache.

  \<^bold>\<open>Not modelled.\<close> The test programs \<^verbatim>\<open>usertests\<close>, \<^verbatim>\<open>grind\<close> and \<^verbatim>\<open>mmaptest\<close>, which only drive system
  calls; \<^verbatim>\<open>umalloc.c\<close>, since the nodes the shell allocates are values of the model; \<^verbatim>\<open>ramdisk.c\<close>, which the kernel does not compile; the linker script; the header files that
  only declare; the host-side build and grading scripts.
\<close>

end
